(* ===== verification/Prelude.thy ===== *)
theory Prelude
  imports Main "HOL-Library.Word" "HOL-Library.Char_ord" "HOL-Library.List_Lexorder"
    "HOL-Library.Product_Lexorder"
begin

text \<open>
  Shared vocabulary of the development: Go's integer arithmetic and byte strings, the SQL table
  operations that the stores of the repository use (a table is the list of its rows), the way a
  replicated statement can end, and the generic lemmas the component theories rest on.

  A statement of the replicated log is a function from the database to an optional result: a
  result is the new database and the number of affected rows, and the absence of one is the
  deterministic rejection by a constraint of the schema, which leaves the database as it was.
\<close>

named_theorems sql_simps \<open>rewrite rules for table operations\<close>
named_theorems exec_simps \<open>rewrite rules for replicated statements\<close>

section \<open>Go integers and times\<close>

text \<open>Instants are milliseconds since the epoch unless a theory says otherwise; the code
  truncates to milliseconds before it computes with them.\<close>

type_synonym millis = int

text \<open>Go's \<open>/\<close> and \<open>%\<close> truncate towards zero.\<close>

definition go_div :: "int \<Rightarrow> int \<Rightarrow> int" where
  "go_div a b = sgn a * sgn b * (\<bar>a\<bar> div \<bar>b\<bar>)"

definition go_mod :: "int \<Rightarrow> int \<Rightarrow> int" where
  "go_mod a b = a - go_div a b * b"

lemma go_div_nonneg [simp]: "0 \<le> a \<Longrightarrow> 0 < b \<Longrightarrow> go_div a b = a div b"
  by (cases "a = 0") (auto simp: go_div_def sgn_if)

lemma go_mod_nonneg [simp]: "0 \<le> a \<Longrightarrow> 0 < b \<Longrightarrow> go_mod a b = a mod b"
  by (simp add: go_mod_def minus_div_mult_eq_mod)

text \<open>A Go \<open>int64\<close> result: the mathematical value reduced to two's complement.\<close>

definition int64 :: "int \<Rightarrow> int" where
  "int64 x = (x + 2 ^ 63) mod 2 ^ 64 - 2 ^ 63"

lemma int64_id: "- (2 ^ 63) \<le> x \<Longrightarrow> x < 2 ^ 63 \<Longrightarrow> int64 x = x"
  by (simp add: int64_def)

lemma int64_range: "- (2 ^ 63) \<le> int64 x \<and> int64 x < 2 ^ 63"
proof -
  have "0 \<le> (x + 2 ^ 63) mod 2 ^ 64 \<and> (x + 2 ^ 63) mod 2 ^ 64 < (2 ^ 64 :: int)"
    by simp
  then show ?thesis by (simp add: int64_def)
qed

section \<open>Byte strings\<close>

text \<open>A Go string is its bytes. The parts of \<^verbatim>\<open>strings\<close> and
  \<^verbatim>\<open>unicode\<close> that only look at ASCII are defined here.\<close>

definition byte_of :: "char \<Rightarrow> nat" where
  "byte_of c = of_char c"

definition is_ascii :: "char \<Rightarrow> bool" where
  "is_ascii c \<longleftrightarrow> byte_of c < 128"

definition is_digit :: "char \<Rightarrow> bool" where
  "is_digit c \<longleftrightarrow> 48 \<le> byte_of c \<and> byte_of c \<le> 57"

definition is_lower :: "char \<Rightarrow> bool" where
  "is_lower c \<longleftrightarrow> 97 \<le> byte_of c \<and> byte_of c \<le> 122"

definition is_upper :: "char \<Rightarrow> bool" where
  "is_upper c \<longleftrightarrow> 65 \<le> byte_of c \<and> byte_of c \<le> 90"

definition upper_ascii :: "char \<Rightarrow> char" where
  "upper_ascii c = (if is_lower c then char_of (byte_of c - 32) else c)"

definition lower_ascii :: "char \<Rightarrow> char" where
  "lower_ascii c = (if is_upper c then char_of (byte_of c + 32) else c)"

lemma byte_of_less [simp]: "byte_of c < 256"
  by (simp add: byte_of_def)

lemma upper_ascii_idem [simp]: "upper_ascii (upper_ascii c) = upper_ascii c"
  by (auto simp: upper_ascii_def is_lower_def byte_of_def)

section \<open>Tables\<close>

text \<open>The rows that satisfy a condition, and how many there are.\<close>

definition sql_select :: "('r \<Rightarrow> bool) \<Rightarrow> 'r list \<Rightarrow> 'r list" where
  "sql_select p t = filter p t"

definition sql_count :: "('r \<Rightarrow> bool) \<Rightarrow> 'r list \<Rightarrow> int" where
  "sql_count p t = int (length (filter p t))"

definition sql_exists :: "('r \<Rightarrow> bool) \<Rightarrow> 'r list \<Rightarrow> bool" where
  "sql_exists p t = list_ex p t"

definition sql_update :: "('r \<Rightarrow> bool) \<Rightarrow> ('r \<Rightarrow> 'r) \<Rightarrow> 'r list \<Rightarrow> 'r list" where
  "sql_update p f t = map (\<lambda>r. if p r then f r else r) t"

definition sql_delete :: "('r \<Rightarrow> bool) \<Rightarrow> 'r list \<Rightarrow> 'r list" where
  "sql_delete p t = filter (\<lambda>r. \<not> p r) t"

text \<open>A primary key or a unique column: the column has no value twice.\<close>

definition sql_unique :: "('r \<Rightarrow> 'k) \<Rightarrow> 'r list \<Rightarrow> bool" where
  "sql_unique k t = distinct (map k t)"

text \<open>A partial unique index: no value twice among the rows where the column is not null.\<close>

definition sql_unique_some :: "('r \<Rightarrow> 'k option) \<Rightarrow> 'r list \<Rightarrow> bool" where
  "sql_unique_some k t = distinct (filter (\<lambda>v. v \<noteq> None) (map k t))"

text \<open>\<^verbatim>\<open>SELECT ... ORDER BY k LIMIT n\<close>.\<close>

definition sql_oldest :: "nat \<Rightarrow> ('r \<Rightarrow> 'k::linorder) \<Rightarrow> ('r \<Rightarrow> bool) \<Rightarrow> 'r list \<Rightarrow> 'r list" where
  "sql_oldest n k p t = take n (sort_key k (filter p t))"

lemma set_sql_select [sql_simps]: "set (sql_select p t) = {r \<in> set t. p r}"
  by (auto simp: sql_select_def)

lemma sql_exists_iff [sql_simps]: "sql_exists p t \<longleftrightarrow> (\<exists>r \<in> set t. p r)"
  by (auto simp: sql_exists_def list_ex_iff)

lemma set_sql_update [sql_simps]:
  "set (sql_update p f t) = {r \<in> set t. \<not> p r} \<union> f ` {r \<in> set t. p r}"
  by (auto simp: sql_update_def)

lemma set_sql_delete [sql_simps]: "set (sql_delete p t) = {r \<in> set t. \<not> p r}"
  by (auto simp: sql_delete_def)

lemma sql_count_nonneg [simp]: "0 \<le> sql_count p t"
  by (simp add: sql_count_def)

lemma sql_count_0_iff [sql_simps]: "sql_count p t = 0 \<longleftrightarrow> (\<forall>r \<in> set t. \<not> p r)"
  by (auto simp: sql_count_def filter_empty_conv)

lemma sql_count_pos_iff [sql_simps]: "0 < sql_count p t \<longleftrightarrow> (\<exists>r \<in> set t. p r)"
  using sql_count_0_iff [of p t] by (smt (verit) sql_count_nonneg)

lemma sql_update_none: "\<forall>r \<in> set t. \<not> p r \<Longrightarrow> sql_update p f t = t"
  by (simp add: sql_update_def map_idI)

lemma sql_delete_none: "\<forall>r \<in> set t. \<not> p r \<Longrightarrow> sql_delete p t = t"
  by (simp add: sql_delete_def)

lemma length_sql_update [simp]: "length (sql_update p f t) = length t"
  by (simp add: sql_update_def)

lemma length_sql_delete: "length (sql_delete p t) \<le> length t"
  by (simp add: sql_delete_def)

lemma map_sql_update_frame:
  "(\<And>r. k (f r) = k r) \<Longrightarrow> map k (sql_update p f t) = map k t"
  by (simp add: sql_update_def)

lemma sql_unique_update [intro]:
  "sql_unique k t \<Longrightarrow> (\<And>r. k (f r) = k r) \<Longrightarrow> sql_unique k (sql_update p f t)"
  by (simp add: sql_unique_def map_sql_update_frame)

lemma distinct_map_filter_key: "distinct (map k t) \<Longrightarrow> distinct (map k (filter p t))"
  by (induction t) auto

lemma sql_unique_delete [intro]: "sql_unique k t \<Longrightarrow> sql_unique k (sql_delete p t)"
  by (simp add: sql_unique_def sql_delete_def distinct_map_filter_key)

lemma sql_unique_insert:
  "sql_unique k (t @ [r]) \<longleftrightarrow> sql_unique k t \<and> (\<forall>x \<in> set t. k x \<noteq> k r)"
proof -
  have "k r \<notin> k ` set t \<longleftrightarrow> (\<forall>x \<in> set t. k x \<noteq> k r)" by (metis image_iff)
  then show ?thesis by (simp add: sql_unique_def)
qed

lemma sql_unique_nil [simp]: "sql_unique k []"
  by (simp add: sql_unique_def)

text \<open>Under a unique key there is one row for a key value: the row a lookup finds is the row.\<close>

lemma sql_unique_eq:
  assumes "sql_unique k t" "a \<in> set t" "b \<in> set t" "k a = k b"
  shows "a = b"
  using assms by (auto simp: sql_unique_def distinct_map dest: inj_onD)

lemma filter_unique_key:
  assumes "sql_unique k t" "r \<in> set t" "p r" "\<And>x. p x \<Longrightarrow> k x = k r"
  shows "filter p t = [r]"
  using assms(1,2)
proof (induction t)
  case (Cons x t)
  have uniq: "sql_unique k t" "k x \<notin> k ` set t"
    using Cons.prems(1) by (auto simp: sql_unique_def)
  show ?case
  proof (cases "r \<in> set t")
    case True
    then have "k x \<noteq> k r" using uniq(2) by auto
    then have "\<not> p x" using assms(4) by blast
    then show ?thesis using Cons.IH [OF uniq(1) True] by simp
  next
    case False
    then have "x = r" using Cons.prems(2) by simp
    moreover have "filter p t = []"
      using uniq(2) assms(4) \<open>x = r\<close> by (metis filter_False image_eqI)
    ultimately show ?thesis using assms(3) by simp
  qed
qed simp

lemma sql_select_unique_key:
  assumes "sql_unique k t" "r \<in> set t" "p r" "\<And>x. p x \<Longrightarrow> k x = k r"
  shows "sql_select p t = [r]"
  unfolding sql_select_def using assms by (rule filter_unique_key)

lemma set_sql_oldest_subset: "set (sql_oldest n k p t) \<subseteq> {r \<in> set t. p r}"
  by (auto simp: sql_oldest_def dest: in_set_takeD)

lemma length_sql_oldest: "length (sql_oldest n k p t) \<le> n"
  by (simp add: sql_oldest_def)

section \<open>A table as a map of its key\<close>

text \<open>\<open>sql_lookup\<close> reads a table through its unique column. The rules below turn the table
  operations into map operations, which is how the component theories reason about them.\<close>

definition sql_lookup :: "('r \<Rightarrow> 'k) \<Rightarrow> 'r list \<Rightarrow> 'k \<Rightarrow> 'r option" where
  "sql_lookup key t k = find (\<lambda>r. key r = k) t"

lemma sql_lookup_Nil [simp]: "sql_lookup key [] k = None"
  by (simp add: sql_lookup_def)

lemma sql_lookup_Cons:
  "sql_lookup key (r # t) k = (if key r = k then Some r else sql_lookup key t k)"
  by (simp add: sql_lookup_def)

lemma sql_lookup_SomeD: "sql_lookup key t k = Some r \<Longrightarrow> r \<in> set t \<and> key r = k"
  by (induction t) (auto simp: sql_lookup_Cons split: if_splits)

lemma sql_lookup_None_iff: "sql_lookup key t k = None \<longleftrightarrow> (\<forall>r \<in> set t. key r \<noteq> k)"
  by (induction t) (auto simp: sql_lookup_Cons)

lemma sql_lookup_Some_iff:
  assumes "sql_unique key t"
  shows "sql_lookup key t k = Some r \<longleftrightarrow> r \<in> set t \<and> key r = k"
proof
  assume r: "r \<in> set t \<and> key r = k"
  then obtain x where x: "sql_lookup key t k = Some x"
    using sql_lookup_None_iff [of key t k] by (cases "sql_lookup key t k") auto
  with r assms show "sql_lookup key t k = Some r"
    using sql_lookup_SomeD [OF x] sql_unique_eq [of key t x r] by simp
qed (rule sql_lookup_SomeD)

lemma sql_lookup_append:
  "sql_lookup key (t @ [r]) k =
     (case sql_lookup key t k of Some x \<Rightarrow> Some x | None \<Rightarrow> if key r = k then Some r else None)"
  by (induction t) (auto simp: sql_lookup_Cons)

lemma sql_lookup_update:
  "(\<And>r. key (f r) = key r) \<Longrightarrow>
   sql_lookup key (sql_update p f t) k = map_option (\<lambda>r. if p r then f r else r) (sql_lookup key t k)"
  by (induction t) (auto simp: sql_update_def sql_lookup_Cons)

lemma sql_lookup_delete:
  assumes "sql_unique key t"
  shows "sql_lookup key (sql_delete p t) k =
           (case sql_lookup key t k of Some r \<Rightarrow> if p r then None else Some r | None \<Rightarrow> None)"
proof -
  have u: "sql_unique key (sql_delete p t)" using assms by blast
  show ?thesis
  proof (cases "sql_lookup key t k")
    case None
    then have "\<forall>r \<in> set (sql_delete p t). key r \<noteq> k"
      by (auto simp: sql_lookup_None_iff set_sql_delete)
    then have "sql_lookup key (sql_delete p t) k = None" by (simp add: sql_lookup_None_iff)
    with None show ?thesis by simp
  next
    case (Some r)
    then have r: "r \<in> set t" "key r = k" by (auto dest: sql_lookup_SomeD)
    show ?thesis
    proof (cases "p r")
      case True
      have "key x \<noteq> k" if "x \<in> set (sql_delete p t)" for x
        using that True r assms sql_unique_eq [of key t x r] by (auto simp: set_sql_delete)
      then have "sql_lookup key (sql_delete p t) k = None" by (simp add: sql_lookup_None_iff)
      with Some True show ?thesis by simp
    next
      case False
      with r Some u show ?thesis by (simp add: sql_lookup_Some_iff set_sql_delete)
    qed
  qed
qed

lemma sql_exists_key:
  assumes "sql_unique key t"
  shows "sql_exists (\<lambda>r. key r = k \<and> q r) t \<longleftrightarrow>
           (case sql_lookup key t k of Some r \<Rightarrow> q r | None \<Rightarrow> False)"
proof (cases "sql_lookup key t k")
  case None
  then have "\<forall>r \<in> set t. key r \<noteq> k" by (simp add: sql_lookup_None_iff)
  with None show ?thesis by (simp add: sql_exists_iff)
next
  case (Some r)
  then have "r \<in> set t \<and> key r = k" by (rule sql_lookup_SomeD)
  with Some assms show ?thesis by (auto simp: sql_exists_iff dest: sql_unique_eq)
qed

lemma sql_exists_key_only:
  "sql_exists (\<lambda>r. key r = k) t \<longleftrightarrow> sql_lookup key t k \<noteq> None"
  by (auto simp: sql_exists_iff sql_lookup_None_iff)

lemma sql_select_key:
  assumes "sql_unique key t"
  shows "sql_select (\<lambda>r. key r = k) t = (case sql_lookup key t k of Some r \<Rightarrow> [r] | None \<Rightarrow> [])"
proof (cases "sql_lookup key t k")
  case None
  then have "\<forall>r \<in> set t. key r \<noteq> k" by (simp add: sql_lookup_None_iff)
  with None show ?thesis by (simp add: sql_select_def)
next
  case (Some r)
  then have "r \<in> set t \<and> key r = k" by (rule sql_lookup_SomeD)
  with Some assms show ?thesis by (simp add: sql_select_unique_key)
qed

lemma sql_count_key:
  assumes "sql_unique key t"
  shows "sql_count (\<lambda>r. key r = k \<and> q r) t =
           (case sql_lookup key t k of Some r \<Rightarrow> if q r then 1 else 0 | None \<Rightarrow> 0)"
proof -
  have "filter (\<lambda>r. key r = k \<and> q r) t = filter q (sql_select (\<lambda>r. key r = k) t)"
    by (simp add: sql_select_def conj_commute)
  then show ?thesis
    by (simp add: sql_count_def sql_select_key [OF assms] split: option.split)
qed

lemmas sql_map_simps = sql_lookup_append sql_lookup_delete sql_exists_key sql_exists_key_only
  sql_select_key sql_count_key

section \<open>Replicated statements\<close>

text \<open>How one call of \<^verbatim>\<open>storage.Execute\<close> can end: the caller gets the receipt;
  the statement is committed and the caller gets an error (the reply is lost); the statement is
  never ordered. The theory \<open>Storage\<close> shows that these are the outcomes of the retry loop.\<close>

datatype exec_fault = Exec_Ok | Exec_Lost | Exec_Failed

datatype exec_err = Exec_Rejected | Exec_Unavailable

type_synonym 'db mutation = "'db \<Rightarrow> ('db \<times> int) option"

definition run_execute :: "exec_fault \<Rightarrow> 'db mutation \<Rightarrow> 'db \<Rightarrow> 'db \<times> (exec_err + int)" where
  "run_execute f m db =
     (case f of
        Exec_Failed \<Rightarrow> (db, Inl Exec_Unavailable)
      | Exec_Ok \<Rightarrow> (case m db of None \<Rightarrow> (db, Inl Exec_Rejected) | Some (db', n) \<Rightarrow> (db', Inr n))
      | Exec_Lost \<Rightarrow> (case m db of None \<Rightarrow> (db, Inl Exec_Unavailable) | Some (db', n) \<Rightarrow> (db', Inl Exec_Unavailable)))"

text \<open>The database after a statement is the one before it or the one the statement computes.\<close>

lemma run_execute_cases:
  obtains (unchanged) "fst (run_execute f m db) = db" "\<And>n. snd (run_execute f m db) \<noteq> Inr n"
        | (applied) db' n where "m db = Some (db', n)" "fst (run_execute f m db) = db'"
            "f \<noteq> Exec_Failed"
  by (cases f; cases "m db") (auto simp: run_execute_def)

lemma run_execute_Inr:
  "snd (run_execute f m db) = Inr n \<longleftrightarrow> f = Exec_Ok \<and> (\<exists>db'. m db = Some (db', n))"
  by (cases f; cases "m db") (auto simp: run_execute_def)

lemma run_execute_Inr_db:
  "run_execute f m db = (db', Inr n) \<longleftrightarrow> f = Exec_Ok \<and> m db = Some (db', n)"
  by (cases f; cases "m db") (auto simp: run_execute_def)

lemma run_execute_invariant:
  assumes "I db" "\<And>db' n. m db = Some (db', n) \<Longrightarrow> I db'"
  shows "I (fst (run_execute f m db))"
  using assms by (cases f; cases "m db") (auto simp: run_execute_def)

lemmas run_execute_simps [exec_simps] = run_execute_Inr run_execute_Inr_db

text \<open>The statements of one request run in order as one transaction: a rejected statement rolls all of them
  back, and the receipt adds up the affected rows.\<close>

fun run_tx :: "'db mutation list \<Rightarrow> 'db mutation" where
  "run_tx [] db = Some (db, 0)"
| "run_tx (m # ms) db =
     (case m db of
        None \<Rightarrow> None
      | Some (db1, n) \<Rightarrow> (case run_tx ms db1 of None \<Rightarrow> None | Some (db2, k) \<Rightarrow> Some (db2, n + k)))"

lemma run_tx_ConsE:
  assumes "run_tx (m # ms) db = Some (db', n)"
  obtains db1 i j where "m db = Some (db1, i)" "run_tx ms db1 = Some (db', j)" "n = i + j"
  using assms by (auto split: option.splits)

lemma run_tx_invariant:
  assumes "run_tx ms db = Some (db', n)" "I db"
    "\<And>m db db' n. m \<in> set ms \<Longrightarrow> I db \<Longrightarrow> m db = Some (db', n) \<Longrightarrow> I db'"
  shows "I db'"
  using assms
proof (induction ms arbitrary: db n)
  case (Cons m ms)
  obtain db1 i j where "m db = Some (db1, i)" "run_tx ms db1 = Some (db', j)"
    using Cons.prems(1) by (rule run_tx_ConsE)
  moreover from this have "I db1" using Cons.prems(2,3) by (meson list.set_intros(1))
  ultimately show ?case using Cons.IH Cons.prems(3) by (meson list.set_intros(2))
qed simp

lemma run_tx_append:
  "run_tx (ms @ ms') db = (case run_tx ms db of None \<Rightarrow> None
     | Some (db1, n) \<Rightarrow> (case run_tx ms' db1 of None \<Rightarrow> None | Some (db2, k) \<Rightarrow> Some (db2, n + k)))"
  by (induction ms arbitrary: db) (auto split: option.splits)

end
