(* ===== verification/Storage.thy ===== *)
theory Storage
  imports Prelude
begin

text \<open>
  The mutation path of \<^verbatim>\<open>internal/storage/migrate.go\<close>: \<open>Execute\<close> submits a
  replicated statement, and when the reply is lost (\<^verbatim>\<open>ErrCommitUnknown\<close>) asks for the
  status of the request and replays it. The replicated database (the module
  \<^verbatim>\<open>github.com/mrchypark/rhiza\<close>) is not part of the repository: it is the parameter
  \<open>rhiza\<close>, and \<open>rhiza_laws\<close> states what the loop relies on, that a request identifier is ordered
  at most once and that its receipt is kept.
\<close>

section \<open>Receipts, statuses and errors\<close>

datatype rhiza_err =
    ErrCommitUnknown | ErrRequestConflict | ErrNotReady | ErrQuorumUnavailable
  | ErrDurabilityUnavailable | ErrOther

record receipt =
  Status :: string
  ErrorCode :: string
  RowsAffected :: int

record request_status =
  State :: string
  Receipt :: "receipt option"

record 'db request =
  RequestID :: string
  effect :: "'db mutation"

record ('w, 'db) rhiza =
  ValidateExecuteRequest :: "'db request \<Rightarrow> bool"
  db_Execute :: "'w \<Rightarrow> 'db request \<Rightarrow> 'w \<times> receipt \<times> rhiza_err option"
  db_RequestStatus :: "'w \<Rightarrow> string \<Rightarrow> 'w \<times> request_status \<times> rhiza_err option"

datatype execute_err =
    InvalidRequest
  | RhizaErr rhiza_err
  | Joined rhiza_err rhiza_err
  | StatusWithoutReceipt string
  | UnknownRequestState string
  | NotCommitted string string

section \<open>The retry loop\<close>

definition empty_receipt :: receipt where
  "empty_receipt = \<lparr>Status = '''', ErrorCode = '''', RowsAffected = 0\<rparr>"

definition validateReceipt :: "receipt \<Rightarrow> receipt \<times> execute_err option" where
  "validateReceipt r =
     (if Status r \<noteq> ''committed'' then (r, Some (NotCommitted (Status r) (ErrorCode r))) else (r, None))"

text \<open>\<open>left\<close> is the number of attempts that remain; the source counts \<open>attempt\<close> up to 2 and
  \<open>attempt == 1\<close> is the last one. Leaving the loop is the \<^verbatim>\<open>panic("unreachable")\<close> of
  the source, the result \<open>None\<close>.\<close>

fun execute_loop :: "('w, 'db) rhiza \<Rightarrow> 'db request \<Rightarrow> nat \<Rightarrow> 'w \<Rightarrow> ('w \<times> receipt \<times> execute_err option) option" where
  "execute_loop R q 0 w = None"
| "execute_loop R q (Suc left) w =
     (case db_Execute R w q of (w1, response, e) \<Rightarrow>
      (case e of
         None \<Rightarrow> Some (w1, validateReceipt response)
       | Some err \<Rightarrow>
           if err \<noteq> ErrCommitUnknown then Some (w1, response, Some (RhizaErr err))
           else (case db_RequestStatus R w1 (RequestID q) of (w2, st, se) \<Rightarrow>
             (case se of
                Some serr \<Rightarrow> Some (w2, response, Some (Joined err serr))
              | None \<Rightarrow>
                  if State st = ''committed'' \<or> State st = ''rejected'' then
                    (case Receipt st of
                       None \<Rightarrow> Some (w2, response, Some (StatusWithoutReceipt (State st)))
                     | Some rc \<Rightarrow>
                         (case db_Execute R w2 q of (w3, recovered, re) \<Rightarrow>
                          (case re of
                             Some rerr \<Rightarrow> Some (w3, rc, Some (Joined err rerr))
                           | None \<Rightarrow> Some (w3, validateReceipt recovered))))
                  else if State st = ''unknown_or_expired'' then
                    (if left = 0 then Some (w2, response, Some (RhizaErr err))
                     else execute_loop R q left w2)
                  else Some (w2, response, Some (UnknownRequestState (State st)))))))"

definition Execute :: "('w, 'db) rhiza \<Rightarrow> 'db request \<Rightarrow> 'w \<Rightarrow> ('w \<times> receipt \<times> execute_err option) option" where
  "Execute R q w =
     (if \<not> ValidateExecuteRequest R q then Some (w, empty_receipt, Some InvalidRequest)
      else execute_loop R q 2 w)"

section \<open>What the replicated database promises\<close>

definition committed_receipt :: "int \<Rightarrow> receipt" where
  "committed_receipt n = \<lparr>Status = ''committed'', ErrorCode = '''', RowsAffected = n\<rparr>"

text \<open>\<open>orders q db db' rc\<close>: ordering the statement of \<open>q\<close> on \<open>db\<close> gives \<open>db'\<close> with receipt \<open>rc\<close>.\<close>

definition orders :: "'db request \<Rightarrow> 'db \<Rightarrow> 'db \<Rightarrow> receipt \<Rightarrow> bool" where
  "orders q db db' rc \<longleftrightarrow>
     (case effect q db of
        None \<Rightarrow> db' = db \<and> Status rc \<noteq> ''committed''
      | Some (d, n) \<Rightarrow> db' = d \<and> rc = committed_receipt n)"

text \<open>One submission: a request that has a receipt is answered from it, any other is either not
  ordered (and then the caller gets an error) or ordered once, with its receipt kept.\<close>

definition submission_law :: "('w, 'db) rhiza \<Rightarrow> ('w \<Rightarrow> 'db) \<Rightarrow> ('w \<Rightarrow> string \<Rightarrow> receipt option) \<Rightarrow> bool" where
  "submission_law R view kept \<longleftrightarrow>
     (\<forall>w q w' r e. db_Execute R w q = (w', r, e) \<longrightarrow>
        (case kept w (RequestID q) of
           Some rc \<Rightarrow> view w' = view w \<and> kept w' = kept w \<and> (e = None \<longrightarrow> r = rc)
         | None \<Rightarrow>
             (view w' = view w \<and> kept w' = kept w \<and> e \<noteq> None) \<or>
             (\<exists>rc. kept w' = (kept w)(RequestID q \<mapsto> rc) \<and> (e = None \<longrightarrow> r = rc) \<and>
                orders q (view w) (view w') rc)))"

definition status_law :: "('w, 'db) rhiza \<Rightarrow> ('w \<Rightarrow> 'db) \<Rightarrow> ('w \<Rightarrow> string \<Rightarrow> receipt option) \<Rightarrow> bool" where
  "status_law R view kept \<longleftrightarrow>
     (\<forall>w i w' st e. db_RequestStatus R w i = (w', st, e) \<longrightarrow> view w' = view w \<and> kept w' = kept w)"

definition rhiza_laws :: "('w, 'db) rhiza \<Rightarrow> ('w \<Rightarrow> 'db) \<Rightarrow> ('w \<Rightarrow> string \<Rightarrow> receipt option) \<Rightarrow> bool" where
  "rhiza_laws R view kept \<longleftrightarrow> submission_law R view kept \<and> status_law R view kept"

section \<open>The loop implements one statement\<close>

text \<open>What a caller observes: \<open>done w\<close> says that the request has been ordered from \<open>db0\<close>.\<close>

definition ordered_from ::
  "('w \<Rightarrow> 'db) \<Rightarrow> ('w \<Rightarrow> string \<Rightarrow> receipt option) \<Rightarrow> 'db request \<Rightarrow> 'db \<Rightarrow> 'w \<Rightarrow> bool" where
  "ordered_from view kept q db0 w \<longleftrightarrow>
     (case kept w (RequestID q) of
        None \<Rightarrow> view w = db0
      | Some rc \<Rightarrow> orders q db0 (view w) rc)"

lemma submission_keeps_order:
  assumes laws: "rhiza_laws R view kept" and run: "db_Execute R w q = (w', r, e)"
    and inv: "ordered_from view kept q db0 w"
  shows "ordered_from view kept q db0 w' \<and> (e = None \<longrightarrow> kept w' (RequestID q) = Some r)"
proof -
  note law = laws [unfolded rhiza_laws_def submission_law_def, THEN conjunct1, rule_format, OF run]
  show ?thesis
    using law inv unfolding ordered_from_def by (cases "kept w (RequestID q)") auto
qed

lemma status_keeps_order:
  assumes "rhiza_laws R view kept" "db_RequestStatus R w i = (w', st, e)"
    and "ordered_from view kept q db0 w"
  shows "ordered_from view kept q db0 w'"
proof -
  have "view w' = view w \<and> kept w' = kept w"
    using assms(1,2) unfolding rhiza_laws_def status_law_def by blast
  with assms(3) show ?thesis by (auto simp: ordered_from_def split: option.splits)
qed

text \<open>A result that the loop may return: the request's order is known, and a result without error
  carries the kept receipt of a committed statement.\<close>

definition sound_result ::
  "('w \<Rightarrow> 'db) \<Rightarrow> ('w \<Rightarrow> string \<Rightarrow> receipt option) \<Rightarrow> 'db request \<Rightarrow> 'db \<Rightarrow>
   'w \<times> receipt \<times> execute_err option \<Rightarrow> bool" where
  "sound_result view kept q db0 res \<longleftrightarrow>
     (case res of (w, r, e) \<Rightarrow>
        ordered_from view kept q db0 w \<and>
        (e = None \<longrightarrow> kept w (RequestID q) = Some r \<and> Status r = ''committed''))"

lemma validateReceipt_sound:
  assumes "ordered_from view kept q db0 w" "kept w (RequestID q) = Some r"
  shows "sound_result view kept q db0 (w, validateReceipt r)"
  using assms by (simp add: sound_result_def validateReceipt_def)

lemma replay_sound:
  assumes "rhiza_laws R view kept" "ordered_from view kept q db0 w"
  shows "sound_result view kept q db0
           (case db_Execute R w q of (w3, recovered, re) \<Rightarrow>
              (case re of Some rerr \<Rightarrow> (w3, rc, Some (Joined err rerr))
                        | None \<Rightarrow> (w3, validateReceipt recovered)))"
proof (cases "db_Execute R w q")
  case (fields w3 recovered re)
  note step = submission_keeps_order [OF assms(1) fields assms(2)]
  show ?thesis
  proof (cases re)
    case None
    with step fields show ?thesis by (simp add: validateReceipt_sound)
  next
    case (Some x)
    with step fields show ?thesis by (simp add: sound_result_def)
  qed
qed

lemma execute_loop_sound:
  assumes laws: "rhiza_laws R view kept"
  shows "ordered_from view kept q db0 w \<Longrightarrow> execute_loop R q left w = Some res \<Longrightarrow>
         sound_result view kept q db0 res"
proof (induction left arbitrary: w)
  case (Suc left)
  obtain w1 r1 e1 where run1: "db_Execute R w q = (w1, r1, e1)" by (cases "db_Execute R w q") auto
  obtain w2 st se where run2: "db_RequestStatus R w1 (RequestID q) = (w2, st, se)"
    by (cases "db_RequestStatus R w1 (RequestID q)") auto
  have o1: "ordered_from view kept q db0 w1" and k1: "e1 = None \<longrightarrow> kept w1 (RequestID q) = Some r1"
    using submission_keeps_order [OF laws run1 Suc.prems(1)] by auto
  have o2: "ordered_from view kept q db0 w2"
    using status_keeps_order [OF laws run2 o1] .
  have err: "sound_result view kept q db0 (w', r, Some e)" if "w' \<in> {w1, w2}" for w' r e
    using that o1 o2 by (auto simp: sound_result_def)
  show ?case
  proof (cases "e1 = Some ErrCommitUnknown \<and> se = None \<and>
                (State st = ''committed'' \<or> State st = ''rejected'') \<and> Receipt st \<noteq> None")
    case True
    then obtain rc where "Receipt st = Some rc" by blast
    with True run1 run2 Suc.prems(2) show ?thesis
      using replay_sound [OF laws o2, of rc ErrCommitUnknown]
      by (auto split: prod.splits option.splits)
  next
    case False
    show ?thesis
    proof (cases e1)
      case None
      with run1 Suc.prems(2) o1 k1 show ?thesis by (auto intro: validateReceipt_sound)
    next
      case (Some e)
      with False run1 run2 Suc.prems(2) err Suc.IH [OF o2] show ?thesis
        by (auto split: if_splits option.splits)
    qed
  qed
qed simp

lemma Execute_sound:
  assumes "rhiza_laws R view kept" "ordered_from view kept q db0 w" "Execute R q w = Some res"
  shows "sound_result view kept q db0 res"
  using assms execute_loop_sound [OF assms(1)]
  by (auto simp: Execute_def sound_result_def split: if_splits)

lemma execute_loop_returns: "0 < left \<Longrightarrow> execute_loop R q left w \<noteq> None"
proof (induction left arbitrary: w)
  case (Suc left)
  have "left \<noteq> 0 \<Longrightarrow> execute_loop R q left v \<noteq> None" for v using Suc.IH by simp
  then show ?case by (simp split: prod.split option.split)
qed simp

text \<open>An ordered request is one of the outcomes of \<open>run_execute\<close>.\<close>

lemma ordered_from_run_execute:
  assumes "sound_result view kept q db0 (w', r, e)"
  shows "\<exists>f. fst (run_execute f (effect q) db0) = view w' \<and>
             (case e of None \<Rightarrow> snd (run_execute f (effect q) db0) = Inr (RowsAffected r)
                      | Some _ \<Rightarrow> \<forall>n. snd (run_execute f (effect q) db0) \<noteq> Inr n)"
proof (cases "e = None")
  case True
  then have "kept w' (RequestID q) = Some r" "Status r = ''committed''" "orders q db0 (view w') r"
    using assms by (auto simp: sound_result_def ordered_from_def)
  then have "run_execute Exec_Ok (effect q) db0 = (view w', Inr (RowsAffected r))"
    by (auto simp: orders_def run_execute_def committed_receipt_def split: option.splits)
  with True show ?thesis by (intro exI [of _ Exec_Ok]) simp
next
  case False
  then obtain x where e: "e = Some x" by blast
  have "ordered_from view kept q db0 w'" using assms by (simp add: sound_result_def)
  then consider "view w' = db0" | d n where "effect q db0 = Some (d, n)" "view w' = d"
    by (auto simp: ordered_from_def orders_def split: option.splits)
  then show ?thesis
  proof cases
    case 1
    then show ?thesis unfolding e by (intro exI [of _ Exec_Failed]) (simp add: run_execute_def)
  next
    case 2
    then show ?thesis unfolding e by (intro exI [of _ Exec_Lost]) (simp add: run_execute_def)
  qed
qed

section \<open>Properties\<close>

text \<open>C12. Exactly-once mutation: with a database that keeps its receipts, a call of
  \<^verbatim>\<open>storage.Execute\<close> for a fresh request is one of the three outcomes of one replicated
  statement: committed with the receipt returned, committed with the reply lost, or not applied.
  Whatever is retried or replayed, the statement changes the database at most once, and a call
  without error reports the rows of the committed statement.\<close>

theorem Execute_refines_statement:
  assumes laws: "rhiza_laws R view kept"
    and fresh: "kept w (RequestID q) = None"
    and run: "Execute R q w = Some (w', r, e)"
  shows "\<exists>f. fst (run_execute f (effect q) (view w)) = view w' \<and>
             (case e of None \<Rightarrow> snd (run_execute f (effect q) (view w)) = Inr (RowsAffected r)
                      | Some _ \<Rightarrow> \<forall>n. snd (run_execute f (effect q) (view w)) \<noteq> Inr n)"
proof -
  have "ordered_from view kept q (view w) w" using fresh by (simp add: ordered_from_def)
  from Execute_sound [OF laws this run] show ?thesis by (rule ordered_from_run_execute)
qed

text \<open>The loop of \<^verbatim>\<open>storage.Execute\<close> always returns within its two attempts: the
  \<^verbatim>\<open>panic("unreachable")\<close> after it is unreachable for every database.\<close>

lemma Execute_returns: "\<exists>res. Execute R q w = Some res"
  using execute_loop_returns [of 2 R q w] by (simp add: Execute_def)

section \<open>A database that loses replies\<close>

text \<open>A concrete database over a counter: it keeps receipts and loses the first \<open>n\<close> replies.
  It shows that the laws can hold and runs the recovery path.\<close>

type_synonym lossy = "int \<times> (string \<Rightarrow> receipt option) \<times> nat"

definition lossy_execute :: "lossy \<Rightarrow> int request \<Rightarrow> lossy \<times> receipt \<times> rhiza_err option" where
  "lossy_execute w q =
     (case w of (d, k, n) \<Rightarrow>
        (case k (RequestID q) of
           Some rc \<Rightarrow> if n = 0 then (w, rc, None) else ((d, k, n - 1), empty_receipt, Some ErrCommitUnknown)
         | None \<Rightarrow>
             (case effect q d of
                None \<Rightarrow> (w, empty_receipt, Some ErrOther)
              | Some (d', c) \<Rightarrow>
                  if n = 0 then ((d', k(RequestID q \<mapsto> committed_receipt c), 0), committed_receipt c, None)
                  else ((d', k(RequestID q \<mapsto> committed_receipt c), n - 1), empty_receipt, Some ErrCommitUnknown))))"

definition lossy_status :: "lossy \<Rightarrow> string \<Rightarrow> lossy \<times> request_status \<times> rhiza_err option" where
  "lossy_status w i =
     (case w of (d, k, n) \<Rightarrow>
        (case k i of
           None \<Rightarrow> (w, \<lparr>State = ''unknown_or_expired'', Receipt = None\<rparr>, None)
         | Some rc \<Rightarrow> (w, \<lparr>State = ''committed'', Receipt = Some rc\<rparr>, None)))"

definition lossy_rhiza :: "(lossy, int) rhiza" where
  "lossy_rhiza = \<lparr>ValidateExecuteRequest = (\<lambda>q. RequestID q \<noteq> ''''),
     db_Execute = lossy_execute, db_RequestStatus = lossy_status\<rparr>"

definition add_five :: "int request" where
  "add_five = \<lparr>RequestID = ''r1'', effect = (\<lambda>d. Some (d + 5, 1))\<rparr>"

lemma lossy_laws: "rhiza_laws lossy_rhiza fst (\<lambda>w. fst (snd w))"
  unfolding rhiza_laws_def submission_law_def status_law_def lossy_rhiza_def
  by (auto simp: lossy_execute_def lossy_status_def orders_def split: option.splits prod.splits if_splits)

lemma lossy_run:
  "Execute lossy_rhiza add_five (10, (\<lambda>_. None), 1) =
     Some ((15, (\<lambda>_. None)(''r1'' \<mapsto> committed_receipt 1), 0), committed_receipt 1, None)"
  by (simp add: Execute_def lossy_rhiza_def add_five_def lossy_execute_def lossy_status_def
      numeral_2_eq_2 validateReceipt_def committed_receipt_def)

theorem Execute_refines_statement_witness:
  "\<exists>f. fst (run_execute f (effect add_five) 10) = 15 \<and>
       snd (run_execute f (effect add_five) 10) = Inr 1"
  using Execute_refines_statement [OF lossy_laws _ lossy_run]
  by (simp add: committed_receipt_def)

end
