(* ===== verification/Encoding.thy ===== *)
theory Encoding
  imports Prelude
begin

text \<open>
  The parts of Go's standard library that turn bytes into text and back, as the stores use them:
  \<^verbatim>\<open>base64.RawURLEncoding\<close>, decimal integers, the decoding of UTF-8 strings into runes,
  and the white-space tests. The record \<open>prims\<close> holds the primitives that stay parameters: SHA-256,
  the Unicode case tables and \<^verbatim>\<open>url.Parse\<close>.
\<close>

section \<open>Primitives\<close>

text \<open>The fields of a parsed \<^verbatim>\<open>url.URL\<close> that the code reads.\<close>

record url =
  url_Scheme :: string
  url_Opaque :: string
  url_Host :: string
  url_Hostname :: string
  url_Port :: string
  url_has_User :: bool
  url_EscapedPath :: string
  url_RawQuery :: string
  url_ForceQuery :: bool
  url_Fragment :: string

record prims =
  sha256 :: "string \<Rightarrow> string"
  unicode_ToUpper :: "string \<Rightarrow> string"
  unicode_EqualFold :: "string \<Rightarrow> string \<Rightarrow> bool"
  unicode_Fields :: "string \<Rightarrow> string list"
  url_Parse :: "string \<Rightarrow> url option"
  url_ParseRequestURI :: "string \<Rightarrow> url option"

section \<open>Base64\<close>

definition b64_char :: "nat \<Rightarrow> char" where
  "b64_char n =
     (if n < 26 then char_of (65 + n) else if n < 52 then char_of (71 + n)
      else if n < 62 then char_of (n - 4) else if n = 62 then CHR ''-'' else CHR ''_'')"

definition b64_val :: "char \<Rightarrow> nat option" where
  "b64_val c =
     (let b = byte_of c in
      if 65 \<le> b \<and> b \<le> 90 then Some (b - 65) else if 97 \<le> b \<and> b \<le> 122 then Some (b - 71)
      else if 48 \<le> b \<and> b \<le> 57 then Some (b + 4)
      else if c = CHR ''-'' then Some 62 else if c = CHR ''_'' then Some 63 else None)"

fun b64_encode :: "string \<Rightarrow> string" where
  "b64_encode [] = []"
| "b64_encode [a] = [b64_char (byte_of a div 4), b64_char (byte_of a mod 4 * 16)]"
| "b64_encode [a, b] =
     [b64_char (byte_of a div 4), b64_char (byte_of a mod 4 * 16 + byte_of b div 16),
      b64_char (byte_of b mod 16 * 4)]"
| "b64_encode (a # b # c # xs) =
     b64_char (byte_of a div 4) # b64_char (byte_of a mod 4 * 16 + byte_of b div 16) #
     b64_char (byte_of b mod 16 * 4 + byte_of c div 64) # b64_char (byte_of c mod 64) # b64_encode xs"

text \<open>The decoder works on the digits, after the input is checked; it skips line breaks, as Go's
  decoder does, and does not look at the unused low bits of the last digit.\<close>

fun b64_bytes :: "nat list \<Rightarrow> string option" where
  "b64_bytes [] = Some []"
| "b64_bytes [_] = None"
| "b64_bytes [w, x] = Some [char_of (w * 4 + x div 16)]"
| "b64_bytes [w, x, y] = Some [char_of (w * 4 + x div 16), char_of (x mod 16 * 16 + y div 4)]"
| "b64_bytes (w # x # y # z # r) =
     map_option (\<lambda>t. char_of (w * 4 + x div 16) # char_of (x mod 16 * 16 + y div 4) #
       char_of (y mod 4 * 64 + z) # t) (b64_bytes r)"

fun b64_digits :: "string \<Rightarrow> nat list option" where
  "b64_digits [] = Some []"
| "b64_digits (c # cs) =
     (if c = CHR 0x0A \<or> c = CHR 0x0D then b64_digits cs
      else case b64_val c of None \<Rightarrow> None | Some v \<Rightarrow> map_option ((#) v) (b64_digits cs))"

definition b64_decode :: "string \<Rightarrow> string option" where
  "b64_decode s = (case b64_digits s of None \<Rightarrow> None | Some ds \<Rightarrow> b64_bytes ds)"

lemma b64_val_char: "n < 64 \<Longrightarrow> b64_val (b64_char n) = Some n"
  by (auto simp: b64_val_def b64_char_def byte_of_def Let_def)

lemma byte_of_b64_char: "n < 64 \<Longrightarrow> 45 \<le> byte_of (b64_char n)"
  by (auto simp: b64_char_def byte_of_def)

lemma b64_char_no_break: "n < 64 \<Longrightarrow> b64_char n \<noteq> CHR 0x0A \<and> b64_char n \<noteq> CHR 0x0D"
  using byte_of_b64_char [of n] by (auto simp: byte_of_def)

lemma b64_digits_char [simp]:
  "n < 64 \<Longrightarrow> b64_digits (b64_char n # cs) = map_option ((#) n) (b64_digits cs)"
  using b64_char_no_break [of n] by (simp add: b64_val_char)

lemma byte_div_less: "byte_of a div 4 < 64" "byte_of a div 16 < 16" "byte_of a div 64 < 4"
  using less_mult_imp_div_less [of "byte_of a" 64 4] less_mult_imp_div_less [of "byte_of a" 16 16]
    less_mult_imp_div_less [of "byte_of a" 4 64]
  by simp_all

lemma byte_mod_less: "byte_of a mod 4 < 4" "byte_of a mod 16 < 16" "byte_of a mod 64 < 64"
  by simp_all

lemma byte_div_mod_bounds [simp]:
  "byte_of a div 4 < 64" "byte_of a mod 4 * 16 + byte_of b div 16 < 64"
  "byte_of a mod 16 * 4 + byte_of b div 64 < 64" "byte_of a mod 64 < 64"
  "byte_of a mod 4 * 16 < 64" "byte_of a mod 16 * 4 < 64"
  using byte_div_less [of a] byte_div_less [of b] byte_mod_less [of a] by linarith+

lemma digit_join:
  fixes x y m :: nat
  assumes "y < m"
  shows "(x * m + y) div m = x" "(x * m + y) mod m = y"
  using assms by (cases "m = 0"; simp)+

lemmas b64_join [simp] =
  digit_join [OF byte_div_less(2)] digit_join [OF byte_div_less(3)]

lemma b64_regroup:
  "byte_of a div 4 * 4 + (byte_of a mod 4 * 16 + byte_of b div 16) div 16 = byte_of a"
  "(byte_of a mod 4 * 16 + byte_of b div 16) mod 16 * 16 + (byte_of b mod 16 * 4 + byte_of c div 64) div 4 = byte_of b"
  "(byte_of b mod 16 * 4 + byte_of c div 64) mod 4 * 64 + byte_of c mod 64 = byte_of c"
  by (simp_all only: b64_join div_mult_mod_eq)

lemma b64_regroup_last:
  "byte_of a div 4 * 4 + byte_of a mod 4 * 16 div 16 = byte_of a"
  "(byte_of a mod 4 * 16 + byte_of b div 16) mod 16 * 16 + byte_of b mod 16 * 4 div 4 = byte_of b"
  by (simp_all only: b64_join div_mult_mod_eq nonzero_mult_div_cancel_right)

lemma char_of_byte_of [simp]: "char_of (byte_of c) = c"
  by (simp add: byte_of_def)

lemma b64_digits_encode_bytes:
  "\<exists>ds. b64_digits (b64_encode s) = Some ds \<and> b64_bytes ds = Some s"
proof (induction s rule: b64_encode.induct)
  case 1
  show ?case by simp
next
  case (2 a)
  have "b64_digits (b64_encode [a]) = Some [byte_of a div 4, byte_of a mod 4 * 16]"
    by (simp del: b64_digits.simps(2))
  then show ?case using b64_regroup_last(1) by (simp del: b64_encode.simps)
next
  case (3 a b)
  have "b64_digits (b64_encode [a, b]) =
      Some [byte_of a div 4, byte_of a mod 4 * 16 + byte_of b div 16, byte_of b mod 16 * 4]"
    by (simp del: b64_digits.simps(2))
  then show ?case using b64_regroup(1) b64_regroup_last(2)
    by (simp del: b64_encode.simps b64_join mod_mult_self3)
next
  case (4 a b c xs)
  then obtain ds where "b64_digits (b64_encode xs) = Some ds" "b64_bytes ds = Some xs" by blast
  then have "b64_digits (b64_encode (a # b # c # xs)) =
      Some (byte_of a div 4 # (byte_of a mod 4 * 16 + byte_of b div 16) #
        (byte_of b mod 16 * 4 + byte_of c div 64) # byte_of c mod 64 # ds)" and "b64_bytes ds = Some xs"
    by (simp_all del: b64_digits.simps(2))
  then show ?case using b64_regroup
    by (simp del: b64_encode.simps b64_join mod_mult_self3 div_mult_self3)
qed

text \<open>Decoding gives back what was encoded.\<close>

lemma b64_roundtrip: "b64_decode (b64_encode s) = Some s"
  using b64_digits_encode_bytes [of s] by (auto simp: b64_decode_def)

lemma b64_encode_inj: "b64_encode s = b64_encode t \<longleftrightarrow> s = t"
  using b64_roundtrip by (metis option.inject)

section \<open>Decimal numbers\<close>

fun show_nat :: "nat \<Rightarrow> string" where
  "show_nat n = (if n < 10 then [char_of (48 + n)] else show_nat (n div 10) @ [char_of (48 + n mod 10)])"

declare show_nat.simps [simp del]

definition itoa :: "int \<Rightarrow> string" where
  "itoa i = (if i < 0 then CHR ''-'' # show_nat (nat (- i)) else show_nat (nat i))"

definition digits_value :: "string \<Rightarrow> int" where
  "digits_value s = foldl (\<lambda>n c. n * 10 + (int (byte_of c) - 48)) 0 s"

lemma is_digit_char: "d < 10 \<Longrightarrow> is_digit (char_of (48 + d :: nat))"
  by (simp add: is_digit_def byte_of_def)

lemma show_nat_digits: "list_all is_digit (show_nat n) \<and> show_nat n \<noteq> ''''"
  by (induction n rule: show_nat.induct) (subst (1 2) show_nat.simps, auto simp: is_digit_char)

lemma digits_value_show: "digits_value (show_nat n) = int n"
proof (induction n rule: show_nat.induct)
  case (1 n)
  have b: "d < 10 \<Longrightarrow> byte_of (char_of (48 + d :: nat)) = 48 + d" for d by (simp add: byte_of_def)
  show ?case
    using 1 b [of n] b [of "n mod 10"]
    by (subst show_nat.simps) (simp add: digits_value_def zdiv_int zmod_int)
qed

lemma itoa_decimal:
  assumes "0 \<le> v"
  shows "list_all is_digit (itoa v)" "itoa v \<noteq> ''''" "digits_value (itoa v) = v"
  using assms show_nat_digits [of "nat v"] digits_value_show by (auto simp: itoa_def)

text \<open>\<^verbatim>\<open>strconv.ParseInt(s, 10, 64)\<close>.\<close>

definition ParseInt64 :: "string \<Rightarrow> int option" where
  "ParseInt64 s =
     (let neg = (s \<noteq> '''' \<and> hd s = CHR ''-''); ds = (if s \<noteq> '''' \<and> hd s \<in> {CHR ''-'', CHR ''+''} then tl s else s);
          v = (if neg then - digits_value ds else digits_value ds)
      in if ds = '''' \<or> \<not> list_all is_digit ds \<or> v < - (2 ^ 63) \<or> 2 ^ 63 \<le> v then None else Some v)"

lemma ParseInt64_itoa:
  assumes "0 \<le> v" "v < 2 ^ 63"
  shows "ParseInt64 (itoa v) = Some v"
proof -
  have "hd (itoa v) \<noteq> CHR ''-''" "hd (itoa v) \<noteq> CHR ''+''"
    using itoa_decimal(1,2) [OF assms(1)] by (cases "itoa v"; auto simp: is_digit_def byte_of_def)+
  then show ?thesis using itoa_decimal [OF assms(1)] assms by (simp add: ParseInt64_def)
qed

text \<open>A string preceded by its length: \<^verbatim>\<open>fmt.Sprintf("%d:%s", len(s), s)\<close>.\<close>

definition len_prefixed :: "string \<Rightarrow> string" where
  "len_prefixed s = itoa (int (length s)) @ CHR '':'' # s"

lemma colon_split:
  assumes "a @ CHR '':'' # x = b @ CHR '':'' # y" "list_all is_digit a" "list_all is_digit b"
  shows "a = b \<and> x = y"
proof -
  have nc: "\<not> is_digit (CHR '':'')" by (simp add: is_digit_def byte_of_def)
  have tw: "takeWhile is_digit (c @ CHR '':'' # z) = c" if "list_all is_digit c" for c z
    using that nc by (simp add: list_all_iff)
  have "a = b" using tw [OF assms(2), of x] tw [OF assms(3), of y] unfolding assms(1) by simp
  then show ?thesis using assms(1) by simp
qed

lemma len_prefixed_inj:
  assumes "len_prefixed s @ x = len_prefixed t @ y"
  shows "s = t \<and> x = y"
proof -
  let ?n = "\<lambda>u :: string. itoa (int (length u))"
  have "?n s = ?n t \<and> s @ x = t @ y"
  proof (rule colon_split)
    show "?n s @ CHR '':'' # s @ x = ?n t @ CHR '':'' # t @ y" using assms by (simp add: len_prefixed_def)
  qed (rule itoa_decimal(1), simp)+
  moreover from this have "length s = length t"
    using itoa_decimal(3) [of "int (length s)"] itoa_decimal(3) [of "int (length t)"] by (metis of_nat_0_le_iff of_nat_eq_iff)
  ultimately show ?thesis by simp
qed

section \<open>Runes\<close>

text \<open>Ranging over a Go string decodes UTF-8; a byte that starts no valid encoding is the
  replacement character and one byte long.\<close>

definition cont :: "nat \<Rightarrow> bool" where
  "cont b \<longleftrightarrow> 128 \<le> b \<and> b \<le> 191"

definition rune_width :: "nat list \<Rightarrow> nat" where
  "rune_width bs =
     (case bs of
        [] \<Rightarrow> 0
      | a # r \<Rightarrow>
          if a < 128 then 1
          else if 194 \<le> a \<and> a \<le> 223 then (case r of b # _ \<Rightarrow> if cont b then 2 else 0 | _ \<Rightarrow> 0)
          else if 224 \<le> a \<and> a \<le> 239 then
            (case r of b # c # _ \<Rightarrow>
               if cont b \<and> cont c \<and> (a = 224 \<longrightarrow> 160 \<le> b) \<and> (a = 237 \<longrightarrow> b \<le> 159) then 3 else 0 | _ \<Rightarrow> 0)
          else if 240 \<le> a \<and> a \<le> 244 then
            (case r of b # c # d # _ \<Rightarrow>
               if cont b \<and> cont c \<and> cont d \<and> (a = 240 \<longrightarrow> 144 \<le> b) \<and> (a = 244 \<longrightarrow> b \<le> 143) then 4 else 0
             | _ \<Rightarrow> 0)
          else 0)"

definition rune_value :: "nat list \<Rightarrow> nat" where
  "rune_value bs =
     (case bs of
        [a] \<Rightarrow> a
      | [a, b] \<Rightarrow> (a - 192) * 64 + (b - 128)
      | [a, b, c] \<Rightarrow> (a - 224) * 4096 + (b - 128) * 64 + (c - 128)
      | [a, b, c, d] \<Rightarrow> (a - 240) * 262144 + (b - 128) * 4096 + (c - 128) * 64 + (d - 128)
      | _ \<Rightarrow> 65533)"

fun runes_fuel :: "nat \<Rightarrow> nat list \<Rightarrow> nat list" where
  "runes_fuel 0 bs = []"
| "runes_fuel (Suc f) bs =
     (if bs = [] then []
      else let w = rune_width bs in
        if w = 0 then 65533 # runes_fuel f (tl bs)
        else rune_value (take w bs) # runes_fuel f (drop w bs))"

text \<open>Every rune takes at least one byte, so the length is enough fuel.\<close>

definition runes :: "string \<Rightarrow> nat list" where
  "runes s = runes_fuel (length s) (map byte_of s)"

lemma runes_fuel_enough: "length bs \<le> f \<Longrightarrow> runes_fuel f bs = runes_fuel (length bs) bs"
proof (induction f arbitrary: bs rule: less_induct)
  case (less f)
  show ?case
  proof (cases bs)
    case Nil
    then show ?thesis by (cases f) simp_all
  next
    case (Cons b cs)
    with less.prems obtain f' where f: "f = Suc f'" by (cases f) auto
    have eq: "runes_fuel f' (drop n bs) = runes_fuel (length cs) (drop n bs)" if "0 < n" for n
    proof -
      have len: "length (drop n bs) \<le> f'" "length (drop n bs) \<le> length cs"
        using that Cons less.prems f by auto
      have "runes_fuel f' (drop n bs) = runes_fuel (length (drop n bs)) (drop n bs)"
        using less.IH [of f'] f len(1) by simp
      moreover have "runes_fuel (length cs) (drop n bs) = runes_fuel (length (drop n bs)) (drop n bs)"
        using less.IH [of "length cs"] f len less.prems Cons by simp
      ultimately show ?thesis by simp
    qed
    have tl: "tl bs = drop 1 bs" by (simp add: Cons)
    have "length bs = Suc (length cs)" using Cons by simp
    then show ?thesis unfolding f using eq [of 1] eq [of "rune_width bs"] tl Cons by (simp add: Let_def)
  qed
qed

lemma runes_ascii: "list_all is_ascii s \<Longrightarrow> runes s = map byte_of s"
proof -
  have "runes_fuel (length s) (map byte_of s) = map byte_of s" if "list_all is_ascii s" for s
    using that by (induction s) (auto simp: rune_width_def rune_value_def is_ascii_def Let_def)
  then show "list_all is_ascii s \<Longrightarrow> runes s = map byte_of s" by (simp add: runes_def)
qed

text \<open>\<^verbatim>\<open>utf8.Valid\<close>: every position of the decoding starts a valid encoding.\<close>

fun utf8_valid_fuel :: "nat \<Rightarrow> nat list \<Rightarrow> bool" where
  "utf8_valid_fuel 0 bs = (bs = [])"
| "utf8_valid_fuel (Suc f) bs =
     (if bs = [] then True
      else let w = rune_width bs in w \<noteq> 0 \<and> utf8_valid_fuel f (drop w bs))"

definition utf8_valid :: "string \<Rightarrow> bool" where
  "utf8_valid s = utf8_valid_fuel (length s) (map byte_of s)"

text \<open>\<^verbatim>\<open>unicode.IsSpace\<close>.\<close>

definition is_space :: "nat \<Rightarrow> bool" where
  "is_space r \<longleftrightarrow> r \<in> {9, 10, 11, 12, 13, 32, 133, 160, 5760, 8232, 8233, 8239, 8287, 12288} \<or>
     8192 \<le> r \<and> r \<le> 8202"

text \<open>\<^verbatim>\<open>strings.TrimSpace(s) == s\<close>.\<close>

definition trimmed :: "string \<Rightarrow> bool" where
  "trimmed s \<longleftrightarrow> (let rs = runes s in rs = [] \<or> \<not> is_space (hd rs) \<and> \<not> is_space (last rs))"

text \<open>An ASCII letter or digit.\<close>

definition alnum_rune :: "nat \<Rightarrow> bool" where
  "alnum_rune c \<longleftrightarrow> 97 \<le> c \<and> c \<le> 122 \<or> 65 \<le> c \<and> c \<le> 90 \<or> 48 \<le> c \<and> c \<le> 57"

text \<open>\<^verbatim>\<open>strings.ToUpper\<close>: the ASCII fast path, and the Unicode tables otherwise.\<close>

definition ToUpper :: "prims \<Rightarrow> string \<Rightarrow> string" where
  "ToUpper P s = (if list_all is_ascii s then map upper_ascii s else unicode_ToUpper P s)"

text \<open>\<^verbatim>\<open>strings.EqualFold\<close>, in the same way.\<close>

definition EqualFold :: "prims \<Rightarrow> string \<Rightarrow> string \<Rightarrow> bool" where
  "EqualFold P a b \<longleftrightarrow>
     (if list_all is_ascii a \<and> list_all is_ascii b then map upper_ascii a = map upper_ascii b else unicode_EqualFold P a b)"

text \<open>\<^verbatim>\<open>strings.Fields\<close>: the maximal runs without white space.\<close>

fun split_runs :: "(char \<Rightarrow> bool) \<Rightarrow> string \<Rightarrow> string \<Rightarrow> string list" where
  "split_runs p acc [] = (if acc = [] then [] else [acc])"
| "split_runs p acc (c # cs) =
     (if p c then (if acc = [] then [] else [acc]) @ split_runs p [] cs else split_runs p (acc @ [c]) cs)"

definition Fields :: "prims \<Rightarrow> string \<Rightarrow> string list" where
  "Fields P s = (if list_all is_ascii s then split_runs (\<lambda>c. is_space (byte_of c)) [] s else unicode_Fields P s)"

definition ToLower_ascii :: "string \<Rightarrow> string" where
  "ToLower_ascii s = map lower_ascii s"

text \<open>\<^verbatim>\<open>digest\<close>: the raw URL base64 of the SHA-256 sum.\<close>

definition digest :: "prims \<Rightarrow> string \<Rightarrow> string" where
  "digest P v = b64_encode (sha256 P v)"

lemma digest_inj: "digest P a = digest P b \<longleftrightarrow> sha256 P a = sha256 P b"
  by (simp add: digest_def b64_encode_inj)

text \<open>Primitives to evaluate examples with: the identity as a hash and no parsed URL.\<close>

definition demo_prims :: prims where
  "demo_prims = \<lparr>sha256 = (\<lambda>s. s), unicode_ToUpper = (\<lambda>s. s), unicode_EqualFold = (=), unicode_Fields = (\<lambda>s. [s]), url_Parse = (\<lambda>_. None),
      url_ParseRequestURI = (\<lambda>_. None)\<rparr>"

text \<open>The identifier of an event of the event log.\<close>

definition nul :: char where
  "nul = CHR 0x00"

definition eventID :: "prims \<Rightarrow> string \<Rightarrow> string \<Rightarrow> string" where
  "eventID P operationID typ = digest P (''goauthy/eventlog/v1'' @ [nul] @ operationID @ [nul] @ typ)"

end
