(* ===== verification/RateLimit.thy ===== *)
theory RateLimit
  imports Prelude
begin

text \<open>
  The replicated fixed-window quota behind the table \<^verbatim>\<open>oauth_rate_limits\<close>: the upsert
  that \<^verbatim>\<open>loginpolicy.Store.Allow\<close>, \<^verbatim>\<open>loginpolicy.Store.allowBounded\<close> and
  \<^verbatim>\<open>device.Store.Allow\<close> send, with the clean-up trigger of the schema. The locale
  \<open>fixed_window\<close> is the contract of such a quota; its lemma says exactly how many of the requests
  of one window are admitted.
\<close>

section \<open>The table and its trigger\<close>

record rate_row =
  rl_key :: string
  rl_window_start :: millis
  rl_count :: int
  rl_expires_at :: millis
  rl_last_window_at :: millis

text \<open>One request: the key digest, the window in milliseconds, the limit and the time.\<close>

record rate_request =
  rq_key :: string
  rq_window :: int
  rq_limit :: int
  rq_now :: millis

definition rate_window_start :: "rate_request \<Rightarrow> millis" where
  "rate_window_start q = go_div (rq_now q) (rq_window q) * rq_window q"

definition rate_new_row :: "rate_request \<Rightarrow> rate_row" where
  "rate_new_row q =
     \<lparr>rl_key = rq_key q, rl_window_start = rate_window_start q, rl_count = 1,
      rl_expires_at = rate_window_start q + rq_window q * 2, rl_last_window_at = rq_now q\<rparr>"

text \<open>The CHECK constraints of the table.\<close>

definition rate_check :: "rate_row \<Rightarrow> bool" where
  "rate_check r \<longleftrightarrow>
     0 \<le> rl_window_start r \<and> 0 \<le> rl_count r \<and> 0 < rl_expires_at r \<and> 0 \<le> rl_last_window_at r \<and>
     rl_last_window_at r < rl_expires_at r"

text \<open>The BEFORE INSERT trigger: up to 64 expired rows of other keys are removed.\<close>

definition rate_cleanup :: "rate_row \<Rightarrow> rate_row list \<Rightarrow> rate_row list" where
  "rate_cleanup new t =
     (let doomed = map rl_key (sql_oldest 64 (\<lambda>r. (rl_expires_at r, rl_key r))
                    (\<lambda>r. rl_expires_at r \<le> rl_last_window_at new \<and> rl_key r \<noteq> rl_key new) t)
      in sql_delete (\<lambda>r. rl_key r \<in> set doomed) t)"

definition rate_bump :: "rate_row \<Rightarrow> rate_row \<Rightarrow> rate_row" where
  "rate_bump new r = r\<lparr>
     rl_count := (if rl_window_start r = rl_window_start new then rl_count r + 1 else 1),
     rl_window_start := rl_window_start new,
     rl_expires_at := rl_expires_at new, rl_last_window_at := rl_last_window_at new\<rparr>"

definition rate_room :: "int \<Rightarrow> rate_row \<Rightarrow> rate_row \<Rightarrow> bool" where
  "rate_room limit new r \<longleftrightarrow> rl_window_start r \<noteq> rl_window_start new \<or> rl_count r < limit"

text \<open>\<^verbatim>\<open>INSERT ... ON CONFLICT(key_digest) DO UPDATE SET ... WHERE ...\<close>.\<close>

definition rate_upsert :: "int \<Rightarrow> rate_row \<Rightarrow> rate_row list mutation" where
  "rate_upsert limit new t =
     (if \<not> rate_check new then None
      else
        let t1 = rate_cleanup new t;
            hit = (\<lambda>r. rl_key r = rl_key new);
            can = (\<lambda>r. rl_key r = rl_key new \<and> rate_room limit new r);
            t2 = sql_update can (rate_bump new) t1
        in if \<not> sql_exists hit t1 then Some (t1 @ [new], 1)
           else if list_all rate_check t2 then Some (t2, sql_count can t1)
           else None)"

definition rate_attempt :: "rate_request \<Rightarrow> rate_row list \<Rightarrow> rate_row list \<times> bool" where
  "rate_attempt q t =
     (case rate_upsert (rq_limit q) (rate_new_row q) t of
        None \<Rightarrow> (t, False)
      | Some (t', n) \<Rightarrow> (t', n = 1))"

section \<open>The contract of a fixed-window quota\<close>

locale fixed_window =
  fixes attempt :: "'r \<Rightarrow> 's \<Rightarrow> 's \<times> bool"
    and key :: "'r \<Rightarrow> 'k"
    and window :: "'r \<Rightarrow> int"
    and limit :: "'r \<Rightarrow> int"
    and admissible :: "'r \<Rightarrow> bool"
    and timely :: "'k \<Rightarrow> int \<Rightarrow> 'r \<Rightarrow> bool"
    and used :: "'s \<Rightarrow> 'k \<Rightarrow> int \<Rightarrow> int"
    and invar :: "'s \<Rightarrow> bool"
  assumes invar_attempt: "invar s \<Longrightarrow> admissible q \<Longrightarrow> invar (fst (attempt q s))"
    and admit_iff: "invar s \<Longrightarrow> admissible q \<Longrightarrow>
          snd (attempt q s) \<longleftrightarrow> used s (key q) (window q) < limit q"
    and used_admitted: "invar s \<Longrightarrow> admissible q \<Longrightarrow> snd (attempt q s) \<Longrightarrow>
          used (fst (attempt q s)) (key q) (window q) = used s (key q) (window q) + 1"
    and used_refused: "invar s \<Longrightarrow> admissible q \<Longrightarrow> \<not> snd (attempt q s) \<Longrightarrow>
          used (fst (attempt q s)) (key q) (window q) = used s (key q) (window q)"
    and used_other: "invar s \<Longrightarrow> admissible q \<Longrightarrow> key q \<noteq> k \<Longrightarrow> timely k w q \<Longrightarrow>
          used (fst (attempt q s)) k w = used s k w"
begin

text \<open>The requests for one key that a run admits.\<close>

primrec admitted :: "'k \<Rightarrow> 'r list \<Rightarrow> 's \<Rightarrow> int" where
  "admitted k [] s = 0"
| "admitted k (q # qs) s =
     (if key q = k \<and> snd (attempt q s) then 1 else 0) + admitted k qs (fst (attempt q s))"

text \<open>A run in one window of \<open>k\<close>: the requests for \<open>k\<close> fall in the window and carry its limit, the
  others come before the window's row may be dropped.\<close>

definition in_window :: "'k \<Rightarrow> int \<Rightarrow> int \<Rightarrow> 'r \<Rightarrow> bool" where
  "in_window k w l q \<longleftrightarrow> admissible q \<and>
     (if key q = k then window q = w \<and> limit q = l else timely k w q)"

lemma admitted_exact:
  "invar s \<Longrightarrow> \<forall>q \<in> set qs. in_window k w l q \<Longrightarrow> used s k w \<le> l \<Longrightarrow>
   admitted k qs s = min (int (length (filter (\<lambda>q. key q = k) qs))) (l - used s k w)"
proof (induction qs arbitrary: s)
  case (Cons q qs)
  let ?s = "fst (attempt q s)"
  have q: "admissible q" and qs: "\<forall>x \<in> set qs. in_window k w l x"
    using Cons.prems(2) by (auto simp: in_window_def)
  have inv: "invar ?s" using invar_attempt [OF Cons.prems(1) q] .
  show ?case
  proof (cases "key q = k \<and> snd (attempt q s)")
    case True
    then have wl: "window q = w" "limit q = l" using Cons.prems(2) by (auto simp: in_window_def)
    have "used s k w < l" using admit_iff [OF Cons.prems(1) q] True wl by simp
    moreover have "used ?s k w = used s k w + 1"
      using used_admitted [OF Cons.prems(1) q] True wl by simp
    ultimately show ?thesis using Cons.IH [OF inv qs] True by simp
  next
    case False
    have same: "used ?s k w = used s k w"
    proof (cases "key q = k")
      case True
      then have "window q = w" using Cons.prems(2) by (simp add: in_window_def)
      with False True show ?thesis using used_refused [OF Cons.prems(1) q] by auto
    next
      case other: False
      then have "timely k w q" using Cons.prems(2) by (simp add: in_window_def)
      with other show ?thesis using used_other [OF Cons.prems(1) q] by simp
    qed
    moreover have "key q = k \<Longrightarrow> used s k w = l"
      using False admit_iff [OF Cons.prems(1) q] Cons.prems(2,3) by (force simp: in_window_def)
    ultimately show ?thesis using Cons.IH [OF inv qs] Cons.prems(3) False by auto
  qed
qed simp

end

section \<open>The table keeps the contract\<close>

text \<open>\<open>W\<close> gives every key its window: the callers derive the keys in separate domains, so a key is
  only ever used with one window.\<close>

definition rate_used :: "rate_row list \<Rightarrow> string \<Rightarrow> millis \<Rightarrow> int" where
  "rate_used t k w =
     (case sql_lookup rl_key t k of
        None \<Rightarrow> 0
      | Some r \<Rightarrow> if rl_window_start r = w then rl_count r else 0)"

definition rate_inv :: "(string \<Rightarrow> int) \<Rightarrow> rate_row list \<Rightarrow> bool" where
  "rate_inv W t \<longleftrightarrow> sql_unique rl_key t \<and> list_all rate_check t \<and>
     list_all (\<lambda>r. rl_expires_at r = rl_window_start r + W (rl_key r) * 2) t"

definition rate_admissible :: "(string \<Rightarrow> int) \<Rightarrow> rate_request \<Rightarrow> bool" where
  "rate_admissible W q \<longleftrightarrow> 0 \<le> rq_now q \<and> 0 < rq_window q \<and> 0 < rq_limit q \<and> rq_window q = W (rq_key q)"

definition rate_timely :: "(string \<Rightarrow> int) \<Rightarrow> string \<Rightarrow> int \<Rightarrow> rate_request \<Rightarrow> bool" where
  "rate_timely W k w q \<longleftrightarrow> rq_now q < w + W k * 2"

lemma rate_window_bounds:
  assumes "0 \<le> rq_now q" "0 < rq_window q"
  shows "0 \<le> rate_window_start q" "rate_window_start q \<le> rq_now q"
    "rq_now q < rate_window_start q + rq_window q"
proof -
  have start: "rate_window_start q = rq_now q - rq_now q mod rq_window q"
    using assms by (simp add: rate_window_start_def minus_mod_eq_div_mult)
  have "0 \<le> rq_now q mod rq_window q" "rq_now q mod rq_window q < rq_window q"
    using assms(2) by simp_all
  moreover have "rq_now q mod rq_window q \<le> rq_now q"
    using assms by (simp add: zmod_le_nonneg_dividend)
  ultimately show "0 \<le> rate_window_start q" "rate_window_start q \<le> rq_now q"
    "rq_now q < rate_window_start q + rq_window q"
    unfolding start by linarith+
qed

lemma rate_check_new:
  assumes "0 \<le> rq_now q" "0 < rq_window q"
  shows "rate_check (rate_new_row q)"
  using rate_window_bounds [OF assms] assms by (simp add: rate_check_def rate_new_row_def)

lemma rate_check_bump: "rate_check new \<Longrightarrow> rate_check r \<Longrightarrow> rate_check (rate_bump new r)"
  by (auto simp: rate_check_def rate_bump_def)

lemma set_rate_cleanup: "set (rate_cleanup new t) \<subseteq> set t"
  by (auto simp: rate_cleanup_def Let_def set_sql_delete)

lemma rate_cleanup_keeps:
  assumes "sql_unique rl_key t" "r \<in> set t" "rl_last_window_at new < rl_expires_at r \<or> rl_key r = rl_key new"
  shows "r \<in> set (rate_cleanup new t)"
proof -
  let ?p = "\<lambda>r. rl_expires_at r \<le> rl_last_window_at new \<and> rl_key r \<noteq> rl_key new"
  let ?d = "sql_oldest 64 (\<lambda>r. (rl_expires_at r, rl_key r)) ?p t"
  have "rl_key r \<notin> set (map rl_key ?d)"
  proof
    assume "rl_key r \<in> set (map rl_key ?d)"
    then obtain x where x: "x \<in> set ?d" "rl_key x = rl_key r" by auto
    then have "x \<in> set t \<and> ?p x" using subsetD [OF set_sql_oldest_subset] by fastforce
    with assms x(2) show False using sql_unique_eq [of rl_key t x r] by auto
  qed
  with assms(2) show ?thesis by (simp add: rate_cleanup_def Let_def set_sql_delete)
qed

lemma rate_cleanup_unique: "sql_unique rl_key t \<Longrightarrow> sql_unique rl_key (rate_cleanup new t)"
  by (auto simp: rate_cleanup_def Let_def)

lemma rate_cleanup_inv: "rate_inv W t \<Longrightarrow> rate_inv W (rate_cleanup new t)"
  using set_rate_cleanup [of new t]
  by (auto simp: rate_inv_def list_all_iff rate_cleanup_unique)

lemma rate_cleanup_lookup:
  assumes "sql_unique rl_key t" "\<And>r. sql_lookup rl_key t k = Some r \<Longrightarrow>
             rl_last_window_at new < rl_expires_at r \<or> rl_key r = rl_key new"
  shows "sql_lookup rl_key (rate_cleanup new t) k = sql_lookup rl_key t k"
proof (cases "sql_lookup rl_key t k")
  case None
  then have "sql_lookup rl_key (rate_cleanup new t) k = None"
    using set_rate_cleanup [of new t] by (auto simp: sql_lookup_None_iff)
  with None show ?thesis by simp
next
  case (Some r)
  then have r: "r \<in> set t" "rl_key r = k" by (auto dest: sql_lookup_SomeD)
  then have "r \<in> set (rate_cleanup new t)"
    using rate_cleanup_keeps [OF assms(1)] assms(2) [OF Some] by blast
  with r have "sql_lookup rl_key (rate_cleanup new t) k = Some r"
    using assms(1) by (simp add: sql_lookup_Some_iff rate_cleanup_unique)
  with Some show ?thesis by simp
qed

lemma rate_bump_key [simp]: "rl_key (rate_bump new r) = rl_key r"
  by (simp add: rate_bump_def)

text \<open>One statement, read through the key: what it stores and how many rows it reports.\<close>

lemma rate_upsert_spec:
  assumes inv: "rate_inv W t" and ok: "rate_check new"
    and exp: "rl_expires_at new = rl_window_start new + W (rl_key new) * 2"
  obtains t' n where "rate_upsert limit new t = Some (t', n)" "rate_inv W t'"
    "sql_lookup rl_key t' (rl_key new) =
       (case sql_lookup rl_key t (rl_key new) of
          None \<Rightarrow> Some new
        | Some r \<Rightarrow> Some (if rate_room limit new r then rate_bump new r else r))"
    "n = (case sql_lookup rl_key t (rl_key new) of
          None \<Rightarrow> 1 | Some r \<Rightarrow> if rate_room limit new r then 1 else 0)"
    "\<forall>k. k \<noteq> rl_key new \<longrightarrow>
        (\<forall>r. sql_lookup rl_key t k = Some r \<longrightarrow> rl_last_window_at new < rl_expires_at r) \<longrightarrow>
        sql_lookup rl_key t' k = sql_lookup rl_key t k"
proof -
  let ?t1 = "rate_cleanup new t"
  let ?can = "\<lambda>r. rl_key r = rl_key new \<and> rate_room limit new r"
  let ?t2 = "sql_update ?can (rate_bump new) ?t1"
  have u: "sql_unique rl_key t" and u1: "sql_unique rl_key ?t1"
    using inv by (auto simp: rate_inv_def rate_cleanup_unique)
  have inv1: "rate_inv W ?t1" using rate_cleanup_inv [OF inv] .
  have same: "sql_lookup rl_key ?t1 (rl_key new) = sql_lookup rl_key t (rl_key new)"
    using rate_cleanup_lookup [OF u] by (auto dest: sql_lookup_SomeD)
  have keep: "sql_lookup rl_key ?t1 k = sql_lookup rl_key t k"
    if "\<And>r. sql_lookup rl_key t k = Some r \<Longrightarrow> rl_last_window_at new < rl_expires_at r" for k
    using that by (intro rate_cleanup_lookup [OF u]) auto
  show ?thesis
  proof (cases "sql_lookup rl_key t (rl_key new)")
    case None
    then have "sql_lookup rl_key ?t1 (rl_key new) = None" using same by simp
    then have new: "\<forall>x \<in> set ?t1. rl_key x \<noteq> rl_key new" by (simp add: sql_lookup_None_iff)
    then have "rate_upsert limit new t = Some (?t1 @ [new], 1)"
      using ok by (auto simp: rate_upsert_def sql_exists_iff)
    moreover have "rate_inv W (?t1 @ [new])"
      using inv1 new ok exp by (auto simp: rate_inv_def sql_unique_insert)
    ultimately show ?thesis
      using that [of "?t1 @ [new]" 1] None same keep by (simp add: sql_lookup_append split: option.split)
  next
    case (Some r)
    have "list_all rate_check ?t2"
      using inv1 ok by (auto simp: rate_inv_def list_all_iff set_sql_update rate_check_bump)
    moreover have "sql_exists (\<lambda>r. rl_key r = rl_key new) ?t1"
      using Some same by (simp add: sql_exists_key_only)
    ultimately have run: "rate_upsert limit new t = Some (?t2, sql_count ?can ?t1)"
      using ok by (simp add: rate_upsert_def Let_def)
    have inv2: "rate_inv W ?t2"
      using inv1 ok exp by (auto simp: rate_inv_def list_all_iff set_sql_update rate_check_bump)
        (auto simp: rate_bump_def)
    have look: "sql_lookup rl_key ?t2 k =
        map_option (\<lambda>r. if ?can r then rate_bump new r else r) (sql_lookup rl_key ?t1 k)" for k
      by (rule sql_lookup_update) simp
    have others: "sql_lookup rl_key ?t2 k = sql_lookup rl_key t k"
      if "k \<noteq> rl_key new"
        and "\<And>r. sql_lookup rl_key t k = Some r \<Longrightarrow> rl_last_window_at new < rl_expires_at r" for k
      using that keep [of k] look [of k]
      by (cases "sql_lookup rl_key t k") (auto dest: sql_lookup_SomeD)
    have cnt: "sql_count ?can ?t1 = (if rate_room limit new r then 1 else 0)"
      using Some same u1 by (simp add: sql_count_key)
    show ?thesis
      by (rule that [OF run inv2])
        (use Some same look [of "rl_key new"] cnt sql_lookup_SomeD [OF Some] others in simp_all)
  qed
qed

text \<open>Rows of other keys are kept as they are or removed, never changed.\<close>

lemma rate_upsert_other_rows:
  assumes "rate_upsert limit new t = Some (t', n)" "r \<in> set t'" "rl_key r \<noteq> rl_key new"
  shows "r \<in> set t"
  using assms set_rate_cleanup [of new t]
  by (auto simp: rate_upsert_def Let_def set_sql_update split: if_splits)

lemma rate_attempt_spec:
  assumes inv: "rate_inv W t" and q: "rate_admissible W q"
  shows "rate_inv W (fst (rate_attempt q t))"
    and "snd (rate_attempt q t) \<longleftrightarrow> rate_used t (rq_key q) (rate_window_start q) < rq_limit q"
    and "rate_used (fst (rate_attempt q t)) (rq_key q) (rate_window_start q) =
           (if snd (rate_attempt q t) then rate_used t (rq_key q) (rate_window_start q) + 1
            else rate_used t (rq_key q) (rate_window_start q))"
    and "rq_key q \<noteq> k \<Longrightarrow> rate_timely W k w q \<Longrightarrow>
           rate_used (fst (rate_attempt q t)) k w = rate_used t k w"
proof -
  let ?new = "rate_new_row q"
  have ok: "rate_check ?new" using q by (simp add: rate_admissible_def rate_check_new)
  have exp: "rl_expires_at ?new = rl_window_start ?new + W (rl_key ?new) * 2"
    using q by (simp add: rate_admissible_def rate_new_row_def)
  obtain t' n where run: "rate_upsert (rq_limit q) ?new t = Some (t', n)" "rate_inv W t'"
    and own: "sql_lookup rl_key t' (rl_key ?new) =
       (case sql_lookup rl_key t (rl_key ?new) of
          None \<Rightarrow> Some ?new
        | Some r \<Rightarrow> Some (if rate_room (rq_limit q) ?new r then rate_bump ?new r else r))"
    and n: "n = (case sql_lookup rl_key t (rl_key ?new) of
          None \<Rightarrow> 1 | Some r \<Rightarrow> if rate_room (rq_limit q) ?new r then 1 else 0)"
    and others: "\<forall>k. k \<noteq> rl_key ?new \<longrightarrow>
        (\<forall>r. sql_lookup rl_key t k = Some r \<longrightarrow> rl_last_window_at ?new < rl_expires_at r) \<longrightarrow>
        sql_lookup rl_key t' k = sql_lookup rl_key t k"
    by (rule rate_upsert_spec [OF inv ok exp, of "rq_limit q"])
  have fields: "rl_key ?new = rq_key q" "rl_window_start ?new = rate_window_start q" "rl_count ?new = 1"
    "rl_last_window_at ?new = rq_now q"
    by (simp_all add: rate_new_row_def)
  have res: "rate_attempt q t = (t', n = 1)" using run by (simp add: rate_attempt_def)
  show "rate_inv W (fst (rate_attempt q t))" using res run by simp
  show "snd (rate_attempt q t) \<longleftrightarrow> rate_used t (rq_key q) (rate_window_start q) < rq_limit q"
    using res n q fields by (auto simp: rate_used_def rate_room_def rate_admissible_def split: option.splits)
  show "rate_used (fst (rate_attempt q t)) (rq_key q) (rate_window_start q) =
           (if snd (rate_attempt q t) then rate_used t (rq_key q) (rate_window_start q) + 1
            else rate_used t (rq_key q) (rate_window_start q))"
    using res own n fields by (auto simp: rate_used_def rate_bump_def split: option.splits)
  show "rate_used (fst (rate_attempt q t)) k w = rate_used t k w"
    if k: "rq_key q \<noteq> k" and timely: "rate_timely W k w q"
  proof (cases "\<forall>r. sql_lookup rl_key t k = Some r \<longrightarrow> rq_now q < rl_expires_at r")
    case True
    then show ?thesis using others k fields res by (simp add: rate_used_def)
  next
    case False
    then obtain r where r: "sql_lookup rl_key t k = Some r" "rl_expires_at r \<le> rq_now q" by force
    then have key: "r \<in> set t" "rl_key r = k" by (auto dest: sql_lookup_SomeD)
    then have "rl_expires_at r = rl_window_start r + W k * 2"
      using inv by (auto simp: rate_inv_def list_all_iff)
    then have old: "rl_window_start r \<noteq> w" using r timely by (auto simp: rate_timely_def)
    have "x = r" if "sql_lookup rl_key t' k = Some x" for x
    proof -
      have x: "x \<in> set t'" "rl_key x = k" using that by (auto dest: sql_lookup_SomeD)
      then have "x \<in> set t" using rate_upsert_other_rows [OF run(1)] k fields(1) by auto
      then show ?thesis
        using sql_unique_eq [of rl_key t x r] key x(2) inv by (simp add: rate_inv_def)
    qed
    with r old res show ?thesis by (auto simp: rate_used_def split: option.splits)
  qed
qed

interpretation rate: fixed_window rate_attempt rq_key rate_window_start rq_limit
  "rate_admissible W" "rate_timely W" rate_used "rate_inv W" for W
proof unfold_locales
  fix s q k w
  assume s: "rate_inv W s" and q: "rate_admissible W q"
  note spec = rate_attempt_spec [OF s q]
  show "rate_inv W (fst (rate_attempt q s))" by (rule spec(1))
  show "snd (rate_attempt q s) \<longleftrightarrow> rate_used s (rq_key q) (rate_window_start q) < rq_limit q"
    by (rule spec(2))
  show "snd (rate_attempt q s) \<Longrightarrow> rate_used (fst (rate_attempt q s)) (rq_key q) (rate_window_start q) =
          rate_used s (rq_key q) (rate_window_start q) + 1"
    using spec(3) by simp
  show "\<not> snd (rate_attempt q s) \<Longrightarrow> rate_used (fst (rate_attempt q s)) (rq_key q) (rate_window_start q) =
          rate_used s (rq_key q) (rate_window_start q)"
    using spec(3) by simp
  show "rq_key q \<noteq> k \<Longrightarrow> rate_timely W k w q \<Longrightarrow> rate_used (fst (rate_attempt q s)) k w = rate_used s k w"
    by (rule spec(4))
qed

section \<open>Properties\<close>

text \<open>The requests for one key that a sequence of requests admits.\<close>

fun rate_admitted :: "string \<Rightarrow> rate_request list \<Rightarrow> rate_row list \<Rightarrow> int" where
  "rate_admitted k [] t = 0"
| "rate_admitted k (q # qs) t =
     (if rq_key q = k \<and> snd (rate_attempt q t) then 1 else 0) + rate_admitted k qs (fst (rate_attempt q t))"

lemma rate_admitted_eq: "rate_admitted k qs t = rate.admitted k qs t"
  by (induction qs arbitrary: t) simp_all


definition rate_demo :: "rate_request list" where
  "rate_demo =
     [\<lparr>rq_key = ''a'', rq_window = 100, rq_limit = 1, rq_now = 205\<rparr>,
      \<lparr>rq_key = ''b'', rq_window = 100, rq_limit = 1, rq_now = 210\<rparr>,
      \<lparr>rq_key = ''a'', rq_window = 100, rq_limit = 1, rq_now = 215\<rparr>]"


text \<open>C31. The limit only binds while the clocks of the nodes agree on the window: two requests
  whose windows differ reset the counter of each other, so a burst whose timestamps alternate
  between two windows (two nodes on either side of a window boundary) is admitted without bound.\<close>

theorem rate_limit_alternating_windows:
  "rate_admitted ''k'' (concat (replicate n
      [\<lparr>rq_key = ''k'', rq_window = 60000, rq_limit = 1, rq_now = 59999\<rparr>,
       \<lparr>rq_key = ''k'', rq_window = 60000, rq_limit = 1, rq_now = 60000\<rparr>])) [] = 2 * int n"
proof -
  let ?q1 = "\<lparr>rq_key = ''k'', rq_window = 60000, rq_limit = 1, rq_now = 59999\<rparr>"
  let ?q2 = "\<lparr>rq_key = ''k'', rq_window = 60000, rq_limit = 1, rq_now = 60000\<rparr>"
  let ?r1 = "\<lparr>rl_key = ''k'', rl_window_start = 0, rl_count = 1, rl_expires_at = 120000,
       rl_last_window_at = 59999\<rparr>"
  let ?r2 = "\<lparr>rl_key = ''k'', rl_window_start = 60000, rl_count = 1, rl_expires_at = 180000,
       rl_last_window_at = 60000\<rparr>"
  note eval = rate_attempt_def rate_upsert_def rate_new_row_def rate_window_start_def
        rate_check_def rate_cleanup_def sql_oldest_def sql_delete_def sql_exists_def sql_update_def
        rate_room_def rate_bump_def sql_count_def
  have start: "rate_attempt ?q1 [] = ([?r1], True)" by (simp add: eval)
  have odd: "rate_attempt ?q2 [?r1] = ([?r2], True)" by (simp add: eval)
  have even: "rate_attempt ?q1 [?r2] = ([?r1], True)" by (simp add: eval)
  have "rate_admitted ''k'' (concat (replicate n [?q1, ?q2])) t = 2 * int n" if "t = [] \<or> t = [?r2]" for t
    using that
  proof (induction n arbitrary: t)
    case (Suc n)
    then have "rate_attempt ?q1 t = ([?r1], True)" using start even by auto
    then show ?case using Suc.IH [of "[?r2]"] odd by simp
  qed simp
  then show ?thesis by blast
qed

end
