(* ===== verification/DeviceStore.thy ===== *)
theory DeviceStore
  imports Encoding RateLimit
begin

text \<open>
  The RFC 8628 device authorization store of \<^verbatim>\<open>internal/device/store.go\<close>,
  \<^verbatim>\<open>review.go\<close> and \<^verbatim>\<open>user_sessions.go\<close>, with the statement of
  \<^verbatim>\<open>internal/oauth/grant_storage.go\<close> that consumes a claimed grant when its tokens are
  issued. The state is the table \<^verbatim>\<open>oauth_device_grants\<close> with its constraints and the table
  of managed clients. An operation is the sequence of its statements; what other nodes commit between
  two statements is a function in its environment argument, as are lost replies, failed reads and the
  random bytes.

  The columns hold the scopes as a list: \<^verbatim>\<open>scopes_json\<close> is its JSON encoding.
\<close>

section \<open>Tables\<close>

datatype grant_state = Pending | Approved | Denied | Consumed

record grant_row =
  g_device :: string
  g_user :: string
  g_client :: string
  g_generation :: "string option"
  g_resource :: "string option"
  g_scopes :: "string list"
  g_subject :: "string option"
  g_state :: grant_state
  g_attempt :: "string option"
  g_mfa :: bool
  g_expires :: millis
  g_interval :: int
  g_next_poll :: millis
  g_claim :: "string option"
  g_claim_until :: "millis option"
  g_created :: millis
  g_token_request :: "string option"
  g_revoked_at :: "millis option"

record managed_client =
  mc_id :: string
  mc_generation :: string
  mc_revision :: int
  mc_enabled :: bool
  mc_deleted :: bool
  mc_force_mfa :: bool

record device_db =
  grants :: "grant_row list"
  managed :: "managed_client list"

text \<open>The CHECK constraints of the table, and its unique columns.\<close>

definition grant_check :: "grant_row \<Rightarrow> bool" where
  "grant_check r \<longleftrightarrow>
     5 \<le> g_interval r \<and> g_interval r \<le> 60 \<and>
     (g_state r = Approved \<longrightarrow> g_subject r \<noteq> None) \<and>
     (g_claim r = None \<longleftrightarrow> g_claim_until r = None)"

definition grants_ok :: "grant_row list \<Rightarrow> bool" where
  "grants_ok t \<longleftrightarrow> list_all grant_check t \<and> sql_unique g_device t \<and> sql_unique g_user t \<and>
     sql_unique_some g_token_request t"

text \<open>A statement that leaves the table outside its constraints is rejected.\<close>

definition commit_grants :: "device_db \<Rightarrow> grant_row list \<Rightarrow> int \<Rightarrow> (device_db \<times> int) option" where
  "commit_grants db t n = (if grants_ok t then Some (db\<lparr>grants := t\<rparr>, n) else None)"

section \<open>Values and errors\<close>

datatype device_err =
    ErrInvalid | ErrInvalidTarget | ErrCollision | ErrRand | ErrQuery | ErrExec exec_err
  | ErrUserSessionNotFound | ErrUserSessionUnauthorized

record grant =
  DeviceCode :: string
  UserCode :: string
  ExpiresAt :: millis
  Interval :: int

datatype poll_status = StatusPending | StatusSlowDown | StatusDenied | StatusExpired | StatusClaimed

record poll_result =
  pr_Status :: poll_status
  pr_ClaimToken :: string
  pr_Subject :: string
  pr_MFAVerified :: bool
  pr_Scopes :: "string list"
  pr_Generation :: string
  pr_Resource :: string

record client_binding =
  cb_ID :: string
  cb_Generation :: string
  cb_Revision :: int
  cb_Resource :: string

definition DefaultExpiry :: int where "DefaultExpiry = 10 * 60 * 1000"
definition DefaultInterval :: int where "DefaultInterval = 5"
definition claimLease :: int where "claimLease = 30 * 1000"

definition status_only :: "poll_status \<Rightarrow> poll_result" where
  "status_only s = \<lparr>pr_Status = s, pr_ClaimToken = '''', pr_Subject = '''', pr_MFAVerified = False,
     pr_Scopes = [], pr_Generation = '''', pr_Resource = ''''\<rparr>"

definition nilIfEmpty :: "string \<Rightarrow> string option" where
  "nilIfEmpty v = (if v = '''' then None else Some v)"

definition orEmpty :: "string option \<Rightarrow> string" where
  "orEmpty v = (case v of None \<Rightarrow> '''' | Some s \<Rightarrow> s)"

section \<open>Codes\<close>

definition user_code_ignored :: "char \<Rightarrow> bool" where
  "user_code_ignored c \<longleftrightarrow> c \<in> {CHR ''-'', CHR '' '', CHR 0x09, CHR 0x0A, CHR 0x0D}"

definition NormalizeUserCode :: "prims \<Rightarrow> string \<Rightarrow> string" where
  "NormalizeUserCode P code = ToUpper P (filter (\<lambda>c. \<not> user_code_ignored c) code)"

text \<open>A read of the random source: the bytes, or an error.\<close>

definition randomCode :: "string option \<Rightarrow> string option" where
  "randomCode rnd = map_option b64_encode rnd"

definition user_code_alphabet :: string where
  "user_code_alphabet = ''ABCDEFGHJKMNPQRSTVWXYZ23456789''"

definition user_code_limit :: nat where
  "user_code_limit = 256 - 256 mod length user_code_alphabet"

text \<open>The rejection-sampling loop over the random bytes; running out of them is the read error.\<close>

fun pick_chars :: "nat \<Rightarrow> nat list \<Rightarrow> string option" where
  "pick_chars 0 rs = Some []"
| "pick_chars (Suc n) [] = None"
| "pick_chars (Suc n) (r # rs) =
     (if r < user_code_limit
      then map_option ((#) (user_code_alphabet ! (r mod length user_code_alphabet))) (pick_chars n rs)
      else pick_chars (Suc n) rs)"

definition format_user_code :: "string \<Rightarrow> string" where
  "format_user_code b = take 4 b @ ''-'' @ take 4 (drop 4 b) @ ''-'' @ drop 8 b"

definition randomUserCode :: "nat list \<Rightarrow> string option" where
  "randomUserCode rs = map_option format_user_code (pick_chars 10 rs)"

definition validResource :: "prims \<Rightarrow> string \<Rightarrow> bool" where
  "validResource P value \<longleftrightarrow>
     \<not> (value = '''' \<or> 2048 < length value \<or> \<not> trimmed value \<or>
        list_ex (\<lambda>c. c \<in> {CHR 0x0D, CHR 0x0A, CHR 0x09}) value) \<and>
     (case url_Parse P value of
        None \<Rightarrow> False
      | Some u \<Rightarrow> url_Scheme u = ''https'' \<and> url_Opaque u = '''' \<and> url_Host u \<noteq> '''' \<and>
          url_Hostname u \<noteq> '''' \<and> \<not> url_has_User u \<and> url_RawQuery u = '''' \<and> \<not> url_ForceQuery u \<and>
          url_Fragment u = '''' \<and> CHR ''#'' \<notin> set value \<and> \<not> list_ex is_space (runes value))"

definition validResourceOrEmpty :: "prims \<Rightarrow> string \<Rightarrow> bool" where
  "validResourceOrEmpty P value \<longleftrightarrow> value = '''' \<or> validResource P value"

section \<open>Creating a grant\<close>

definition new_grant_row ::
  "string \<Rightarrow> string \<Rightarrow> string \<Rightarrow> client_binding \<Rightarrow> string list \<Rightarrow> millis \<Rightarrow> grant_row" where
  "new_grant_row d u client b scopes now =
     \<lparr>g_device = d, g_user = u, g_client = client, g_generation = nilIfEmpty (cb_Generation b),
      g_resource = nilIfEmpty (cb_Resource b), g_scopes = scopes, g_subject = None, g_state = Pending,
      g_attempt = None, g_mfa = False, g_expires = now + DefaultExpiry, g_interval = DefaultInterval,
      g_next_poll = now, g_claim = None, g_claim_until = None, g_created = now,
      g_token_request = None, g_revoked_at = None\<rparr>"

definition create_guard :: "string \<Rightarrow> client_binding \<Rightarrow> device_db \<Rightarrow> bool" where
  "create_guard client b db \<longleftrightarrow>
     (nilIfEmpty (cb_Generation b) = None \<and> \<not> sql_exists (\<lambda>c. mc_id c = client) (managed db)) \<or>
     (nilIfEmpty (cb_Generation b) \<noteq> None \<and>
      sql_exists (\<lambda>c. mc_id c = client \<and> mc_generation c = cb_Generation b \<and>
        mc_revision c = cb_Revision b \<and> mc_enabled c \<and> \<not> mc_deleted c) (managed db))"

definition create_stmt :: "string \<Rightarrow> client_binding \<Rightarrow> grant_row \<Rightarrow> device_db mutation" where
  "create_stmt client b row db =
     (if create_guard client b db then commit_grants db (grants db @ [row]) 1 else Some (db, 0))"

text \<open>The stored row is compared with what this attempt wrote: (recovered, collision).\<close>

definition recoverCreate :: "grant_row \<Rightarrow> device_db \<Rightarrow> bool \<times> bool" where
  "recoverCreate row db =
     (case sql_select (\<lambda>r. g_device r = g_device row \<or> g_user r = g_user row) (grants db) of
        [] \<Rightarrow> (False, False)
      | [r] \<Rightarrow>
          if g_device r = g_device row \<and> g_user r = g_user row \<and> g_client r = g_client row \<and>
             orEmpty (g_generation r) = orEmpty (g_generation row) \<and>
             orEmpty (g_resource r) = orEmpty (g_resource row) \<and> g_scopes r = g_scopes row \<and>
             g_expires r = g_expires row \<and> g_interval r = DefaultInterval
          then (True, False) else (False, True)
      | _ \<Rightarrow> (False, True))"

record create_env =
  ce_device_rnd :: "string option"
  ce_user_rnd :: "nat list"
  ce_exec :: exec_fault
  ce_other :: "device_db \<Rightarrow> device_db"
  ce_query_fails :: bool

fun create_loop ::
  "prims \<Rightarrow> string \<Rightarrow> string list \<Rightarrow> client_binding \<Rightarrow> millis \<Rightarrow> (nat \<Rightarrow> create_env) \<Rightarrow> nat \<Rightarrow> nat \<Rightarrow>
   device_db \<Rightarrow> device_db \<times> (device_err + grant)" where
  "create_loop P client scopes b now env i 0 db = (db, Inl ErrCollision)"
| "create_loop P client scopes b now env i (Suc left) db =
     (let e = env i in
      case randomCode (ce_device_rnd e) of None \<Rightarrow> (db, Inl ErrRand) | Some deviceCode \<Rightarrow>
      (case randomUserCode (ce_user_rnd e) of None \<Rightarrow> (db, Inl ErrRand) | Some userCode \<Rightarrow>
       (let row = new_grant_row (digest P deviceCode) (digest P (NormalizeUserCode P userCode)) client b scopes now;
            g = \<lparr>DeviceCode = deviceCode, UserCode = userCode, ExpiresAt = now + DefaultExpiry,
                 Interval = DefaultInterval\<rparr>
        in case run_execute (ce_exec e) (create_stmt client b row) db of (db1, response) \<Rightarrow>
          (let err = (case response of Inl x \<Rightarrow> Some (ErrExec x)
                                     | Inr n \<Rightarrow> if n \<noteq> 1 then Some ErrInvalid else None)
           in case err of
                None \<Rightarrow> (db1, Inr g)
              | Some x \<Rightarrow>
                  (let db2 = ce_other e db1 in
                   if ce_query_fails e then (db2, Inl x)
                   else case recoverCreate row db2 of (recovered, collision) \<Rightarrow>
                     if recovered then (db2, Inr g)
                     else if \<not> collision then (db2, Inl x)
                     else create_loop P client scopes b now env (Suc i) left db2)))))"

definition create ::
  "prims \<Rightarrow> string \<Rightarrow> string list \<Rightarrow> client_binding \<Rightarrow> millis \<Rightarrow> (nat \<Rightarrow> create_env) \<Rightarrow> device_db \<Rightarrow>
   device_db \<times> (device_err + grant)" where
  "create P client scopes b now env db =
     (let is_managed = cb_ID b \<noteq> '''' \<or> cb_Generation b \<noteq> '''' \<or> cb_Revision b \<noteq> 0 in
      if client = '''' \<or> 32 < length scopes \<or>
         is_managed \<and> (cb_ID b \<noteq> client \<or> cb_Generation b = '''' \<or> cb_Revision b < 1)
      then (db, Inl ErrInvalid)
      else if \<not> validResourceOrEmpty P (cb_Resource b) then (db, Inl ErrInvalidTarget)
      else create_loop P client scopes b now env 0 4 db)"

section \<open>Approving and denying\<close>

text \<open>The session guard of a decision: absent, a blank condition, or a condition of the database
  that is evaluated by the committing statement.\<close>

datatype session_guard = is_none: NoGuard | is_blank: BlankGuard | Guard "device_db \<Rightarrow> bool"

definition guard_holds :: "session_guard \<Rightarrow> device_db \<Rightarrow> bool" where
  "guard_holds g db = (case g of Guard p \<Rightarrow> p db | _ \<Rightarrow> True)"

definition state_text :: "grant_state \<Rightarrow> string" where
  "state_text s = (case s of Pending \<Rightarrow> ''pending'' | Approved \<Rightarrow> ''approved'' | Denied \<Rightarrow> ''denied''
                           | Consumed \<Rightarrow> ''consumed'')"

definition bool_text :: "bool \<Rightarrow> string" where
  "bool_text b = (if b then ''true'' else ''false'')"

definition decide_id :: "prims \<Rightarrow> string \<Rightarrow> grant_state \<Rightarrow> millis \<Rightarrow> bool \<Rightarrow> string \<Rightarrow> string \<Rightarrow> string" where
  "decide_id P d st now mfa subject sessionID =
     ''device-decide/'' @ digest P (d @ ''/'' @ state_text st @ ''/'' @ itoa now @ ''/'' @ bool_text mfa @
       ''/'' @ subject @ ''/'' @ sessionID)"

definition decide_where :: "string \<Rightarrow> grant_state \<Rightarrow> bool \<Rightarrow> session_guard \<Rightarrow> millis \<Rightarrow> device_db \<Rightarrow> grant_row \<Rightarrow> bool" where
  "decide_where d st mfa guard now db r \<longleftrightarrow>
     g_user r = d \<and> g_state r = Pending \<and> now < g_expires r \<and>
     (st = Denied \<or> mfa \<or> \<not> sql_exists (\<lambda>c. mc_id c = g_client r \<and> mc_force_mfa c) (managed db)) \<and>
     guard_holds guard db"

definition decide_set :: "grant_state \<Rightarrow> string \<Rightarrow> string \<Rightarrow> bool \<Rightarrow> grant_row \<Rightarrow> grant_row" where
  "decide_set st subject attempt mfa r =
     r\<lparr>g_state := st, g_subject := nilIfEmpty subject, g_attempt := Some attempt, g_mfa := mfa,
       g_claim := None, g_claim_until := None\<rparr>"

definition decide_stmt ::
  "string \<Rightarrow> string \<Rightarrow> grant_state \<Rightarrow> bool \<Rightarrow> string \<Rightarrow> session_guard \<Rightarrow> millis \<Rightarrow> device_db mutation" where
  "decide_stmt d subject st mfa attempt guard now db =
     (let p = decide_where d st mfa guard now db
      in commit_grants db (sql_update p (decide_set st subject attempt mfa) (grants db)) (sql_count p (grants db)))"

definition decisionApplied :: "string \<Rightarrow> grant_state \<Rightarrow> string \<Rightarrow> string \<Rightarrow> millis \<Rightarrow> device_db \<Rightarrow> bool" where
  "decisionApplied d st subject attempt now db =
     (case sql_select (\<lambda>r. g_user r = d) (grants db) of
        [r] \<Rightarrow> g_state r = st \<and> g_attempt r = Some attempt \<and>
               (st = Approved \<longrightarrow> g_subject r = Some subject) \<and> now < g_expires r
      | _ \<Rightarrow> False)"

record decide_env =
  de_exec :: exec_fault
  de_other :: "device_db \<Rightarrow> device_db"
  de_query_fails :: bool

definition decide ::
  "prims \<Rightarrow> string \<Rightarrow> string \<Rightarrow> grant_state \<Rightarrow> bool \<Rightarrow> string \<Rightarrow> session_guard \<Rightarrow> millis \<Rightarrow> decide_env \<Rightarrow>
   device_db \<Rightarrow> device_db \<times> (device_err + unit)" where
  "decide P userCode subject st mfa sessionID guard now env db =
     (if NormalizeUserCode P userCode = '''' \<or> st = Approved \<and> subject = '''' then (db, Inl ErrInvalid)
      else
        let d = digest P (NormalizeUserCode P userCode);
            attempt = decide_id P d st now mfa subject sessionID
        in if is_blank guard then (db, Inl ErrInvalid)
           else case run_execute (de_exec env) (decide_stmt d subject st mfa attempt guard now) db of
             (db1, Inl x) \<Rightarrow>
               (let db2 = de_other env db1 in
                if \<not> de_query_fails env \<and> decisionApplied d st subject attempt now db2 then (db2, Inr ())
                else (db2, Inl (ErrExec x)))
           | (db1, Inr n) \<Rightarrow> if n \<noteq> 0 then (db1, Inr ()) else (db1, Inl ErrInvalid))"

definition ApproveWithMFA ::
  "prims \<Rightarrow> string \<Rightarrow> string \<Rightarrow> bool \<Rightarrow> millis \<Rightarrow> decide_env \<Rightarrow> device_db \<Rightarrow> device_db \<times> (device_err + unit)" where
  "ApproveWithMFA P userCode subject mfa now env db =
     decide P userCode subject Approved mfa '''' NoGuard now env db"

definition Approve ::
  "prims \<Rightarrow> string \<Rightarrow> string \<Rightarrow> millis \<Rightarrow> decide_env \<Rightarrow> device_db \<Rightarrow> device_db \<times> (device_err + unit)" where
  "Approve P userCode subject now env db = ApproveWithMFA P userCode subject False now env db"

definition ApproveWithMFAAndSessionGuard ::
  "prims \<Rightarrow> string \<Rightarrow> string \<Rightarrow> string \<Rightarrow> bool \<Rightarrow> session_guard \<Rightarrow> millis \<Rightarrow> decide_env \<Rightarrow> device_db \<Rightarrow>
   device_db \<times> (device_err + unit)" where
  "ApproveWithMFAAndSessionGuard P userCode subject sessionID mfa guard now env db =
     (if is_none guard \<or> sessionID = '''' then (db, Inl ErrInvalid)
      else decide P userCode subject Approved mfa sessionID guard now env db)"

definition Deny ::
  "prims \<Rightarrow> string \<Rightarrow> millis \<Rightarrow> decide_env \<Rightarrow> device_db \<Rightarrow> device_db \<times> (device_err + unit)" where
  "Deny P userCode now env db = decide P userCode '''' Denied False '''' NoGuard now env db"

definition DenyWithSessionGuard ::
  "prims \<Rightarrow> string \<Rightarrow> string \<Rightarrow> session_guard \<Rightarrow> millis \<Rightarrow> decide_env \<Rightarrow> device_db \<Rightarrow>
   device_db \<times> (device_err + unit)" where
  "DenyWithSessionGuard P userCode sessionID guard now env db =
     (if is_none guard \<or> sessionID = '''' then (db, Inl ErrInvalid)
      else decide P userCode '''' Denied False sessionID guard now env db)"

section \<open>Polling\<close>

text \<open>Reading a grant by device code and client: a failed read, no row, or the row with its resource
  checked.\<close>

definition load :: "prims \<Rightarrow> bool \<Rightarrow> string \<Rightarrow> string \<Rightarrow> device_db \<Rightarrow> device_err + grant_row option" where
  "load P fails d client db =
     (if fails then Inl ErrQuery
      else case sql_select (\<lambda>r. g_device r = d \<and> g_client r = client) (grants db) of
             [] \<Rightarrow> Inr None
           | [r] \<Rightarrow> (case g_resource r of
                       None \<Rightarrow> Inr (Some r)
                     | Some v \<Rightarrow> if validResource P v then Inr (Some r) else Inl ErrInvalid)
           | _ \<Rightarrow> Inl ErrInvalid)"

text \<open>The fields \<open>claim\<close> and \<open>claimUntil\<close> of the loaded row: zero values where the column is null.\<close>

definition row_claim :: "grant_row \<Rightarrow> string" where
  "row_claim r = orEmpty (g_claim r)"

definition row_claim_until :: "grant_row \<Rightarrow> millis" where
  "row_claim_until r =
     (case g_claim r of None \<Rightarrow> 0 | Some _ \<Rightarrow> (case g_claim_until r of None \<Rightarrow> 0 | Some u \<Rightarrow> u))"

definition poll_where :: "string \<Rightarrow> string \<Rightarrow> millis \<Rightarrow> grant_row \<Rightarrow> grant_row \<Rightarrow> bool" where
  "poll_where d client now seen r \<longleftrightarrow>
     g_device r = d \<and> g_client r = client \<and> g_state r = Pending \<and> now < g_expires r \<and>
     g_next_poll r = g_next_poll seen \<and> g_interval r = g_interval seen"

definition poll_stmt :: "string \<Rightarrow> string \<Rightarrow> millis \<Rightarrow> grant_row \<Rightarrow> millis \<Rightarrow> int \<Rightarrow> device_db mutation" where
  "poll_stmt d client now seen next interval db =
     (let p = poll_where d client now seen
      in commit_grants db (sql_update p (\<lambda>r. r\<lparr>g_next_poll := next, g_interval := interval\<rparr>) (grants db))
           (sql_count p (grants db)))"

definition claim_where :: "string \<Rightarrow> string \<Rightarrow> millis \<Rightarrow> grant_row \<Rightarrow> bool" where
  "claim_where d client now r \<longleftrightarrow>
     g_device r = d \<and> g_client r = client \<and> g_state r = Approved \<and> now < g_expires r \<and>
     (case g_claim_until r of None \<Rightarrow> True | Some u \<Rightarrow> u \<le> now)"

definition claim_stmt :: "string \<Rightarrow> string \<Rightarrow> millis \<Rightarrow> string \<Rightarrow> device_db mutation" where
  "claim_stmt d client now td db =
     (let p = claim_where d client now
      in commit_grants db
           (sql_update p (\<lambda>r. r\<lparr>g_claim := Some td, g_claim_until := Some (now + claimLease)\<rparr>) (grants db))
           (sql_count p (grants db)))"

record poll_env =
  pe_load_fails :: bool
  pe_other :: "device_db \<Rightarrow> device_db"
  pe_rnd :: "string option"
  pe_exec :: exec_fault
  pe_other2 :: "device_db \<Rightarrow> device_db"
  pe_reload_fails :: bool

definition poll_interval :: "millis \<Rightarrow> grant_row \<Rightarrow> int" where
  "poll_interval now r = (if now < g_next_poll r then g_interval r + 5 else g_interval r)"

definition poll_next :: "millis \<Rightarrow> grant_row \<Rightarrow> millis" where
  "poll_next now r =
     (let next = now + poll_interval now r * 1000 in if next < g_next_poll r then g_next_poll r else next)"

text \<open>What the re-read row of a recorded poll is answered with.\<close>

definition poll_fresh_status :: "millis \<Rightarrow> grant_row \<Rightarrow> grant_row \<Rightarrow> poll_status" where
  "poll_fresh_status now row fresh =
     (if g_expires fresh \<le> now \<or> g_state fresh = Consumed then StatusExpired
      else if g_state fresh = Denied then StatusDenied
      else if g_state fresh \<noteq> Pending then StatusSlowDown
      else if poll_next now row \<le> g_next_poll fresh \<and> poll_interval now row \<le> g_interval fresh
        then (if now < g_next_poll row then StatusSlowDown else StatusPending)
      else if now < g_next_poll fresh then StatusSlowDown
      else StatusPending)"

text \<open>The \<open>pending\<close> branch: record the poll under a compare-and-swap on what was read, then read again.\<close>

definition poll_pending ::
  "prims \<Rightarrow> string \<Rightarrow> string \<Rightarrow> millis \<Rightarrow> poll_env \<Rightarrow> grant_row \<Rightarrow> device_db \<Rightarrow>
   device_db \<times> (device_err + poll_result)" where
  "poll_pending P d client now env row db =
     (case run_execute (pe_exec env)
             (poll_stmt d client now row (poll_next now row) (poll_interval now row)) db of
        (db1, Inl x) \<Rightarrow> (db1, Inl (ErrExec x))
      | (db1, Inr n) \<Rightarrow>
          if n = 0 then (db1, Inr (status_only StatusSlowDown))
          else
            let db2 = pe_other2 env db1 in
            (case load P (pe_reload_fails env) d client db2 of
               Inl e \<Rightarrow> (db2, Inl e)
             | Inr None \<Rightarrow> (db2, Inr (status_only StatusExpired))
             | Inr (Some fresh) \<Rightarrow> (db2, Inr (status_only (poll_fresh_status now row fresh)))))"

text \<open>The \<open>approved\<close> branch: take the claim lease and return a token only if the re-read row holds it.\<close>

definition claimed_result :: "string \<Rightarrow> grant_row \<Rightarrow> poll_result" where
  "claimed_result token fresh =
     \<lparr>pr_Status = StatusClaimed, pr_ClaimToken = token, pr_Subject = orEmpty (g_subject fresh),
      pr_MFAVerified = g_mfa fresh, pr_Scopes = g_scopes fresh,
      pr_Generation = orEmpty (g_generation fresh), pr_Resource = orEmpty (g_resource fresh)\<rparr>"

definition poll_approved ::
  "prims \<Rightarrow> string \<Rightarrow> string \<Rightarrow> millis \<Rightarrow> poll_env \<Rightarrow> grant_row \<Rightarrow> device_db \<Rightarrow>
   device_db \<times> (device_err + poll_result)" where
  "poll_approved P d client now env row db =
     (if now < row_claim_until row then (db, Inr (status_only StatusSlowDown))
      else case randomCode (pe_rnd env) of
             None \<Rightarrow> (db, Inl ErrRand)
           | Some token \<Rightarrow>
               (case run_execute (pe_exec env) (claim_stmt d client now (digest P token)) db of
                  (db1, Inl x) \<Rightarrow> (db1, Inl (ErrExec x))
                | (db1, Inr n) \<Rightarrow>
                    let db2 = pe_other2 env db1 in
                    (case load P (pe_reload_fails env) d client db2 of
                       Inl e \<Rightarrow> (db2, Inl e)
                     | Inr None \<Rightarrow> (db2, Inr (status_only StatusSlowDown))
                     | Inr (Some fresh) \<Rightarrow>
                         if row_claim fresh \<noteq> digest P token then (db2, Inr (status_only StatusSlowDown))
                         else (db2, Inr (claimed_result token fresh)))))"

definition Poll ::
  "prims \<Rightarrow> string \<Rightarrow> string \<Rightarrow> millis \<Rightarrow> poll_env \<Rightarrow> device_db \<Rightarrow> device_db \<times> (device_err + poll_result)" where
  "Poll P deviceCode client now env db =
     (if deviceCode = '''' \<or> client = '''' then (db, Inl ErrInvalid)
      else
        let d = digest P deviceCode in
        (case load P (pe_load_fails env) d client db of
           Inl e \<Rightarrow> (db, Inl e)
         | Inr None \<Rightarrow> (db, Inr (status_only StatusExpired))
         | Inr (Some row) \<Rightarrow>
             if g_expires row \<le> now then (db, Inr (status_only StatusExpired))
             else
               let db1 = pe_other env db in
               (case g_state row of
                  Denied \<Rightarrow> (db1, Inr (status_only StatusDenied))
                | Consumed \<Rightarrow> (db1, Inr (status_only StatusExpired))
                | Pending \<Rightarrow> poll_pending P d client now env row db1
                | Approved \<Rightarrow> poll_approved P d client now env row db1)))"

section \<open>Completing, consuming and revoking\<close>

definition complete_where :: "string \<Rightarrow> millis \<Rightarrow> grant_row \<Rightarrow> bool" where
  "complete_where td now r \<longleftrightarrow>
     g_claim r = Some td \<and> (case g_claim_until r of None \<Rightarrow> False | Some u \<Rightarrow> now < u) \<and>
     g_state r = Approved"

definition complete_stmt :: "string \<Rightarrow> grant_state \<Rightarrow> millis \<Rightarrow> device_db mutation" where
  "complete_stmt td st now db =
     commit_grants db
       (sql_update (complete_where td now) (\<lambda>r. r\<lparr>g_state := st, g_claim := None, g_claim_until := None\<rparr>) (grants db))
       (sql_count (complete_where td now) (grants db))"

definition Complete ::
  "prims \<Rightarrow> string \<Rightarrow> bool \<Rightarrow> millis \<Rightarrow> exec_fault \<Rightarrow> device_db \<Rightarrow> device_db \<times> (device_err + unit)" where
  "Complete P claimToken success now f db =
     (if claimToken = '''' then (db, Inl ErrInvalid)
      else case run_execute f (complete_stmt (digest P claimToken) (if success then Consumed else Approved) now) db of
             (db1, Inl x) \<Rightarrow> (db1, Inl (ErrExec x))
           | (db1, Inr _) \<Rightarrow> (db1, Inr ()))"

text \<open>The guard under which the token endpoint consumes a grant. \<open>live\<close> says that the subject's
  account is enabled and not expired and that the account guard of the transaction holds.\<close>

definition deviceGuard :: "(string \<Rightarrow> bool) \<Rightarrow> string \<Rightarrow> string \<Rightarrow> millis \<Rightarrow> device_db \<Rightarrow> grant_row \<Rightarrow> bool" where
  "deviceGuard live d td now db r \<longleftrightarrow>
     g_device r = d \<and> g_claim r = Some td \<and> g_state r = Approved \<and>
     (case g_claim_until r of None \<Rightarrow> False | Some u \<Rightarrow> now < u) \<and> now < g_expires r \<and>
     (case g_subject r of None \<Rightarrow> False | Some s \<Rightarrow> live s) \<and>
     (g_generation r \<noteq> None \<or> \<not> sql_exists (\<lambda>c. mc_id c = g_client r) (managed db)) \<and>
     (case g_generation r of
        None \<Rightarrow> True
      | Some gen \<Rightarrow> sql_exists (\<lambda>c. mc_id c = g_client r \<and> mc_generation c = gen \<and> mc_enabled c \<and>
                     \<not> mc_deleted c \<and> (\<not> mc_force_mfa c \<or> g_mfa r)) (managed db))"

text \<open>The consuming statement expects exactly one row, otherwise the whole issuing transaction is
  rejected.\<close>

definition consume_stmt :: "(string \<Rightarrow> bool) \<Rightarrow> string \<Rightarrow> string \<Rightarrow> string \<Rightarrow> millis \<Rightarrow> device_db mutation" where
  "consume_stmt live d td request now db =
     (let p = (\<lambda>r. g_device r = d \<and> sql_exists (deviceGuard live d td now db) (grants db))
      in if sql_count p (grants db) \<noteq> 1 then None
         else commit_grants db
                (sql_update p (\<lambda>r. r\<lparr>g_state := Consumed, g_claim_until := Some 0, g_token_request := Some request\<rparr>)
                   (grants db)) 1)"

text \<open>The device branch of the transaction's \<^verbatim>\<open>Commit\<close>: a rejected statement is a
  serialization failure, and so is a committed one whose row does not carry this claim.\<close>

datatype commit_err = ErrSerializationFailure | CommitExec | CommitQuery

definition commit_device ::
  "(string \<Rightarrow> bool) \<Rightarrow> string \<Rightarrow> string \<Rightarrow> string \<Rightarrow> millis \<Rightarrow> exec_fault \<Rightarrow> bool \<Rightarrow> device_db \<Rightarrow>
   device_db \<times> (commit_err + unit)" where
  "commit_device live d td request now f query_fails db =
     (case run_execute f (consume_stmt live d td request now) db of
        (db1, Inl Exec_Rejected) \<Rightarrow> (db1, Inl ErrSerializationFailure)
      | (db1, Inl Exec_Unavailable) \<Rightarrow> (db1, Inl CommitExec)
      | (db1, Inr _) \<Rightarrow>
          if query_fails then (db1, Inl CommitQuery)
          else if length (sql_select (\<lambda>r. g_device r = d \<and> g_claim r = Some td \<and> g_state r = Consumed) (grants db1)) \<noteq> 1
          then (db1, Inl ErrSerializationFailure) else (db1, Inr ()))"

text \<open>Revoking a user's device session, on the table of grants; the statement also counts the rows
  of the token tables it removes, which are the argument \<open>tokens\<close>.\<close>

definition revoke_where :: "string \<Rightarrow> string \<Rightarrow> bool \<Rightarrow> grant_row \<Rightarrow> bool" where
  "revoke_where owner i authority r \<longleftrightarrow>
     g_token_request r = Some i \<and> g_subject r = Some owner \<and> g_state r = Consumed \<and> authority"

definition revoke_stmt :: "string \<Rightarrow> string \<Rightarrow> bool \<Rightarrow> millis \<Rightarrow> (device_db \<Rightarrow> int) \<Rightarrow> device_db mutation" where
  "revoke_stmt owner i authority now tokens db =
     (let p = revoke_where owner i authority
      in commit_grants db
           (sql_update p (\<lambda>r. r\<lparr>g_revoked_at := (case g_revoked_at r of None \<Rightarrow> Some now | Some u \<Rightarrow> Some u)\<rparr>) (grants db))
           (sql_count p (grants db) + (if sql_exists p (grants db) then tokens db else 0)))"

definition RevokeUserSession ::
  "string \<Rightarrow> string \<Rightarrow> bool option \<Rightarrow> millis \<Rightarrow> (device_db \<Rightarrow> int) \<Rightarrow> exec_fault \<Rightarrow> device_db \<Rightarrow>
   device_db \<times> (device_err + unit)" where
  "RevokeUserSession owner i authority now tokens f db =
     (if owner = '''' \<or> i = '''' \<or> CHR 0x00 \<in> set i \<or> CHR 0x0A \<in> set i then (db, Inl ErrInvalid)
      else case authority of
             None \<Rightarrow> (db, Inl ErrUserSessionUnauthorized)
           | Some a \<Rightarrow>
               (case run_execute f (revoke_stmt owner i a now tokens) db of
                  (db1, Inl x) \<Rightarrow> (db1, Inl (ErrExec x))
                | (db1, Inr n) \<Rightarrow> if n = 0 then (db1, Inl ErrUserSessionNotFound) else (db1, Inr ())))"

text \<open>The statements on this table in the transactions that log a user out, disable an account or
  let it expire, and in those that delete a user or a registered client. The condition of the
  transaction is the argument \<open>allowed\<close>.\<close>

definition deny_subject_stmt :: "string \<Rightarrow> bool \<Rightarrow> device_db mutation" where
  "deny_subject_stmt subject allowed db =
     (let p = (\<lambda>r. g_subject r = Some subject \<and> (g_state r = Pending \<or> g_state r = Approved) \<and> allowed)
      in commit_grants db
           (sql_update p (\<lambda>r. r\<lparr>g_state := Denied, g_claim := None, g_claim_until := None\<rparr>) (grants db))
           (sql_count p (grants db)))"

definition delete_subject_stmt :: "string \<Rightarrow> bool \<Rightarrow> device_db mutation" where
  "delete_subject_stmt subject allowed db =
     (let p = (\<lambda>r. g_subject r = Some subject \<and> allowed)
      in commit_grants db (sql_delete p (grants db)) (sql_count p (grants db)))"

definition delete_client_stmt :: "string list \<Rightarrow> bool \<Rightarrow> device_db mutation" where
  "delete_client_stmt clients allowed db =
     (let p = (\<lambda>r. g_client r \<in> set clients \<and> allowed)
      in commit_grants db (sql_delete p (grants db)) (sql_count p (grants db)))"

section \<open>Reviewing\<close>

record review =
  rv_ClientID :: string
  rv_Scopes :: "string list"
  rv_Resource :: string
  rv_ForceMFA :: bool

definition validUserCode :: "string \<Rightarrow> bool" where
  "validUserCode value \<longleftrightarrow>
     utf8_valid value \<and> trimmed value \<and> 4 \<le> length value \<and> length value \<le> 64 \<and>
     list_all (\<lambda>r. 65 \<le> r \<and> r \<le> 90 \<or> 97 \<le> r \<and> r \<le> 122 \<or> 48 \<le> r \<and> r \<le> 57 \<or> r = 45) (runes value)"

text \<open>The LEFT JOIN of the grants with the managed clients, and its WHERE clause.\<close>

definition review_join :: "device_db \<Rightarrow> (grant_row \<times> managed_client option) list" where
  "review_join db =
     concat (map (\<lambda>g.
       (case filter (\<lambda>c. mc_id c = g_client g) (managed db) of
          [] \<Rightarrow> [(g, None)]
        | cs \<Rightarrow> map (\<lambda>c. (g, Some c)) cs)) (grants db))"

definition review_where :: "string \<Rightarrow> millis \<Rightarrow> grant_row \<times> managed_client option \<Rightarrow> bool" where
  "review_where d now gc =
     (case gc of (g, c) \<Rightarrow>
        g_user g = d \<and> g_state g = Pending \<and> now < g_expires g \<and>
        (case c of
           None \<Rightarrow> g_generation g = None
         | Some m \<Rightarrow> g_generation g = Some (mc_generation m) \<and> mc_enabled m \<and> \<not> mc_deleted m))"

definition Review :: "prims \<Rightarrow> string \<Rightarrow> millis \<Rightarrow> bool \<Rightarrow> device_db \<Rightarrow> device_err + review" where
  "Review P userCode now fails db =
     (let normalized = NormalizeUserCode P userCode in
      if \<not> validUserCode normalized then Inl ErrInvalid
      else if fails then Inl ErrQuery
      else case filter (review_where (digest P normalized) now) (review_join db) of
             [(g, c)] \<Rightarrow>
               if g_client g = '''' \<or> \<not> validResourceOrEmpty P (orEmpty (g_resource g)) then Inl ErrInvalid
               else Inr \<lparr>rv_ClientID = g_client g, rv_Scopes = g_scopes g, rv_Resource = orEmpty (g_resource g),
                         rv_ForceMFA = (case c of None \<Rightarrow> False | Some m \<Rightarrow> mc_force_mfa m)\<rparr>
           | _ \<Rightarrow> Inl ErrInvalid)"

section \<open>The quota of the device endpoints\<close>

definition device_Allow ::
  "prims \<Rightarrow> string \<Rightarrow> millis \<Rightarrow> int \<Rightarrow> int \<Rightarrow> bool \<Rightarrow> exec_fault \<Rightarrow> bool \<Rightarrow> rate_row list \<Rightarrow>
   rate_row list \<times> (device_err + bool)" where
  "device_Allow P key now window_ns limit rand_fails f query_fails t =
     (let w = go_div window_ns 1000000 in
      if key = '''' \<or> window_ns \<le> 0 \<or> w \<le> 0 \<or> limit \<le> 0 then (t, Inl ErrInvalid)
      else if rand_fails then (t, Inl ErrRand)
      else
        let q = \<lparr>rq_key = digest P key, rq_window = w, rq_limit = limit, rq_now = now\<rparr> in
        (case run_execute f (rate_upsert limit (rate_new_row q)) t of
           (t1, Inl x) \<Rightarrow> (t1, Inl (ErrExec x))
         | (t1, Inr n) \<Rightarrow>
             if query_fails then (t1, Inl ErrQuery)
             else (case sql_select (\<lambda>r. rl_key r = digest P key) t1 of
                     [r] \<Rightarrow>
                       if rl_window_start r \<noteq> rate_window_start q \<or> rl_count r < 1 \<or> limit < rl_count r
                       then (t1, Inl ErrInvalid) else (t1, Inr (n \<noteq> 0))
                   | _ \<Rightarrow> (t1, Inl ErrInvalid))))"

end
