(* ===== verification/Stuffing.thy ===== *)
theory Stuffing
  imports Encoding
begin

text \<open>
  Credential-stuffing detection of \<^verbatim>\<open>internal/loginpolicy/credential_stuffing.go\<close>:
  failures of an account are counted by distinct source address and window, and five sources lock the
  account. The state is the tables \<^verbatim>\<open>login_account_ip_failures\<close> and
  \<^verbatim>\<open>login_account_locks\<close> and the security events.
\<close>

section \<open>State\<close>

definition StuffingWindow :: int where "StuffingWindow = 600000"
definition StuffingThreshold :: int where "StuffingThreshold = 5"
definition AccountLockDuration :: int where "AccountLockDuration = 1800000"
definition StuffingEntryTTL :: int where "StuffingEntryTTL = StuffingWindow * 2"

lemmas stuffing_consts = StuffingWindow_def StuffingThreshold_def AccountLockDuration_def StuffingEntryTTL_def

record source_row =
  sr_key :: string
  sr_account :: string
  sr_ip :: string
  sr_window :: millis
  sr_expires :: millis

record lock_row =
  lk_account :: string
  lk_until :: millis
  lk_reason :: string
  lk_created :: millis

record stuffing_db =
  sources :: "source_row list"
  locks :: "lock_row list"
  stuffing_events :: "(string \<times> string \<times> int \<times> millis) list"

datatype stuffing_err = SErrInvalid | SErrRand | SErrQuery | SErrExec exec_err

record account_status =
  DistinctIPs :: int
  LockedUntil :: "millis option"
  WindowStart :: millis

section \<open>Digests\<close>

definition AccountStuffingDigest :: "prims \<Rightarrow> string \<Rightarrow> string" where
  "AccountStuffingDigest P subject = b64_encode (sha256 P (''login-account/'' @ subject))"

definition accountStuffingIPDigest :: "prims \<Rightarrow> string \<Rightarrow> string \<Rightarrow> millis \<Rightarrow> string" where
  "accountStuffingIPDigest P account ip w =
     b64_encode (sha256 P (''stuffing-ip/'' @ account @ ''/'' @ ip @ ''/'' @ itoa w))"

definition ipDigest :: "prims \<Rightarrow> string \<Rightarrow> string" where
  "ipDigest P ip = b64_encode (sha256 P (''ip/'' @ ip))"

section \<open>Recording a failure\<close>

definition source_stmt :: "source_row \<Rightarrow> stuffing_db mutation" where
  "source_stmt new db =
     (if sql_exists (\<lambda>r. sr_key r = sr_key new) (sources db)
      then Some (db\<lparr>sources := sql_update (\<lambda>r. sr_key r = sr_key new)
                   (\<lambda>r. r\<lparr>sr_expires := max (sr_expires r) (sr_expires new)\<rparr>) (sources db)\<rparr>, 1)
      else Some (db\<lparr>sources := sources db @ [new]\<rparr>, 1))"

definition distinct_sources :: "string \<Rightarrow> millis \<Rightarrow> millis \<Rightarrow> stuffing_db \<Rightarrow> int" where
  "distinct_sources account w now db =
     int (length (remdups (map sr_ip
       (sql_select (\<lambda>r. sr_account r = account \<and> sr_window r = w \<and> now < sr_expires r) (sources db)))))"

definition extend_lock :: "lock_row \<Rightarrow> lock_row \<Rightarrow> lock_row" where
  "extend_lock new r =
     r\<lparr>lk_until := max (lk_until r) (lk_until new),
       lk_reason := (if lk_until r < lk_until new then lk_reason new else lk_reason r),
       lk_created := (if lk_until r < lk_until new then lk_created new else lk_created r)\<rparr>"

definition lock_stmt :: "string \<Rightarrow> millis \<Rightarrow> millis \<Rightarrow> stuffing_db mutation" where
  "lock_stmt account until now db =
     (let new = \<lparr>lk_account = account, lk_until = until, lk_reason = ''credential_stuffing'', lk_created = now\<rparr>
      in if sql_exists (\<lambda>r. lk_account r = account) (locks db)
         then Some (db\<lparr>locks := sql_update (\<lambda>r. lk_account r = account) (extend_lock new) (locks db)\<rparr>, 1)
         else Some (db\<lparr>locks := locks db @ [new]\<rparr>, 1))"

definition event_stmt :: "string \<times> string \<times> int \<times> millis \<Rightarrow> stuffing_db mutation" where
  "event_stmt ev db = Some (db\<lparr>stuffing_events := stuffing_events db @ [ev]\<rparr>, 1)"

record record_env =
  re_rnd :: "string option"
  re_exec :: exec_fault
  re_other :: "stuffing_db \<Rightarrow> stuffing_db"
  re_query_fails :: bool
  re_lock_rnd :: "string option"
  re_other2 :: "stuffing_db \<Rightarrow> stuffing_db"
  re_lock_exec :: exec_fault
  re_event_rnd :: "string option"
  re_event_valid :: bool
  re_event_exec :: exec_fault

text \<open>The event is best effort: its errors are dropped.\<close>

definition emit_stuffing :: "record_env \<Rightarrow> string \<Rightarrow> string \<Rightarrow> int \<Rightarrow> millis \<Rightarrow> stuffing_db \<Rightarrow> stuffing_db" where
  "emit_stuffing env account ip n now db =
     (case re_event_rnd env of
        None \<Rightarrow> db
      | Some _ \<Rightarrow> if re_event_valid env then fst (run_execute (re_event_exec env) (event_stmt (account, ip, n, now)) db)
                 else db)"

definition RecordAccountFailure ::
  "prims \<Rightarrow> string \<Rightarrow> string \<Rightarrow> millis \<Rightarrow> record_env \<Rightarrow> stuffing_db \<Rightarrow>
   stuffing_db \<times> (stuffing_err + account_status \<times> bool)" where
  "RecordAccountFailure P account ip now env db =
     (if account = '''' \<or> ip = '''' then (db, Inl SErrInvalid)
      else
        let w = go_div now StuffingWindow * StuffingWindow;
            new = \<lparr>sr_key = accountStuffingIPDigest P account ip w, sr_account = account, sr_ip = ipDigest P ip,
                   sr_window = w, sr_expires = now + StuffingEntryTTL\<rparr>
        in case re_rnd env of None \<Rightarrow> (db, Inl SErrRand) | Some _ \<Rightarrow>
           (case run_execute (re_exec env) (source_stmt new) db of
              (db1, Inl x) \<Rightarrow> (db1, Inl (SErrExec x))
            | (db1, Inr _) \<Rightarrow>
                let db2 = re_other env db1 in
                if re_query_fails env then (db2, Inl SErrQuery)
                else
                  let n = distinct_sources account w now db2;
                      st = \<lparr>DistinctIPs = n, LockedUntil = None, WindowStart = w\<rparr>
                  in if n < StuffingThreshold then (db2, Inr (st, False))
                     else case re_lock_rnd env of None \<Rightarrow> (db2, Inl SErrRand) | Some _ \<Rightarrow>
                       (let until = now + AccountLockDuration;
                            db3 = re_other2 env db2
                        in case run_execute (re_lock_exec env) (lock_stmt account until now) db3 of
                             (db4, Inl x) \<Rightarrow> (db4, Inl (SErrExec x))
                           | (db4, Inr _) \<Rightarrow>
                               (emit_stuffing env account ip n now db4,
                                Inr (st\<lparr>LockedUntil := Some until\<rparr>, True)))))"

section \<open>Checking, clearing, cleaning up\<close>

definition CheckAccountLock :: "string \<Rightarrow> millis \<Rightarrow> bool \<Rightarrow> stuffing_db \<Rightarrow> stuffing_err + bool \<times> int" where
  "CheckAccountLock account now fails db =
     (if account = '''' then Inl SErrInvalid
      else if fails then Inl SErrQuery
      else case sql_select (\<lambda>r. lk_account r = account) (locks db) of
             [] \<Rightarrow> Inr (False, 0)
           | [r] \<Rightarrow> if now < lk_until r then Inr (True, lk_until r - now) else Inr (False, 0)
           | _ \<Rightarrow> Inl SErrInvalid)"

definition unlock_stmt :: "string \<Rightarrow> stuffing_db mutation" where
  "unlock_stmt account db =
     Some (db\<lparr>locks := sql_delete (\<lambda>r. lk_account r = account) (locks db)\<rparr>, sql_count (\<lambda>r. lk_account r = account) (locks db))"

definition ClearAccountLock ::
  "string \<Rightarrow> bool \<Rightarrow> (stuffing_db \<Rightarrow> stuffing_db) \<Rightarrow> string option \<Rightarrow> exec_fault \<Rightarrow> stuffing_db \<Rightarrow>
   stuffing_db \<times> (stuffing_err + unit)" where
  "ClearAccountLock account fails other rnd f db =
     (if account = '''' then (db, Inl SErrInvalid)
      else if fails then (db, Inl SErrQuery)
      else if sql_select (\<lambda>r. lk_account r = account) (locks db) = [] then (db, Inr ())
      else case rnd of None \<Rightarrow> (db, Inl SErrRand) | Some _ \<Rightarrow>
        (case run_execute f (unlock_stmt account) (other db) of
           (db1, Inl x) \<Rightarrow> (db1, Inl (SErrExec x))
         | (db1, Inr _) \<Rightarrow> (db1, Inr ())))"

definition cleanup_stmt :: "millis \<Rightarrow> stuffing_db mutation" where
  "cleanup_stmt now db =
     Some (db\<lparr>sources := sql_delete (\<lambda>r. sr_expires r \<le> now) (sources db)\<rparr>, sql_count (\<lambda>r. sr_expires r \<le> now) (sources db))"

definition CleanupStuffingEntries ::
  "millis \<Rightarrow> string option \<Rightarrow> exec_fault \<Rightarrow> stuffing_db \<Rightarrow> stuffing_db \<times> (stuffing_err + int)" where
  "CleanupStuffingEntries now rnd f db =
     (case rnd of None \<Rightarrow> (db, Inl SErrRand) | Some _ \<Rightarrow>
        (case run_execute f (cleanup_stmt now) db of
           (db1, Inl x) \<Rightarrow> (db1, Inl (SErrExec x))
         | (db1, Inr n) \<Rightarrow> (db1, Inr n)))"

section \<open>Five sources lock the account\<close>

lemma window_bounds:
  assumes "0 \<le> now" "w = go_div now StuffingWindow * StuffingWindow"
  shows "w \<le> now" "now < w + StuffingWindow" "0 \<le> w"
proof -
  have "now = now div 600000 * 600000 + now mod 600000" by simp
  moreover have "0 \<le> now mod 600000" "now mod 600000 < 600000" by simp_all
  moreover have w: "w = now div 600000 * 600000" using assms by (simp add: StuffingWindow_def)
  ultimately show "w \<le> now" "now < w + StuffingWindow" unfolding StuffingWindow_def by linarith+
  show "0 \<le> w" using w assms(1) by (simp add: pos_imp_zdiv_nonneg_iff)
qed

definition quiet :: "record_env \<Rightarrow> bool" where
  "quiet env \<longleftrightarrow> re_rnd env \<noteq> None \<and> re_exec env = Exec_Ok \<and> re_other env = (\<lambda>x. x) \<and> \<not> re_query_fails env \<and>
     re_lock_rnd env \<noteq> None \<and> re_other2 env = (\<lambda>x. x) \<and> re_lock_exec env = Exec_Ok"

text \<open>The failures of one account in one window, one after the other.\<close>

fun failures_of :: "prims \<Rightarrow> string \<Rightarrow> record_env \<Rightarrow> (string \<times> millis) list \<Rightarrow> stuffing_db \<Rightarrow> stuffing_db" where
  "failures_of P account env [] db = db"
| "failures_of P account env ((ip, now) # es) db =
     failures_of P account env es (fst (RecordAccountFailure P account ip now env db))"

text \<open>The table records exactly the addresses \<open>ips\<close> for the window.\<close>

definition recorded :: "prims \<Rightarrow> string \<Rightarrow> millis \<Rightarrow> string list \<Rightarrow> stuffing_db \<Rightarrow> bool" where
  "recorded P account w ips db \<longleftrightarrow>
     map sr_ip (sources db) = map (ipDigest P) ips \<and>
     map sr_key (sources db) = map (\<lambda>ip. accountStuffingIPDigest P account ip w) ips \<and>
     (\<forall>r \<in> set (sources db). sr_account r = account \<and> sr_window r = w \<and> w + StuffingEntryTTL \<le> sr_expires r)"

lemma sql_exists_column: "sql_exists (\<lambda>r. k r = v) t \<longleftrightarrow> v \<in> set (map k t)"
  by (induction t) (auto simp: sql_exists_def)

lemma recorded_new:
  assumes "recorded P account w ips db" "accountStuffingIPDigest P account ip w \<notin> set (map (\<lambda>x. accountStuffingIPDigest P account x w) ips)"
    and "w \<le> now" "new = \<lparr>sr_key = accountStuffingIPDigest P account ip w, sr_account = account, sr_ip = ipDigest P ip,
                   sr_window = w, sr_expires = now + StuffingEntryTTL\<rparr>"
  shows "source_stmt new db = Some (db\<lparr>sources := sources db @ [new]\<rparr>, 1)"
    and "recorded P account w (ips @ [ip]) (db\<lparr>sources := sources db @ [new]\<rparr>)"
proof -
  have "sr_key new \<notin> set (map sr_key (sources db))" using assms(1,2,4) by (simp add: recorded_def)
  then have "\<not> sql_exists (\<lambda>r. sr_key r = sr_key new) (sources db)"
    by (simp only: sql_exists_column not_False_eq_True)
  then show "source_stmt new db = Some (db\<lparr>sources := sources db @ [new]\<rparr>, 1)" by (simp add: source_stmt_def)
  show "recorded P account w (ips @ [ip]) (db\<lparr>sources := sources db @ [new]\<rparr>)"
    using assms(1,3,4) by (auto simp: recorded_def)
qed

lemma recorded_count:
  assumes "recorded P account w ips db" "distinct (map (ipDigest P) ips)" "now < w + StuffingEntryTTL"
  shows "distinct_sources account w now db = int (length ips)"
proof -
  have "sql_select (\<lambda>r. sr_account r = account \<and> sr_window r = w \<and> now < sr_expires r) (sources db) = sources db"
    using assms(1,3) by (auto simp: recorded_def sql_select_def filter_id_conv)
  then show ?thesis using assms(1,2)
    by (simp add: distinct_sources_def recorded_def distinct_remdups_id)
qed

text \<open>What every statement keeps of the locks: one row per account, and no lock ends earlier.\<close>

definition locks_extend :: "stuffing_db \<Rightarrow> stuffing_db \<Rightarrow> bool" where
  "locks_extend db db' \<longleftrightarrow>
     (\<forall>r \<in> set (locks db). \<exists>r' \<in> set (locks db'). lk_account r' = lk_account r \<and> lk_until r \<le> lk_until r')"

definition locks_inv :: "stuffing_db \<Rightarrow> bool" where
  "locks_inv db \<longleftrightarrow> sql_unique lk_account (locks db)"

lemma locks_extend_refl: "locks db' = locks db \<Longrightarrow> locks_extend db db'"
  by (auto simp: locks_extend_def)

lemma locks_extend_trans: "locks_extend a b \<Longrightarrow> locks_extend b c \<Longrightarrow> locks_extend a c"
  unfolding locks_extend_def by (fastforce intro: order_trans)

lemma extend_lock_key [simp]: "lk_account (extend_lock new r) = lk_account r"
  by (simp add: extend_lock_def)

lemma lock_stmt_spec:
  assumes "lock_stmt account until now db = Some (db', n)" "locks_inv db"
  shows "sources db' = sources db" "locks_inv db'" "locks_extend db db'"
    "\<exists>r \<in> set (locks db'). lk_account r = account \<and> until \<le> lk_until r"
proof -
  let ?new = "\<lparr>lk_account = account, lk_until = until, lk_reason = ''credential_stuffing'', lk_created = now\<rparr>"
  have "sources db' = sources db \<and> locks_inv db' \<and> locks_extend db db' \<and>
      (\<exists>r \<in> set (locks db'). lk_account r = account \<and> until \<le> lk_until r)"
  proof (cases "sql_exists (\<lambda>r. lk_account r = account) (locks db)")
    case True
    then have db': "db' = db\<lparr>locks := sql_update (\<lambda>r. lk_account r = account) (extend_lock ?new) (locks db)\<rparr>"
      using assms(1) by (simp add: lock_stmt_def Let_def)
    have "locks_extend db db'"
      unfolding locks_extend_def
    proof
      fix r assume r: "r \<in> set (locks db)"
      show "\<exists>r' \<in> set (locks db'). lk_account r' = lk_account r \<and> lk_until r \<le> lk_until r'"
      proof (cases "lk_account r = account")
        case True
        then have "extend_lock ?new r \<in> set (locks db')" using r db' by (auto simp: set_sql_update)
        then show ?thesis by (rule bexI [rotated]) (simp add: extend_lock_def)
      next
        case False
        then have "r \<in> set (locks db')" using r db' by (auto simp: set_sql_update)
        then show ?thesis by auto
      qed
    qed
    moreover obtain r where "r \<in> set (locks db)" "lk_account r = account" using True by (auto simp: sql_exists_iff)
    then have "extend_lock ?new r \<in> set (locks db')" "lk_account (extend_lock ?new r) = account"
      "until \<le> lk_until (extend_lock ?new r)"
      using db' by (auto simp: set_sql_update) (simp add: extend_lock_def)
    moreover have "locks_inv db'" using db' assms(2) by (auto simp: locks_inv_def)
    moreover have "sources db' = sources db" using db' by simp
    ultimately show ?thesis by blast
  next
    case False
    then have "db' = db\<lparr>locks := locks db @ [?new]\<rparr>" using assms(1) by (simp add: lock_stmt_def Let_def)
    then show ?thesis using False assms(2)
      by (auto simp: locks_inv_def sql_unique_insert sql_exists_iff locks_extend_def)
  qed
  then show "sources db' = sources db" "locks_inv db'" "locks_extend db db'"
    "\<exists>r \<in> set (locks db'). lk_account r = account \<and> until \<le> lk_until r" by simp_all
qed

lemma emit_frame: "sources (emit_stuffing env a ip n now db) = sources db" "locks (emit_stuffing env a ip n now db) = locks db"
  by (auto simp: emit_stuffing_def run_execute_def event_stmt_def split: option.split exec_fault.split)

lemma record_step:
  assumes "recorded P account w ips db" "locks_inv db" "quiet env" "account \<noteq> ''''" "ip \<noteq> ''''"
    and "0 \<le> now" "go_div now StuffingWindow * StuffingWindow = w"
    and "distinct (map (ipDigest P) (ips @ [ip]))" "distinct (map (\<lambda>x. accountStuffingIPDigest P account x w) (ips @ [ip]))"
    and "RecordAccountFailure P account ip now env db = (db', res)"
  shows "recorded P account w (ips @ [ip]) db'" "locks_inv db'" "locks_extend db db'"
    "\<exists>st. res = Inr (st, 5 \<le> length (ips @ [ip]))"
    "5 \<le> length (ips @ [ip]) \<Longrightarrow> \<exists>r \<in> set (locks db'). lk_account r = account \<and> now + 1800000 \<le> lk_until r"
proof -
  let ?new = "\<lparr>sr_key = accountStuffingIPDigest P account ip w, sr_account = account, sr_ip = ipDigest P ip,
                   sr_window = w, sr_expires = now + StuffingEntryTTL\<rparr>"
  let ?db1 = "db\<lparr>sources := sources db @ [?new]\<rparr>"
  have w: "w \<le> now" "now < w + StuffingWindow" using window_bounds [OF assms(6) assms(7) [symmetric]] by simp_all
  have fresh: "accountStuffingIPDigest P account ip w \<notin> set (map (\<lambda>x. accountStuffingIPDigest P account x w) ips)"
    using assms(9) by simp
  have src: "source_stmt ?new db = Some (?db1, 1)" and rec: "recorded P account w (ips @ [ip]) ?db1"
    using recorded_new [OF assms(1) fresh w(1) refl] by simp_all
  have "now < w + StuffingEntryTTL" using w by (simp add: StuffingEntryTTL_def StuffingWindow_def)
  then have count: "distinct_sources account w now ?db1 = int (length ips) + 1"
    using recorded_count [OF rec assms(8)] by simp
  have "(if int (length ips) + 1 < 5 then db' = ?db1 \<and> (\<exists>st. res = Inr (st, False))
      else (\<exists>db4 n. lock_stmt account (now + AccountLockDuration) now ?db1 = Some (db4, n) \<and>
              db' = emit_stuffing env account ip (int (length ips) + 1) now db4 \<and> (\<exists>st. res = Inr (st, True))))"
  proof (cases "int (length ips) + 1 < 5")
    case True
    then show ?thesis using assms(3-5,7,10) src count
      by (auto simp: RecordAccountFailure_def quiet_def run_execute_def StuffingThreshold_def)
  next
    case False
    then show ?thesis using assms(3-5,7,10) src count
      by (auto simp: RecordAccountFailure_def quiet_def run_execute_def StuffingThreshold_def lock_stmt_def Let_def)
  qed
  note outcome = this
  have inv1: "locks_inv ?db1" using assms(2) by (simp add: locks_inv_def)
  have "recorded P account w (ips @ [ip]) db' \<and> locks_inv db' \<and> locks_extend db db' \<and>
     (\<exists>st. res = Inr (st, 5 \<le> length (ips @ [ip]))) \<and>
     (5 \<le> length (ips @ [ip]) \<longrightarrow> (\<exists>r \<in> set (locks db'). lk_account r = account \<and> now + 1800000 \<le> lk_until r))"
  proof (cases "int (length ips) + 1 < 5")
    case True
    then show ?thesis using outcome rec inv1 by (auto intro: locks_extend_refl)
  next
    case False
    then obtain db4 n where l: "lock_stmt account (now + AccountLockDuration) now ?db1 = Some (db4, n)"
      and db': "db' = emit_stuffing env account ip (int (length ips) + 1) now db4" "\<exists>st. res = Inr (st, True)"
      using outcome by auto
    note spec = lock_stmt_spec [OF l inv1]
    have "recorded P account w (ips @ [ip]) db'" using rec spec(1) db'(1) by (simp add: recorded_def emit_frame)
    moreover have "locks_extend db db'" using spec(3) db'(1) by (simp add: locks_extend_def emit_frame)
    moreover have "locks_inv db'" using spec(2) db'(1) by (simp add: locks_inv_def emit_frame)
    moreover have "\<exists>r \<in> set (locks db'). lk_account r = account \<and> now + 1800000 \<le> lk_until r"
      using spec(4) db'(1) by (simp add: emit_frame AccountLockDuration_def)
    ultimately show ?thesis using db'(2) False by simp
  qed
  then show "recorded P account w (ips @ [ip]) db'" "locks_inv db'" "locks_extend db db'"
    "\<exists>st. res = Inr (st, 5 \<le> length (ips @ [ip]))"
    "5 \<le> length (ips @ [ip]) \<Longrightarrow> \<exists>r \<in> set (locks db'). lk_account r = account \<and> now + 1800000 \<le> lk_until r" by blast+
qed

lemma CheckAccountLock_row:
  assumes "locks_inv db" "r \<in> set (locks db)" "lk_account r \<noteq> ''''" "now < lk_until r"
  shows "CheckAccountLock (lk_account r) now False db = Inr (True, lk_until r - now)"
proof -
  have "sql_select (\<lambda>x. lk_account x = lk_account r) (locks db) = [r]"
    using assms(1,2) by (intro sql_select_unique_key [of lk_account]) (auto simp: locks_inv_def)
  then show ?thesis using assms(3,4) by (simp add: CheckAccountLock_def)
qed

text \<open>A run of failures of one account in one window keeps its record.\<close>

lemma failures_of_recorded:
  assumes "recorded P account w ips db" "locks_inv db" "quiet env" "account \<noteq> ''''"
    and "\<forall>(ip, now) \<in> set es. ip \<noteq> '''' \<and> 0 \<le> now \<and> go_div now StuffingWindow * StuffingWindow = w"
    and "distinct (map (ipDigest P) (ips @ map fst es))"
    and "distinct (map (\<lambda>x. accountStuffingIPDigest P account x w) (ips @ map fst es))"
  shows "recorded P account w (ips @ map fst es) (failures_of P account env es db) \<and>
     locks_inv (failures_of P account env es db) \<and> locks_extend db (failures_of P account env es db)"
  using assms
proof (induction es arbitrary: ips db)
  case Nil
  then show ?case by (simp add: locks_extend_refl)
next
  case (Cons e es)
  obtain ip now where e: "e = (ip, now)" by (cases e)
  obtain db' res where run: "RecordAccountFailure P account ip now env db = (db', res)"
    by (cases "RecordAccountFailure P account ip now env db")
  have "recorded P account w (ips @ [ip]) db' \<and> locks_inv db' \<and> locks_extend db db'"
    using record_step [OF Cons.prems(1-4) _ _ _ _ _ run] Cons.prems(5-7) e by auto
  then show ?case
    using Cons.IH [of "ips @ [ip]" db'] Cons.prems(3-7) e run by (auto intro: locks_extend_trans)
qed


definition demo_quiet :: record_env where
  "demo_quiet = \<lparr>re_rnd = Some ''r'', re_exec = Exec_Ok, re_other = (\<lambda>x. x), re_query_fails = False,
     re_lock_rnd = Some ''r'', re_other2 = (\<lambda>x. x), re_lock_exec = Exec_Ok, re_event_rnd = None,
     re_event_valid = True, re_event_exec = Exec_Ok\<rparr>"

definition demo_attack :: "(string \<times> millis) list" where
  "demo_attack = [(''a'', 600000), (''b'', 600001), (''c'', 600002), (''d'', 600003)]"


lemma source_stmt_locks: "source_stmt new db = Some (db', n) \<Longrightarrow> locks db' = locks db"
  by (auto simp: source_stmt_def split: if_splits)

lemma run_source_locks: "locks (fst (run_execute f (source_stmt new) db)) = locks db"
  by (rule run_execute_invariant [where I = "\<lambda>x. locks x = locks db"]) (auto dest: source_stmt_locks)

lemma run_lock_extend:
  assumes "locks_inv db" "locks db = locks db0"
  shows "locks_extend db0 (fst (run_execute f (lock_stmt account until now) db))"
proof (rule run_execute_invariant [where I = "locks_extend db0"])
  show "locks_extend db0 db" using assms(2) by (simp add: locks_extend_def) (metis order_refl)
  show "locks_extend db0 db'" if "lock_stmt account until now db = Some (db', n)" for db' n
    using lock_stmt_spec(3) [OF that assms(1)] assms(2) by (simp add: locks_extend_def)
qed

text \<open>A lock is never shortened: whatever the outcome of recording a failure (statements lost,
  rejected or refused, reads failed, no randomness), every lock that was there still ends at least as
  late; cleaning up entries changes no lock; and clearing one account's lock keeps the lock of every
  other account.\<close>

lemma stuffing_locks_never_shortened:
  assumes "locks_inv db" "re_other env = (\<lambda>x. x)" "re_other2 env = (\<lambda>x. x)"
  shows "locks_extend db (fst (RecordAccountFailure P account ip now env db)) \<and>
     locks (fst (CleanupStuffingEntries now rnd f db)) = locks db \<and>
     (\<forall>r \<in> set (locks db). lk_account r \<noteq> account \<longrightarrow>
        r \<in> set (locks (fst (ClearAccountLock account fails (\<lambda>x. x) rnd f db))))"
proof -
  have run: "locks_extend db (fst (RecordAccountFailure P account ip now env db))"
  proof -
    let ?w = "go_div now StuffingWindow * StuffingWindow"
    let ?new = "\<lparr>sr_key = accountStuffingIPDigest P account ip ?w, sr_account = account, sr_ip = ipDigest P ip,
                   sr_window = ?w, sr_expires = now + StuffingEntryTTL\<rparr>"
    obtain db1 r1 where s: "run_execute (re_exec env) (source_stmt ?new) db = (db1, r1)"
      by (cases "run_execute (re_exec env) (source_stmt ?new) db")
    have eq: "locks db1 = locks db" using run_source_locks [of "re_exec env" ?new db] s by simp
    then have inv: "locks_inv db1" using assms(1) by (simp add: locks_inv_def)
    obtain db4 r4 where l: "run_execute (re_lock_exec env) (lock_stmt account (now + AccountLockDuration) now) db1 = (db4, r4)"
      by (cases "run_execute (re_lock_exec env) (lock_stmt account (now + AccountLockDuration) now) db1")
    have ext: "locks_extend db db4" using run_lock_extend [OF inv eq, of "re_lock_exec env" account "now + AccountLockDuration" now] l by simp
    have emit: "locks_extend db (emit_stuffing env account ip n now db4)" for n
      using ext by (simp add: locks_extend_def emit_frame)
    have "fst (RecordAccountFailure P account ip now env db) \<in>
        {db, db1, db4} \<union> range (\<lambda>n. emit_stuffing env account ip n now db4)"
      using s l assms(2,3)
      by (auto simp: RecordAccountFailure_def Let_def split: option.split sum.split)
    then show ?thesis using ext emit eq locks_extend_refl [of db1 db] locks_extend_refl [of db db] by auto
  qed
  have "locks (fst (run_execute f (cleanup_stmt now) db)) = locks db"
    by (rule run_execute_invariant [where I = "\<lambda>x. locks x = locks db"]) (auto simp: cleanup_stmt_def)
  then have clean: "locks (fst (CleanupStuffingEntries now rnd f db)) = locks db"
    by (auto simp: CleanupStuffingEntries_def split: option.split prod.split sum.split)
  have "r \<in> set (locks (fst (run_execute f (unlock_stmt account) db)))"
    if "r \<in> set (locks db)" "lk_account r \<noteq> account" for r
    by (rule run_execute_invariant [where I = "\<lambda>x. r \<in> set (locks x)"]) (use that in \<open>auto simp: unlock_stmt_def set_sql_delete\<close>)
  then have "\<forall>r \<in> set (locks db). lk_account r \<noteq> account \<longrightarrow>
      r \<in> set (locks (fst (ClearAccountLock account fails (\<lambda>x. x) rnd f db)))"
    by (auto simp: ClearAccountLock_def split: option.split prod.split sum.split)
  with run clean show ?thesis by simp
qed

definition demo_locked :: stuffing_db where
  "demo_locked = \<lparr>sources = [], locks = [\<lparr>lk_account = ''acct'', lk_until = 9000, lk_reason = ''r'', lk_created = 1\<rparr>],
     stuffing_events = []\<rparr>"

lemma stuffing_locks_never_shortened_example:
  "locks_extend demo_locked (fst (RecordAccountFailure demo_prims ''acct'' ''e'' 600004 demo_quiet demo_locked))"
  by (rule conjunct1 [OF stuffing_locks_never_shortened])
    (simp_all add: demo_locked_def demo_quiet_def locks_inv_def sql_unique_def)

end
