(* ===== verification/Lockdown.thy ===== *)
theory Lockdown
  imports Encoding
begin

text \<open>
  The system lockdown of \<^verbatim>\<open>internal/loginpolicy/lockdown.go\<close> and its administration
  handler \<^verbatim>\<open>lockdown_handler.go\<close>. The state is the single row of
  \<^verbatim>\<open>system_lockdown\<close>; times are nanoseconds since the epoch where the code has a time
  and milliseconds where the table has one.
\<close>

section \<open>The store\<close>

record lockdown_row =
  ld_enabled :: bool
  ld_reason :: string
  ld_until :: millis
  ld_created :: millis
  ld_updated :: millis

type_synonym lockdown_db = "lockdown_row option"

datatype lockdown_err = LErrRand | LErrQuery | LErrEncoding | LErrExec exec_err

text \<open>\<^verbatim>\<open>t.UTC().Truncate(time.Millisecond).UnixMilli()\<close>.\<close>

definition unix_milli :: "int \<Rightarrow> millis" where
  "unix_milli ns = ns div 1000000"

definition enable_stmt :: "string \<Rightarrow> millis \<Rightarrow> millis \<Rightarrow> lockdown_db mutation" where
  "enable_stmt reason until now db =
     Some (Some (case db of
        None \<Rightarrow> \<lparr>ld_enabled = True, ld_reason = reason, ld_until = until, ld_created = now, ld_updated = now\<rparr>
      | Some r \<Rightarrow> r\<lparr>ld_enabled := True, ld_reason := reason, ld_until := until, ld_updated := now\<rparr>), 1)"

definition disable_stmt :: "millis \<Rightarrow> lockdown_db mutation" where
  "disable_stmt now db =
     Some (Some (case db of
        None \<Rightarrow> \<lparr>ld_enabled = False, ld_reason = '''', ld_until = 0, ld_created = now, ld_updated = now\<rparr>
      | Some r \<Rightarrow> r\<lparr>ld_enabled := False, ld_reason := '''', ld_until := 0, ld_updated := now\<rparr>), 1)"

text \<open>\<open>until\<close> is None for the zero time.\<close>

definition SetLockdown ::
  "bool \<Rightarrow> string \<Rightarrow> int option \<Rightarrow> int \<Rightarrow> string option \<Rightarrow> exec_fault \<Rightarrow> lockdown_db \<Rightarrow>
   lockdown_db \<times> (lockdown_err + unit)" where
  "SetLockdown enabled reason until now rnd f db =
     (let nowMs = unix_milli now;
          untilMs = (case until of Some u \<Rightarrow> if enabled then unix_milli u else 0 | None \<Rightarrow> 0)
      in case rnd of None \<Rightarrow> (db, Inl LErrRand) | Some _ \<Rightarrow>
         (case run_execute f (if enabled then enable_stmt (b64_encode reason) untilMs nowMs else disable_stmt nowMs) db of
            (db1, Inl x) \<Rightarrow> (db1, Inl (LErrExec x))
          | (db1, Inr _) \<Rightarrow> (db1, Inr ())))"

definition IsLockedDown :: "int \<Rightarrow> bool \<Rightarrow> lockdown_db \<Rightarrow> lockdown_err + bool \<times> string \<times> int option" where
  "IsLockedDown now fails db =
     (if fails then Inl LErrQuery
      else case db of
        None \<Rightarrow> Inr (False, '''', None)
      | Some r \<Rightarrow>
          if \<not> ld_enabled r then Inr (False, '''', None)
          else if 0 < ld_until r \<and> ld_until r \<le> unix_milli now then Inr (False, '''', None)
          else case b64_decode (ld_reason r) of
                 None \<Rightarrow> Inl LErrEncoding
               | Some reason \<Rightarrow>
                   Inr (True, reason, if 0 < ld_until r then Some (ld_until r * 1000000) else None))"

definition clear_stmt :: "millis \<Rightarrow> lockdown_db mutation" where
  "clear_stmt now db =
     (case db of
        None \<Rightarrow> Some (None, 0)
      | Some r \<Rightarrow>
          if ld_enabled r \<and> 0 < ld_until r \<and> ld_until r \<le> now
          then Some (Some (r\<lparr>ld_enabled := False, ld_reason := '''', ld_until := 0, ld_updated := now\<rparr>), 1)
          else Some (Some r, 0))"

definition ClearExpiredLockdown ::
  "int \<Rightarrow> string option \<Rightarrow> exec_fault \<Rightarrow> lockdown_db \<Rightarrow> lockdown_db \<times> (lockdown_err + unit)" where
  "ClearExpiredLockdown now rnd f db =
     (case rnd of None \<Rightarrow> (db, Inl LErrRand) | Some _ \<Rightarrow>
        (case run_execute f (clear_stmt (unix_milli now)) db of
           (db1, Inl x) \<Rightarrow> (db1, Inl (LErrExec x))
         | (db1, Inr _) \<Rightarrow> (db1, Inr ())))"

section \<open>The administration handler\<close>

datatype http_method = GET | POST | DELETE | OtherMethod

text \<open>What the handler reads of a request: the guards of \<^verbatim>\<open>authorize\<close>, the strictly
  decoded body (None when decoding fails) and the parsed duration in nanoseconds (None when absent,
  \<open>Some None\<close> when it does not parse).\<close>

record lockdown_http =
  lh_method :: http_method
  lh_raw_query :: string
  lh_has_authorization :: bool
  lh_cross_site :: bool
  lh_is_admin :: "bool \<Rightarrow> bool"
  lh_body :: "(string \<times> int option option) option"

definition authorize :: "lockdown_http \<Rightarrow> bool \<Rightarrow> bool" where
  "authorize r mutation \<longleftrightarrow>
     \<not> (lh_raw_query r \<noteq> '''' \<or> lh_has_authorization r \<or> lh_cross_site r) \<and> lh_is_admin r mutation"

text \<open>The status code of the answer; 401 stands for the refusal of \<^verbatim>\<open>authorize\<close>, whose
  admin callback writes its own.\<close>

definition lockdown_enable :: "lockdown_http \<Rightarrow> int \<Rightarrow> string option \<Rightarrow> exec_fault \<Rightarrow> lockdown_db \<Rightarrow> lockdown_db \<times> nat" where
  "lockdown_enable r now rnd f db =
     (if \<not> authorize r True then (db, 401)
      else case lh_body r of None \<Rightarrow> (db, 400) | Some (reason, duration) \<Rightarrow>
        if reason = '''' then (db, 400)
        else
          let set = (\<lambda>until. case SetLockdown True reason until now rnd f db of
                       (db1, Inl _) \<Rightarrow> (db1, 500) | (db1, Inr _) \<Rightarrow> (db1, 204))
          in case duration of
               None \<Rightarrow> set None
             | Some None \<Rightarrow> (db, 400)
             | Some (Some d) \<Rightarrow> if d \<le> 0 then (db, 400) else set (Some (now + d)))"

definition lockdown_disable :: "lockdown_http \<Rightarrow> int \<Rightarrow> string option \<Rightarrow> exec_fault \<Rightarrow> lockdown_db \<Rightarrow> lockdown_db \<times> nat" where
  "lockdown_disable r now rnd f db =
     (if \<not> authorize r True then (db, 401)
      else case SetLockdown False '''' None now rnd f db of (db1, Inl _) \<Rightarrow> (db1, 500) | (db1, Inr _) \<Rightarrow> (db1, 204))"

definition lockdown_status :: "lockdown_http \<Rightarrow> int \<Rightarrow> bool \<Rightarrow> lockdown_db \<Rightarrow> nat \<times> (bool \<times> string \<times> int option) option" where
  "lockdown_status r now fails db =
     (if \<not> authorize r False then (401, None)
      else case IsLockedDown now fails db of Inl _ \<Rightarrow> (500, None) | Inr st \<Rightarrow> (200, Some st))"

definition lockdown_ServeHTTP ::
  "lockdown_http \<Rightarrow> int \<Rightarrow> string option \<Rightarrow> exec_fault \<Rightarrow> bool \<Rightarrow> lockdown_db \<Rightarrow>
   lockdown_db \<times> nat \<times> (bool \<times> string \<times> int option) option" where
  "lockdown_ServeHTTP r now rnd f fails db =
     (case lh_method r of
        GET \<Rightarrow> (db, lockdown_status r now fails db)
      | POST \<Rightarrow> (case lockdown_enable r now rnd f db of (db1, c) \<Rightarrow> (db1, c, None))
      | DELETE \<Rightarrow> (case lockdown_disable r now rnd f db of (db1, c) \<Rightarrow> (db1, c, None))
      | OtherMethod \<Rightarrow> (db, 405, None))"

section \<open>Properties\<close>

lemma unix_milli_mono: "a \<le> b \<Longrightarrow> unix_milli a \<le> unix_milli b"
  by (simp add: unix_milli_def zdiv_mono1)

lemma clear_answer:
  assumes "t' \<le> t"
  shows "IsLockedDown t False (fst (ClearExpiredLockdown t' rnd f db)) = IsLockedDown t False db"
proof -
  have "IsLockedDown t False db1 = IsLockedDown t False db" if "clear_stmt (unix_milli t') db = Some (db1, n)" for db1 n
    using that unix_milli_mono [OF assms]
    by (auto simp: clear_stmt_def IsLockedDown_def split: option.splits if_splits)
  then have "IsLockedDown t False (fst (run_execute f (clear_stmt (unix_milli t')) db)) = IsLockedDown t False db"
    by (intro run_execute_invariant [where I = "\<lambda>x. IsLockedDown t False x = IsLockedDown t False db"]) auto
  then show ?thesis
    by (cases "run_execute f (clear_stmt (unix_milli t')) db")
      (auto simp: ClearExpiredLockdown_def split: option.split sum.split)
qed

text \<open>A lockdown that was set is in force until its end and only until then: at every time before
  its end (and forever when it has none) it is reported with exactly the reason it was set with, and
  with its end; from its end on it is over; and clearing expired lockdowns, at any earlier time and
  with any outcome, changes no answer.\<close>

lemma lockdown_lifetime:
  assumes "SetLockdown True reason until now rnd f db = (db', Inr ())"
    and "\<forall>u. until = Some u \<longrightarrow> 0 < unix_milli u" "t' \<le> t"
  shows "IsLockedDown t False (fst (ClearExpiredLockdown t' rnd' f' db')) =
     Inr (case until of
            None \<Rightarrow> (True, reason, None)
          | Some u \<Rightarrow> if unix_milli t < unix_milli u then (True, reason, Some (unix_milli u * 1000000)) else (False, '''', None))"
proof -
  let ?u = "case until of None \<Rightarrow> 0 | Some u \<Rightarrow> unix_milli u"
  have "run_execute f (enable_stmt (b64_encode reason) ?u (unix_milli now)) db = (db', Inr 1)"
    using assms(1)
    by (auto simp: SetLockdown_def Let_def run_execute_Inr_db enable_stmt_def split: option.splits prod.splits sum.splits)
  then obtain r where "db' = Some r" "ld_enabled r" "ld_reason r = b64_encode reason" "ld_until r = ?u"
    by (auto simp: run_execute_Inr_db enable_stmt_def split: option.splits)
  then have "IsLockedDown t False db' =
     Inr (case until of
            None \<Rightarrow> (True, reason, None)
          | Some u \<Rightarrow> if unix_milli t < unix_milli u then (True, reason, Some (unix_milli u * 1000000)) else (False, '''', None))"
    using assms(2) by (auto simp: IsLockedDown_def b64_roundtrip split: option.splits)
  then show ?thesis using clear_answer [OF assms(3)] by simp
qed

lemma lockdown_lifetime_example:
  "IsLockedDown 3000000 False (fst (ClearExpiredLockdown 2000000 (Some ''r'') Exec_Lost
     (fst (SetLockdown True ''incident'' (Some 9000000) 1000000 (Some ''r'') Exec_Ok None)))) =
   Inr (True, ''incident'', Some 9000000)"
proof -
  have run: "SetLockdown True ''incident'' (Some 9000000) 1000000 (Some ''r'') Exec_Ok None =
      (fst (SetLockdown True ''incident'' (Some 9000000) 1000000 (Some ''r'') Exec_Ok None), Inr ())"
    by (simp add: SetLockdown_def run_execute_def enable_stmt_def Let_def)
  show ?thesis using lockdown_lifetime [OF run, of 2000000 3000000] by (simp add: unix_milli_def)
qed

text \<open>C30. Only an administrator changes the lockdown: whatever the request, the stored row differs
  after it only when the request was a POST or DELETE that passed the guards against query strings,
  API keys and cross-site requests and the admin check for a mutation, and a POST also had a decoded
  body with a reason and, if it has a duration, a positive one.\<close>

theorem lockdown_guarded:
  "fst (lockdown_ServeHTTP r now rnd f fails db) \<noteq> db \<longrightarrow>
     lh_raw_query r = '''' \<and> \<not> lh_has_authorization r \<and> \<not> lh_cross_site r \<and> lh_is_admin r True \<and>
     (lh_method r = DELETE \<or>
      lh_method r = POST \<and> (\<exists>reason duration. lh_body r = Some (reason, duration) \<and> reason \<noteq> '''' \<and>
        (duration = None \<or> (\<exists>d. duration = Some (Some d) \<and> 0 < d))))"
  by (auto simp: lockdown_ServeHTTP_def lockdown_enable_def lockdown_disable_def authorize_def Let_def
      split: http_method.splits if_splits option.splits prod.splits sum.splits)

definition demo_post :: lockdown_http where
  "demo_post = \<lparr>lh_method = POST, lh_raw_query = '''', lh_has_authorization = False, lh_cross_site = False,
     lh_is_admin = (\<lambda>m. m), lh_body = Some (''incident'', None)\<rparr>"

theorem lockdown_guarded_witness: "lh_is_admin demo_post True \<and> lh_raw_query demo_post = ''''"
proof -
  have "fst (lockdown_ServeHTTP demo_post 1000000 (Some ''r'') Exec_Ok False None) \<noteq> None"
    by (simp add: lockdown_ServeHTTP_def lockdown_enable_def authorize_def demo_post_def SetLockdown_def
        run_execute_def enable_stmt_def Let_def)
  then show ?thesis using lockdown_guarded [of demo_post 1000000 "Some ''r''" Exec_Ok False None] by blast
qed

end
