(* ===== verification/GrantTables.thy ===== *)
theory GrantTables
  imports DeviceStore Stuffing Lockdown
begin

text \<open>
  The data of \<^verbatim>\<open>internal/oauth/grant_storage.go\<close>: OAuth requests and the records they are persisted as, the
  tables that the store and the logout operations write, and the conditions that fence a token write. A column
  \<^verbatim>\<open>request_json\<close> holds the record itself, and \<^verbatim>\<open>json_extract\<close> reads its fields. A condition is data, as the SQL
  text with its arguments is in the code: a guard is the list of its conjuncts.
\<close>

section \<open>Requests\<close>

datatype json = J_Null | J_Bool bool | J_Num int | J_Str string | J_Arr "json list" | J_Obj "(string \<times> json) list"

datatype token_type = AuthorizeCode | AccessToken | RefreshToken

text \<open>A \<^verbatim>\<open>fosite.DefaultSession\<close>; a nil \<^verbatim>\<open>Extra\<close> is None. A list of strings in it is an array, as JSON reads it back.\<close>

record session =
  se_username :: string
  se_subject :: string
  se_extra :: "(string \<rightharpoonup> json) option"
  se_expires :: "token_type \<rightharpoonup> millis"

record ephemeral_client =
  ec_id :: string
  ec_name :: string
  ec_redirects :: "string list"
  ec_scopes :: "string list"
  ec_resources :: "string list option"
  ec_resources_present :: bool

record registered_client =
  cl_id :: string
  cl_revision :: int
  cl_generation :: string
  cl_enabled :: bool
  cl_confidential :: bool
  cl_redirects :: "string list"
  cl_scopes :: "string list"
  cl_default_scopes :: "string list"
  cl_grant_types :: "string list"
  cl_force_mfa :: bool
  cl_logout_uri :: "string option"

text \<open>The kinds of clients the store tells apart: from a metadata document, managed, dynamically registered with
  its logout URI, and any other, which is the configured one.\<close>

datatype client = Ephemeral ephemeral_client | Managed registered_client | Dynamic string string | Configured string

definition client_id :: "client \<Rightarrow> string" where
  "client_id c = (case c of Ephemeral e \<Rightarrow> ec_id e | Managed m \<Rightarrow> cl_id m | Dynamic i _ \<Rightarrow> i | Configured i \<Rightarrow> i)"

text \<open>The session is None when it is missing or of another type, the form when it is nil.\<close>

record request =
  rq_id :: string
  rq_client :: client
  rq_requested_at :: millis
  rq_requested_scopes :: "string list"
  rq_granted_scopes :: "string list"
  rq_requested_audience :: "string list"
  rq_granted_audience :: "string list"
  rq_form :: "(string \<rightharpoonup> string list) option"
  rq_session :: "session option"

record managed_record =
  mr_id :: string
  mr_revision :: int
  mr_generation :: string
  mr_enabled :: bool
  mr_confidential :: bool
  mr_redirects :: "string list"
  mr_scopes :: "string list"
  mr_default_scopes :: "string list"
  mr_grant_types :: "string list"

record request_record =
  rr_id :: string
  rr_client :: string
  rr_requested_at :: millis
  rr_requested_scopes :: "string list"
  rr_granted_scopes :: "string list"
  rr_requested_audience :: "string list"
  rr_granted_audience :: "string list"
  rr_form :: "(string \<rightharpoonup> string list) option"
  rr_expires :: "token_type \<rightharpoonup> millis"
  rr_username :: string
  rr_subject :: string
  rr_extra :: "(string \<rightharpoonup> json) option"
  rr_ephemeral :: "ephemeral_client option"
  rr_managed :: "managed_record option"

definition transientRequestFormFields :: "string list" where
  "transientRequestFormFields =
     [''client_secret'', ''client_assertion'', ''client_assertion_type'', ''subject_token'', ''subject_token_type'',
      ''actor_token'', ''actor_token_type'', ''assertion'', ''code'', ''code_verifier'', ''device_code'', ''refresh_token'',
      ''password'', ''id_token_hint'', ''request'', ''request_uri'', ''goauthy_exchange_source_signature'',
      ''goauthy_exchange_source_expiry'', ''goauthy_exchange_actor_signature'', ''goauthy_exchange_actor_expiry'']"

definition persistedRequestForm :: "(string \<rightharpoonup> string list) option \<Rightarrow> (string \<rightharpoonup> string list) option" where
  "persistedRequestForm form =
     map_option (\<lambda>m key. if key \<in> set transientRequestFormFields then None else m key) form"

definition managed_snapshot :: "registered_client \<Rightarrow> managed_record" where
  "managed_snapshot c =
     \<lparr>mr_id = cl_id c, mr_revision = cl_revision c, mr_generation = cl_generation c, mr_enabled = cl_enabled c,
      mr_confidential = cl_confidential c, mr_redirects = cl_redirects c, mr_scopes = cl_scopes c,
      mr_default_scopes = cl_default_scopes c, mr_grant_types = cl_grant_types c\<rparr>"

text \<open>The snapshot of a client from a metadata document in JSON: \<^verbatim>\<open>omitempty\<close> drops an empty list of resources, and
  reading it back gives a nil list.\<close>

definition persisted_client :: "ephemeral_client \<Rightarrow> ephemeral_client" where
  "persisted_client e = e\<lparr>ec_resources := (case ec_resources e of Some (r # rs) \<Rightarrow> Some (r # rs) | _ \<Rightarrow> None)\<rparr>"

definition encodeRequest :: "request \<Rightarrow> request_record option" where
  "encodeRequest r =
     (case rq_session r of
        None \<Rightarrow> None
      | Some s \<Rightarrow> Some
          \<lparr>rr_id = rq_id r, rr_client = client_id (rq_client r), rr_requested_at = rq_requested_at r,
           rr_requested_scopes = rq_requested_scopes r, rr_granted_scopes = rq_granted_scopes r,
           rr_requested_audience = rq_requested_audience r, rr_granted_audience = rq_granted_audience r,
           rr_form = persistedRequestForm (rq_form r), rr_expires = se_expires s, rr_username = se_username s,
           rr_subject = se_subject s, rr_extra = se_extra s,
           rr_ephemeral = (case rq_client r of Ephemeral e \<Rightarrow> Some (persisted_client e) | _ \<Rightarrow> None),
           rr_managed = (case rq_client r of Managed m \<Rightarrow> Some (managed_snapshot m) | _ \<Rightarrow> None)\<rparr>)"

definition oidcSessionIDExtra :: string where
  "oidcSessionIDExtra = ''goauthy_oidc_session_id''"

text \<open>\<^verbatim>\<open>json_extract(request_json, ...)\<close> of the browser session and of the subject, which an empty value omits.\<close>

definition json_sid :: "request_record \<Rightarrow> string option" where
  "json_sid r =
     (case rr_extra r of
        None \<Rightarrow> None
      | Some m \<Rightarrow> (case m oidcSessionIDExtra of Some (J_Str s) \<Rightarrow> Some s | _ \<Rightarrow> None))"

definition json_subject :: "request_record \<Rightarrow> string option" where
  "json_subject r = (if rr_subject r = '''' then None else Some (rr_subject r))"

section \<open>Tables\<close>

record code_row =
  co_sig :: string
  co_request :: request_record
  co_expires :: millis
  co_invalidated :: bool
  co_attempt :: "string option"

record pkce_row =
  pk_sig :: string
  pk_request :: request_record
  pk_expires :: millis

record access_row =
  ac_sig :: string
  ac_request_id :: string
  ac_client :: string
  ac_requested_at :: millis
  ac_expires :: millis
  ac_requested_scopes :: "string list"
  ac_granted_scopes :: "string list"
  ac_requested_audience :: "string list"
  ac_granted_audience :: "string list"

record token_request =
  tr_sig :: string
  tr_request :: request_record

record refresh_row =
  re_sig :: string
  re_access :: string
  re_request_id :: string
  re_request :: request_record
  re_expires :: millis
  re_active :: bool
  re_attempt :: "string option"

record session_row =
  bs_digest :: string
  bs_subject :: string
  bs_expires :: millis
  bs_last_seen :: millis
  bs_revoked :: "millis option"

record logout_target =
  lt_uri :: string
  lt_private :: bool
  lt_http :: bool
  lt_created :: millis

record session_client = logout_target +
  sc_sid :: string
  sc_client :: string

record user_client = logout_target +
  uc_subject :: string
  uc_client :: string

record delivery =
  de_event :: string
  de_client :: string
  de_sid :: "string option"
  de_subject :: string
  de_uri :: string
  de_private :: bool
  de_http :: bool
  de_attempts :: int
  de_next :: millis
  de_created :: millis

record dynamic_client =
  dc_id :: string
  dc_dpop_bound :: bool
  dc_logout_uri :: "string option"
  dc_last_used :: "millis option"

record user_row =
  us_subject :: string
  us_disabled :: bool
  us_expires :: "millis option"
  us_password_generation :: int

text \<open>The tables that the guards only read are the last ones: authentication modes and their generations, revisions
  of principals, the text of a profile, login restrictions and machine claims of configured clients, the catalogue
  of claims, the holders of the administrator role, the lockdown and the account locks; an event is its identifier.\<close>

record grant_db =
  codes :: "code_row list"
  pkces :: "pkce_row list"
  accesses :: "access_row list"
  token_requests :: "token_request list"
  refreshes :: "refresh_row list"
  sessions :: "session_row list"
  interactions :: "string list"
  upstream_bindings :: "string list"
  session_clients :: "session_client list"
  user_clients :: "user_client list"
  deliveries :: "delivery list"
  dynamics :: "dynamic_client list"
  device :: device_db
  users :: "user_row list"
  modes :: "(string \<times> string \<times> int) list"
  versions :: "(string \<times> int) list"
  profiles :: "(string \<times> string) list"
  restrictions :: "(string \<times> string option \<times> int) list"
  catalog :: "int option"
  machine_claims :: "(string \<times> int) list"
  admins :: "string list"
  lockdown :: lockdown_db
  account_locks :: "lock_row list"
  log_events :: "string list"

section \<open>Conditions\<close>

text \<open>The conjuncts of the guards. A placeholder of the account cutoff is not an argument: \<^verbatim>\<open>Commit\<close> binds all of them
  to the same instant. The cutoff of an exchanged token is an argument, because its place is bound separately.\<close>

datatype atom =
    A_False
  | A_Account string "millis option"
  | A_Profile string string
  | A_Password string int int
  | A_Lockdown millis string
  | A_AccountLock string millis
  | A_DPoP string bool
  | A_Principal string millis
  | A_Revision string int
  | A_Catalog int
  | A_NoRestriction string
  | A_Restriction string "string option" int
  | A_Managed string string int string
  | A_Session string string millis millis
  | A_CodeUsed string string
  | A_Rotated string string
  | A_Device string string
  | A_AccessLive string millis millis
  | A_HasRequest string
  | A_InputClient string string
  | A_NoMachineClaims string
  | A_MachineClaims string int
  | A_Issued string string string
  | A_Unrevoked string

definition unexpired :: "millis \<Rightarrow> user_row \<Rightarrow> bool" where
  "unexpired cutoff u \<longleftrightarrow> (case us_expires u of None \<Rightarrow> True | Some e \<Rightarrow> cutoff < e)"

definition live_user :: "string \<Rightarrow> millis \<Rightarrow> grant_db \<Rightarrow> bool" where
  "live_user s cutoff db \<longleftrightarrow> sql_exists (\<lambda>u. us_subject u = s \<and> \<not> us_disabled u \<and> unexpired cutoff u) (users db)"

text \<open>The device approvals without a second factor that a request came from.\<close>

definition weak_device :: "string \<Rightarrow> string \<Rightarrow> grant_db \<Rightarrow> bool" where
  "weak_device request client db \<longleftrightarrow>
     sql_exists (\<lambda>d. g_token_request d = Some request \<and> g_client d = client \<and> \<not> g_mfa d) (grants (device db))"

definition managed_current :: "string \<Rightarrow> string \<Rightarrow> (int \<Rightarrow> bool) \<Rightarrow> string \<Rightarrow> grant_db \<Rightarrow> bool" where
  "managed_current i gen rv request db \<longleftrightarrow>
     sql_exists (\<lambda>c. mc_id c = i \<and> mc_generation c = gen \<and> rv (mc_revision c) \<and> mc_enabled c \<and> \<not> mc_deleted c \<and>
       (\<not> mc_force_mfa c \<or> \<not> weak_device request i db)) (managed (device db))"

definition input_client :: "string \<Rightarrow> string \<Rightarrow> grant_db \<Rightarrow> bool" where
  "input_client sig bootstrap db \<longleftrightarrow>
     sql_exists (\<lambda>t. tr_sig t = sig \<and>
       (case rr_managed (tr_request t) of
          Some m \<Rightarrow> managed_current (mr_id m) (mr_generation m) (\<lambda>_. True) (rr_id (tr_request t)) db
        | None \<Rightarrow>
            rr_ephemeral (tr_request t) \<noteq> None \<or> rr_client (tr_request t) = bootstrap \<or>
            sql_exists (\<lambda>c. dc_id c = rr_client (tr_request t)) (dynamics db))) (token_requests db)"

fun holds :: "millis \<Rightarrow> grant_db \<Rightarrow> atom \<Rightarrow> bool" where
  "holds cutoff db A_False = False"
| "holds cutoff db (A_Account s deadline) =
     sql_exists (\<lambda>u. us_subject u = s \<and> \<not> us_disabled u \<and> us_expires u = deadline \<and> unexpired cutoff u) (users db)"
| "holds cutoff db (A_Profile s raw) = (case map_of (profiles db) s of None \<Rightarrow> raw = '''' | Some p \<Rightarrow> p = raw)"
| "holds cutoff db (A_Password s pgen agen) =
     (sql_exists (\<lambda>u. us_subject u = s \<and> us_password_generation u = pgen \<and> \<not> us_disabled u \<and> unexpired cutoff u) (users db) \<and>
      (s, ''password'', agen) \<in> set (modes db))"
| "holds cutoff db (A_Lockdown now s) =
     (\<not> (case lockdown db of None \<Rightarrow> False | Some l \<Rightarrow> ld_enabled l \<and> (ld_until l = 0 \<or> now < ld_until l)) \<or>
      sql_exists (\<lambda>u. us_subject u = s \<and> \<not> us_disabled u) (users db) \<and> s \<in> set (admins db))"
| "holds cutoff db (A_AccountLock h now) = (\<not> sql_exists (\<lambda>l. lk_account l = h \<and> now < lk_until l) (account_locks db))"
| "holds cutoff db (A_DPoP c proof) = sql_exists (\<lambda>d. dc_id d = c \<and> (\<not> dc_dpop_bound d \<or> proof)) (dynamics db)"
| "holds cutoff db (A_Principal s now) = live_user s now db"
| "holds cutoff db (A_Revision s rv) = ((case map_of (versions db) s of None \<Rightarrow> 1 | Some v \<Rightarrow> v) = rv)"
| "holds cutoff db (A_Catalog rv) = (catalog db = Some rv)"
| "holds cutoff db (A_NoRestriction c) = (\<not> sql_exists (\<lambda>r. fst r = c) (restrictions db))"
| "holds cutoff db (A_Restriction c prefix rv) = ((c, prefix, rv) \<in> set (restrictions db))"
| "holds cutoff db (A_Managed i gen rv request) = managed_current i gen (\<lambda>v. v = rv) request db"
| "holds cutoff db (A_Session sid s now idle) =
     sql_exists (\<lambda>b. bs_digest b = sid \<and> bs_subject b = s \<and> bs_revoked b = None \<and> now < bs_expires b \<and> idle < bs_last_seen b)
       (sessions db)"
| "holds cutoff db (A_CodeUsed sig a) = sql_exists (\<lambda>c. co_sig c = sig \<and> co_attempt c = Some a) (codes db)"
| "holds cutoff db (A_Rotated sig a) = sql_exists (\<lambda>r. re_sig r = sig \<and> re_attempt r = Some a) (refreshes db)"
| "holds cutoff db (A_Device d claim) =
     sql_exists (deviceGuard (\<lambda>s. live_user s cutoff db) d claim cutoff (device db)) (grants (device db))"
| "holds cutoff db (A_AccessLive sig e limit) =
     sql_exists (\<lambda>a. ac_sig a = sig \<and> ac_expires a = e \<and> limit < ac_expires a) (accesses db)"
| "holds cutoff db (A_HasRequest sig) = sql_exists (\<lambda>t. tr_sig t = sig) (token_requests db)"
| "holds cutoff db (A_InputClient sig bootstrap) = input_client sig bootstrap db"
| "holds cutoff db (A_NoMachineClaims c) = (\<not> sql_exists (\<lambda>m. fst m = c) (machine_claims db))"
| "holds cutoff db (A_MachineClaims c rv) = ((c, rv) \<in> set (machine_claims db))"
| "holds cutoff db (A_Issued sig request c) =
     sql_exists (\<lambda>a. ac_sig a = sig \<and> ac_request_id a = request \<and> ac_client a = c) (accesses db)"
| "holds cutoff db (A_Unrevoked sid) = sql_exists (\<lambda>b. bs_digest b = sid \<and> bs_revoked b = None) (sessions db)"

end
