(* ===== verification/GrantStatements.thy ===== *)
theory GrantStatements
  imports GrantTables
begin

text \<open>
  The statements of the grant storage and of the logout operations, as data with their effect on the tables: a
  statement has an action, the conjuncts of its guard, and whether it expects exactly one affected row. The logout
  operations of \<^verbatim>\<open>internal/oauth/grant_storage.go\<close> and \<^verbatim>\<open>internal/rbac\<close> are lists of such statements.
\<close>

section \<open>Actions\<close>

text \<open>Whom a revocation selects: the artefacts of one browser session, of one subject, or all of them.\<close>

datatype who = is_sid: W_Sid string | W_Subject string | W_All

primrec selects :: "who \<Rightarrow> request_record \<Rightarrow> bool" where
  "selects (W_Sid sid) r \<longleftrightarrow> json_sid r = Some sid"
| "selects (W_Subject s) r \<longleftrightarrow> json_subject r = Some s"
| "selects W_All r \<longleftrightarrow> True"

primrec selects_session :: "who \<Rightarrow> session_row \<Rightarrow> bool" where
  "selects_session (W_Sid sid) b \<longleftrightarrow> bs_digest b = sid"
| "selects_session (W_Subject s) b \<longleftrightarrow> bs_subject b = s"
| "selects_session W_All b \<longleftrightarrow> True"

text \<open>The session digests a revocation covers: the given one, or those of the rows of a subject.\<close>

primrec covers :: "who \<Rightarrow> grant_db \<Rightarrow> string \<Rightarrow> bool" where
  "covers (W_Sid sid) db d \<longleftrightarrow> d = sid"
| "covers (W_Subject s) db d \<longleftrightarrow> sql_exists (\<lambda>b. bs_digest b = d \<and> bs_subject b = s) (sessions db)"
| "covers W_All db d \<longleftrightarrow> True"

datatype action =
    DeleteExpiredPKCE millis
  | DeleteExpiredCodes millis
  | InsertCode code_row
  | InsertPKCE pkce_row
  | UseCode string string
  | DeletePKCE string
  | DeleteExpiredAccess millis
  | DeleteOrphanRequests
  | InsertAccess access_row
  | InsertRequest token_request
  | TouchClient string millis
  | UpsertUserClient string string string bool bool millis
  | InsertSessionClient string string string bool bool millis
  | DeleteAccess string
  | DeleteRequest string
  | DeleteExpiredRefresh millis
  | InsertRefresh refresh_row
  | DeleteRefresh string
  | RotateRefresh string string string
  | DeactivateFamily string
  | DeleteFamilyAccess string
  | ConsumeDevice string string
  | Malformed
  | Enqueue who string millis
  | RevokeSessions who millis
  | DeleteInteractions who
  | InvalidateCodes who
  | DeletePKCEs who
  | DeactivateRefreshes who
  | DeleteAccesses who
  | DeleteRequests who
  | DeleteSessionClients who
  | DeleteUserClients who
  | DenyDevices string
  | DeleteBindings string
  | DeleteSession string
  | InsertEvent string

record stmt =
  st_action :: action
  st_guard :: "atom list"
  st_exact :: bool

section \<open>Effects\<close>

definition insert_unique :: "('r \<Rightarrow> 'k) \<Rightarrow> 'r \<Rightarrow> 'r list \<Rightarrow> 'r list option" where
  "insert_unique key r t = (if sql_exists (\<lambda>x. key x = key r) t then None else Some (t @ [r]))"

text \<open>The logout URI of a client is the one of its registration, if it has one, and the given one otherwise.\<close>

definition registered_uri :: "string \<Rightarrow> string \<Rightarrow> grant_db \<Rightarrow> string" where
  "registered_uri c uri db =
     (case sql_lookup dc_id (dynamics db) c of None \<Rightarrow> uri | Some d \<Rightarrow> (case dc_logout_uri d of None \<Rightarrow> '''' | Some u \<Rightarrow> u))"

definition queued :: "string \<Rightarrow> string \<Rightarrow> string option \<Rightarrow> string \<Rightarrow> 'a logout_target_scheme \<Rightarrow> millis \<Rightarrow> delivery" where
  "queued event c sid subject t now =
     \<lparr>de_event = event, de_client = c, de_sid = sid, de_subject = subject, de_uri = lt_uri t, de_private = lt_private t,
      de_http = lt_http t, de_attempts = 0, de_next = now, de_created = now\<rparr>"

primrec enqueue_rows :: "who \<Rightarrow> string \<Rightarrow> millis \<Rightarrow> grant_db \<Rightarrow> delivery list" where
  "enqueue_rows (W_Sid sid) event now db =
     (if sql_exists (\<lambda>b. bs_digest b = sid \<and> bs_revoked b = None) (sessions db)
      then map (\<lambda>c. queued event (sc_client c) (Some (sc_sid c)) '''' c now)
             (sql_select (\<lambda>c. sc_sid c = sid \<and> lt_uri c \<noteq> '''') (session_clients db)) else [])"
| "enqueue_rows (W_Subject s) event now db =
     map (\<lambda>c. queued event (uc_client c) None (uc_subject c) c now)
       (sql_select (\<lambda>c. uc_subject c = s \<and> lt_uri c \<noteq> '''') (user_clients db))"
| "enqueue_rows W_All event now db =
     map (\<lambda>c. queued (event @ ''/'' @ uc_subject c) (uc_client c) None (uc_subject c) c now)
       (sql_select (\<lambda>c. lt_uri c \<noteq> '''') (user_clients db))"

text \<open>The primary key, the unique pair of session and client, and the check of the delivery table.\<close>

definition delivery_conflict :: "delivery list \<Rightarrow> delivery \<Rightarrow> bool" where
  "delivery_conflict t d \<longleftrightarrow>
     sql_exists (\<lambda>x. de_event x = de_event d \<and> de_client x = de_client d \<or>
       de_sid x \<noteq> None \<and> de_sid x = de_sid d \<and> de_client x = de_client d) t \<or>
     de_sid d \<in> {None, Some ''''} \<and> de_subject d = ''''"

fun insert_deliveries :: "bool \<Rightarrow> delivery list \<Rightarrow> delivery list \<Rightarrow> delivery list option" where
  "insert_deliveries ignore [] t = Some t"
| "insert_deliveries ignore (d # ds) t =
     (if \<not> delivery_conflict t d then insert_deliveries ignore ds (t @ [d])
      else if ignore then insert_deliveries ignore ds t else None)"

definition revoke_session :: "millis \<Rightarrow> session_row \<Rightarrow> session_row" where
  "revoke_session now b = b\<lparr>bs_revoked := Some (case bs_revoked b of None \<Rightarrow> now | Some t \<Rightarrow> t)\<rparr>"

definition selected_pkce :: "who \<Rightarrow> grant_db \<Rightarrow> pkce_row \<Rightarrow> bool" where
  "selected_pkce w db p \<longleftrightarrow> w = W_All \<or> sql_exists (\<lambda>c. co_sig c = pk_sig p \<and> selects w (co_request c)) (codes db)"

definition selected_access :: "who \<Rightarrow> grant_db \<Rightarrow> access_row \<Rightarrow> bool" where
  "selected_access w db a \<longleftrightarrow> w = W_All \<or> sql_exists (\<lambda>t. tr_sig t = ac_sig a \<and> selects w (tr_request t)) (token_requests db)"

definition selected_user_client :: "who \<Rightarrow> user_client \<Rightarrow> bool" where
  "selected_user_client w c \<longleftrightarrow> (case w of W_Sid _ \<Rightarrow> False | W_Subject s \<Rightarrow> uc_subject c = s | W_All \<Rightarrow> True)"

text \<open>The effect of an action whose guard holds: the new tables with the number of affected rows, or none when a
  constraint rejects it. The tables only shrink or change in place except through the insertions.\<close>

definition upsert_user_client :: "user_client \<Rightarrow> user_client list \<Rightarrow> user_client list" where
  "upsert_user_client c t =
     (if sql_exists (\<lambda>x. uc_subject x = uc_subject c \<and> uc_client x = uc_client c) t
      then sql_update (\<lambda>x. uc_subject x = uc_subject c \<and> uc_client x = uc_client c)
             (\<lambda>x. x\<lparr>lt_uri := lt_uri c, lt_private := lt_private c, lt_http := lt_http c\<rparr>) t
      else t @ [c])"

definition consume_rows :: "string \<Rightarrow> string \<Rightarrow> grant_db mutation" where
  "consume_rows d request db =
     (case commit_grants (device db)
             (sql_update (\<lambda>r. g_device r = d)
                (\<lambda>r. r\<lparr>g_state := Consumed, g_claim_until := Some 0, g_token_request := Some request\<rparr>) (grants (device db)))
             (sql_count (\<lambda>r. g_device r = d) (grants (device db))) of
        None \<Rightarrow> None
      | Some (dv, n) \<Rightarrow> Some (db\<lparr>device := dv\<rparr>, n))"

fun act :: "action \<Rightarrow> grant_db mutation" where
  "act (DeleteExpiredPKCE now) db =
     (let p = (\<lambda>r. pk_expires r \<le> now) in Some (db\<lparr>pkces := sql_delete p (pkces db)\<rparr>, sql_count p (pkces db)))"
| "act (DeleteExpiredCodes now) db =
     (let p = (\<lambda>r. co_expires r \<le> now) in Some (db\<lparr>codes := sql_delete p (codes db)\<rparr>, sql_count p (codes db)))"
| "act (InsertCode r) db = map_option (\<lambda>t. (db\<lparr>codes := t\<rparr>, 1)) (insert_unique co_sig r (codes db))"
| "act (InsertPKCE r) db = map_option (\<lambda>t. (db\<lparr>pkces := t\<rparr>, 1)) (insert_unique pk_sig r (pkces db))"
| "act (UseCode sig a) db =
     (let p = (\<lambda>r. co_sig r = sig \<and> \<not> co_invalidated r)
      in Some (db\<lparr>codes := sql_update p (\<lambda>r. r\<lparr>co_invalidated := True, co_attempt := Some a\<rparr>) (codes db)\<rparr>,
               sql_count p (codes db)))"
| "act (DeletePKCE sig) db =
     (let p = (\<lambda>r. pk_sig r = sig) in Some (db\<lparr>pkces := sql_delete p (pkces db)\<rparr>, sql_count p (pkces db)))"
| "act (DeleteExpiredAccess now) db =
     (let p = (\<lambda>r. ac_expires r \<le> now) in Some (db\<lparr>accesses := sql_delete p (accesses db)\<rparr>, sql_count p (accesses db)))"
| "act DeleteOrphanRequests db =
     (let p = (\<lambda>t. \<not> sql_exists (\<lambda>a. ac_sig a = tr_sig t) (accesses db))
      in Some (db\<lparr>token_requests := sql_delete p (token_requests db)\<rparr>, sql_count p (token_requests db)))"
| "act (InsertAccess r) db = map_option (\<lambda>t. (db\<lparr>accesses := t\<rparr>, 1)) (insert_unique ac_sig r (accesses db))"
| "act (InsertRequest r) db = map_option (\<lambda>t. (db\<lparr>token_requests := t\<rparr>, 1)) (insert_unique tr_sig r (token_requests db))"
| "act (TouchClient c now) db =
     (let p = (\<lambda>d. dc_id d = c)
      in Some (db\<lparr>dynamics := sql_update p (\<lambda>d. d\<lparr>dc_last_used :=
                 Some (case dc_last_used d of None \<Rightarrow> now | Some t \<Rightarrow> if t < now then now else t)\<rparr>) (dynamics db)\<rparr>,
               sql_count p (dynamics db)))"
| "act (UpsertUserClient s c uri pr ht now) db =
     (if s = '''' then None
      else Some (db\<lparr>user_clients := upsert_user_client
             \<lparr>lt_uri = registered_uri c uri db, lt_private = pr, lt_http = ht, lt_created = now, uc_subject = s, uc_client = c\<rparr>
             (user_clients db)\<rparr>, 1))"
| "act (InsertSessionClient sid c uri pr ht now) db =
     (if sql_exists (\<lambda>x. sc_sid x = sid \<and> sc_client x = c) (session_clients db) then Some (db, 0)
      else Some (db\<lparr>session_clients := session_clients db @
             [\<lparr>lt_uri = registered_uri c uri db, lt_private = pr, lt_http = ht, lt_created = now, sc_sid = sid, sc_client = c\<rparr>]\<rparr>, 1))"
| "act (DeleteAccess sig) db =
     (let p = (\<lambda>r. ac_sig r = sig) in Some (db\<lparr>accesses := sql_delete p (accesses db)\<rparr>, sql_count p (accesses db)))"
| "act (DeleteRequest sig) db =
     (let p = (\<lambda>r. tr_sig r = sig)
      in Some (db\<lparr>token_requests := sql_delete p (token_requests db)\<rparr>, sql_count p (token_requests db)))"
| "act (DeleteExpiredRefresh now) db =
     (let p = (\<lambda>r. re_expires r \<le> now) in Some (db\<lparr>refreshes := sql_delete p (refreshes db)\<rparr>, sql_count p (refreshes db)))"
| "act (InsertRefresh r) db = map_option (\<lambda>t. (db\<lparr>refreshes := t\<rparr>, 1)) (insert_unique re_sig r (refreshes db))"
| "act (DeleteRefresh sig) db =
     (let p = (\<lambda>r. re_sig r = sig) in Some (db\<lparr>refreshes := sql_delete p (refreshes db)\<rparr>, sql_count p (refreshes db)))"
| "act (RotateRefresh sig request a) db =
     (let p = (\<lambda>r. re_sig r = sig \<and> re_request_id r = request \<and> re_active r)
      in Some (db\<lparr>refreshes := sql_update p (\<lambda>r. r\<lparr>re_active := False, re_attempt := Some a\<rparr>) (refreshes db)\<rparr>,
               sql_count p (refreshes db)))"
| "act (DeactivateFamily request) db =
     (let p = (\<lambda>r. re_request_id r = request)
      in Some (db\<lparr>refreshes := sql_update p (\<lambda>r. r\<lparr>re_active := False\<rparr>) (refreshes db)\<rparr>, sql_count p (refreshes db)))"
| "act (DeleteFamilyAccess request) db =
     (let p = (\<lambda>r. ac_request_id r = request)
      in Some (db\<lparr>accesses := sql_delete p (accesses db)\<rparr>, sql_count p (accesses db)))"
| "act (ConsumeDevice d request) db = consume_rows d request db"
| "act Malformed db = None"
| "act (Enqueue w event now) db =
     (case insert_deliveries (is_sid w) (enqueue_rows w event now db) (deliveries db) of
        None \<Rightarrow> None
      | Some t \<Rightarrow> Some (db\<lparr>deliveries := t\<rparr>, int (length t) - int (length (deliveries db))))"
| "act (RevokeSessions w now) db =
     Some (db\<lparr>sessions := sql_update (selects_session w) (revoke_session now) (sessions db)\<rparr>,
           sql_count (selects_session w) (sessions db))"
| "act (DeleteInteractions w) db =
     Some (db\<lparr>interactions := sql_delete (covers w db) (interactions db)\<rparr>, sql_count (covers w db) (interactions db))"
| "act (InvalidateCodes w) db =
     (let p = (\<lambda>r. \<not> co_invalidated r \<and> selects w (co_request r))
      in Some (db\<lparr>codes := sql_update p (\<lambda>r. r\<lparr>co_invalidated := True\<rparr>) (codes db)\<rparr>, sql_count p (codes db)))"
| "act (DeletePKCEs w) db =
     Some (db\<lparr>pkces := sql_delete (selected_pkce w db) (pkces db)\<rparr>, sql_count (selected_pkce w db) (pkces db))"
| "act (DeactivateRefreshes w) db =
     (let p = (\<lambda>r. re_active r \<and> selects w (re_request r))
      in Some (db\<lparr>refreshes := sql_update p (\<lambda>r. r\<lparr>re_active := False\<rparr>) (refreshes db)\<rparr>, sql_count p (refreshes db)))"
| "act (DeleteAccesses w) db =
     Some (db\<lparr>accesses := sql_delete (selected_access w db) (accesses db)\<rparr>, sql_count (selected_access w db) (accesses db))"
| "act (DeleteRequests w) db =
     (let p = (\<lambda>t. selects w (tr_request t))
      in Some (db\<lparr>token_requests := sql_delete p (token_requests db)\<rparr>, sql_count p (token_requests db)))"
| "act (DeleteSessionClients w) db =
     (let p = (\<lambda>c. covers w db (sc_sid c))
      in Some (db\<lparr>session_clients := sql_delete p (session_clients db)\<rparr>, sql_count p (session_clients db)))"
| "act (DeleteUserClients w) db =
     Some (db\<lparr>user_clients := sql_delete (selected_user_client w) (user_clients db)\<rparr>,
           sql_count (selected_user_client w) (user_clients db))"
| "act (DenyDevices s) db =
     (case deny_subject_stmt s True (device db) of None \<Rightarrow> None | Some (dv, n) \<Rightarrow> Some (db\<lparr>device := dv\<rparr>, n))"
| "act (DeleteBindings sid) db =
     (let p = (\<lambda>d. d = sid)
      in Some (db\<lparr>upstream_bindings := sql_delete p (upstream_bindings db)\<rparr>, sql_count p (upstream_bindings db)))"
| "act (DeleteSession sid) db =
     (let p = (\<lambda>b. bs_digest b = sid) in Some (db\<lparr>sessions := sql_delete p (sessions db)\<rparr>, sql_count p (sessions db)))"
| "act (InsertEvent i) db =
     (if i \<in> set (log_events db) then None else Some (db\<lparr>log_events := log_events db @ [i]\<rparr>, 1))"

definition exec_stmt :: "millis \<Rightarrow> stmt \<Rightarrow> grant_db mutation" where
  "exec_stmt cutoff s db =
     (let result = (if list_all (holds cutoff db) (st_guard s) then act (st_action s) db else Some (db, 0))
      in case result of
           None \<Rightarrow> None
         | Some (db', n) \<Rightarrow> if st_exact s \<and> n \<noteq> 1 then None else Some (db', n))"

abbreviation plain :: "action \<Rightarrow> stmt" where
  "plain a \<equiv> \<lparr>st_action = a, st_guard = [], st_exact = False\<rparr>"

section \<open>Logout\<close>

definition validOIDCSessionID :: "string \<Rightarrow> bool" where
  "validOIDCSessionID sid \<longleftrightarrow> (case b64_decode sid of None \<Rightarrow> False | Some d \<Rightarrow> length d = 32 \<and> b64_encode d = sid)"


definition is_blank_text :: "string \<Rightarrow> bool" where
  "is_blank_text s \<longleftrightarrow> list_all is_space (runes s)"

text \<open>The tokens, codes and proofs that a revocation takes away, shared by all of them.\<close>

definition revoke_artefacts :: "who \<Rightarrow> action list" where
  "revoke_artefacts w = [InvalidateCodes w, DeletePKCEs w, DeactivateRefreshes w, DeleteAccesses w, DeleteRequests w]"

text \<open>The instant is None for the zero time.\<close>

definition SessionRevocationStatements :: "string \<Rightarrow> string \<Rightarrow> millis option \<Rightarrow> action list option" where
  "SessionRevocationStatements sid event at =
     (case at of
        None \<Rightarrow> None
      | Some now \<Rightarrow>
          if \<not> validOIDCSessionID sid \<or> is_blank_text event \<or> now < 0 then None
          else Some ([Enqueue (W_Sid sid) event now, RevokeSessions (W_Sid sid) now, DeleteInteractions (W_Sid sid)] @
                     revoke_artefacts (W_Sid sid) @ [DeleteSessionClients (W_Sid sid)]))"

definition run_actions :: "action list \<Rightarrow> grant_db mutation" where
  "run_actions as = run_tx (map (\<lambda>a. exec_stmt 0 (plain a)) as)"

text \<open>The first statement of an administrator's logout decides the authority inside the transaction: it has to
  return exactly one row. The authority is the condition that the caller assembles.\<close>

definition authority_stmt :: "(grant_db \<Rightarrow> bool) \<Rightarrow> int \<Rightarrow> grant_db mutation" where
  "authority_stmt allowed n db = (if allowed db then Some (db, n) else None)"

definition has_session :: "string \<Rightarrow> grant_db \<Rightarrow> bool" where
  "has_session sid db \<longleftrightarrow> sql_exists (\<lambda>b. bs_digest b = sid) (sessions db)"

datatype logout_err = L_Invalid | L_Unauthorized | L_NotFound | L_Query | L_Rand | L_Exec exec_err

definition run_authorized ::
  "exec_fault \<Rightarrow> (grant_db \<Rightarrow> bool) \<Rightarrow> int \<Rightarrow> action list \<Rightarrow> grant_db \<Rightarrow> grant_db \<times> (logout_err + unit)" where
  "run_authorized f allowed n as db =
     (case run_execute f (run_tx (authority_stmt allowed n # map (\<lambda>a. exec_stmt 0 (plain a)) as)) db of
        (db', Inr _) \<Rightarrow> (db', Inr ())
      | (db', Inl Exec_Rejected) \<Rightarrow> (db', Inl (if allowed db then L_Exec Exec_Rejected else L_Unauthorized))
      | (db', Inl Exec_Unavailable) \<Rightarrow> (db', Inl (L_Exec Exec_Unavailable)))"

text \<open>Logging out one subject. A condition that is blank or has a semicolon is None.\<close>

definition force_logout_actions :: "prims \<Rightarrow> string \<Rightarrow> string \<Rightarrow> millis \<Rightarrow> action list" where
  "force_logout_actions P operation target now =
     [Enqueue (W_Subject target) operation now, RevokeSessions (W_Subject target) now, DeleteInteractions (W_Subject target)] @
     revoke_artefacts (W_Subject target) @
     [DenyDevices target, DeleteSessionClients (W_Subject target), DeleteUserClients (W_Subject target),
      InsertEvent (eventID P operation ''ForcedLogout'')]"

definition ForceLogout ::
  "prims \<Rightarrow> string \<Rightarrow> string \<Rightarrow> (grant_db \<Rightarrow> bool) option \<Rightarrow> millis \<Rightarrow> exec_fault \<Rightarrow> grant_db \<Rightarrow> grant_db \<times> (logout_err + unit)" where
  "ForceLogout P operation target authorization now f db =
     (case authorization of
        None \<Rightarrow> (db, Inl L_Invalid)
      | Some allowed \<Rightarrow>
          if target = '''' \<or> 512 < length target \<or> \<not> trimmed target \<or> is_blank_text operation then (db, Inl L_Invalid)
          else run_authorized f (\<lambda>d. sql_exists (\<lambda>u. us_subject u = target) (users d) \<and> allowed d) 1
                 (force_logout_actions P operation target now) db)"

definition logout_all_actions :: "string \<Rightarrow> millis \<Rightarrow> action list" where
  "logout_all_actions operation now =
     [Enqueue W_All operation now, RevokeSessions W_All now, DeleteInteractions W_All] @ revoke_artefacts W_All @
     [DeleteSessionClients W_All, DeleteUserClients W_All]"

definition LogoutAllSessions ::
  "string \<Rightarrow> (grant_db \<Rightarrow> bool) option \<Rightarrow> millis \<Rightarrow> exec_fault \<Rightarrow> grant_db \<Rightarrow> grant_db \<times> (logout_err + unit)" where
  "LogoutAllSessions operation authorization now f db =
     (case authorization of
        None \<Rightarrow> (db, Inl L_Invalid)
      | Some allowed \<Rightarrow>
          if is_blank_text operation then (db, Inl L_Invalid)
          else run_authorized f allowed 0 (logout_all_actions operation now) db)"

text \<open>Deleting one session: an advisory read that tells a missing session from a missing authority, then the batch
  of the logout with the removal of the row and of its upstream bindings. Another node may commit in between.\<close>

definition DeleteSession_op ::
  "string \<Rightarrow> string \<Rightarrow> (grant_db \<Rightarrow> bool) option \<Rightarrow> millis option \<Rightarrow> bool \<Rightarrow> (grant_db \<Rightarrow> grant_db) \<Rightarrow> exec_fault \<Rightarrow> grant_db \<Rightarrow>
   grant_db \<times> (logout_err + unit)" where
  "DeleteSession_op operation sid authorization at fails other f db =
     (case authorization of
        None \<Rightarrow> (db, Inl L_Invalid)
      | Some allowed \<Rightarrow>
          if is_blank_text operation then (db, Inl L_Invalid)
          else case SessionRevocationStatements sid operation at of
            None \<Rightarrow> (db, Inl L_Invalid)
          | Some as \<Rightarrow>
              if fails then (db, Inl L_Query)
              else if \<not> allowed db then (db, Inl L_Unauthorized)
              else if \<not> has_session sid db then (db, Inl L_NotFound)
              else run_authorized f (\<lambda>d. has_session sid d \<and> allowed d) 1 (as @ [DeleteBindings sid, DeleteSession sid]) (other db))"

end
