(* ===== verification/GrantTx.thy ===== *)
theory GrantTx
  imports GrantStatements
begin

text \<open>
  The storage transactions of \<^verbatim>\<open>internal/oauth/grant_storage.go\<close>, \<^verbatim>\<open>account_expiry.go\<close>, \<^verbatim>\<open>profile_revalidation.go\<close> and
  \<^verbatim>\<open>password_transaction.go\<close>: the calls of the protocol library collect statements in a transaction of a kind, each
  guarded by the snapshots the request was decided on, and \<^verbatim>\<open>Commit\<close> submits them as one replicated request and then
  reads back whether this transaction took effect.
\<close>

section \<open>Transactions\<close>

datatype tx_kind = T_None | T_Issue | T_Code | T_Refresh | T_Reuse | T_Device | T_Exchange | T_Password

text \<open>A login restriction of the request's client: its prefix, its revision and the client.\<close>

record client_policy =
  cp_prefix :: string
  cp_revision :: int
  cp_client :: string

record transaction =
  tx_password_generation :: int
  tx_authentication_generation :: int
  tx_account_hash :: string
  tx_target_refresh :: string
  tx_attempt :: string
  tx_kind :: tx_kind
  tx_key :: string
  tx_device_digest :: string
  tx_device_claim :: string
  tx_device_request :: string
  tx_request_id :: string
  tx_oidc_sid :: string
  tx_issue_now :: millis
  tx_source :: string
  tx_source_expires :: millis
  tx_actor :: string
  tx_actor_expires :: millis
  tx_target_access :: string
  tx_principal :: string
  tx_revision :: int
  tx_accounts :: "(string \<times> millis option) list"
  tx_profile :: "string \<times> string"
  tx_catalog :: "int option"
  tx_policy :: "client_policy option"
  tx_machine :: "int option"
  tx_managed :: "(string \<times> int \<times> string) option"
  tx_dpop :: "string \<times> bool"
  tx_cut_access :: "int \<times> int"
  tx_cut_request :: "int \<times> int"
  tx_cut_actor_access :: "int \<times> int"
  tx_cut_actor_request :: "int \<times> int"
  tx_statements :: "stmt list"
  tx_done :: bool

text \<open>The values that a request context carries. A policy of a managed client is marked: its fence is another one.\<close>

record principal_snapshot =
  ps_signature :: string
  ps_subject :: string
  ps_revision :: int
  ps_catalog :: "int option"
  ps_policy :: "(client_policy \<times> bool) option"
  ps_machine :: "int option"
  ps_roles :: "string list"
  ps_groups :: "string list option"
  ps_nested :: "(string \<times> json) list"
  ps_root :: "(string \<times> json) list"

record ctx =
  cx_accounts :: "(string \<times> millis option) list"
  cx_profile :: "string \<times> string"
  cx_dpop :: "string \<times> bool"
  cx_principal :: "principal_snapshot option"
  cx_machine_client :: string
  cx_tx :: "transaction option"

text \<open>The configuration of the store. Looking up a client and the audiences of an access token belong to other parts
  of the server and are arguments; so is how the protocol library collects scopes and audiences.\<close>

record store =
  so_client :: "string option"
  so_idle :: millis
  so_logout_uri :: string
  so_private :: bool
  so_http :: bool
  so_get_client :: "grant_db \<Rightarrow> string \<Rightarrow> client option"
  so_managed_clients :: bool
  so_force_mfa :: bool
  so_arguments :: "string list \<Rightarrow> string list"
  so_audiences :: "request \<Rightarrow> string list option"

text \<open>What a call meets: the wall clock, the clock of the store, the database its reads see, and whether a read fails.\<close>

record call_env =
  ce_now :: millis
  ce_clock :: millis
  ce_db :: grant_db
  ce_fails :: bool

datatype grant_err =
    G_Nested | G_Rand | G_Invalid | G_Closed | G_Mixed | G_Session | G_InvalidGrant | G_NotFound | G_Query | G_Encode
  | G_Serialization | G_Exec exec_err | G_Target | G_Audience | G_Client | G_Inactive | G_Claims

definition empty_tx :: transaction where
  "empty_tx =
     \<lparr>tx_password_generation = 0, tx_authentication_generation = 0, tx_account_hash = '''', tx_target_refresh = '''',
      tx_attempt = '''', tx_kind = T_None, tx_key = '''', tx_device_digest = '''', tx_device_claim = '''',
      tx_device_request = '''', tx_request_id = '''', tx_oidc_sid = '''', tx_issue_now = 0, tx_source = '''',
      tx_source_expires = 0, tx_actor = '''', tx_actor_expires = 0, tx_target_access = '''', tx_principal = '''',
      tx_revision = 0, tx_accounts = [], tx_profile = ('''', ''''), tx_catalog = None, tx_policy = None, tx_machine = None,
      tx_managed = None, tx_dpop = ('''', False), tx_cut_access = (-1, -1), tx_cut_request = (-1, -1),
      tx_cut_actor_access = (-1, -1), tx_cut_actor_request = (-1, -1), tx_statements = [], tx_done = False\<rparr>"

definition begin_snapshot :: "principal_snapshot \<Rightarrow> transaction \<Rightarrow> transaction" where
  "begin_snapshot s tx =
     tx\<lparr>tx_principal := (if ps_subject s \<noteq> '''' \<and> 0 < ps_revision s then ps_subject s else tx_principal tx),
        tx_revision := (if ps_subject s \<noteq> '''' \<and> 0 < ps_revision s then ps_revision s else tx_revision tx),
        tx_catalog := ps_catalog s,
        tx_policy := (case ps_policy s of Some (p, False) \<Rightarrow> Some p | _ \<Rightarrow> None),
        tx_machine := ps_machine s\<rparr>"

text \<open>The attempt is the encoding of 16 random bytes.\<close>

definition BeginTX :: "string option \<Rightarrow> ctx \<Rightarrow> grant_err + ctx" where
  "BeginTX entropy cx =
     (if cx_tx cx \<noteq> None then Inl G_Nested
      else case entropy of
        None \<Rightarrow> Inl G_Rand
      | Some bytes \<Rightarrow>
          let tx = empty_tx\<lparr>tx_attempt := b64_encode bytes, tx_accounts := cx_accounts cx, tx_profile := cx_profile cx,
                            tx_dpop := cx_dpop cx\<rparr>
          in Inr (cx\<lparr>cx_tx := Some (case cx_principal cx of None \<Rightarrow> tx | Some s \<Rightarrow> begin_snapshot s tx)\<rparr>))"

definition Rollback :: "ctx \<Rightarrow> ctx" where
  "Rollback cx =
     (case cx_tx cx of
        None \<Rightarrow> cx
      | Some tx \<Rightarrow> if tx_done tx then cx else cx\<lparr>cx_tx := Some (tx\<lparr>tx_done := True, tx_statements := []\<rparr>)\<rparr>)"

definition requestIDPart :: "prims \<Rightarrow> string \<Rightarrow> string" where
  "requestIDPart P v = take 20 (digest P v)"

definition kind_request_id :: "prims \<Rightarrow> tx_kind \<Rightarrow> string \<Rightarrow> string \<Rightarrow> string option" where
  "kind_request_id P kind key attempt =
     (case kind of
        T_Issue \<Rightarrow> Some (''oauth-code-issue/'' @ key)
      | T_Code \<Rightarrow> Some (''oauth-code-exchange/'' @ requestIDPart P key @ ''/'' @ requestIDPart P attempt)
      | T_Refresh \<Rightarrow> Some (''oauth-refresh/'' @ requestIDPart P key @ ''/'' @ requestIDPart P attempt)
      | T_Reuse \<Rightarrow> Some (''oauth-refresh-reuse/'' @ key)
      | T_Device \<Rightarrow> Some (''oauth-device-exchange/'' @ key)
      | _ \<Rightarrow> None)"

definition configureTX :: "prims \<Rightarrow> tx_kind \<Rightarrow> string \<Rightarrow> transaction option \<Rightarrow> grant_err + transaction" where
  "configureTX P kind key t =
     (case t of
        None \<Rightarrow> Inl G_Closed
      | Some tx \<Rightarrow>
          if tx_done tx then Inl G_Closed
          else if tx_kind tx \<noteq> T_None \<and> (tx_kind tx \<noteq> kind \<or> tx_key tx \<noteq> key) then Inl G_Mixed
          else if tx_kind tx = T_None then
            (case kind_request_id P kind key (tx_attempt tx) of
               None \<Rightarrow> Inl G_Invalid
             | Some i \<Rightarrow> Inr (tx\<lparr>tx_kind := kind, tx_key := key, tx_request_id := i\<rparr>))
          else Inr tx)"

definition BeginDeviceTX :: "prims \<Rightarrow> string option \<Rightarrow> millis \<Rightarrow> string \<Rightarrow> string \<Rightarrow> ctx \<Rightarrow> grant_err + ctx" where
  "BeginDeviceTX P entropy now deviceCode claimToken cx =
     (if deviceCode = '''' \<or> claimToken = '''' then Inl G_Invalid
      else case BeginTX entropy cx of
        Inl x \<Rightarrow> Inl x
      | Inr cx \<Rightarrow>
          let d = digest P deviceCode; c = digest P claimToken
          in case configureTX P T_Device (take 20 d @ ''/'' @ take 20 c) (cx_tx cx) of
               Inl x \<Rightarrow> Inl x
             | Inr tx \<Rightarrow> Inr (cx\<lparr>cx_tx := Some (tx\<lparr>tx_device_digest := d, tx_device_claim := c, tx_issue_now := now\<rparr>)\<rparr>))"

definition SetDeviceRequestID :: "string \<Rightarrow> ctx \<Rightarrow> grant_err + ctx" where
  "SetDeviceRequestID i cx =
     (case cx_tx cx of
        None \<Rightarrow> Inl G_Invalid
      | Some tx \<Rightarrow> if tx_kind tx \<noteq> T_Device \<or> i = '''' then Inl G_Invalid
                  else Inr (cx\<lparr>cx_tx := Some (tx\<lparr>tx_device_request := i\<rparr>)\<rparr>))"

text \<open>The expiry of an actor is None for the zero time.\<close>

definition beginTokenExchangeTX ::
  "string option \<Rightarrow> millis \<Rightarrow> string \<Rightarrow> millis \<Rightarrow> string \<Rightarrow> millis option \<Rightarrow> ctx \<Rightarrow> grant_err + ctx" where
  "beginTokenExchangeTX entropy now source sourceExpires actor actorExpires cx =
     (if source = '''' \<or> sourceExpires \<le> now then Inl G_Invalid
      else if (actor = '''') \<noteq> (actorExpires = None) \<or> actor \<noteq> '''' \<and> (case actorExpires of None \<Rightarrow> True | Some e \<Rightarrow> e \<le> now)
      then Inl G_Invalid
      else case BeginTX entropy cx of
        Inl x \<Rightarrow> Inl x
      | Inr cx \<Rightarrow>
          (case cx_tx cx of
             None \<Rightarrow> Inl G_Invalid
           | Some tx \<Rightarrow>
               let tx = tx\<lparr>tx_kind := T_Exchange, tx_source := source, tx_source_expires := sourceExpires\<rparr>
               in Inr (cx\<lparr>cx_tx := Some (case actorExpires of
                          None \<Rightarrow> tx | Some e \<Rightarrow> tx\<lparr>tx_actor := actor, tx_actor_expires := e\<rparr>)\<rparr>)))"

definition beginPasswordTX :: "string option \<Rightarrow> string \<Rightarrow> int \<Rightarrow> int \<Rightarrow> string \<Rightarrow> ctx \<Rightarrow> grant_err + ctx" where
  "beginPasswordTX entropy subject pgen agen accountHash cx =
     (if subject = '''' \<or> pgen < 1 \<or> agen < 1 then Inl G_Invalid
      else case BeginTX entropy cx of
        Inl x \<Rightarrow> Inl x
      | Inr cx \<Rightarrow>
          (case cx_tx cx of
             None \<Rightarrow> Inl G_Invalid
           | Some tx \<Rightarrow>
               if tx_principal tx \<noteq> '''' \<and> tx_principal tx \<noteq> subject then Inl G_Invalid
               else Inr (cx\<lparr>cx_tx := Some (tx\<lparr>tx_kind := T_Password, tx_principal := subject, tx_password_generation := pgen,
                       tx_authentication_generation := agen, tx_account_hash := accountHash\<rparr>)\<rparr>)))"

section \<open>Guards\<close>

definition issueNowMillis :: "millis \<Rightarrow> transaction \<Rightarrow> millis \<times> transaction" where
  "issueNowMillis now tx = (let n = (if tx_issue_now tx = 0 then now else tx_issue_now tx) in (n, tx\<lparr>tx_issue_now := n\<rparr>))"

definition accountExpiryGuard :: "transaction \<Rightarrow> atom list" where
  "accountExpiryGuard tx = map (\<lambda>(s, deadline). A_Account s deadline) (tx_accounts tx)"

definition profileGuard :: "string \<times> string \<Rightarrow> atom list" where
  "profileGuard p = (if fst p = '''' then [] else [A_Profile (fst p) (snd p)])"

definition dpop_guard :: "string \<times> bool \<Rightarrow> atom list" where
  "dpop_guard p = (if fst p = '''' then [] else [A_DPoP (fst p) (snd p)])"

definition password_guard :: "millis \<Rightarrow> transaction \<Rightarrow> atom list \<times> transaction" where
  "password_guard now tx =
     (if tx_kind tx \<noteq> T_Password then ([], tx)
      else let (n, tx) = issueNowMillis now tx
           in ([A_Password (tx_principal tx) (tx_password_generation tx) (tx_authentication_generation tx),
                A_Lockdown n (tx_principal tx)] @
               (if tx_account_hash tx \<noteq> '''' then [A_AccountLock (tx_account_hash tx) n] else []), tx))"

definition subject_guard :: "millis \<Rightarrow> transaction \<Rightarrow> atom list \<times> transaction" where
  "subject_guard now tx =
     (if tx_principal tx = '''' then ([], tx)
      else let (n, tx) = issueNowMillis now tx
           in ([A_Principal (tx_principal tx) n] @
               (if 1 \<le> tx_revision tx then [A_Revision (tx_principal tx) (tx_revision tx)] else []), tx))"

definition catalog_guard :: "transaction \<Rightarrow> atom list" where
  "catalog_guard tx = (case tx_catalog tx of None \<Rightarrow> [] | Some v \<Rightarrow> [A_Catalog v])"

definition principalGuard :: "millis \<Rightarrow> transaction \<Rightarrow> atom list \<times> transaction" where
  "principalGuard now tx =
     (let (password, tx) = password_guard now tx;
          guard = accountExpiryGuard tx @ profileGuard (tx_profile tx) @ password @ dpop_guard (tx_dpop tx)
      in if tx_principal tx = '''' \<and> tx_policy tx = None \<and> tx_catalog tx = None then (guard, tx)
         else
           let (subject, tx) = subject_guard now tx; guard = guard @ subject
           in case tx_policy tx of
                None \<Rightarrow> (guard @ catalog_guard tx, tx)
              | Some p \<Rightarrow>
                  if cp_client p = '''' \<or> cp_revision p < 0 then ([A_False], tx)
                  else if cp_revision p = 0 then (guard @ [A_NoRestriction (cp_client p)] @ catalog_guard tx, tx)
                  else (guard @ [A_Restriction (cp_client p) (nilIfEmpty (cp_prefix p)) (cp_revision p)] @ catalog_guard tx, tx))"

definition managed_atoms :: "string \<Rightarrow> int \<Rightarrow> string \<Rightarrow> string \<Rightarrow> atom list" where
  "managed_atoms i revision gen request =
     (if i = '''' \<or> gen = '''' \<or> revision < 0 then [] else [A_Managed i gen revision request])"

definition managedClientGuard :: "request \<Rightarrow> atom list" where
  "managedClientGuard r =
     (case rq_client r of Managed c \<Rightarrow> managed_atoms (cl_id c) (cl_revision c) (cl_generation c) (rq_id r) | _ \<Rightarrow> [])"

definition managedGuard :: "transaction \<Rightarrow> atom list" where
  "managedGuard tx =
     (case tx_managed tx of None \<Rightarrow> [] | Some (i, revision, gen) \<Rightarrow> managed_atoms i revision gen (tx_device_request tx))"

definition tx_deviceGuard :: "millis \<Rightarrow> transaction \<Rightarrow> atom list \<times> transaction" where
  "tx_deviceGuard now tx =
     (let (guard, tx) = principalGuard now tx in (A_Device (tx_device_digest tx) (tx_device_claim tx) # guard, tx))"

text \<open>The policy of a machine client fences its token write, which has no grant row.\<close>

definition clientCredentialsClaimsGuard :: "ctx \<Rightarrow> atom list" where
  "clientCredentialsClaimsGuard cx =
     (case (case cx_tx cx of
              Some tx \<Rightarrow> (case tx_machine tx of Some v \<Rightarrow> Some v | None \<Rightarrow> Option.bind (cx_principal cx) ps_machine)
            | None \<Rightarrow> Option.bind (cx_principal cx) ps_machine) of
        None \<Rightarrow> []
      | Some revision \<Rightarrow>
          if cx_machine_client cx = '''' then [A_False]
          else if revision = 0 then [A_NoMachineClaims (cx_machine_client cx)]
          else [A_MachineClaims (cx_machine_client cx) revision])"

definition exchangeInputClientGuard :: "store \<Rightarrow> string \<Rightarrow> atom list" where
  "exchangeInputClientGuard st sig = [A_InputClient sig (case so_client st of None \<Rightarrow> '''' | Some i \<Rightarrow> i)]"

text \<open>Reading the current managed client of a grant before it is spent.\<close>

definition captureManagedSnapshot ::
  "store \<Rightarrow> call_env \<Rightarrow> (grant_db \<Rightarrow> request_record list) \<Rightarrow> transaction \<Rightarrow> grant_err + transaction" where
  "captureManagedSnapshot st e rows tx =
     (if ce_fails e then Inl G_Query
      else case rows (ce_db e) of
        [r] \<Rightarrow>
          (case rr_managed r of
             None \<Rightarrow> Inr tx
           | Some m \<Rightarrow>
               (case so_get_client st (ce_db e) (mr_id m) of
                  None \<Rightarrow> Inl G_Client
                | Some (Managed c) \<Rightarrow>
                    if cl_generation c \<noteq> mr_generation m then Inl G_InvalidGrant
                    else Inr (tx\<lparr>tx_managed := Some (cl_id c, cl_revision c, cl_generation c)\<rparr>)
                | Some _ \<Rightarrow> Inl G_InvalidGrant))
      | _ \<Rightarrow> Inr tx)"

section \<open>Deadlines\<close>

text \<open>The earliest deadline of the accounts, rounded down to seconds; None is the zero time.\<close>

definition accountDeadline :: "(string \<times> millis option) list \<Rightarrow> millis option" where
  "accountDeadline accounts =
     fold (\<lambda>(_, d) limit.
       case d of
         None \<Rightarrow> limit
       | Some d \<Rightarrow> let deadline = d - d mod 1000
                  in case limit of None \<Rightarrow> Some deadline | Some l \<Rightarrow> if deadline < l then Some deadline else Some l)
       accounts None"

definition cap_expiry :: "token_type \<Rightarrow> millis \<Rightarrow> session \<Rightarrow> session" where
  "cap_expiry t limit s =
     (case se_expires s t of
        Some e \<Rightarrow> if limit < e then s\<lparr>se_expires := (se_expires s)(t \<mapsto> limit)\<rparr> else s
      | None \<Rightarrow> s\<lparr>se_expires := (se_expires s)(t \<mapsto> limit)\<rparr>)"

definition cap_session :: "token_type list \<Rightarrow> (string \<times> millis option) list \<Rightarrow> millis \<Rightarrow> session \<Rightarrow> grant_err + session" where
  "cap_session kinds accounts now s =
     (case accountDeadline accounts of
        None \<Rightarrow> Inr s
      | Some limit \<Rightarrow> if limit \<le> now then Inl G_InvalidGrant else Inr (fold (\<lambda>t. cap_expiry t limit) kinds s))"

definition capAuthorizeCodeSession :: "(string \<times> millis option) list \<Rightarrow> millis \<Rightarrow> session \<Rightarrow> grant_err + session" where
  "capAuthorizeCodeSession = cap_session [AuthorizeCode]"

definition capAccountSession :: "(string \<times> millis option) list \<Rightarrow> millis \<Rightarrow> session \<Rightarrow> grant_err + session" where
  "capAccountSession = cap_session [AccessToken, RefreshToken]"

text \<open>The milliseconds of an expiry; those of the zero time are negative.\<close>

definition expires_ms :: "session \<Rightarrow> token_type \<Rightarrow> millis" where
  "expires_ms s t = (case se_expires s t of None \<Rightarrow> - 62135596800000 | Some e \<Rightarrow> e)"


section \<open>Authorization codes\<close>

definition openid_granted :: "request \<Rightarrow> bool" where
  "openid_granted r \<longleftrightarrow> ''openid'' \<in> set (rq_granted_scopes r)"

text \<open>The browser session a request is bound to: absent, or a value of the session's extra data.\<close>

definition session_extra :: "request \<Rightarrow> json option" where
  "session_extra r =
     (case rq_session r of None \<Rightarrow> None | Some s \<Rightarrow> (case se_extra s of None \<Rightarrow> None | Some m \<Rightarrow> m oidcSessionIDExtra))"

definition guardOIDCIssue :: "request \<Rightarrow> transaction \<Rightarrow> grant_err + transaction" where
  "guardOIDCIssue r tx =
     (case session_extra r of
        None \<Rightarrow> if openid_granted r then Inl G_Session else Inr tx
      | Some v \<Rightarrow>
          (case v of
             J_Str sid \<Rightarrow>
               if \<not> validOIDCSessionID sid then Inl G_Session
               else if tx_oidc_sid tx \<noteq> '''' \<and> tx_oidc_sid tx \<noteq> sid then Inl G_Session
               else Inr (tx\<lparr>tx_oidc_sid := sid\<rparr>)
           | _ \<Rightarrow> Inl G_Session))"

definition bind_managed :: "request \<Rightarrow> transaction \<Rightarrow> transaction" where
  "bind_managed r tx =
     (case rq_client r of
        Managed c \<Rightarrow> if managedClientGuard r = [] then tx
                    else tx\<lparr>tx_managed := Some (cl_id c, cl_revision c, cl_generation c)\<rparr>
      | _ \<Rightarrow> tx)"

text \<open>What both writes of an issue share: the capped and encoded request, the guard of the browser session, of the
  principal and of the client, and the expiry.\<close>

definition prepare_issue ::
  "prims \<Rightarrow> store \<Rightarrow> call_env \<Rightarrow> string \<Rightarrow> request \<Rightarrow> transaction option \<Rightarrow>
   grant_err + (transaction \<times> request_record \<times> millis \<times> atom list \<times> millis)" where
  "prepare_issue P st e sig r t =
     (case configureTX P T_Issue sig t of
        Inl x \<Rightarrow> Inl x
      | Inr tx \<Rightarrow>
          (case rq_session r of
             None \<Rightarrow> Inl G_Encode
           | Some s \<Rightarrow>
               (case capAuthorizeCodeSession (tx_accounts tx) (ce_clock e) s of
                  Inl x \<Rightarrow> Inl x
                | Inr s \<Rightarrow>
                    let r = r\<lparr>rq_session := Some s\<rparr>
                    in case encodeRequest r of
                         None \<Rightarrow> Inl G_Encode
                       | Some encoded \<Rightarrow>
                           (case guardOIDCIssue r tx of
                              Inl x \<Rightarrow> Inl x
                            | Inr tx \<Rightarrow>
                                let (now, tx) = issueNowMillis (ce_now e) (bind_managed r tx);
                                    (guard, tx) = principalGuard (ce_now e) tx;
                                    session = (if tx_oidc_sid tx = '''' then []
                                               else [A_Session (tx_oidc_sid tx) (se_subject s) now (now - so_idle st)])
                                in Inr (tx, encoded, expires_ms s AuthorizeCode, session @ guard @ managedClientGuard r, now)))))"

definition CreateAuthorizeCodeSession ::
  "prims \<Rightarrow> store \<Rightarrow> call_env \<Rightarrow> string \<Rightarrow> request \<Rightarrow> transaction option \<Rightarrow> grant_err + transaction" where
  "CreateAuthorizeCodeSession P st e sig r t =
     (case prepare_issue P st e sig r t of
        Inl x \<Rightarrow> Inl x
      | Inr (tx, encoded, expires, guard, now) \<Rightarrow>
          Inr (tx\<lparr>tx_statements := tx_statements tx @
            [plain (DeleteExpiredPKCE now), plain (DeleteExpiredCodes now),
             \<lparr>st_action = InsertCode \<lparr>co_sig = sig, co_request = encoded, co_expires = expires, co_invalidated = False,
                co_attempt = None\<rparr>, st_guard = guard, st_exact = False\<rparr>]\<rparr>))"

definition CreatePKCERequestSession ::
  "prims \<Rightarrow> store \<Rightarrow> call_env \<Rightarrow> string \<Rightarrow> request \<Rightarrow> transaction option \<Rightarrow> grant_err + transaction" where
  "CreatePKCERequestSession P st e sig r t =
     (case prepare_issue P st e sig r t of
        Inl x \<Rightarrow> Inl x
      | Inr (tx, encoded, expires, guard, now) \<Rightarrow>
          Inr (tx\<lparr>tx_statements := tx_statements tx @
            [\<lparr>st_action = InsertPKCE \<lparr>pk_sig = sig, pk_request = encoded, pk_expires = expires\<rparr>, st_guard = guard,
               st_exact = False\<rparr>]\<rparr>))"

definition InvalidateAuthorizeCodeSession ::
  "prims \<Rightarrow> store \<Rightarrow> call_env \<Rightarrow> string \<Rightarrow> transaction option \<Rightarrow> grant_err + transaction" where
  "InvalidateAuthorizeCodeSession P st e sig t =
     (case configureTX P T_Code sig t of
        Inl x \<Rightarrow> Inl x
      | Inr tx \<Rightarrow>
          (case captureManagedSnapshot st e (\<lambda>db. map co_request (sql_select (\<lambda>c. co_sig c = sig) (codes db))) tx of
             Inl x \<Rightarrow> Inl x
           | Inr tx \<Rightarrow>
               let (principal, tx) = principalGuard (ce_now e) tx; guard = principal @ managedGuard tx
               in Inr (tx\<lparr>tx_statements := tx_statements tx @
                    [\<lparr>st_action = UseCode sig (tx_attempt tx), st_guard = guard, st_exact = False\<rparr>,
                     \<lparr>st_action = DeletePKCE sig, st_guard = A_CodeUsed sig (tx_attempt tx) # guard, st_exact = False\<rparr>]\<rparr>)))"

section \<open>Access tokens\<close>

text \<open>The condition that ties a token write to the grant it spends.\<close>

definition spent_atom :: "transaction \<Rightarrow> atom" where
  "spent_atom tx =
     (if tx_kind tx = T_Refresh then A_Rotated (tx_key tx) (tx_attempt tx) else A_CodeUsed (tx_key tx) (tx_attempt tx))"

definition exchange_condition :: "store \<Rightarrow> string \<Rightarrow> millis \<Rightarrow> atom list" where
  "exchange_condition st sig expires = [A_AccessLive sig expires 0, A_HasRequest sig] @ exchangeInputClientGuard st sig"

definition tokenExchangeRequestID :: "prims \<Rightarrow> string \<Rightarrow> string" where
  "tokenExchangeRequestID P sig = ''oauth-token-exchange/'' @ take 32 (digest P sig)"

text \<open>The condition of a token write, and the guard of the cleanup that goes with it.\<close>

definition issue_condition ::
  "prims \<Rightarrow> store \<Rightarrow> millis \<Rightarrow> string \<Rightarrow> transaction \<Rightarrow> grant_err + (atom list \<times> atom list \<times> transaction)" where
  "issue_condition P st now sig tx =
     (case tx_kind tx of
        T_Device \<Rightarrow> (let (guard, tx) = tx_deviceGuard now tx in Inr (guard, [], tx))
      | T_Password \<Rightarrow>
          if sig = '''' \<or> tx_target_access tx \<noteq> '''' then Inl G_Target
          else let (guard, tx) = principalGuard now
                     (tx\<lparr>tx_target_access := sig, tx_request_id := ''oauth-password/'' @ sig\<rparr>)
               in Inr (guard, [], tx)
      | T_Exchange \<Rightarrow>
          if sig = '''' \<or> tx_target_access tx \<noteq> '''' \<and> tx_target_access tx \<noteq> sig then Inl G_Target
          else let (guard, tx) = principalGuard now
                     (tx\<lparr>tx_target_access := sig, tx_request_id := tokenExchangeRequestID P sig\<rparr>)
               in Inr (exchange_condition st (tx_source tx) (tx_source_expires tx) @
                       (if tx_actor tx = '''' then [] else exchange_condition st (tx_actor tx) (tx_actor_expires tx)) @ guard, [], tx)
      | k \<Rightarrow>
          if k = T_Code \<or> k = T_Refresh then
            (let (guard, tx) = principalGuard now tx in Inr (spent_atom tx # guard, guard, tx))
          else Inr ([], [], tx))"


definition form_value :: "string \<Rightarrow> request \<Rightarrow> string" where
  "form_value key r =
     (case rq_form r of None \<Rightarrow> '''' | Some m \<Rightarrow> (case m key of Some (v # _) \<Rightarrow> v | _ \<Rightarrow> ''''))"

definition access_row_of :: "string \<Rightarrow> request \<Rightarrow> session \<Rightarrow> string list \<Rightarrow> access_row" where
  "access_row_of sig r s audiences =
     \<lparr>ac_sig = sig, ac_request_id = rq_id r, ac_client = client_id (rq_client r), ac_requested_at = rq_requested_at r,
      ac_expires = expires_ms s AccessToken, ac_requested_scopes = rq_requested_scopes r,
      ac_granted_scopes = rq_granted_scopes r, ac_requested_audience = rq_requested_audience r,
      ac_granted_audience = audiences\<rparr>"

definition client_logout_uri :: "store \<Rightarrow> client \<Rightarrow> string" where
  "client_logout_uri st c =
     (case c of
        Managed m \<Rightarrow> (case cl_logout_uri m of None \<Rightarrow> '''' | Some u \<Rightarrow> u)
      | Dynamic _ u \<Rightarrow> u
      | _ \<Rightarrow> if so_client st = Some (client_id c) then so_logout_uri st else '''')"

text \<open>The statements after the two inserts: the last use of a registered client, and the clients a subject and a
  browser session have to be logged out of.\<close>

definition client_statements ::
  "store \<Rightarrow> call_env \<Rightarrow> string \<Rightarrow> request \<Rightarrow> session \<Rightarrow> atom list \<Rightarrow> transaction option \<Rightarrow> grant_err + stmt list" where
  "client_statements st e sig r s guard t =
     (let c = client_id (rq_client r); uri = client_logout_uri st (rq_client r);
          issued = [A_Issued sig (rq_id r) c, A_HasRequest sig];
          kind = (case t of None \<Rightarrow> T_None | Some tx \<Rightarrow> tx_kind tx);
          used = (if t = None \<and> form_value ''grant_type'' r = ''client_credentials'' \<or> kind = T_Code \<or> kind = T_Password
                  then [\<lparr>st_action = TouchClient c (ce_clock e),
                         st_guard = issued @ (case t of Some tx \<Rightarrow> if kind = T_Code then spent_atom tx # guard else [] | None \<Rightarrow> []),
                         st_exact = False\<rparr>] else []);
          user = (if kind = T_Password \<or> kind = T_Code
                  then [\<lparr>st_action = UpsertUserClient (se_subject s) c uri (so_private st) (so_http st) (ce_clock e),
                         st_guard = issued, st_exact = False\<rparr>] else [])
      in case t of
           Some tx \<Rightarrow>
             if kind = T_Code \<and> (openid_granted r \<or> session_extra r \<noteq> None) then
               (if se_extra s = None \<or> se_subject s = '''' then Inl G_Session
                else case session_extra r of
                  Some (J_Str sid) \<Rightarrow>
                    if \<not> validOIDCSessionID sid then Inl G_Session
                    else Inr (used @ user @
                           [\<lparr>st_action = InsertSessionClient sid c uri (so_private st) (so_http st) (ce_now e),
                             st_guard = [spent_atom tx], st_exact = False\<rparr>])
                | _ \<Rightarrow> Inl G_Session)
             else Inr (used @ user)
         | None \<Rightarrow> Inr (used @ user))"

text \<open>All statements of a token write, the transaction they change, and whether it is a guarded machine token.\<close>

definition access_statements ::
  "prims \<Rightarrow> store \<Rightarrow> call_env \<Rightarrow> ctx \<Rightarrow> string \<Rightarrow> request \<Rightarrow> grant_err + (transaction option \<times> stmt list \<times> bool)" where
  "access_statements P st e cx sig r =
     (case (encodeRequest r, rq_session r, so_audiences st r) of
        (Some encoded, Some s, Some audiences) \<Rightarrow>
          (case (case cx_tx cx of
                   None \<Rightarrow> Inr (clientCredentialsClaimsGuard cx, [], None)
                 | Some tx \<Rightarrow>
                     (case issue_condition P st (ce_now e) sig tx of
                        Inl x \<Rightarrow> Inl x | Inr (condition, guard, tx) \<Rightarrow> Inr (condition, guard, Some tx))) of
             Inl x \<Rightarrow> Inl x
           | Inr (condition, guard, t) \<Rightarrow>
               let dpop = (if t = None \<or> map_option tx_kind t = Some T_Exchange then dpop_guard (cx_dpop cx) else []);
                   managed = managedClientGuard r;
                   machine = t = None \<and> (condition \<noteq> [] \<or> dpop \<noteq> [] \<or>
                               managed \<noteq> [] \<and> form_value ''grant_type'' r = ''client_credentials'');
                   full = condition @ dpop @ managed;
                   exact = machine \<or> map_option tx_kind t = Some T_Device
               in case client_statements st e sig r s guard t of
                    Inl x \<Rightarrow> Inl x
                  | Inr rest \<Rightarrow> Inr (t,
                      [\<lparr>st_action = DeleteExpiredAccess (ce_now e), st_guard = guard, st_exact = False\<rparr>,
                       \<lparr>st_action = DeleteOrphanRequests, st_guard = guard, st_exact = False\<rparr>,
                       \<lparr>st_action = InsertAccess (access_row_of sig r s audiences), st_guard = full, st_exact = exact\<rparr>,
                       \<lparr>st_action = InsertRequest \<lparr>tr_sig = sig, tr_request = encoded\<rparr>, st_guard = full, st_exact = exact\<rparr>] @ rest,
                      machine))
      | (None, _, _) \<Rightarrow> Inl G_Encode
      | _ \<Rightarrow> Inl G_Audience)"

text \<open>Statements go into the open transaction, or are executed at once when there is none.\<close>

definition mutate :: "exec_fault \<Rightarrow> stmt list \<Rightarrow> ctx \<times> grant_db \<Rightarrow> (ctx \<times> grant_db) \<times> (grant_err + unit)" where
  "mutate f ss s =
     (let (cx, db) = s
      in case cx_tx cx of
           Some tx \<Rightarrow>
             if tx_done tx then ((cx, db), Inl G_Closed)
             else ((cx\<lparr>cx_tx := Some (tx\<lparr>tx_statements := tx_statements tx @ ss\<rparr>)\<rparr>, db), Inr ())
         | None \<Rightarrow>
             (case run_execute f (run_tx (map (exec_stmt 0) ss)) db of
                (db, Inl x) \<Rightarrow> ((cx, db), Inl (G_Exec x)) | (db, Inr _) \<Rightarrow> ((cx, db), Inr ())))"

text \<open>Whether a rejected batch failed on a statement that expects exactly one row.\<close>

fun precondition_failed :: "millis \<Rightarrow> stmt list \<Rightarrow> grant_db \<Rightarrow> bool" where
  "precondition_failed cutoff [] db \<longleftrightarrow> False"
| "precondition_failed cutoff (s # ss) db \<longleftrightarrow>
     (case exec_stmt cutoff (s\<lparr>st_exact := False\<rparr>) db of
        None \<Rightarrow> False
      | Some (db', n) \<Rightarrow> st_exact s \<and> n \<noteq> 1 \<or> precondition_failed cutoff ss db')"

definition password_mismatch :: "ctx \<Rightarrow> request \<Rightarrow> bool" where
  "password_mismatch cx r \<longleftrightarrow>
     (case cx_tx cx of
        None \<Rightarrow> False
      | Some tx \<Rightarrow> tx_kind tx = T_Password \<and> (case rq_session r of None \<Rightarrow> True | Some s \<Rightarrow> se_subject s \<noteq> tx_principal tx))"

definition place_cutoffs :: "nat \<Rightarrow> transaction \<Rightarrow> transaction" where
  "place_cutoffs start tx =
     (if tx_kind tx \<noteq> T_Exchange then tx
      else let tx = tx\<lparr>tx_cut_access := (int start + 2, 0), tx_cut_request := (int start + 3, 0)\<rparr>
           in if tx_actor tx = '''' then tx
              else tx\<lparr>tx_cut_actor_access := (int start + 2, 3), tx_cut_actor_request := (int start + 3, 3)\<rparr>)"

text \<open>A guarded machine token has its cleanup in a request of its own; a lost or rejected issue is an error.\<close>

definition CreateAccessTokenSession ::
  "prims \<Rightarrow> store \<Rightarrow> call_env \<Rightarrow> exec_fault \<Rightarrow> (grant_db \<Rightarrow> grant_db) \<Rightarrow> exec_fault \<Rightarrow> string \<Rightarrow> request \<Rightarrow> ctx \<times> grant_db \<Rightarrow>
   (ctx \<times> grant_db) \<times> (grant_err + unit)" where
  "CreateAccessTokenSession P st e f other f2 sig r s =
     (let (cx, db) = s
      in if password_mismatch cx r then (s, Inl G_InvalidGrant)
         else case access_statements P st e cx sig r of
           Inl x \<Rightarrow> (s, Inl x)
         | Inr (t, ss, machine) \<Rightarrow>
             if machine then
               (case run_execute f (run_tx (map (exec_stmt 0) (take 2 ss))) db of
                  (db, Inl x) \<Rightarrow> ((cx, db), Inl (G_Exec x))
                | (db, Inr _) \<Rightarrow>
                    let db = other db
                    in case run_execute f2 (run_tx (map (exec_stmt 0) (drop 2 ss))) db of
                         (db', Inr _) \<Rightarrow> ((cx, db'), Inr ())
                       | (db', Inl Exec_Rejected) \<Rightarrow>
                           ((cx, db'), Inl (if precondition_failed 0 (drop 2 ss) db then G_Serialization else G_Exec Exec_Rejected))
                       | (db', Inl x) \<Rightarrow> ((cx, db'), Inl (G_Exec x)))
             else mutate f ss
                    (cx\<lparr>cx_tx := map_option (\<lambda>tx. place_cutoffs (length (tx_statements tx)) tx) t\<rparr>, db))"


definition DeleteAccessTokenSession ::
  "exec_fault \<Rightarrow> string \<Rightarrow> ctx \<times> grant_db \<Rightarrow> (ctx \<times> grant_db) \<times> (grant_err + unit)" where
  "DeleteAccessTokenSession f sig s =
     (if sig = '''' then (s, Inr ()) else mutate f [plain (DeleteAccess sig), plain (DeleteRequest sig)] s)"

section \<open>Refresh tokens\<close>

text \<open>The write of a refresh token. Without a grant row the branch for managed clients keeps the arguments of their
  guard but not its text, so that the statement cannot run.\<close>

definition refresh_statements ::
  "store \<Rightarrow> call_env \<Rightarrow> string \<Rightarrow> string \<Rightarrow> request \<Rightarrow> transaction option \<Rightarrow> grant_err + (transaction option \<times> stmt list)" where
  "refresh_statements st e sig access r t =
     (case (encodeRequest r, rq_session r) of
        (Some encoded, Some s) \<Rightarrow>
          let row = \<lparr>re_sig = sig, re_access = access, re_request_id = rq_id r, re_request = encoded,
                     re_expires = expires_ms s RefreshToken, re_active = True, re_attempt = None\<rparr>;
              managed = managedClientGuard r;
              write = (\<lambda>guard cleanup exact.
                [\<lparr>st_action = DeleteExpiredRefresh (ce_now e), st_guard = cleanup, st_exact = False\<rparr>,
                 \<lparr>st_action = InsertRefresh row, st_guard = guard @ managed, st_exact = exact\<rparr>]);
              unguarded =
                [plain (DeleteExpiredRefresh (ce_now e)), plain (if managed = [] then InsertRefresh row else Malformed)]
          in case t of
               None \<Rightarrow> Inr (None, unguarded)
             | Some tx \<Rightarrow>
                 (case tx_kind tx of
                    T_Device \<Rightarrow> (let (guard, tx) = tx_deviceGuard (ce_now e) tx in Inr (Some tx, write guard [] True))
                  | T_Password \<Rightarrow>
                      if sig = '''' \<or> access \<noteq> tx_target_access tx \<or> tx_target_refresh tx \<noteq> '''' then Inl G_Target
                      else let (guard, tx) = principalGuard (ce_now e) (tx\<lparr>tx_target_refresh := sig\<rparr>)
                           in Inr (Some tx, write guard [] False)
                  | k \<Rightarrow>
                      if k = T_Code \<or> k = T_Refresh then
                        (let (guard, tx) = principalGuard (ce_now e) tx
                         in Inr (Some tx, write (spent_atom tx # guard) guard False))
                      else Inr (Some tx, unguarded))
      | _ \<Rightarrow> Inl G_Encode)"

definition CreateRefreshTokenSession ::
  "store \<Rightarrow> call_env \<Rightarrow> exec_fault \<Rightarrow> string \<Rightarrow> string \<Rightarrow> request \<Rightarrow> ctx \<times> grant_db \<Rightarrow> (ctx \<times> grant_db) \<times> (grant_err + unit)" where
  "CreateRefreshTokenSession st e f sig access r s =
     (let (cx, db) = s
      in if password_mismatch cx r then (s, Inl G_InvalidGrant)
         else if map_option tx_kind (cx_tx cx) = Some T_Exchange then (s, Inl G_Invalid)
         else case refresh_statements st e sig access r (cx_tx cx) of
           Inl x \<Rightarrow> (s, Inl x)
         | Inr (t, ss) \<Rightarrow> mutate f ss (cx\<lparr>cx_tx := t\<rparr>, db))"

definition DeleteRefreshTokenSession ::
  "prims \<Rightarrow> exec_fault \<Rightarrow> string \<Rightarrow> ctx \<times> grant_db \<Rightarrow> (ctx \<times> grant_db) \<times> (grant_err + unit)" where
  "DeleteRefreshTokenSession P f sig s =
     (let (cx, db) = s
      in if map_option tx_kind (cx_tx cx) = Some T_None then
           (case configureTX P T_Reuse sig (cx_tx cx) of
              Inl x \<Rightarrow> (s, Inl x)
            | Inr tx \<Rightarrow> mutate f [plain (DeleteRefresh sig)] (cx\<lparr>cx_tx := Some tx\<rparr>, db))
         else mutate f [plain (DeleteRefresh sig)] s)"

definition RotateRefreshToken ::
  "prims \<Rightarrow> store \<Rightarrow> call_env \<Rightarrow> string \<Rightarrow> string \<Rightarrow> transaction option \<Rightarrow> grant_err + transaction" where
  "RotateRefreshToken P st e request sig t =
     (case configureTX P T_Refresh sig t of
        Inl x \<Rightarrow> Inl x
      | Inr tx \<Rightarrow>
          (case captureManagedSnapshot st e (\<lambda>db. map re_request (sql_select (\<lambda>c. re_sig c = sig) (refreshes db)))
                  (tx\<lparr>tx_device_request := request\<rparr>) of
             Inl x \<Rightarrow> Inl x
           | Inr tx \<Rightarrow>
               let (principal, tx) = principalGuard (ce_now e) tx; guard = principal @ managedGuard tx;
                   rotated = A_Rotated sig (tx_attempt tx) # guard
               in Inr (tx\<lparr>tx_statements := tx_statements tx @
                    [\<lparr>st_action = RotateRefresh sig request (tx_attempt tx), st_guard = guard, st_exact = False\<rparr>,
                     \<lparr>st_action = DeactivateFamily request, st_guard = rotated, st_exact = False\<rparr>,
                     \<lparr>st_action = DeleteFamilyAccess request, st_guard = rotated, st_exact = False\<rparr>,
                     \<lparr>st_action = DeleteOrphanRequests, st_guard = guard, st_exact = False\<rparr>]\<rparr>)))"

definition RevokeRefreshToken ::
  "exec_fault \<Rightarrow> string \<Rightarrow> ctx \<times> grant_db \<Rightarrow> (ctx \<times> grant_db) \<times> (grant_err + unit)" where
  "RevokeRefreshToken f request = mutate f [plain (DeactivateFamily request)]"

definition RevokeAccessToken ::
  "exec_fault \<Rightarrow> string \<Rightarrow> ctx \<times> grant_db \<Rightarrow> (ctx \<times> grant_db) \<times> (grant_err + unit)" where
  "RevokeAccessToken f request =
     mutate f [plain (DeleteFamilyAccess request), plain DeleteOrphanRequests, plain (DeactivateFamily request)]"

section \<open>Commit\<close>

definition bind_location :: "millis \<Rightarrow> int \<times> int \<Rightarrow> stmt list \<Rightarrow> stmt list option" where
  "bind_location cutoff loc ss =
     (let (i, j) = loc
      in if i < 0 \<or> int (length ss) \<le> i \<or> j < 0 \<or> int (length (st_guard (ss ! nat i))) \<le> j then None
         else Some (ss[nat i := (ss ! nat i)\<lparr>st_guard := (st_guard (ss ! nat i))[nat j :=
                (case st_guard (ss ! nat i) ! nat j of A_AccessLive sig expires _ \<Rightarrow> A_AccessLive sig expires cutoff | a \<Rightarrow> a)]\<rparr>]))"

fun bind_locations :: "millis \<Rightarrow> (int \<times> int) list \<Rightarrow> stmt list \<Rightarrow> stmt list option" where
  "bind_locations cutoff [] ss = Some ss"
| "bind_locations cutoff (l # ls) ss =
     (case bind_location cutoff l ss of None \<Rightarrow> None | Some ss' \<Rightarrow> bind_locations cutoff ls ss')"

definition bindExchangeCutoff :: "millis \<Rightarrow> transaction \<Rightarrow> stmt list option" where
  "bindExchangeCutoff cutoff tx =
     bind_locations cutoff
       ([tx_cut_access tx, tx_cut_request tx] @ (if tx_actor tx = '''' then [] else [tx_cut_actor_access tx, tx_cut_actor_request tx]))
       (tx_statements tx)"

text \<open>The statements that a commit submits at an instant of the store's clock. The deadline is that of the accounts the
  transaction took from its context.\<close>

definition submitted :: "millis \<Rightarrow> transaction \<Rightarrow> stmt list" where
  "submitted now tx =
     (if tx_kind tx \<noteq> T_Device then tx_statements tx
      else tx_statements tx @ [\<lparr>st_action = ConsumeDevice (tx_device_digest tx) (tx_device_request tx),
             st_guard = fst (tx_deviceGuard now tx), st_exact = True\<rparr>])"

definition commit_statements :: "millis \<Rightarrow> millis \<Rightarrow> transaction \<Rightarrow> grant_err + stmt list" where
  "commit_statements now cutoff tx =
     (case (if tx_kind tx = T_Exchange then bindExchangeCutoff cutoff tx else Some (submitted now tx)) of
        None \<Rightarrow> Inl G_Invalid
      | Some ss \<Rightarrow>
          (case accountDeadline (tx_accounts tx) of
             None \<Rightarrow> Inr ss
           | Some limit \<Rightarrow> if limit \<le> cutoff then Inl G_InvalidGrant else Inr ss))"

text \<open>The read after the commit: whether this transaction is the one that took effect.\<close>

definition count_is :: "int \<Rightarrow> ('r \<Rightarrow> bool) \<Rightarrow> 'r list \<Rightarrow> bool" where
  "count_is n p t \<longleftrightarrow> sql_count p t = n"

definition verifyPasswordIssue :: "transaction \<Rightarrow> grant_db \<Rightarrow> bool" where
  "verifyPasswordIssue tx db \<longleftrightarrow>
     count_is 1 (\<lambda>a. ac_sig a = tx_target_access tx) (accesses db) \<and>
     count_is 1 (\<lambda>t. tr_sig t = tx_target_access tx) (token_requests db) \<and>
     count_is (if tx_target_refresh tx = '''' then 0 else 1)
       (\<lambda>r. re_sig r = tx_target_refresh tx \<and> re_access r = tx_target_access tx) (refreshes db)"

definition took_effect :: "transaction \<Rightarrow> grant_db \<Rightarrow> bool" where
  "took_effect tx db \<longleftrightarrow>
     (case tx_kind tx of
        T_Password \<Rightarrow> verifyPasswordIssue tx db
      | T_Exchange \<Rightarrow>
          count_is 1 (\<lambda>a. ac_sig a = tx_target_access tx) (accesses db) \<and>
          count_is 1 (\<lambda>t. tr_sig t = tx_target_access tx) (token_requests db)
      | T_Issue \<Rightarrow>
          \<not> (tx_oidc_sid tx \<noteq> '''' \<or> tx_principal tx \<noteq> '''' \<or> tx_policy tx \<noteq> None \<or> tx_managed tx \<noteq> None \<or> tx_accounts tx \<noteq> []) \<or>
          count_is 1 (\<lambda>c. co_sig c = tx_key tx) (codes db)
      | T_Device \<Rightarrow>
          count_is 1 (\<lambda>g. g_device g = tx_device_digest tx \<and> g_claim g = Some (tx_device_claim tx) \<and> g_state g = Consumed)
            (grants (device db))
      | T_Code \<Rightarrow> count_is 1 (\<lambda>c. co_sig c = tx_key tx \<and> co_attempt c = Some (tx_attempt tx)) (codes db)
      | T_Refresh \<Rightarrow> count_is 1 (\<lambda>r. re_sig r = tx_key tx \<and> re_attempt r = Some (tx_attempt tx)) (refreshes db)
      | _ \<Rightarrow> True)"

text \<open>Whether the kind of a transaction reads back at all.\<close>

definition reads_back :: "transaction \<Rightarrow> bool" where
  "reads_back tx \<longleftrightarrow>
     (case tx_kind tx of
        T_Issue \<Rightarrow> tx_oidc_sid tx \<noteq> '''' \<or> tx_principal tx \<noteq> '''' \<or> tx_policy tx \<noteq> None \<or> tx_managed tx \<noteq> None \<or> tx_accounts tx \<noteq> []
      | T_None \<Rightarrow> False | T_Reuse \<Rightarrow> False | _ \<Rightarrow> True)"

text \<open>How a commit goes: its clocks, the outcome of the request, whether a failure is a conflict of request
  identifiers, what others commit before the read, and whether the read fails.\<close>

record commit_env =
  co_now :: millis
  co_cutoff :: millis
  co_exec :: exec_fault
  co_conflict :: bool
  co_other :: "grant_db \<Rightarrow> grant_db"
  co_fails :: bool

text \<open>A commit that is refused before it is submitted leaves the transaction open for a rollback. An exchange that is
  refused keeps its cutoffs unbound here; the code may have bound some of them.\<close>

definition Commit :: "commit_env \<Rightarrow> ctx \<times> grant_db \<Rightarrow> (ctx \<times> grant_db) \<times> (grant_err + unit)" where
  "Commit e s =
     (let (cx, db) = s
      in case cx_tx cx of
           None \<Rightarrow> (s, Inl G_Invalid)
         | Some tx \<Rightarrow>
             if tx_done tx \<or> tx_request_id tx = '''' \<or> tx_statements tx = [] then (s, Inl G_Invalid)
             else case commit_statements (co_now e) (co_cutoff e) tx of
               Inl x \<Rightarrow> ((cx\<lparr>cx_tx := Some (tx\<lparr>tx_statements := submitted (co_now e) tx\<rparr>)\<rparr>, db), Inl x)
             | Inr ss \<Rightarrow>
                 let cx = cx\<lparr>cx_tx := Some (tx\<lparr>tx_done := True, tx_statements := ss\<rparr>)\<rparr>
                 in case run_execute (co_exec e) (run_tx (map (exec_stmt (co_cutoff e)) ss)) db of
                      (db', Inl x) \<Rightarrow>
                        ((cx, db'), Inl (
                           if tx_kind tx = T_Device \<and> x = Exec_Rejected \<and> precondition_failed (co_cutoff e) ss db then G_Serialization
                           else if co_conflict e \<and> x = Exec_Unavailable \<and> (tx_kind tx = T_Code \<or> tx_kind tx = T_Refresh) then G_Serialization
                           else G_Exec x))
                    | (db', Inr _) \<Rightarrow>
                        let db' = co_other e db'
                        in ((cx, db'),
                            if \<not> reads_back tx then Inr ()
                            else if co_fails e then Inl G_Query
                            else if took_effect tx db' then Inr () else Inl G_Serialization))"

section \<open>Logout of a relying party\<close>

text \<open>The entropy is that of the request identifier and of the event identifier; the instant is never the zero time.\<close>

definition RevokeOIDCSession ::
  "string option \<times> string option \<Rightarrow> string \<Rightarrow> millis \<Rightarrow> exec_fault \<Rightarrow> ctx \<times> grant_db \<Rightarrow> (ctx \<times> grant_db) \<times> (grant_err + unit)" where
  "RevokeOIDCSession entropy sid now f s =
     (if \<not> validOIDCSessionID sid then (s, Inl G_Session)
      else case entropy of
        (Some _, Some event) \<Rightarrow>
          (case SessionRevocationStatements sid (b64_encode event) (Some now) of
             None \<Rightarrow> (s, Inl G_Session)
           | Some as \<Rightarrow> mutate f (map plain as) s)
      | _ \<Rightarrow> (s, Inl G_Rand))"


end
