(* ===== verification/GrantMachine.thy ===== *)
theory GrantMachine
  imports GrantTx
begin

text \<open>
  Runs of committed grant transactions. A transaction is built by any sequence of the store's calls, in which the
  call that binds it to a grant is the first and tokens are only written in a transaction of a grant, as the protocol
  library does it. Every statement such a transaction collects is tied to its grant (\<open>stmt_wf\<close>), which is what the
  theorems about codes, refresh tokens and logout rest on.
\<close>

section \<open>Built transactions\<close>

definition tied :: "tx_kind \<Rightarrow> string \<Rightarrow> string \<Rightarrow> atom list \<Rightarrow> bool" where
  "tied k key a guard \<longleftrightarrow>
     k \<notin> {T_None, T_Issue, T_Reuse} \<and> (k = T_Code \<longrightarrow> A_CodeUsed key a \<in> set guard) \<and> (k = T_Refresh \<longrightarrow> A_Rotated key a \<in> set guard)"

definition session_fenced :: "request_record \<Rightarrow> atom list \<Rightarrow> bool" where
  "session_fenced r guard \<longleftrightarrow> (\<forall>sid. json_sid r = Some sid \<longrightarrow> (\<exists>s now idle. A_Session sid s now idle \<in> set guard))"

fun action_wf :: "tx_kind \<Rightarrow> string \<Rightarrow> string \<Rightarrow> atom list \<Rightarrow> action \<Rightarrow> bool" where
  "action_wf k key a guard (UseCode sig b) \<longleftrightarrow> k = T_Code \<and> sig = key \<and> b = a"
| "action_wf k key a guard (RotateRefresh sig request b) \<longleftrightarrow> k = T_Refresh \<and> sig = key \<and> b = a"
| "action_wf k key a guard (InsertCode c) \<longleftrightarrow>
     k = T_Issue \<and> co_sig c = key \<and> \<not> co_invalidated c \<and> co_attempt c = None \<and> session_fenced (co_request c) guard"
| "action_wf k key a guard (InsertAccess r) \<longleftrightarrow> tied k key a guard"
| "action_wf k key a guard (InsertRequest r) \<longleftrightarrow> tied k key a guard"
| "action_wf k key a guard (InsertRefresh r) \<longleftrightarrow>
     tied k key a guard \<and> re_attempt r = None \<and> rr_id (re_request r) = re_request_id r"
| "action_wf k key a guard _ \<longleftrightarrow> True"

definition stmt_wf :: "transaction \<Rightarrow> stmt \<Rightarrow> bool" where
  "stmt_wf tx s \<longleftrightarrow> action_wf (tx_kind tx) (tx_key tx) (tx_attempt tx) (st_guard s) (st_action s)"

definition tx_wf :: "transaction \<Rightarrow> bool" where
  "tx_wf tx \<longleftrightarrow> tx_kind tx \<noteq> T_None \<and> \<not> tx_done tx \<and> list_all (stmt_wf tx) (tx_statements tx)"

definition grants_tokens :: "ctx \<Rightarrow> bool" where
  "grants_tokens cx \<longleftrightarrow> (\<exists>tx. cx_tx cx = Some tx \<and> tx_kind tx \<notin> {T_None, T_Issue, T_Reuse})"

inductive built :: "prims \<Rightarrow> store \<Rightarrow> ctx \<Rightarrow> bool" for P st where
  issue_code: "BeginTX n cx = Inr cx1 \<Longrightarrow> CreateAuthorizeCodeSession P st e sig r (cx_tx cx1) = Inr tx \<Longrightarrow> built P st (cx1\<lparr>cx_tx := Some tx\<rparr>)"
| issue_pkce: "BeginTX n cx = Inr cx1 \<Longrightarrow> CreatePKCERequestSession P st e sig r (cx_tx cx1) = Inr tx \<Longrightarrow> built P st (cx1\<lparr>cx_tx := Some tx\<rparr>)"
| use_code: "BeginTX n cx = Inr cx1 \<Longrightarrow> InvalidateAuthorizeCodeSession P st e sig (cx_tx cx1) = Inr tx \<Longrightarrow> built P st (cx1\<lparr>cx_tx := Some tx\<rparr>)"
| rotate: "BeginTX n cx = Inr cx1 \<Longrightarrow> RotateRefreshToken P st e request sig (cx_tx cx1) = Inr tx \<Longrightarrow> built P st (cx1\<lparr>cx_tx := Some tx\<rparr>)"
| reuse: "BeginTX n cx = Inr cx1 \<Longrightarrow> DeleteRefreshTokenSession P f sig (cx1, db) = ((cx2, db'), Inr ()) \<Longrightarrow> built P st cx2"
| device: "BeginDeviceTX P n now code claim cx = Inr cx1 \<Longrightarrow> built P st cx1"
| exchange: "beginTokenExchangeTX n now source se actor ae cx = Inr cx1 \<Longrightarrow> built P st cx1"
| password: "beginPasswordTX n subject pg ag h cx = Inr cx1 \<Longrightarrow> built P st cx1"
| more_code: "built P st cx \<Longrightarrow> CreateAuthorizeCodeSession P st e sig r (cx_tx cx) = Inr tx \<Longrightarrow> built P st (cx\<lparr>cx_tx := Some tx\<rparr>)"
| more_pkce: "built P st cx \<Longrightarrow> CreatePKCERequestSession P st e sig r (cx_tx cx) = Inr tx \<Longrightarrow> built P st (cx\<lparr>cx_tx := Some tx\<rparr>)"
| more_use: "built P st cx \<Longrightarrow> InvalidateAuthorizeCodeSession P st e sig (cx_tx cx) = Inr tx \<Longrightarrow> built P st (cx\<lparr>cx_tx := Some tx\<rparr>)"
| more_rotate: "built P st cx \<Longrightarrow> RotateRefreshToken P st e request sig (cx_tx cx) = Inr tx \<Longrightarrow> built P st (cx\<lparr>cx_tx := Some tx\<rparr>)"
| device_id: "built P st cx \<Longrightarrow> SetDeviceRequestID i cx = Inr cx1 \<Longrightarrow> built P st cx1"
| access: "built P st cx \<Longrightarrow> grants_tokens cx \<Longrightarrow>
    CreateAccessTokenSession P st e f other f2 sig r (cx, db) = ((cx1, db1), Inr ()) \<Longrightarrow> built P st cx1"
| refresh: "built P st cx \<Longrightarrow> grants_tokens cx \<Longrightarrow>
    CreateRefreshTokenSession st e f sig acc r (cx, db) = ((cx1, db1), Inr ()) \<Longrightarrow> built P st cx1"
| delete_access: "built P st cx \<Longrightarrow> DeleteAccessTokenSession f sig (cx, db) = ((cx1, db1), Inr ()) \<Longrightarrow> built P st cx1"
| delete_refresh: "built P st cx \<Longrightarrow> DeleteRefreshTokenSession P f sig (cx, db) = ((cx1, db1), Inr ()) \<Longrightarrow> built P st cx1"
| revoke_refresh: "built P st cx \<Longrightarrow> RevokeRefreshToken f request (cx, db) = ((cx1, db1), Inr ()) \<Longrightarrow> built P st cx1"
| revoke_access: "built P st cx \<Longrightarrow> RevokeAccessToken f request (cx, db) = ((cx1, db1), Inr ()) \<Longrightarrow> built P st cx1"

text \<open>Reading a guard only sets the instant of the issue.\<close>

definition same_tx :: "transaction \<Rightarrow> transaction \<Rightarrow> bool" where
  "same_tx tx tx' \<longleftrightarrow> tx_kind tx' = tx_kind tx \<and> tx_key tx' = tx_key tx \<and> tx_attempt tx' = tx_attempt tx \<and>
     tx_done tx' = tx_done tx \<and> tx_statements tx' = tx_statements tx"

lemma same_tx_refl [simp]: "same_tx tx tx"
  by (simp add: same_tx_def)

lemma same_tx_trans: "same_tx a b \<Longrightarrow> same_tx b c \<Longrightarrow> same_tx a c"
  by (simp add: same_tx_def)

lemma stmt_wf_cong: "same_tx tx tx' \<Longrightarrow> stmt_wf tx' s = stmt_wf tx s"
  by (simp add: stmt_wf_def same_tx_def)

lemma tx_wf_cong: "same_tx tx tx' \<Longrightarrow> tx_wf tx' = tx_wf tx"
proof -
  assume s: "same_tx tx tx'"
  then have "stmt_wf tx' = stmt_wf tx" by (intro ext stmt_wf_cong)
  then show ?thesis using s by (simp add: tx_wf_def same_tx_def)
qed

lemma same_issueNow: "issueNowMillis now tx = (n, tx') \<Longrightarrow> same_tx tx tx'"
  by (auto simp: issueNowMillis_def Let_def same_tx_def)

lemma same_password_guard: "password_guard now tx = (g, tx') \<Longrightarrow> same_tx tx tx'"
  by (auto simp: password_guard_def split: if_splits prod.splits dest: same_issueNow)

lemma same_subject_guard: "subject_guard now tx = (g, tx') \<Longrightarrow> same_tx tx tx'"
  by (auto simp: subject_guard_def split: if_splits prod.splits dest: same_issueNow)

lemma same_principalGuard: "principalGuard now tx = (g, tx') \<Longrightarrow> same_tx tx tx'"
proof -
  assume g: "principalGuard now tx = (g, tx')"
  obtain p tx1 where p: "password_guard now tx = (p, tx1)" by fastforce
  obtain q tx2 where q: "subject_guard now tx1 = (q, tx2)" by fastforce
  have "tx' = tx1 \<or> tx' = tx2" using g p q by (auto simp: principalGuard_def Let_def split: if_splits option.splits)
  then show ?thesis using same_password_guard [OF p] same_subject_guard [OF q] same_tx_trans by blast
qed

lemma same_deviceGuard: "tx_deviceGuard now tx = (g, tx') \<Longrightarrow> same_tx tx tx'"
  by (auto simp: tx_deviceGuard_def split: prod.splits dest: same_principalGuard)

text \<open>A transaction that is well-formed, or one that has just begun.\<close>

definition pre_wf :: "transaction \<Rightarrow> bool" where
  "pre_wf tx \<longleftrightarrow> \<not> tx_done tx \<and> (tx_kind tx = T_None \<longrightarrow> tx_statements tx = []) \<and> list_all (stmt_wf tx) (tx_statements tx)"

lemma tx_wf_pre: "tx_wf tx \<Longrightarrow> pre_wf tx"
  by (simp add: tx_wf_def pre_wf_def)

lemma BeginTX_pre:
  assumes "BeginTX n cx = Inr cx1"
  obtains tx where "cx_tx cx1 = Some tx" "pre_wf tx" "tx_kind tx = T_None" "tx_statements tx = []" "\<not> tx_done tx"
  using assms that
  by (auto simp: BeginTX_def Let_def empty_tx_def begin_snapshot_def pre_wf_def split: if_splits option.splits)

lemma configureTX_wf:
  assumes c: "configureTX P k key t = Inr tx'" and pre: "\<And>tx. t = Some tx \<Longrightarrow> pre_wf tx" and k: "k \<noteq> T_None"
  shows "tx_wf tx' \<and> tx_kind tx' = k \<and> tx_key tx' = key"
proof -
  obtain tx where t: "t = Some tx" using c by (auto simp: configureTX_def split: option.splits)
  have p: "pre_wf tx" using pre [OF t] .
  show ?thesis
  proof (cases "tx_kind tx = T_None")
    case True
    then have "tx_statements tx = []" using p by (simp add: pre_wf_def)
    with True c t p k show ?thesis
      by (auto simp: configureTX_def pre_wf_def tx_wf_def split: if_splits option.splits)
  next
    case False
    with c t p show ?thesis by (auto simp: configureTX_def pre_wf_def tx_wf_def split: if_splits)
  qed
qed

lemma wf_append:
  assumes "tx_wf tx" "list_all (stmt_wf tx) ss"
  shows "tx_wf (tx\<lparr>tx_statements := tx_statements tx @ ss\<rparr>)"
proof -
  have "stmt_wf (tx\<lparr>tx_statements := tx_statements tx @ ss\<rparr>) = stmt_wf tx" by (intro ext) (simp add: stmt_wf_def)
  then show ?thesis using assms by (simp add: tx_wf_def)
qed

lemma captureManagedSnapshot_same:
  assumes "captureManagedSnapshot st e rows tx = Inr tx'"
  shows "same_tx tx tx'"
  using assms by (auto simp: captureManagedSnapshot_def same_tx_def split: if_splits list.splits option.splits client.splits)

lemma bind_managed_same: "same_tx tx (bind_managed r tx)"
  by (simp add: bind_managed_def same_tx_def split: client.split)

lemma guardOIDCIssue_same:
  assumes "guardOIDCIssue r tx = Inr tx'"
  shows "same_tx tx tx'" "\<And>sid. session_extra r = Some (J_Str sid) \<Longrightarrow> tx_oidc_sid tx' = sid"
  using assms by (auto simp: guardOIDCIssue_def same_tx_def split: option.splits json.splits if_splits)

lemma json_sid_extra:
  assumes "encodeRequest r = Some rec"
  shows "json_sid rec = (case session_extra r of Some (J_Str sid) \<Rightarrow> Some sid | _ \<Rightarrow> None)"
  using assms by (auto simp: encodeRequest_def json_sid_def session_extra_def split: option.splits json.splits)

lemma principalGuard_sid: "principalGuard now tx = (g, tx') \<Longrightarrow> tx_oidc_sid tx' = tx_oidc_sid tx"
  by (auto simp: principalGuard_def password_guard_def subject_guard_def issueNowMillis_def Let_def
      split: if_splits prod.splits option.splits)

lemma bind_managed_sid [simp]: "tx_oidc_sid (bind_managed r tx) = tx_oidc_sid tx"
  by (simp add: bind_managed_def split: client.split)

lemma issueNow_sid: "issueNowMillis now tx = (n, tx') \<Longrightarrow> tx_oidc_sid tx' = tx_oidc_sid tx"
  by (auto simp: issueNowMillis_def Let_def)

lemma valid_sid_nonempty: "validOIDCSessionID sid \<Longrightarrow> sid \<noteq> ''''"
  by (auto simp: validOIDCSessionID_def b64_decode_def split: option.splits)

lemma prepare_issue_wf:
  assumes p: "prepare_issue P st e sig r t = Inr (tx, rec, expires, guard, now)" and pre: "\<And>tx. t = Some tx \<Longrightarrow> pre_wf tx"
  shows "tx_wf tx" "tx_kind tx = T_Issue" "tx_key tx = sig" "session_fenced rec guard"
proof -
  from p obtain tx0 s s' tx1 tx2 tx3 g where c: "configureTX P T_Issue sig t = Inr tx0" and s: "rq_session r = Some s"
      and cap: "capAuthorizeCodeSession (tx_accounts tx0) (ce_clock e) s = Inr s'"
      and en: "encodeRequest (r\<lparr>rq_session := Some s'\<rparr>) = Some rec"
      and oidc: "guardOIDCIssue (r\<lparr>rq_session := Some s'\<rparr>) tx0 = Inr tx1"
      and now: "issueNowMillis (ce_now e) (bind_managed (r\<lparr>rq_session := Some s'\<rparr>) tx1) = (now, tx2)"
      and pg: "principalGuard (ce_now e) tx2 = (g, tx)"
      and guard: "guard = (if tx_oidc_sid tx = '''' then [] else [A_Session (tx_oidc_sid tx) (se_subject s') now (now - so_idle st)]) @
         g @ managedClientGuard (r\<lparr>rq_session := Some s'\<rparr>)"
    unfolding prepare_issue_def Let_def by (auto split: sum.splits option.splits prod.splits)
  have same: "same_tx tx0 tx"
    using guardOIDCIssue_same(1) [OF oidc] bind_managed_same same_issueNow [OF now] same_principalGuard [OF pg] same_tx_trans by metis
  have w: "tx_wf tx0 \<and> tx_kind tx0 = T_Issue \<and> tx_key tx0 = sig" by (rule configureTX_wf [OF c pre]) simp_all
  show "tx_wf tx" using w tx_wf_cong [OF same] by simp
  show "tx_kind tx = T_Issue" "tx_key tx = sig" using w same by (simp_all add: same_tx_def)
  show "session_fenced rec guard"
    unfolding session_fenced_def
  proof (intro allI impI)
    fix sid assume "json_sid rec = Some sid"
    then have x: "session_extra (r\<lparr>rq_session := Some s'\<rparr>) = Some (J_Str sid)"
      unfolding json_sid_extra [OF en] by (simp split: option.splits json.splits)
    then have "tx_oidc_sid tx1 = sid" "validOIDCSessionID sid"
      using guardOIDCIssue_same(2) [OF oidc x] oidc by (auto simp: guardOIDCIssue_def split: if_splits)
    then have "tx_oidc_sid tx = sid" "sid \<noteq> ''''"
      using principalGuard_sid [OF pg] issueNow_sid [OF now] valid_sid_nonempty by auto
    then show "\<exists>s now idle. A_Session sid s now idle \<in> set guard" unfolding guard by auto
  qed
qed


lemma CreateAuthorizeCodeSession_wf:
  assumes c: "CreateAuthorizeCodeSession P st e sig r t = Inr tx" and pre: "\<And>tx. t = Some tx \<Longrightarrow> pre_wf tx"
  shows "tx_wf tx"
proof -
  from c obtain tx0 rec expires guard now where p: "prepare_issue P st e sig r t = Inr (tx0, rec, expires, guard, now)"
      and tx: "tx = tx0\<lparr>tx_statements := tx_statements tx0 @
            [plain (DeleteExpiredPKCE now), plain (DeleteExpiredCodes now),
             \<lparr>st_action = InsertCode \<lparr>co_sig = sig, co_request = rec, co_expires = expires, co_invalidated = False,
                co_attempt = None\<rparr>, st_guard = guard, st_exact = False\<rparr>]\<rparr>"
    unfolding CreateAuthorizeCodeSession_def by (auto split: sum.splits)
  show ?thesis unfolding tx
    using prepare_issue_wf [OF p pre] by (intro wf_append) (simp_all add: stmt_wf_def)
qed

lemma CreatePKCERequestSession_wf:
  assumes c: "CreatePKCERequestSession P st e sig r t = Inr tx" and pre: "\<And>tx. t = Some tx \<Longrightarrow> pre_wf tx"
  shows "tx_wf tx"
proof -
  from c obtain tx0 rec expires guard now where p: "prepare_issue P st e sig r t = Inr (tx0, rec, expires, guard, now)"
      and tx: "tx = tx0\<lparr>tx_statements := tx_statements tx0 @
            [\<lparr>st_action = InsertPKCE \<lparr>pk_sig = sig, pk_request = rec, pk_expires = expires\<rparr>, st_guard = guard, st_exact = False\<rparr>]\<rparr>"
    unfolding CreatePKCERequestSession_def by (auto split: sum.splits)
  show ?thesis unfolding tx
    using prepare_issue_wf [OF p pre] by (intro wf_append) (simp_all add: stmt_wf_def)
qed

lemma InvalidateAuthorizeCodeSession_wf:
  assumes c: "InvalidateAuthorizeCodeSession P st e sig t = Inr tx" and pre: "\<And>tx. t = Some tx \<Longrightarrow> pre_wf tx"
  shows "tx_wf tx"
proof -
  from c obtain tx0 tx1 tx2 g rows where conf: "configureTX P T_Code sig t = Inr tx0"
      and cap: "captureManagedSnapshot st e rows tx0 = Inr tx1" and pg: "principalGuard (ce_now e) tx1 = (g, tx2)"
      and tx: "tx = tx2\<lparr>tx_statements := tx_statements tx2 @
          [\<lparr>st_action = UseCode sig (tx_attempt tx2), st_guard = g @ managedGuard tx2, st_exact = False\<rparr>,
           \<lparr>st_action = DeletePKCE sig, st_guard = A_CodeUsed sig (tx_attempt tx2) # g @ managedGuard tx2, st_exact = False\<rparr>]\<rparr>"
    unfolding InvalidateAuthorizeCodeSession_def Let_def by (auto split: sum.splits prod.splits)
  have w: "tx_wf tx0 \<and> tx_kind tx0 = T_Code \<and> tx_key tx0 = sig" by (rule configureTX_wf [OF conf pre]) simp_all
  have same: "same_tx tx0 tx2"
    by (rule same_tx_trans [OF captureManagedSnapshot_same [OF cap] same_principalGuard [OF pg]])
  show ?thesis unfolding tx
    using w same tx_wf_cong [OF same] by (intro wf_append) (simp_all add: stmt_wf_def same_tx_def)
qed

lemma RotateRefreshToken_wf:
  assumes c: "RotateRefreshToken P st e request sig t = Inr tx" and pre: "\<And>tx. t = Some tx \<Longrightarrow> pre_wf tx"
  shows "tx_wf tx"
proof -
  from c obtain tx0 tx1 tx2 g rows where conf: "configureTX P T_Refresh sig t = Inr tx0"
      and cap: "captureManagedSnapshot st e rows (tx0\<lparr>tx_device_request := request\<rparr>) = Inr tx1"
      and pg: "principalGuard (ce_now e) tx1 = (g, tx2)"
      and tx: "tx = tx2\<lparr>tx_statements := tx_statements tx2 @
          [\<lparr>st_action = RotateRefresh sig request (tx_attempt tx2), st_guard = g @ managedGuard tx2, st_exact = False\<rparr>,
           \<lparr>st_action = DeactivateFamily request, st_guard = A_Rotated sig (tx_attempt tx2) # g @ managedGuard tx2, st_exact = False\<rparr>,
           \<lparr>st_action = DeleteFamilyAccess request, st_guard = A_Rotated sig (tx_attempt tx2) # g @ managedGuard tx2, st_exact = False\<rparr>,
           \<lparr>st_action = DeleteOrphanRequests, st_guard = g @ managedGuard tx2, st_exact = False\<rparr>]\<rparr>"
    unfolding RotateRefreshToken_def Let_def by (auto split: sum.splits prod.splits)
  have w: "tx_wf tx0 \<and> tx_kind tx0 = T_Refresh \<and> tx_key tx0 = sig" by (rule configureTX_wf [OF conf pre]) simp_all
  have "same_tx tx0 (tx0\<lparr>tx_device_request := request\<rparr>)" by (simp add: same_tx_def)
  then have same: "same_tx tx0 tx2"
    using captureManagedSnapshot_same [OF cap] same_principalGuard [OF pg] same_tx_trans by blast
  show ?thesis unfolding tx
    using w same tx_wf_cong [OF same] by (intro wf_append) (simp_all add: stmt_wf_def same_tx_def)
qed

lemma issue_condition_wf:
  assumes c: "issue_condition P st now sig tx = Inr (condition, guard, tx')" and k: "tx_kind tx \<notin> {T_None, T_Issue, T_Reuse}"
  shows "same_tx tx tx'" "tied (tx_kind tx) (tx_key tx) (tx_attempt tx) condition"
proof -
  have "same_tx tx tx' \<and> tied (tx_kind tx) (tx_key tx) (tx_attempt tx) condition"
  proof (cases "tx_kind tx = T_Code \<or> tx_kind tx = T_Refresh")
    case True
    then obtain g where pg: "principalGuard now tx = (g, tx')" and "condition = spent_atom tx' # g"
      using c by (auto simp: issue_condition_def split: tx_kind.splits prod.splits)
    then show ?thesis using True same_principalGuard [OF pg] by (auto simp: tied_def spent_atom_def same_tx_def)
  next
    case False
    have "same_tx tx tx'"
      using c k False
      by (auto simp: issue_condition_def split: tx_kind.splits if_splits prod.splits dest!: same_principalGuard same_deviceGuard)
        (simp_all add: same_tx_def)
    then show ?thesis using k False by (simp add: tied_def)
  qed
  then show "same_tx tx tx'" "tied (tx_kind tx) (tx_key tx) (tx_attempt tx) condition" by simp_all
qed

lemma tied_mono: "tied k key a g \<Longrightarrow> set g \<subseteq> set g' \<Longrightarrow> tied k key a g'"
  by (auto simp: tied_def)

lemma client_statements_wf:
  assumes "client_statements st e sig r s guard t = Inr ss"
  shows "list_all (stmt_wf tx) ss"
  using assms by (auto simp: client_statements_def Let_def stmt_wf_def split: option.splits if_splits json.splits)

lemma access_statements_wf:
  assumes a: "access_statements P st e cx sig r = Inr (t, ss, machine)" and tx: "cx_tx cx = Some tx"
    and k: "tx_kind tx \<notin> {T_None, T_Issue, T_Reuse}"
  obtains tx' where "t = Some tx'" "same_tx tx tx'" "list_all (stmt_wf tx') ss" "\<not> machine"
proof -
  obtain rec s audiences where q: "encodeRequest r = Some rec" "rq_session r = Some s" "so_audiences st r = Some audiences"
    using a unfolding access_statements_def by (auto split: option.splits)
  obtain condition guard tx' where c: "issue_condition P st (ce_now e) sig tx = Inr (condition, guard, tx')"
    using a q tx unfolding access_statements_def by (auto split: sum.splits)
  obtain rest where rest: "client_statements st e sig r s guard (Some tx') = Inr rest"
    using a q tx c unfolding access_statements_def Let_def by (auto split: sum.splits)
  have t: "t = Some tx'" "\<not> machine"
      and ss: "\<exists>dpop exact. ss = [\<lparr>st_action = DeleteExpiredAccess (ce_now e), st_guard = guard, st_exact = False\<rparr>,
                       \<lparr>st_action = DeleteOrphanRequests, st_guard = guard, st_exact = False\<rparr>,
                       \<lparr>st_action = InsertAccess (access_row_of sig r s audiences), st_guard = condition @ dpop @ managedClientGuard r, st_exact = exact\<rparr>,
                       \<lparr>st_action = InsertRequest \<lparr>tr_sig = sig, tr_request = rec\<rparr>, st_guard = condition @ dpop @ managedClientGuard r, st_exact = exact\<rparr>] @ rest"
    using a q tx c rest unfolding access_statements_def Let_def by auto
  note i = issue_condition_wf [OF c k]
  have "tied (tx_kind tx') (tx_key tx') (tx_attempt tx') (condition @ x)" for x
    using tied_mono [OF i(2)] i(1) by (simp add: same_tx_def)
  then have "list_all (stmt_wf tx') ss"
    using ss client_statements_wf [OF rest] by (auto simp: stmt_wf_def)
  then show ?thesis using that t i(1) by blast
qed


lemma mutate_built:
  assumes m: "mutate f ss (cx, db) = ((cx1, db1), Inr ())" and t: "cx_tx cx = Some tx" "tx_wf tx" "list_all (stmt_wf tx) ss"
  shows "db1 = db" "\<exists>tx1. cx_tx cx1 = Some tx1 \<and> tx_wf tx1"
  using m t wf_append [OF t(2,3)] by (auto simp: mutate_def tx_wf_def)

lemma place_cutoffs_same: "same_tx tx (place_cutoffs n tx)"
  by (simp add: place_cutoffs_def same_tx_def Let_def)

lemma CreateAccessTokenSession_wf:
  assumes c: "CreateAccessTokenSession P st e f other f2 sig r (cx, db) = ((cx1, db1), Inr ())"
    and t: "cx_tx cx = Some tx" "tx_wf tx" "grants_tokens cx"
  shows "db1 = db" "\<exists>tx1. cx_tx cx1 = Some tx1 \<and> tx_wf tx1"
proof -
  obtain t' ss machine where a: "access_statements P st e cx sig r = Inr (t', ss, machine)"
    using c by (auto simp: CreateAccessTokenSession_def split: if_splits sum.splits)
  have k: "tx_kind tx \<notin> {T_None, T_Issue, T_Reuse}" using t by (auto simp: grants_tokens_def)
  obtain tx' where tx': "t' = Some tx'" "same_tx tx tx'" "list_all (stmt_wf tx') ss" "\<not> machine"
    using access_statements_wf [OF a t(1) k] by blast
  let ?tx = "place_cutoffs (length (tx_statements tx')) tx'"
  have w: "tx_wf ?tx" "list_all (stmt_wf ?tx) ss"
    using t(2) tx' tx_wf_cong [OF tx'(2)] tx_wf_cong [OF place_cutoffs_same] stmt_wf_cong [OF place_cutoffs_same]
    by (simp_all add: list_all_iff)
  have m: "mutate f ss (cx\<lparr>cx_tx := Some ?tx\<rparr>, db) = ((cx1, db1), Inr ())"
    using c a tx'(1,4) by (auto simp: CreateAccessTokenSession_def split: if_splits)
  show "db1 = db" "\<exists>tx1. cx_tx cx1 = Some tx1 \<and> tx_wf tx1" using mutate_built [OF m _ w] by simp_all
qed

lemma refresh_statements_wf:
  assumes c: "refresh_statements st e sig access r (Some tx) = Inr (t, ss)" and k: "tx_kind tx \<notin> {T_None, T_Issue, T_Reuse}"
    and x: "tx_kind tx \<noteq> T_Exchange"
  obtains tx' where "t = Some tx'" "same_tx tx tx'" "list_all (stmt_wf tx') ss"
proof -
  obtain rec s where q: "encodeRequest r = Some rec" "rq_session r = Some s"
    using c unfolding refresh_statements_def by (auto split: option.splits)
  have i: "rr_id rec = rq_id r" using q by (auto simp: encodeRequest_def)
  have "\<exists>tx'. t = Some tx' \<and> same_tx tx tx' \<and> list_all (stmt_wf tx') ss"
  proof (cases "tx_kind tx")
    case T_Device
    obtain g tx' where g: "tx_deviceGuard (ce_now e) tx = (g, tx')" by fastforce
    then show ?thesis using c q i T_Device same_deviceGuard [OF g]
      by (auto simp: refresh_statements_def Let_def stmt_wf_def tied_def same_tx_def)
  next
    case T_Password
    obtain g tx' where g: "principalGuard (ce_now e) (tx\<lparr>tx_target_refresh := sig\<rparr>) = (g, tx')" by fastforce
    then show ?thesis using c q i T_Password same_principalGuard [OF g]
      by (auto simp: refresh_statements_def Let_def stmt_wf_def tied_def same_tx_def split: if_splits)
  next
    case T_Code
    obtain g tx' where g: "principalGuard (ce_now e) tx = (g, tx')" by fastforce
    then show ?thesis using c q i T_Code same_principalGuard [OF g]
      by (auto simp: refresh_statements_def Let_def stmt_wf_def tied_def same_tx_def spent_atom_def)
  next
    case T_Refresh
    obtain g tx' where g: "principalGuard (ce_now e) tx = (g, tx')" by fastforce
    then show ?thesis using c q i T_Refresh same_principalGuard [OF g]
      by (auto simp: refresh_statements_def Let_def stmt_wf_def tied_def same_tx_def spent_atom_def)
  qed (use k x in simp_all)
  then show ?thesis using that by blast
qed

lemma CreateRefreshTokenSession_wf:
  assumes c: "CreateRefreshTokenSession st e f sig acc r (cx, db) = ((cx1, db1), Inr ())"
    and t: "cx_tx cx = Some tx" "tx_wf tx" "grants_tokens cx"
  shows "db1 = db" "\<exists>tx1. cx_tx cx1 = Some tx1 \<and> tx_wf tx1"
proof -
  have x: "tx_kind tx \<noteq> T_Exchange" using c t(1) by (auto simp: CreateRefreshTokenSession_def split: if_splits)
  obtain t' ss where a: "refresh_statements st e sig acc r (Some tx) = Inr (t', ss)"
    using c t(1) by (auto simp: CreateRefreshTokenSession_def split: if_splits sum.splits)
  have k: "tx_kind tx \<notin> {T_None, T_Issue, T_Reuse}" using t by (auto simp: grants_tokens_def)
  obtain tx' where tx': "t' = Some tx'" "same_tx tx tx'" "list_all (stmt_wf tx') ss"
    using refresh_statements_wf [OF a k x] by blast
  have m: "mutate f ss (cx\<lparr>cx_tx := Some tx'\<rparr>, db) = ((cx1, db1), Inr ())"
    using c a t(1) tx'(1) by (auto simp: CreateRefreshTokenSession_def split: if_splits)
  show "db1 = db" "\<exists>tx1. cx_tx cx1 = Some tx1 \<and> tx_wf tx1"
    using mutate_built [OF m _ _ tx'(3)] t(2) tx_wf_cong [OF tx'(2)] by simp_all
qed

lemma DeleteRefreshTokenSession_wf:
  assumes c: "DeleteRefreshTokenSession P f sig (cx, db) = ((cx1, db1), Inr ())" and t: "cx_tx cx = Some tx" "pre_wf tx"
  shows "\<exists>tx1. cx_tx cx1 = Some tx1 \<and> tx_wf tx1"
proof (cases "tx_kind tx = T_None")
  case True
  then obtain tx' where conf: "configureTX P T_Reuse sig (Some tx) = Inr tx'"
      and m: "mutate f [plain (DeleteRefresh sig)] (cx\<lparr>cx_tx := Some tx'\<rparr>, db) = ((cx1, db1), Inr ())"
    using c t by (auto simp: DeleteRefreshTokenSession_def split: sum.splits)
  have "tx_wf tx'" using configureTX_wf [OF conf] t(2) by simp
  then show ?thesis by (intro mutate_built(2) [OF m]) (simp_all add: stmt_wf_def)
next
  case False
  then have w: "tx_wf tx" using t(2) by (simp add: pre_wf_def tx_wf_def)
  have m: "mutate f [plain (DeleteRefresh sig)] (cx, db) = ((cx1, db1), Inr ())"
    using c t False by (simp add: DeleteRefreshTokenSession_def)
  show ?thesis by (rule mutate_built(2) [OF m t(1) w]) (simp add: stmt_wf_def)
qed

lemma begin_wf:
  "BeginDeviceTX P n now code claim cx = Inr cx1 \<Longrightarrow> \<exists>tx. cx_tx cx1 = Some tx \<and> tx_wf tx"
  "beginTokenExchangeTX n now source se actor ae cx = Inr cx1 \<Longrightarrow> \<exists>tx. cx_tx cx1 = Some tx \<and> tx_wf tx"
  "beginPasswordTX n subject pg ag h cx = Inr cx1 \<Longrightarrow> \<exists>tx. cx_tx cx1 = Some tx \<and> tx_wf tx"
proof -
  assume b: "BeginDeviceTX P n now code claim cx = Inr cx1"
  then obtain cx0 where c0: "BeginTX n cx = Inr cx0" by (auto simp: BeginDeviceTX_def split: if_splits sum.splits)
  obtain tx where tx: "cx_tx cx0 = Some tx" "pre_wf tx" using BeginTX_pre [OF c0] by blast
  obtain tx' where conf: "configureTX P T_Device (take 20 (digest P code) @ ''/'' @ take 20 (digest P claim)) (Some tx) = Inr tx'"
      and cx1: "cx1 = cx0\<lparr>cx_tx := Some (tx'\<lparr>tx_device_digest := digest P code, tx_device_claim := digest P claim, tx_issue_now := now\<rparr>)\<rparr>"
    using b c0 tx by (auto simp: BeginDeviceTX_def Let_def split: if_splits sum.splits)
  have "tx_wf tx'" using configureTX_wf [OF conf] tx(2) by simp
  moreover have "same_tx tx' (tx'\<lparr>tx_device_digest := digest P code, tx_device_claim := digest P claim, tx_issue_now := now\<rparr>)"
    by (simp add: same_tx_def)
  ultimately show "\<exists>tx. cx_tx cx1 = Some tx \<and> tx_wf tx" using tx_wf_cong cx1 by (auto intro!: exI)
next
  assume b: "beginTokenExchangeTX n now source se actor ae cx = Inr cx1"
  then obtain cx0 where c0: "BeginTX n cx = Inr cx0" by (auto simp: beginTokenExchangeTX_def split: if_splits sum.splits)
  obtain tx where tx: "cx_tx cx0 = Some tx" "tx_statements tx = []" "\<not> tx_done tx" using BeginTX_pre [OF c0] by blast
  then show "\<exists>tx. cx_tx cx1 = Some tx \<and> tx_wf tx"
    using b c0 by (auto simp: beginTokenExchangeTX_def Let_def tx_wf_def split: if_splits sum.splits option.splits)
next
  assume b: "beginPasswordTX n subject pg ag h cx = Inr cx1"
  then obtain cx0 where c0: "BeginTX n cx = Inr cx0" by (auto simp: beginPasswordTX_def split: if_splits sum.splits)
  obtain tx where tx: "cx_tx cx0 = Some tx" "tx_statements tx = []" "\<not> tx_done tx" using BeginTX_pre [OF c0] by blast
  then show "\<exists>tx. cx_tx cx1 = Some tx \<and> tx_wf tx"
    using b c0 by (auto simp: beginPasswordTX_def tx_wf_def split: if_splits sum.splits)
qed

text \<open>Every statement of a built transaction is tied to its grant.\<close>

lemma built_wf: "built P st cx \<Longrightarrow> \<exists>tx. cx_tx cx = Some tx \<and> tx_wf tx"
proof (induction rule: built.induct)
  case (issue_code n cx cx1 e sig r tx)
  then show ?case using BeginTX_pre [OF issue_code(1)] CreateAuthorizeCodeSession_wf [OF issue_code(2)] by fastforce
next
  case (issue_pkce n cx cx1 e sig r tx)
  then show ?case using BeginTX_pre [OF issue_pkce(1)] CreatePKCERequestSession_wf [OF issue_pkce(2)] by fastforce
next
  case (use_code n cx cx1 e sig tx)
  then show ?case using BeginTX_pre [OF use_code(1)] InvalidateAuthorizeCodeSession_wf [OF use_code(2)] by fastforce
next
  case (rotate n cx cx1 e request sig tx)
  then show ?case using BeginTX_pre [OF rotate(1)] RotateRefreshToken_wf [OF rotate(2)] by fastforce
next
  case (reuse n cx cx1 f sig db cx2 db')
  then show ?case using BeginTX_pre [OF reuse(1)] DeleteRefreshTokenSession_wf [OF reuse(2)] by blast
next
  case (more_code cx e sig r tx)
  then show ?case using CreateAuthorizeCodeSession_wf [OF more_code(2)] tx_wf_pre by fastforce
next
  case (more_pkce cx e sig r tx)
  then show ?case using CreatePKCERequestSession_wf [OF more_pkce(2)] tx_wf_pre by fastforce
next
  case (more_use cx e sig tx)
  then show ?case using InvalidateAuthorizeCodeSession_wf [OF more_use(2)] tx_wf_pre by fastforce
next
  case (more_rotate cx e request sig tx)
  then show ?case using RotateRefreshToken_wf [OF more_rotate(2)] tx_wf_pre by fastforce
next
  case (device_id cx i cx1)
  then obtain tx where tx: "cx_tx cx = Some tx" "tx_wf tx" by blast
  have "same_tx tx (tx\<lparr>tx_device_request := i\<rparr>)" by (simp add: same_tx_def)
  then show ?case using device_id(2) tx tx_wf_cong by (auto simp: SetDeviceRequestID_def split: if_splits intro!: exI)
next
  case (access cx e f other f2 sig r db cx1 db1)
  then show ?case using CreateAccessTokenSession_wf(2) [OF access(3)] by blast
next
  case (refresh cx e f sig acc r db cx1 db1)
  then show ?case using CreateRefreshTokenSession_wf(2) [OF refresh(3)] by blast
next
  case (delete_access cx f sig db cx1 db1)
  then obtain tx where tx: "cx_tx cx = Some tx" "tx_wf tx" by blast
  show ?case
  proof (cases "sig = ''''")
    case True
    then show ?thesis using delete_access(2) tx by (auto simp: DeleteAccessTokenSession_def)
  next
    case False
    then have m: "mutate f [plain (DeleteAccess sig), plain (DeleteRequest sig)] (cx, db) = ((cx1, db1), Inr ())"
      using delete_access(2) by (simp add: DeleteAccessTokenSession_def)
    show ?thesis by (rule mutate_built(2) [OF m tx]) (simp add: stmt_wf_def)
  qed
next
  case (delete_refresh cx f sig db cx1 db1)
  then show ?case using DeleteRefreshTokenSession_wf [OF delete_refresh(2)] tx_wf_pre by blast
next
  case (revoke_refresh cx f request db cx1 db1)
  then obtain tx where tx: "cx_tx cx = Some tx" "tx_wf tx" by blast
  show ?case by (rule mutate_built(2) [OF revoke_refresh(2) [unfolded RevokeRefreshToken_def] tx]) (simp add: stmt_wf_def)
next
  case (revoke_access cx f request db cx1 db1)
  then obtain tx where tx: "cx_tx cx = Some tx" "tx_wf tx" by blast
  show ?case by (rule mutate_built(2) [OF revoke_access(2) [unfolded RevokeAccessToken_def] tx]) (simp add: stmt_wf_def)
qed (blast intro: begin_wf)+


end
