(* ===== verification/SingleUse.thy ===== *)
theory SingleUse
  imports Prelude
begin

text \<open>
  The contract of a single-use artefact: something that an event of a run can win, that a win spends,
  and that stays spent. Device grants, DPoP nonces and DPoP proof identities are such artefacts; the
  lemma of the locale is that at most one event of any run wins.
\<close>

locale single_use =
  fixes step :: "'e \<Rightarrow> 's \<Rightarrow> 's"
    and wins :: "'e \<Rightarrow> 's \<Rightarrow> bool"
    and spent :: "'s \<Rightarrow> bool"
    and invar :: "'s \<Rightarrow> bool"
    and timely :: "'e \<Rightarrow> bool"
  assumes invar_step: "invar s \<Longrightarrow> timely e \<Longrightarrow> invar (step e s)"
    and wins_spends: "invar s \<Longrightarrow> timely e \<Longrightarrow> wins e s \<Longrightarrow> spent (step e s)"
    and spent_stays: "invar s \<Longrightarrow> timely e \<Longrightarrow> spent s \<Longrightarrow> spent (step e s)"
    and spent_blocks: "invar s \<Longrightarrow> timely e \<Longrightarrow> spent s \<Longrightarrow> \<not> wins e s"
begin

primrec winners :: "'e list \<Rightarrow> 's \<Rightarrow> nat" where
  "winners [] s = 0"
| "winners (e # es) s = (if wins e s then 1 else 0) + winners es (step e s)"

lemma no_winner_when_spent:
  "invar s \<Longrightarrow> \<forall>e \<in> set es. timely e \<Longrightarrow> spent s \<Longrightarrow> winners es s = 0"
proof (induction es arbitrary: s)
  case (Cons e es)
  then show ?case using spent_blocks spent_stays invar_step by simp
qed simp

lemma at_most_one_winner:
  "invar s \<Longrightarrow> \<forall>e \<in> set es. timely e \<Longrightarrow> winners es s \<le> 1"
proof (induction es arbitrary: s)
  case (Cons e es)
  then have inv: "invar (step e s)" and es: "\<forall>e \<in> set es. timely e" using invar_step by auto
  show ?case
  proof (cases "wins e s")
    case True
    with Cons.prems have "spent (step e s)" using wins_spends by simp
    then have "winners es (step e s) = 0" using no_winner_when_spent inv es by blast
    with True show ?thesis by simp
  next
    case False
    then show ?thesis using Cons.IH inv es by simp
  qed
qed simp

end

text \<open>The contract of a grant that attempts compete for: an attempt that spends it closes it to every other attempt, and
  no event but a new issue opens it again. Authorization codes and refresh tokens are such grants.\<close>

locale spending =
  fixes step :: "'e \<Rightarrow> 's \<Rightarrow> 's"
    and invar :: "'s \<Rightarrow> bool"
    and ok :: "'e \<Rightarrow> bool"
    and issues :: "'k \<Rightarrow> 'e \<Rightarrow> bool"
    and closed :: "'k \<Rightarrow> 'a \<Rightarrow> 's \<Rightarrow> bool"
    and spends :: "'k \<Rightarrow> 'a \<Rightarrow> 'e \<Rightarrow> 's \<Rightarrow> bool"
  assumes invar_step: "ok e \<Longrightarrow> invar s \<Longrightarrow> invar (step e s)"
    and closed_step: "ok e \<Longrightarrow> invar s \<Longrightarrow> \<not> issues k e \<Longrightarrow> closed k a s \<Longrightarrow> closed k a (step e s)"
    and closed_blocks: "ok e \<Longrightarrow> invar s \<Longrightarrow> closed k a s \<Longrightarrow> \<not> spends k a e s"
    and spends_closes: "ok e \<Longrightarrow> invar s \<Longrightarrow> spends k a e s \<Longrightarrow> a \<noteq> b \<Longrightarrow> closed k b (step e s)"
begin

lemma closed_run:
  "\<forall>e \<in> set es. ok e \<and> \<not> issues k e \<Longrightarrow> invar s \<Longrightarrow> closed k a s \<Longrightarrow> invar (fold step es s) \<and> closed k a (fold step es s)"
proof (induction es arbitrary: s)
  case (Cons e es)
  then show ?case using invar_step closed_step by simp
qed simp

lemma one_attempt:
  assumes "invar s" "ok e" "spends k a e s" "\<forall>e \<in> set es. ok e \<and> \<not> issues k e" "ok e'" "a \<noteq> b"
  shows "\<not> spends k b e' (fold step es (step e s))"
  using closed_run [OF assms(4) invar_step spends_closes] closed_blocks assms by metis

end


end
