(* ===== verification/GrantRows.thy ===== *)
theory GrantRows
  imports GrantMachine SingleUse
begin

text \<open>
  Runs of committed grant statements on the rows of the tables: where a row can come from, the invariant of the
  tables, and the contract that authorization codes and refresh tokens share. A grant that one attempt has spent is
  closed to every other attempt, whatever is committed afterwards.
\<close>

section \<open>Where rows come from\<close>

lemma act_codes:
  "act a db = Some (db', n) \<Longrightarrow> codes db' =
     (case a of
        DeleteExpiredCodes now \<Rightarrow> sql_delete (\<lambda>r. co_expires r \<le> now) (codes db)
      | InsertCode c \<Rightarrow> codes db @ [c]
      | UseCode sig b \<Rightarrow> sql_update (\<lambda>r. co_sig r = sig \<and> \<not> co_invalidated r) (\<lambda>r. r\<lparr>co_invalidated := True, co_attempt := Some b\<rparr>) (codes db)
      | InvalidateCodes w \<Rightarrow> sql_update (\<lambda>r. \<not> co_invalidated r \<and> selects w (co_request r)) (\<lambda>r. r\<lparr>co_invalidated := True\<rparr>) (codes db)
      | _ \<Rightarrow> codes db)"
  by (cases a) (auto simp: Let_def insert_unique_def consume_rows_def split: if_splits option.splits)

lemma act_refreshes:
  "act a db = Some (db', n) \<Longrightarrow> refreshes db' =
     (case a of
        DeleteExpiredRefresh now \<Rightarrow> sql_delete (\<lambda>r. re_expires r \<le> now) (refreshes db)
      | InsertRefresh r \<Rightarrow> refreshes db @ [r]
      | DeleteRefresh sig \<Rightarrow> sql_delete (\<lambda>r. re_sig r = sig) (refreshes db)
      | RotateRefresh sig request b \<Rightarrow> sql_update (\<lambda>r. re_sig r = sig \<and> re_request_id r = request \<and> re_active r)
          (\<lambda>r. r\<lparr>re_active := False, re_attempt := Some b\<rparr>) (refreshes db)
      | DeactivateFamily request \<Rightarrow> sql_update (\<lambda>r. re_request_id r = request) (\<lambda>r. r\<lparr>re_active := False\<rparr>) (refreshes db)
      | DeactivateRefreshes w \<Rightarrow> sql_update (\<lambda>r. re_active r \<and> selects w (re_request r)) (\<lambda>r. r\<lparr>re_active := False\<rparr>) (refreshes db)
      | _ \<Rightarrow> refreshes db)"
  by (cases a) (auto simp: Let_def insert_unique_def consume_rows_def split: if_splits option.splits)

lemma act_inserts:
  assumes "act a db = Some (db', n)"
  shows "\<And>c. a = InsertCode c \<Longrightarrow> \<forall>x \<in> set (codes db). co_sig x \<noteq> co_sig c"
    and "\<And>r. a = InsertRefresh r \<Longrightarrow> \<forall>x \<in> set (refreshes db). re_sig x \<noteq> re_sig r"
  using assms by (auto simp: insert_unique_def sql_exists_iff split: if_splits)

lemma act_requests:
  assumes "act a db = Some (db', n)" "t \<in> set (token_requests db')"
  shows "t \<in> set (token_requests db) \<or> a = InsertRequest t"
  using assms by (cases a) (auto simp: Let_def insert_unique_def consume_rows_def set_sql_delete split: if_splits option.splits)

lemma act_accesses:
  assumes "act a db = Some (db', n)" "t \<in> set (accesses db')"
  shows "t \<in> set (accesses db) \<or> a = InsertAccess t"
  using assms by (cases a) (auto simp: Let_def insert_unique_def consume_rows_def set_sql_delete split: if_splits option.splits)

lemma act_sessions:
  assumes "act a db = Some (db', n)" "b' \<in> set (sessions db')" "bs_revoked b' = None"
  shows "b' \<in> set (sessions db)"
  using assms
  by (cases a) (auto simp: Let_def consume_rows_def set_sql_delete set_sql_update revoke_session_def split: if_splits option.splits)

definition code_after :: "action \<Rightarrow> code_row \<Rightarrow> code_row \<Rightarrow> bool" where
  "code_after a c c' \<longleftrightarrow>
     c' = c \<or> c' = c\<lparr>co_invalidated := True\<rparr> \<or>
     (\<exists>b. a = UseCode (co_sig c) b \<and> \<not> co_invalidated c \<and> c' = c\<lparr>co_invalidated := True, co_attempt := Some b\<rparr>)"

definition refresh_after :: "action \<Rightarrow> refresh_row \<Rightarrow> refresh_row \<Rightarrow> bool" where
  "refresh_after a r r' \<longleftrightarrow>
     r' = r \<or> r' = r\<lparr>re_active := False\<rparr> \<or>
     (\<exists>b. a = RotateRefresh (re_sig r) (re_request_id r) b \<and> re_active r \<and> r' = r\<lparr>re_active := False, re_attempt := Some b\<rparr>)"

lemma act_code_row:
  assumes "act a db = Some (db', n)" "c' \<in> set (codes db')"
  shows "(\<exists>c \<in> set (codes db). code_after a c c') \<or> a = InsertCode c'"
  using assms(2) unfolding act_codes [OF assms(1)]
  by (cases a) (auto simp: set_sql_delete set_sql_update code_after_def)

lemma act_refresh_row:
  assumes "act a db = Some (db', n)" "r' \<in> set (refreshes db')"
  shows "(\<exists>r \<in> set (refreshes db). refresh_after a r r') \<or> a = InsertRefresh r'"
  using assms(2) unfolding act_refreshes [OF assms(1)]
  by (cases a) (auto simp: set_sql_delete set_sql_update refresh_after_def)

text \<open>A statement either leaves the database as it is or performs its action under its guard.\<close>

lemma exec_stmt_cases:
  assumes "exec_stmt cutoff s db = Some (db', n)"
  obtains (idle) "db' = db" | (run) m where "list_all (holds cutoff db) (st_guard s)" "act (st_action s) db = Some (db', m)"
  using assms unfolding exec_stmt_def Let_def by (auto split: if_splits option.splits)

section \<open>Invariant\<close>

definition grant_inv :: "grant_db \<Rightarrow> bool" where
  "grant_inv db \<longleftrightarrow>
     sql_unique co_sig (codes db) \<and> sql_unique re_sig (refreshes db) \<and>
     (\<forall>c \<in> set (codes db). co_attempt c \<noteq> None \<longrightarrow> co_invalidated c) \<and>
     (\<forall>r \<in> set (refreshes db). re_attempt r \<noteq> None \<longrightarrow> \<not> re_active r)"

text \<open>An action that a batch outside transactions may have, and one that inserts rows in their first state.\<close>

fun starts_open :: "action \<Rightarrow> bool" where
  "starts_open (InsertCode c) \<longleftrightarrow> co_attempt c = None"
| "starts_open (InsertRefresh r) \<longleftrightarrow> re_attempt r = None"
| "starts_open _ \<longleftrightarrow> True"

lemma action_wf_starts_open: "action_wf k key a g x \<Longrightarrow> starts_open x"
  by (cases x) simp_all

lemma act_inv:
  assumes a: "act a db = Some (db', n)" and i: "grant_inv db" and s: "starts_open a"
  shows "grant_inv db'"
proof -
  have "sql_unique co_sig (codes db')"
    using i act_inserts(1) [OF a] unfolding act_codes [OF a] grant_inv_def
    by (cases a) (auto simp: sql_unique_insert)
  moreover have "sql_unique re_sig (refreshes db')"
    using i act_inserts(2) [OF a] unfolding act_refreshes [OF a] grant_inv_def
    by (cases a) (auto simp: sql_unique_insert)
  moreover have "\<forall>c \<in> set (codes db'). co_attempt c \<noteq> None \<longrightarrow> co_invalidated c"
    using i s act_code_row [OF a] by (fastforce simp: grant_inv_def code_after_def)
  moreover have "\<forall>r \<in> set (refreshes db'). re_attempt r \<noteq> None \<longrightarrow> \<not> re_active r"
    using i s act_refresh_row [OF a] by (fastforce simp: grant_inv_def refresh_after_def)
  ultimately show ?thesis by (simp add: grant_inv_def)
qed

lemma exec_stmt_inv:
  assumes "exec_stmt cutoff s db = Some (db', n)" "grant_inv db" "starts_open (st_action s)"
  shows "grant_inv db'"
  using assms(1) by (cases rule: exec_stmt_cases) (use assms act_inv in auto)

section \<open>Commits\<close>

lemma action_wf_exchange: "action_wf T_Exchange key a g x \<longleftrightarrow> action_wf T_Exchange key a g' x"
  by (cases x) (simp_all add: tied_def)

lemma bind_location_wf:
  assumes "bind_location cutoff l ss = Some ss'" "list_all (stmt_wf tx) ss" "tx_kind tx = T_Exchange"
  shows "list_all (stmt_wf tx) ss'"
proof -
  obtain i j where ss': "ss' = ss[i := (ss ! i)\<lparr>st_guard := j\<rparr>]" and i: "i < length ss"
    using assms(1) by (auto simp: bind_location_def Let_def split: prod.splits if_splits)
  have "stmt_wf tx (ss ! i)" using assms(2) i by (simp add: list_all_length)
  then have "stmt_wf tx ((ss ! i)\<lparr>st_guard := j\<rparr>)"
    using assms(3) action_wf_exchange by (simp add: stmt_wf_def) blast
  then show ?thesis using assms(2) i unfolding ss' list_all_length by (simp add: nth_list_update)
qed

lemma bind_locations_wf:
  "bind_locations cutoff ls ss = Some ss' \<Longrightarrow> list_all (stmt_wf tx) ss \<Longrightarrow> tx_kind tx = T_Exchange \<Longrightarrow> list_all (stmt_wf tx) ss'"
proof (induction ls arbitrary: ss)
  case (Cons l ls)
  then obtain ss1 where s: "bind_location cutoff l ss = Some ss1" and r: "bind_locations cutoff ls ss1 = Some ss'"
    by (auto split: option.splits)
  show ?case by (rule Cons.IH [OF r bind_location_wf [OF s Cons.prems(2,3)] Cons.prems(3)])
qed simp

lemma commit_statements_wf:
  assumes "commit_statements now cutoff tx = Inr ss" "tx_wf tx"
  shows "list_all (stmt_wf tx) ss"
proof (cases "tx_kind tx = T_Exchange")
  case True
  then have "bindExchangeCutoff cutoff tx = Some ss"
    using assms(1) by (auto simp: commit_statements_def submitted_def split: option.splits if_splits)
  then show ?thesis using bind_locations_wf True assms(2) unfolding bindExchangeCutoff_def tx_wf_def by blast
next
  case False
  then have "ss = (if tx_kind tx \<noteq> T_Device then tx_statements tx
                else tx_statements tx @ [\<lparr>st_action = ConsumeDevice (tx_device_digest tx) (tx_device_request tx),
                       st_guard = fst (tx_deviceGuard now tx), st_exact = True\<rparr>])"
    using assms(1) by (auto simp: commit_statements_def submitted_def split: option.splits if_splits)
  then show ?thesis using assms(2) by (simp add: tx_wf_def stmt_wf_def)
qed

text \<open>What the nodes commit: a transaction at its instants, a batch of statements that is not part of one, and a
  change of another component, which only deletes rows of codes and tokens.\<close>

datatype grant_event = E_Tx transaction millis millis | E_Batch "stmt list" | E_Other "grant_db \<Rightarrow> grant_db"

definition applied :: "grant_db mutation \<Rightarrow> grant_db \<Rightarrow> grant_db" where
  "applied m db = (case m db of None \<Rightarrow> db | Some (db', _) \<Rightarrow> db')"

definition batch :: "millis \<Rightarrow> stmt list \<Rightarrow> grant_db mutation" where
  "batch cutoff ss = run_tx (map (exec_stmt cutoff) ss)"

fun apply_event :: "grant_event \<Rightarrow> grant_db \<Rightarrow> grant_db" where
  "apply_event (E_Tx tx now cutoff) db =
     (case commit_statements now cutoff tx of Inl _ \<Rightarrow> db | Inr ss \<Rightarrow> applied (batch cutoff ss) db)"
| "apply_event (E_Batch ss) db = applied (batch 0 ss) db"
| "apply_event (E_Other f) db = f db"

definition shrinks :: "'r list \<Rightarrow> 'r list \<Rightarrow> bool" where
  "shrinks t t' \<longleftrightarrow> (\<exists>p. t' = sql_delete p t)"

definition outside :: "(grant_db \<Rightarrow> grant_db) \<Rightarrow> bool" where
  "outside f \<longleftrightarrow>
     (\<forall>db. shrinks (codes db) (codes (f db)) \<and> shrinks (refreshes db) (refreshes (f db)) \<and>
       shrinks (accesses db) (accesses (f db)) \<and> shrinks (token_requests db) (token_requests (f db)))"

fun unspending :: "action \<Rightarrow> bool" where
  "unspending (UseCode _ _) \<longleftrightarrow> False"
| "unspending (RotateRefresh _ _ _) \<longleftrightarrow> False"
| "unspending (InsertCode _) \<longleftrightarrow> False"
| "unspending (InsertRefresh _) \<longleftrightarrow> False"
| "unspending _ \<longleftrightarrow> True"

primrec event_wf :: "grant_event \<Rightarrow> bool" where
  "event_wf (E_Tx tx now cutoff) \<longleftrightarrow> tx_wf tx"
| "event_wf (E_Batch ss) \<longleftrightarrow> list_all (\<lambda>s. unspending (st_action s)) ss"
| "event_wf (E_Other f) \<longleftrightarrow> outside f"

lemma shrinks_subset: "shrinks t t' \<Longrightarrow> set t' \<subseteq> set t"
  by (auto simp: shrinks_def set_sql_delete)

lemma applied_batch:
  assumes I: "I db" and step: "\<And>s db db' n. s \<in> set ss \<Longrightarrow> I db \<Longrightarrow> exec_stmt cutoff s db = Some (db', n) \<Longrightarrow> I db'"
  shows "I (applied (batch cutoff ss) db)"
proof (cases "batch cutoff ss db")
  case None
  then show ?thesis using I by (simp add: applied_def)
next
  case (Some r)
  obtain db' n where r: "r = (db', n)" by (cases r)
  have "I db'"
  proof (rule run_tx_invariant [where I = I, OF Some [unfolded batch_def r]])
    fix m db db' n assume "m \<in> set (map (exec_stmt cutoff) ss)" "I db" "m db = Some (db', n)"
    then show "I db'" using step by auto
  qed (rule I)
  then show ?thesis using Some r by (simp add: applied_def)
qed

text \<open>An invariant of the statements of a well-formed event is an invariant of the event.\<close>

lemma event_invariant:
  assumes w: "event_wf e" and I: "I db"
    and tx: "\<And>tx now cutoff s db db' n. e = E_Tx tx now cutoff \<Longrightarrow> stmt_wf tx s \<Longrightarrow> I db \<Longrightarrow> exec_stmt cutoff s db = Some (db', n) \<Longrightarrow> I db'"
    and bt: "\<And>ss s db db' n. e = E_Batch ss \<Longrightarrow> s \<in> set ss \<Longrightarrow> unspending (st_action s) \<Longrightarrow> I db \<Longrightarrow> exec_stmt 0 s db = Some (db', n) \<Longrightarrow> I db'"
    and other: "\<And>f. e = E_Other f \<Longrightarrow> outside f \<Longrightarrow> I (f db)"
  shows "I (apply_event e db)"
proof (cases e)
  case (E_Tx t now cutoff)
  show ?thesis
  proof (cases "commit_statements now cutoff t")
    case (Inl x)
    then show ?thesis using I E_Tx by simp
  next
    case (Inr ss)
    have "list_all (stmt_wf t) ss" using commit_statements_wf [OF Inr] w E_Tx by simp
    then have "stmt_wf t s" if "s \<in> set ss" for s using that by (simp add: list_all_iff)
    then have "I (applied (batch cutoff ss) db)" using tx [OF E_Tx] by (intro applied_batch [of I, OF I]) blast
    then show ?thesis using E_Tx Inr by simp
  qed
next
  case (E_Batch ss)
  have "unspending (st_action s)" if "s \<in> set ss" for s using w E_Batch that by (simp add: list_all_iff)
  then have "I (applied (batch 0 ss) db)" using bt [OF E_Batch] by (intro applied_batch [of I, OF I]) blast
  then show ?thesis using E_Batch by simp
next
  case (E_Other f)
  then show ?thesis using other w by simp
qed

lemma unspending_starts_open: "unspending x \<Longrightarrow> starts_open x"
  by (cases x) simp_all

lemma grant_event_inv: "event_wf e \<Longrightarrow> grant_inv db \<Longrightarrow> grant_inv (apply_event e db)"
proof (erule event_invariant)
  fix f assume i: "grant_inv db" and o: "outside f"
  then obtain p q where "codes (f db) = sql_delete p (codes db)" "refreshes (f db) = sql_delete q (refreshes db)"
    unfolding outside_def shrinks_def by metis
  then show "grant_inv (f db)" using i by (auto simp: grant_inv_def set_sql_delete)
qed (auto intro: exec_stmt_inv action_wf_starts_open unspending_starts_open simp: stmt_wf_def)


section \<open>Codes and refresh tokens are spent once\<close>

definition code_closed :: "string \<Rightarrow> string \<Rightarrow> grant_db \<Rightarrow> bool" where
  "code_closed sig a db \<longleftrightarrow> (\<forall>c \<in> set (codes db). co_sig c = sig \<longrightarrow> co_invalidated c \<and> co_attempt c \<noteq> Some a)"

definition refresh_closed :: "string \<Rightarrow> string \<Rightarrow> grant_db \<Rightarrow> bool" where
  "refresh_closed sig a db \<longleftrightarrow> (\<forall>r \<in> set (refreshes db). re_sig r = sig \<longrightarrow> \<not> re_active r \<and> re_attempt r \<noteq> Some a)"

text \<open>A row of a token table that the step has added.\<close>

definition tokens_added :: "grant_db \<Rightarrow> grant_db \<Rightarrow> bool" where
  "tokens_added db db' \<longleftrightarrow>
     \<not> (set (accesses db') \<subseteq> set (accesses db) \<and> set (token_requests db') \<subseteq> set (token_requests db) \<and>
        re_sig ` set (refreshes db') \<subseteq> re_sig ` set (refreshes db))"

text \<open>A commit of the attempt that adds tokens for a grant of the kind.\<close>

fun spends_grant :: "tx_kind \<Rightarrow> string \<Rightarrow> string \<Rightarrow> grant_event \<Rightarrow> grant_db \<Rightarrow> bool" where
  "spends_grant k sig a (E_Tx tx now cutoff) db \<longleftrightarrow>
     tx_kind tx = k \<and> tx_key tx = sig \<and> tx_attempt tx = a \<and> tokens_added db (apply_event (E_Tx tx now cutoff) db)"
| "spends_grant k sig a _ db \<longleftrightarrow> False"

fun issues_code :: "string \<Rightarrow> grant_event \<Rightarrow> bool" where
  "issues_code sig (E_Tx tx now cutoff) \<longleftrightarrow> tx_kind tx = T_Issue \<and> tx_key tx = sig"
| "issues_code sig _ \<longleftrightarrow> False"

fun issues_refresh :: "string \<Rightarrow> grant_event \<Rightarrow> bool" where
  "issues_refresh sig (E_Tx tx now cutoff) \<longleftrightarrow> (\<exists>s \<in> set (tx_statements tx). \<exists>r. st_action s = InsertRefresh r \<and> re_sig r = sig)"
| "issues_refresh sig _ \<longleftrightarrow> False"

lemma code_closed_exec:
  assumes e: "exec_stmt cutoff s db = Some (db', n)" and c: "code_closed sig a db"
    and i: "\<And>c. st_action s = InsertCode c \<Longrightarrow> co_sig c \<noteq> sig"
  shows "code_closed sig a db'"
  using e
proof (cases rule: exec_stmt_cases)
  case (run m)
  have "co_invalidated c' \<and> co_attempt c' \<noteq> Some a" if "c' \<in> set (codes db')" "co_sig c' = sig" for c'
    using act_code_row [OF run(2) that(1)] c i that(2) by (fastforce simp: code_closed_def code_after_def)
  then show ?thesis by (simp add: code_closed_def)
qed (use c in simp)

lemma refresh_closed_exec:
  assumes e: "exec_stmt cutoff s db = Some (db', n)" and c: "refresh_closed sig a db"
    and i: "\<And>r. st_action s = InsertRefresh r \<Longrightarrow> re_sig r \<noteq> sig"
  shows "refresh_closed sig a db'"
  using e
proof (cases rule: exec_stmt_cases)
  case (run m)
  have "\<not> re_active r' \<and> re_attempt r' \<noteq> Some a" if "r' \<in> set (refreshes db')" "re_sig r' = sig" for r'
    using act_refresh_row [OF run(2) that(1)] c i that(2) by (fastforce simp: refresh_closed_def refresh_after_def)
  then show ?thesis by (simp add: refresh_closed_def)
qed (use c in simp)

text \<open>The condition that ties the tokens to the grant, read from the table.\<close>

lemma code_used_iff: "holds cutoff db (A_CodeUsed sig a) \<longleftrightarrow> (\<exists>c \<in> set (codes db). co_sig c = sig \<and> co_attempt c = Some a)"
  by (simp add: sql_exists_iff)

lemma rotated_iff: "holds cutoff db (A_Rotated sig a) \<longleftrightarrow> (\<exists>r \<in> set (refreshes db). re_sig r = sig \<and> re_attempt r = Some a)"
  by (simp add: sql_exists_iff)

lemma tied_holds:
  assumes "tied k key a g" "list_all (holds cutoff db) g"
  shows "k = T_Code \<Longrightarrow> holds cutoff db (A_CodeUsed key a)" "k = T_Refresh \<Longrightarrow> holds cutoff db (A_Rotated key a)"
  using assms by (auto simp: tied_def list_all_iff simp del: holds.simps)

lemma adds_tokens_insert:
  assumes a: "act x db = Some (db', n)" and t: "tokens_added db db'"
  shows "(\<exists>r. x = InsertAccess r) \<or> (\<exists>r. x = InsertRequest r) \<or> (\<exists>r. x = InsertRefresh r)"
proof -
  have "\<exists>r. x = InsertRefresh r" if "r' \<in> set (refreshes db')" "re_sig r' \<notin> re_sig ` set (refreshes db)" for r'
    using act_refresh_row [OF a that(1)] that(2) by (auto simp: refresh_after_def image_iff)
  then show ?thesis using t act_accesses [OF a] act_requests [OF a] unfolding tokens_added_def by blast
qed

lemma no_tokens_trans: "\<not> tokens_added a b \<Longrightarrow> \<not> tokens_added b c \<Longrightarrow> \<not> tokens_added a c"
  unfolding tokens_added_def by blast

text \<open>A statement adds tokens only while the condition that ties it to the grant holds.\<close>

lemma exec_adds_tokens:
  assumes e: "exec_stmt cutoff s db = Some (db', n)" and w: "stmt_wf tx s" and t: "tokens_added db db'"
  shows "tx_kind tx = T_Code \<Longrightarrow> holds cutoff db (A_CodeUsed (tx_key tx) (tx_attempt tx))"
    and "tx_kind tx = T_Refresh \<Longrightarrow> holds cutoff db (A_Rotated (tx_key tx) (tx_attempt tx))"
proof -
  obtain m where g: "list_all (holds cutoff db) (st_guard s)" and a: "act (st_action s) db = Some (db', m)"
    using e t by (cases rule: exec_stmt_cases) (auto simp: tokens_added_def)
  have "tied (tx_kind tx) (tx_key tx) (tx_attempt tx) (st_guard s)"
    using adds_tokens_insert [OF a t] w by (auto simp: stmt_wf_def)
  then show "tx_kind tx = T_Code \<Longrightarrow> holds cutoff db (A_CodeUsed (tx_key tx) (tx_attempt tx))"
    "tx_kind tx = T_Refresh \<Longrightarrow> holds cutoff db (A_Rotated (tx_key tx) (tx_attempt tx))"
    using tied_holds g by blast+
qed


definition code_spent :: "string \<Rightarrow> string \<Rightarrow> grant_db \<Rightarrow> bool" where
  "code_spent sig a db \<longleftrightarrow> (\<forall>c \<in> set (codes db). co_sig c = sig \<longrightarrow> co_invalidated c \<and> co_attempt c = Some a)"

definition refresh_spent :: "string \<Rightarrow> string \<Rightarrow> grant_db \<Rightarrow> bool" where
  "refresh_spent sig a db \<longleftrightarrow> (\<forall>r \<in> set (refreshes db). re_sig r = sig \<longrightarrow> \<not> re_active r \<and> re_attempt r = Some a)"

lemma code_spent_exec:
  assumes e: "exec_stmt cutoff s db = Some (db', n)" and c: "code_spent sig a db"
    and i: "\<And>c. st_action s = InsertCode c \<Longrightarrow> co_sig c \<noteq> sig"
  shows "code_spent sig a db'"
  using e
proof (cases rule: exec_stmt_cases)
  case (run m)
  have "co_invalidated c' \<and> co_attempt c' = Some a" if "c' \<in> set (codes db')" "co_sig c' = sig" for c'
    using act_code_row [OF run(2) that(1)] c i that(2) by (fastforce simp: code_spent_def code_after_def)
  then show ?thesis by (simp add: code_spent_def)
qed (use c in simp)

lemma refresh_spent_exec:
  assumes e: "exec_stmt cutoff s db = Some (db', n)" and c: "refresh_spent sig a db"
    and i: "\<And>r. st_action s = InsertRefresh r \<Longrightarrow> re_sig r \<noteq> sig"
  shows "refresh_spent sig a db'"
  using e
proof (cases rule: exec_stmt_cases)
  case (run m)
  have "\<not> re_active r' \<and> re_attempt r' = Some a" if "r' \<in> set (refreshes db')" "re_sig r' = sig" for r'
    using act_refresh_row [OF run(2) that(1)] c i that(2) by (fastforce simp: refresh_spent_def refresh_after_def)
  then show ?thesis by (simp add: refresh_spent_def)
qed (use c in simp)

lemma used_spent: "grant_inv db \<Longrightarrow> holds cutoff db (A_CodeUsed sig a) \<Longrightarrow> code_spent sig a db"
  unfolding code_used_iff code_spent_def grant_inv_def using sql_unique_eq [of co_sig "codes db"] by (metis option.distinct(1))

lemma rotated_spent: "grant_inv db \<Longrightarrow> holds cutoff db (A_Rotated sig a) \<Longrightarrow> refresh_spent sig a db"
  unfolding rotated_iff refresh_spent_def grant_inv_def using sql_unique_eq [of re_sig "refreshes db"] by (metis option.distinct(1))

text \<open>A new refresh token has not the signature of the one it replaces.\<close>

primrec fresh_refresh :: "grant_event \<Rightarrow> bool" where
  "fresh_refresh (E_Tx tx now cutoff) \<longleftrightarrow>
     (\<forall>s \<in> set (tx_statements tx). \<forall>r. st_action s = InsertRefresh r \<longrightarrow> re_sig r \<noteq> tx_key tx)"
| "fresh_refresh (E_Batch ss) \<longleftrightarrow> True"
| "fresh_refresh (E_Other f) \<longleftrightarrow> True"

text \<open>The actions of a commit are those of the transaction, and the consumption of a device grant.\<close>

lemma bind_locations_actions: "bind_locations cutoff ls ss = Some ss' \<Longrightarrow> map st_action ss' = map st_action ss"
proof (induction ls arbitrary: ss)
  case (Cons l ls)
  then obtain ss1 where s: "bind_location cutoff l ss = Some ss1" and r: "bind_locations cutoff ls ss1 = Some ss'"
    by (auto split: option.splits)
  from s obtain i j where "ss1 = ss[i := (ss ! i)\<lparr>st_guard := j\<rparr>]" "i < length ss"
    by (auto simp: bind_location_def Let_def split: prod.splits if_splits)
  then have "map st_action ss1 = map st_action ss"
    by (simp add: map_update) (metis list_update_id nth_map)
  then show ?case using Cons.IH [OF r] by simp
qed simp

lemma commit_statements_actions:
  assumes "commit_statements now cutoff tx = Inr ss" "s \<in> set ss"
  shows "st_action s \<in> st_action ` set (tx_statements tx) \<or> (\<exists>d i. st_action s = ConsumeDevice d i)"
proof (cases "tx_kind tx = T_Exchange")
  case True
  then have "bindExchangeCutoff cutoff tx = Some ss"
    using assms(1) by (auto simp: commit_statements_def submitted_def split: option.splits if_splits)
  then have "map st_action ss = map st_action (tx_statements tx)" unfolding bindExchangeCutoff_def by (rule bind_locations_actions)
  then have "set (map st_action ss) = set (map st_action (tx_statements tx))" by simp
  then show ?thesis using assms(2) by auto
next
  case False
  then show ?thesis using assms by (auto simp: commit_statements_def submitted_def split: option.splits if_splits)
qed

text \<open>The invariants of a commit may use which statements it has.\<close>

lemma event_tx_invariant:
  assumes w: "tx_wf tx" and I: "I db"
    and step: "\<And>s db db' n. stmt_wf tx s \<Longrightarrow> st_action s \<in> st_action ` set (tx_statements tx) \<or> (\<exists>d i. st_action s = ConsumeDevice d i) \<Longrightarrow>
       I db \<Longrightarrow> exec_stmt cutoff s db = Some (db', n) \<Longrightarrow> I db'"
  shows "I (apply_event (E_Tx tx now cutoff) db)"
proof (cases "commit_statements now cutoff tx")
  case (Inr ss)
  have "stmt_wf tx s" if "s \<in> set ss" for s using commit_statements_wf [OF Inr w] that by (simp add: list_all_iff)
  then have "I (applied (batch cutoff ss) db)"
    using step commit_statements_actions [OF Inr] by (intro applied_batch [of I, OF I]) blast
  then show ?thesis using Inr by simp
qed (use I in simp)

lemma code_spends_closes:
  assumes w: "tx_wf tx" "tx_kind tx = T_Code" and i: "grant_inv db"
    and t: "tokens_added db (apply_event (E_Tx tx now cutoff) db)"
  shows "code_spent (tx_key tx) (tx_attempt tx) (apply_event (E_Tx tx now cutoff) db)"
proof -
  let ?I = "\<lambda>d. grant_inv d \<and> (tokens_added db d \<longrightarrow> code_spent (tx_key tx) (tx_attempt tx) d)"
  have "?I (apply_event (E_Tx tx now cutoff) db)"
  proof (rule event_tx_invariant [OF w(1)])
    fix s d d' n assume s: "stmt_wf tx s" and I: "?I d" and e: "exec_stmt cutoff s d = Some (d', n)"
    have inv: "grant_inv d'" using exec_stmt_inv [OF e] I s action_wf_starts_open by (auto simp: stmt_wf_def)
    have no: "co_sig c \<noteq> tx_key tx" if "st_action s = InsertCode c" for c using s that w(2) by (simp add: stmt_wf_def)
    have "code_spent (tx_key tx) (tx_attempt tx) d'" if t: "tokens_added db d'"
    proof -
      have "code_spent (tx_key tx) (tx_attempt tx) d"
      proof (cases "tokens_added db d")
        case False
        then have "tokens_added d d'" using t no_tokens_trans by blast
        then show ?thesis using exec_adds_tokens(1) [OF e s] w(2) used_spent I by blast
      qed (use I in blast)
      then show ?thesis by (rule code_spent_exec [OF e _ no])
    qed
    with inv show "?I d'" by blast
  qed (use i in \<open>simp add: tokens_added_def\<close>)
  then show ?thesis using t by blast
qed

lemma refresh_spends_closes:
  assumes w: "tx_wf tx" "tx_kind tx = T_Refresh" and f: "fresh_refresh (E_Tx tx now cutoff)" and i: "grant_inv db"
    and t: "tokens_added db (apply_event (E_Tx tx now cutoff) db)"
  shows "refresh_spent (tx_key tx) (tx_attempt tx) (apply_event (E_Tx tx now cutoff) db)"
proof -
  let ?I = "\<lambda>d. grant_inv d \<and> (tokens_added db d \<longrightarrow> refresh_spent (tx_key tx) (tx_attempt tx) d)"
  have "?I (apply_event (E_Tx tx now cutoff) db)"
  proof (rule event_tx_invariant [OF w(1)])
    fix s d d' n assume s: "stmt_wf tx s" and I: "?I d" and e: "exec_stmt cutoff s d = Some (d', n)"
      and m: "st_action s \<in> st_action ` set (tx_statements tx) \<or> (\<exists>d i. st_action s = ConsumeDevice d i)"
    have inv: "grant_inv d'" using exec_stmt_inv [OF e] I s action_wf_starts_open by (auto simp: stmt_wf_def)
    have no: "re_sig r \<noteq> tx_key tx" if "st_action s = InsertRefresh r" for r using m f that by auto
    have "refresh_spent (tx_key tx) (tx_attempt tx) d'" if t: "tokens_added db d'"
    proof -
      have "refresh_spent (tx_key tx) (tx_attempt tx) d"
      proof (cases "tokens_added db d")
        case False
        then have "tokens_added d d'" using t no_tokens_trans by blast
        then show ?thesis using exec_adds_tokens(2) [OF e s] w(2) rotated_spent I by blast
      qed (use I in blast)
      then show ?thesis by (rule refresh_spent_exec [OF e _ no])
    qed
    with inv show "?I d'" by blast
  qed (use i in \<open>simp add: tokens_added_def\<close>)
  then show ?thesis using t by blast
qed


lemma outside_closed:
  assumes "outside f"
  shows "code_closed sig a db \<Longrightarrow> code_closed sig a (f db)" "refresh_closed sig a db \<Longrightarrow> refresh_closed sig a (f db)"
proof -
  have "set (codes (f db)) \<subseteq> set (codes db)" "set (refreshes (f db)) \<subseteq> set (refreshes db)"
    using assms shrinks_subset by (auto simp: outside_def)
  then show "code_closed sig a db \<Longrightarrow> code_closed sig a (f db)" "refresh_closed sig a db \<Longrightarrow> refresh_closed sig a (f db)"
    by (auto simp: code_closed_def refresh_closed_def)
qed

lemma code_closed_blocks:
  assumes w: "tx_wf tx" "tx_kind tx = T_Code" and c: "code_closed (tx_key tx) (tx_attempt tx) db"
  shows "\<not> tokens_added db (apply_event (E_Tx tx now cutoff) db)"
proof -
  let ?I = "\<lambda>d. code_closed (tx_key tx) (tx_attempt tx) d \<and> \<not> tokens_added db d"
  have "?I (apply_event (E_Tx tx now cutoff) db)"
  proof (rule event_tx_invariant [OF w(1)])
    fix s d d' n assume s: "stmt_wf tx s" and I: "?I d" and e: "exec_stmt cutoff s d = Some (d', n)"
    have no: "co_sig c \<noteq> tx_key tx" if "st_action s = InsertCode c" for c using s that w(2) by (simp add: stmt_wf_def)
    have "\<not> holds cutoff d (A_CodeUsed (tx_key tx) (tx_attempt tx))" using I unfolding code_used_iff code_closed_def by blast
    then have "\<not> tokens_added d d'" using exec_adds_tokens(1) [OF e s] w(2) by blast
    then show "?I d'" using code_closed_exec [OF e _ no] I no_tokens_trans by blast
  qed (use c in \<open>simp add: tokens_added_def\<close>)
  then show ?thesis by blast
qed

lemma refresh_closed_blocks:
  assumes w: "tx_wf tx" "tx_kind tx = T_Refresh" and f: "fresh_refresh (E_Tx tx now cutoff)"
    and c: "refresh_closed (tx_key tx) (tx_attempt tx) db"
  shows "\<not> tokens_added db (apply_event (E_Tx tx now cutoff) db)"
proof -
  let ?I = "\<lambda>d. refresh_closed (tx_key tx) (tx_attempt tx) d \<and> \<not> tokens_added db d"
  have "?I (apply_event (E_Tx tx now cutoff) db)"
  proof (rule event_tx_invariant [OF w(1)])
    fix s d d' n assume s: "stmt_wf tx s" and I: "?I d" and e: "exec_stmt cutoff s d = Some (d', n)"
      and m: "st_action s \<in> st_action ` set (tx_statements tx) \<or> (\<exists>d i. st_action s = ConsumeDevice d i)"
    have no: "re_sig r \<noteq> tx_key tx" if "st_action s = InsertRefresh r" for r using m f that by auto
    have "\<not> holds cutoff d (A_Rotated (tx_key tx) (tx_attempt tx))" using I unfolding rotated_iff refresh_closed_def by blast
    then have "\<not> tokens_added d d'" using exec_adds_tokens(2) [OF e s] w(2) by blast
    then show "?I d'" using refresh_closed_exec [OF e _ no] I no_tokens_trans by blast
  qed (use c in \<open>simp add: tokens_added_def\<close>)
  then show ?thesis by blast
qed

interpretation code: spending apply_event grant_inv event_wf issues_code code_closed "spends_grant T_Code"
proof
  fix e db sig a b
  show "event_wf e \<Longrightarrow> grant_inv db \<Longrightarrow> grant_inv (apply_event e db)" by (rule grant_event_inv)
  show "code_closed sig a (apply_event e db)" if w: "event_wf e" and n: "\<not> issues_code sig e" and c: "code_closed sig a db"
  proof (rule event_invariant [where I = "code_closed sig a", OF w c])
    fix tx now cutoff s d d' m
    assume "e = E_Tx tx now cutoff" "stmt_wf tx s" and I: "code_closed sig a d" and x: "exec_stmt cutoff s d = Some (d', m)"
    then show "code_closed sig a d'" using n by (intro code_closed_exec [OF x I]) (auto simp: stmt_wf_def)
  next
    fix ss s d d' m assume "unspending (st_action s)" and I: "code_closed sig a d" and x: "exec_stmt 0 s d = Some (d', m)"
    then show "code_closed sig a d'" by (intro code_closed_exec [OF x I]) auto
  qed (use c outside_closed in blast)
  show "\<not> spends_grant T_Code sig a e db" if "event_wf e" "code_closed sig a db"
    using that code_closed_blocks by (cases e) auto
  show "code_closed sig b (apply_event e db)" if w: "event_wf e" "grant_inv db" and s: "spends_grant T_Code sig a e db" and n: "a \<noteq> b"
  proof (cases e)
    case (E_Tx tx now cutoff)
    then have "code_spent sig a (apply_event e db)" using code_spends_closes w s by auto
    then show ?thesis using n by (auto simp: code_closed_def code_spent_def)
  qed (use s in simp_all)
qed

interpretation refresh: spending apply_event grant_inv "\<lambda>e. event_wf e \<and> fresh_refresh e" issues_refresh refresh_closed "spends_grant T_Refresh"
proof
  fix e db sig a b
  show "event_wf e \<and> fresh_refresh e \<Longrightarrow> grant_inv db \<Longrightarrow> grant_inv (apply_event e db)" using grant_event_inv by blast
  show "refresh_closed sig a (apply_event e db)"
    if w: "event_wf e \<and> fresh_refresh e" and n: "\<not> issues_refresh sig e" and c: "refresh_closed sig a db"
  proof (cases e)
    case (E_Tx tx now cutoff)
    have t: "tx_wf tx" using w E_Tx by simp
    show ?thesis unfolding E_Tx
    proof (rule event_tx_invariant [where I = "refresh_closed sig a", OF t c])
      fix s d d' m assume I: "refresh_closed sig a d" and x: "exec_stmt cutoff s d = Some (d', m)"
        and "st_action s \<in> st_action ` set (tx_statements tx) \<or> (\<exists>d i. st_action s = ConsumeDevice d i)"
      then show "refresh_closed sig a d'" using n E_Tx by (intro refresh_closed_exec [OF x I]) (auto, metis)
    qed
  next
    case (E_Batch ss)
    have "refresh_closed sig a (applied (batch 0 ss) db)"
    proof (rule applied_batch [where I = "refresh_closed sig a", OF c])
      fix s d d' m assume "s \<in> set ss" and I: "refresh_closed sig a d" and x: "exec_stmt 0 s d = Some (d', m)"
      then have "unspending (st_action s)" using w E_Batch by (simp add: list_all_iff)
      then show "refresh_closed sig a d'" by (intro refresh_closed_exec [OF x I]) auto
    qed
    then show ?thesis using E_Batch by simp
  next
    case (E_Other f)
    then show ?thesis using w c outside_closed by simp
  qed
  show "\<not> spends_grant T_Refresh sig a e db" if "event_wf e \<and> fresh_refresh e" "refresh_closed sig a db"
    using that refresh_closed_blocks by (cases e) auto
  show "refresh_closed sig b (apply_event e db)"
    if w: "event_wf e \<and> fresh_refresh e" "grant_inv db" and s: "spends_grant T_Refresh sig a e db" and n: "a \<noteq> b"
  proof (cases e)
    case (E_Tx tx now cutoff)
    then have "refresh_spent sig a (apply_event e db)" using refresh_spends_closes w s by auto
    then show ?thesis using n by (auto simp: refresh_closed_def refresh_spent_def)
  qed (use s in simp_all)
qed


end
