(* ===== verification/GrantLogout.thy ===== *)
theory GrantLogout
  imports GrantRows
begin

text \<open>
  Revocation is final. A class of artefacts (those of a browser session, or those of one grant) is dead when no code,
  refresh token or access token of it can be used. The locale \<open>revocation\<close> shows once that a dead class stays dead
  under every committed event in which new tokens carry what the grant's row carries; it is interpreted for the
  artefacts of a browser session and for the family of a grant.
\<close>

section \<open>Classes of artefacts\<close>

text \<open>Which rows belong to the class, and which codes may be issued at all.\<close>

record artefacts =
  af_code :: "code_row \<Rightarrow> bool"
  af_refresh :: "refresh_row \<Rightarrow> bool"
  af_request :: "token_request \<Rightarrow> bool"
  af_access :: "access_row \<Rightarrow> bool"
  af_issuable :: "code_row \<Rightarrow> bool"

definition dead :: "artefacts \<Rightarrow> grant_db \<Rightarrow> bool" where
  "dead Q db \<longleftrightarrow>
     (\<forall>c \<in> set (codes db). af_code Q c \<longrightarrow> co_invalidated c) \<and> (\<forall>r \<in> set (refreshes db). af_refresh Q r \<longrightarrow> \<not> re_active r) \<and>
     (\<forall>t \<in> set (token_requests db). \<not> af_request Q t) \<and> (\<forall>a \<in> set (accesses db). \<not> af_access Q a)"

fun writes_class :: "artefacts \<Rightarrow> action \<Rightarrow> bool" where
  "writes_class Q (InsertAccess a) \<longleftrightarrow> af_access Q a"
| "writes_class Q (InsertRequest t) \<longleftrightarrow> af_request Q t"
| "writes_class Q (InsertRefresh r) \<longleftrightarrow> af_refresh Q r"
| "writes_class Q _ \<longleftrightarrow> False"

text \<open>The grant that a transaction spends belongs to the class, and its attempt is a new one.\<close>

definition grant_in_class :: "artefacts \<Rightarrow> transaction \<Rightarrow> grant_db \<Rightarrow> bool" where
  "grant_in_class Q tx db \<longleftrightarrow>
     (tx_kind tx = T_Code \<and> (\<forall>c \<in> set (codes db). co_sig c = tx_key tx \<longrightarrow> af_code Q c \<and> co_attempt c \<noteq> Some (tx_attempt tx))) \<or>
     (tx_kind tx = T_Refresh \<and>
        (\<forall>r \<in> set (refreshes db). re_sig r = tx_key tx \<longrightarrow> af_refresh Q r \<and> re_attempt r \<noteq> Some (tx_attempt tx)))"

text \<open>The law of the events, as the protocol library keeps it: a token of the class is only written for a grant of the
  class, and other components do not open what the revocation has shut.\<close>

primrec event_law :: "artefacts \<Rightarrow> (grant_db \<Rightarrow> bool) \<Rightarrow> grant_event \<Rightarrow> grant_db \<Rightarrow> bool" where
  "event_law Q shut (E_Tx tx now cutoff) db \<longleftrightarrow>
     (\<forall>s \<in> set (tx_statements tx).
        (\<forall>c. st_action s = InsertCode c \<longrightarrow> af_issuable Q c) \<and> (writes_class Q (st_action s) \<longrightarrow> grant_in_class Q tx db))"
| "event_law Q shut (E_Batch ss) db \<longleftrightarrow> (\<forall>s \<in> set ss. \<not> writes_class Q (st_action s))"
| "event_law Q shut (E_Other f) db \<longleftrightarrow> shut (f db)"

inductive lawful_step :: "artefacts \<Rightarrow> (grant_db \<Rightarrow> bool) \<Rightarrow> grant_db \<Rightarrow> grant_db \<Rightarrow> bool" for Q shut where
  event: "event_wf e \<Longrightarrow> event_law Q shut e db \<Longrightarrow> lawful_step Q shut db (apply_event e db)"

inductive_cases lawful_stepE: "lawful_step Q shut db db'"

locale revocation =
  fixes Q :: artefacts and shut :: "grant_db \<Rightarrow> bool"
  assumes code_stable: "af_code Q (c\<lparr>co_invalidated := x, co_attempt := y\<rparr>) = af_code Q c"
    and refresh_stable: "af_refresh Q (r\<lparr>re_active := x, re_attempt := z\<rparr>) = af_refresh Q r"
    and shut_act: "act x' db = Some (db', n) \<Longrightarrow> shut db \<Longrightarrow> shut db'"
    and issue_blocked: "shut db \<Longrightarrow> af_code Q c \<Longrightarrow> af_issuable Q c \<Longrightarrow> session_fenced (co_request c) g \<Longrightarrow>
      \<not> list_all (holds cutoff db) g"
begin

lemma code_after_class: "code_after a c c' \<Longrightarrow> af_code Q c' = af_code Q c"
  using code_stable [where c = c and x = True and y = "co_attempt c"] code_stable [where c = c and x = True] by (auto simp: code_after_def)

lemma refresh_after_class: "refresh_after a r r' \<Longrightarrow> af_refresh Q r' = af_refresh Q r"
  using refresh_stable [where r = r and x = False and z = "re_attempt r"] refresh_stable [where r = r and x = False] by (auto simp: refresh_after_def)

lemma dead_act:
  assumes a: "act x db = Some (db', n)" and d: "dead Q db" and w: "\<not> writes_class Q x"
    and i: "\<And>c. x = InsertCode c \<Longrightarrow> \<not> af_code Q c"
  shows "dead Q db'"
proof -
  have "co_invalidated c'" if "c' \<in> set (codes db')" "af_code Q c'" for c'
    using act_code_row [OF a that(1)]
  proof
    assume "\<exists>c \<in> set (codes db). code_after x c c'"
    then obtain c where c: "c \<in> set (codes db)" "code_after x c c'" by blast
    then have "co_invalidated c" using d that(2) code_after_class by (auto simp: dead_def)
    then show ?thesis using c(2) by (auto simp: code_after_def)
  qed (use i that(2) in blast)
  moreover have "\<not> re_active r'" if "r' \<in> set (refreshes db')" "af_refresh Q r'" for r'
    using act_refresh_row [OF a that(1)]
  proof
    assume "\<exists>r \<in> set (refreshes db). refresh_after x r r'"
    then obtain r where r: "r \<in> set (refreshes db)" "refresh_after x r r'" by blast
    then have "\<not> re_active r" using d that(2) refresh_after_class by (auto simp: dead_def)
    then show ?thesis using r(2) by (auto simp: refresh_after_def)
  qed (use w that(2) in simp)
  moreover have "\<not> af_request Q t" if "t \<in> set (token_requests db')" for t
    using act_requests [OF a that] w d by (auto simp: dead_def)
  moreover have "\<not> af_access Q t" if "t \<in> set (accesses db')" for t
    using act_accesses [OF a that] w d by (auto simp: dead_def)
  ultimately show ?thesis by (simp add: dead_def)
qed

text \<open>While the grant of a transaction is in the class and dead, nothing can use it and no token is written.\<close>

lemma class_unspent:
  assumes "grant_in_class Q tx db" "tied (tx_kind tx) (tx_key tx) (tx_attempt tx) g"
  shows "\<not> list_all (holds cutoff db) g"
  using assms tied_holds [OF assms(2), of cutoff db] unfolding grant_in_class_def code_used_iff rotated_iff by blast

lemma class_act:
  assumes a: "act x db = Some (db', n)" and g: "grant_in_class Q tx db" and d: "dead Q db"
    and w: "action_wf (tx_kind tx) (tx_key tx) (tx_attempt tx) gd x" and f: "list_all (holds cutoff db) gd"
  shows "grant_in_class Q tx db'"
proof -
  have no: "\<not> tied (tx_kind tx) (tx_key tx) (tx_attempt tx) gd" using class_unspent [OF g] f by blast
  have "af_code Q c' \<and> co_attempt c' \<noteq> Some (tx_attempt tx)"
    if k: "tx_kind tx = T_Code" and c': "c' \<in> set (codes db')" "co_sig c' = tx_key tx" for c'
    using act_code_row [OF a c'(1)]
  proof
    assume "\<exists>c \<in> set (codes db). code_after x c c'"
    then obtain c where c: "c \<in> set (codes db)" "code_after x c c'" by blast
    then have "co_sig c = tx_key tx" using c'(2) by (auto simp: code_after_def)
    then have q: "af_code Q c" "co_attempt c \<noteq> Some (tx_attempt tx)" using g k c(1) by (auto simp: grant_in_class_def)
    then have "co_invalidated c" using d c(1) by (auto simp: dead_def)
    then show ?thesis using q c(2) code_after_class [OF c(2)] by (auto simp: code_after_def)
  qed (use w k in simp)
  moreover have "af_refresh Q r' \<and> re_attempt r' \<noteq> Some (tx_attempt tx)"
    if k: "tx_kind tx = T_Refresh" and r': "r' \<in> set (refreshes db')" "re_sig r' = tx_key tx" for r'
    using act_refresh_row [OF a r'(1)]
  proof
    assume "\<exists>r \<in> set (refreshes db). refresh_after x r r'"
    then obtain r where r: "r \<in> set (refreshes db)" "refresh_after x r r'" by blast
    then have "re_sig r = tx_key tx" using r'(2) by (auto simp: refresh_after_def)
    then have q: "af_refresh Q r" "re_attempt r \<noteq> Some (tx_attempt tx)" using g k r(1) by (auto simp: grant_in_class_def)
    then have "\<not> re_active r" using d r(1) by (auto simp: dead_def)
    then show ?thesis using q r(2) refresh_after_class [OF r(2)] by (auto simp: refresh_after_def)
  qed (use w no in simp)
  ultimately show ?thesis using g unfolding grant_in_class_def by blast
qed

lemma dead_step:
  assumes s: "lawful_step Q shut db db'" and d: "dead Q db" "shut db"
  shows "dead Q db' \<and> shut db'"
proof -
  from s obtain e where 1: "db' = apply_event e db" "event_wf e" "event_law Q shut e db" by (auto elim: lawful_stepE)
  show ?thesis
  proof (cases e)
    case (E_Tx tx now cutoff)
    let ?uses = "\<exists>s \<in> set (tx_statements tx). writes_class Q (st_action s)"
    let ?I = "\<lambda>d. dead Q d \<and> shut d \<and> (?uses \<longrightarrow> grant_in_class Q tx d)"
    have t: "tx_wf tx" using 1(2) E_Tx by simp
    have "?I (apply_event (E_Tx tx now cutoff) db)"
    proof (rule event_tx_invariant [OF t])
      fix s d d' n assume w: "stmt_wf tx s" and I: "?I d" and e: "exec_stmt cutoff s d = Some (d', n)"
        and m: "st_action s \<in> st_action ` set (tx_statements tx) \<or> (\<exists>d i. st_action s = ConsumeDevice d i)"
      show "?I d'" using e
      proof (cases rule: exec_stmt_cases)
        case (run k)
        have aw: "action_wf (tx_kind tx) (tx_key tx) (tx_attempt tx) (st_guard s) (st_action s)" using w by (simp add: stmt_wf_def)
        have "\<not> writes_class Q (st_action s)"
        proof
          assume q: "writes_class Q (st_action s)"
          then have "?uses" using m by auto
          then have "grant_in_class Q tx d" using I by blast
          moreover have "tied (tx_kind tx) (tx_key tx) (tx_attempt tx) (st_guard s)" using q aw by (cases "st_action s") auto
          ultimately show False using class_unspent run(1) by blast
        qed
        moreover have "\<not> af_code Q c" if "st_action s = InsertCode c" for c
        proof
          assume "af_code Q c"
          moreover have "af_issuable Q c" using m that 1(3) E_Tx by auto
          moreover have "session_fenced (co_request c) (st_guard s)" using aw that by simp
          ultimately show False using issue_blocked I run(1) by blast
        qed
        ultimately show ?thesis using dead_act [OF run(2)] shut_act [OF run(2)] class_act [OF run(2) _ _ aw run(1)] I by blast
      qed (use I in simp)
    qed (use d 1(3) E_Tx in auto)
    then show ?thesis using 1(1) E_Tx by simp
  next
    case (E_Batch ss)
    have "dead Q (applied (batch 0 ss) db) \<and> shut (applied (batch 0 ss) db)"
    proof (rule applied_batch [where I = "\<lambda>d. dead Q d \<and> shut d"])
      fix s d d' n assume s: "s \<in> set ss" and I: "dead Q d \<and> shut d" and e: "exec_stmt 0 s d = Some (d', n)"
      have "unspending (st_action s)" using 1(2) E_Batch s by (simp add: list_all_iff)
      then have "\<not> writes_class Q (st_action s)" "\<And>c. st_action s \<noteq> InsertCode c" using 1(3) E_Batch s by auto
      note w = this
      show "dead Q d' \<and> shut d'" using e
      proof (cases rule: exec_stmt_cases)
        case (run k)
        then show ?thesis using dead_act [OF run(2) _ w(1)] shut_act [OF run(2)] w(2) I by blast
      qed (use I in simp)
    qed (use d in blast)
    then show ?thesis using 1(1) E_Batch by simp
  next
    case (E_Other f)
    have "set (codes (f db)) \<subseteq> set (codes db)" "set (refreshes (f db)) \<subseteq> set (refreshes db)"
      "set (accesses (f db)) \<subseteq> set (accesses db)" "set (token_requests (f db)) \<subseteq> set (token_requests db)"
      using 1(2) E_Other shrinks_subset by (auto simp: outside_def)
    then have "dead Q (f db)" using d(1) unfolding dead_def by blast
    then show ?thesis using 1(1,3) E_Other by simp
  qed
qed

lemma dead_run: "(lawful_step Q shut)\<^sup>*\<^sup>* db db' \<Longrightarrow> dead Q db \<Longrightarrow> shut db \<Longrightarrow> dead Q db' \<and> shut db'"
  by (induction rule: rtranclp_induct) (use dead_step in blast)+

end

section \<open>Browser sessions\<close>

definition sid_artefacts :: "string \<Rightarrow> artefacts" where
  "sid_artefacts sid =
     \<lparr>af_code = (\<lambda>c. json_sid (co_request c) = Some sid), af_refresh = (\<lambda>r. json_sid (re_request r) = Some sid),
      af_request = (\<lambda>t. json_sid (tr_request t) = Some sid), af_access = (\<lambda>_. False), af_issuable = (\<lambda>_. True)\<rparr>"

definition session_shut :: "string \<Rightarrow> grant_db \<Rightarrow> bool" where
  "session_shut sid db \<longleftrightarrow> (\<forall>b \<in> set (sessions db). bs_digest b = sid \<longrightarrow> bs_revoked b \<noteq> None)"

interpretation by_sid: revocation "sid_artefacts sid" "session_shut sid" for sid
proof
  fix db c g cutoff
  assume s: "session_shut sid db" and c: "af_code (sid_artefacts sid) c" and f: "session_fenced (co_request c) g"
  then obtain u now idle where a: "A_Session sid u now idle \<in> set g" by (auto simp: sid_artefacts_def session_fenced_def)
  have "\<not> holds cutoff db (A_Session sid u now idle)" using s by (auto simp: session_shut_def sql_exists_iff)
  then show "\<not> list_all (holds cutoff db) g" using a by (auto simp: list_all_iff simp del: holds.simps)
next
  fix x db db' n assume "act x db = Some (db', n)" "session_shut sid db"
  then show "session_shut sid db'" using act_sessions unfolding session_shut_def by blast
qed (simp_all add: sid_artefacts_def)

text \<open>The five statements that revoke the artefacts of a selection leave none of them usable.\<close>

lemma plain_exec: "exec_stmt cutoff (plain a) = act a"
  by (rule ext) (auto simp: exec_stmt_def Let_def split: option.split)

lemma run_actions_Cons:
  "run_actions (a # as) db =
     (case act a db of None \<Rightarrow> None | Some (db1, n) \<Rightarrow> (case run_actions as db1 of None \<Rightarrow> None | Some (db2, k) \<Rightarrow> Some (db2, n + k)))"
proof -
  have r: "run_actions bs = run_tx (map act bs)" for bs
    unfolding run_actions_def plain_exec ..
  show ?thesis unfolding r by simp
qed

lemma run_actions_Nil: "run_actions [] db = Some (db, 0)"
  by (simp add: run_actions_def)

lemma run_actions_append:
  assumes "run_actions (as @ bs) db = Some (db', n)"
  obtains db1 i j where "run_actions as db = Some (db1, i)" "run_actions bs db1 = Some (db', j)"
  using assms
proof (induction as arbitrary: db n thesis)
  case Nil
  then show ?case by (simp add: run_actions_Nil)
next
  case (Cons a as)
  from Cons.prems(2) obtain db1 i j where a: "act a db = Some (db1, i)" and r: "run_actions (as @ bs) db1 = Some (db', j)"
    by (auto simp: run_actions_Cons split: option.splits)
  obtain db2 k l where "run_actions as db1 = Some (db2, k)" "run_actions bs db2 = Some (db', l)" using Cons.IH [OF _ r] by blast
  then show ?case using Cons.prems(1) a by (simp add: run_actions_Cons)
qed

definition artefacts_gone :: "(request_record \<Rightarrow> bool) \<Rightarrow> grant_db \<Rightarrow> bool" where
  "artefacts_gone q db \<longleftrightarrow>
     (\<forall>c \<in> set (codes db). q (co_request c) \<longrightarrow> co_invalidated c) \<and> (\<forall>r \<in> set (refreshes db). q (re_request r) \<longrightarrow> \<not> re_active r) \<and>
     (\<forall>t \<in> set (token_requests db). \<not> q (tr_request t))"

lemma revoke_artefacts_gone:
  assumes "run_actions (revoke_artefacts w) db = Some (db', n)"
  shows "artefacts_gone (selects w) db' \<and> sessions db' = sessions db \<and> users db' = users db"
  using assms
  by (auto simp: revoke_artefacts_def run_actions_Cons run_actions_Nil Let_def artefacts_gone_def set_sql_update set_sql_delete)

lemma gone_act:
  assumes "act a db = Some (db', n)" "artefacts_gone q db" "\<And>c. a \<noteq> InsertCode c" "\<And>r. a \<noteq> InsertRefresh r" "\<And>t. a \<noteq> InsertRequest t"
  shows "artefacts_gone q db'"
proof -
  have "co_invalidated c'" if "c' \<in> set (codes db')" "q (co_request c')" for c'
    using act_code_row [OF assms(1) that(1)] assms(2,3) that(2) by (fastforce simp: artefacts_gone_def code_after_def)
  moreover have "\<not> re_active r'" if "r' \<in> set (refreshes db')" "q (re_request r')" for r'
    using act_refresh_row [OF assms(1) that(1)] assms(2,4) that(2) by (fastforce simp: artefacts_gone_def refresh_after_def)
  moreover have "\<not> q (tr_request t)" if "t \<in> set (token_requests db')" for t
    using act_requests [OF assms(1) that] assms(2,5) by (auto simp: artefacts_gone_def)
  ultimately show ?thesis by (simp add: artefacts_gone_def)
qed

lemma gone_actions:
  assumes "run_actions as db = Some (db', n)" "artefacts_gone q db" "list_all (\<lambda>a. unspending a \<and> (\<forall>t. a \<noteq> InsertRequest t)) as"
  shows "artefacts_gone q db'"
  using assms
proof (induction as arbitrary: db n)
  case (Cons a as)
  then obtain db1 i j where a: "act a db = Some (db1, i)" and r: "run_actions as db1 = Some (db', j)"
    by (auto simp: run_actions_Cons split: option.splits)
  have "artefacts_gone q db1" by (rule gone_act [OF a Cons.prems(2)]) (use Cons.prems(3) in auto)
  then show ?case using Cons.IH [OF r] Cons.prems(3) by simp
qed (simp add: run_actions_Nil)

definition sessions_shut :: "(session_row \<Rightarrow> bool) \<Rightarrow> grant_db \<Rightarrow> bool" where
  "sessions_shut q db \<longleftrightarrow> (\<forall>b \<in> set (sessions db). q b \<longrightarrow> bs_revoked b \<noteq> None)"

lemma shut_actions: "run_actions as db = Some (db', n) \<Longrightarrow> sessions_shut q db \<Longrightarrow> sessions_shut q db'"
proof (induction as arbitrary: db n)
  case (Cons a as)
  then obtain db1 i j where a: "act a db = Some (db1, i)" and r: "run_actions as db1 = Some (db', j)"
    by (auto simp: run_actions_Cons split: option.splits)
  have "sessions_shut q db1" using act_sessions [OF a] Cons.prems(2) unfolding sessions_shut_def by blast
  then show ?case by (rule Cons.IH [OF r])
qed (simp add: run_actions_Nil)

text \<open>What every logout has in common: the notifications, the sessions, the interactions, the artefacts, and a rest that
  issues nothing.\<close>

definition logout_actions :: "who \<Rightarrow> string \<Rightarrow> millis \<Rightarrow> action list \<Rightarrow> action list" where
  "logout_actions w event now rest = [Enqueue w event now, RevokeSessions w now, DeleteInteractions w] @ revoke_artefacts w @ rest"

lemma logout_actions_shut:
  assumes r: "run_actions (logout_actions w event now rest) db = Some (db', n)"
    and i: "list_all (\<lambda>a. unspending a \<and> (\<forall>t. a \<noteq> InsertRequest t)) rest"
  shows "artefacts_gone (selects w) db'" and "sessions_shut (selects_session w) db'"
proof -
  let ?w = "selects_session w"
  have "run_actions ([Enqueue w event now, RevokeSessions w now] @ [DeleteInteractions w] @ revoke_artefacts w @ rest) db = Some (db', n)"
    using r by (simp add: logout_actions_def)
  then obtain db0 j0 k0 where e: "run_actions [Enqueue w event now, RevokeSessions w now] db = Some (db0, j0)"
      and r0: "run_actions ([DeleteInteractions w] @ revoke_artefacts w @ rest) db0 = Some (db', k0)"
    by (rule run_actions_append)
  from r0 obtain db1 k1 k2 where r1: "run_actions (revoke_artefacts w @ rest) db1 = Some (db', k2)"
      and "run_actions [DeleteInteractions w] db0 = Some (db1, k1)"
    by (rule run_actions_append)
  from r1 obtain db2 j k where b: "run_actions (revoke_artefacts w) db1 = Some (db2, j)" and c: "run_actions rest db2 = Some (db', k)"
    by (rule run_actions_append)
  show "artefacts_gone (selects w) db'" by (rule gone_actions [OF c _ i]) (use revoke_artefacts_gone [OF b] in simp)
  obtain d1 i1 i2 where a: "act (RevokeSessions w now) d1 = Some (db0, i2)"
    using e by (auto simp: run_actions_Cons run_actions_Nil simp del: act.simps split: option.splits)
  then have "sessions_shut ?w db0"
    by (auto simp: sessions_shut_def set_sql_update revoke_session_def)
  then show "sessions_shut ?w db'" by (rule shut_actions [OF r0])
qed

lemma session_statements:
  "SessionRevocationStatements sid event at = Some as \<Longrightarrow>
     \<exists>now. as = logout_actions (W_Sid sid) event now [DeleteSessionClients (W_Sid sid)]"
  by (auto simp: SessionRevocationStatements_def logout_actions_def split: option.splits if_splits)

lemma gone_dead: "artefacts_gone (selects (W_Sid sid)) db = dead (sid_artefacts sid) db"
  by (simp add: artefacts_gone_def dead_def sid_artefacts_def)


section \<open>Families of tokens\<close>

text \<open>The tokens of one authorization share its request identifier, which no later code has.\<close>

definition family_artefacts :: "string \<Rightarrow> artefacts" where
  "family_artefacts i =
     \<lparr>af_code = (\<lambda>c. rr_id (co_request c) = i), af_refresh = (\<lambda>r. re_request_id r = i), af_request = (\<lambda>_. False),
      af_access = (\<lambda>a. ac_request_id a = i), af_issuable = (\<lambda>c. rr_id (co_request c) \<noteq> i)\<rparr>"

interpretation by_family: revocation "family_artefacts i" "\<lambda>_. True" for i
  by unfold_locales (simp_all add: family_artefacts_def)

definition family_dead :: "string \<Rightarrow> grant_db \<Rightarrow> bool" where
  "family_dead i db \<longleftrightarrow>
     (\<forall>c \<in> set (codes db). rr_id (co_request c) = i \<longrightarrow> co_invalidated c) \<and> (\<forall>r \<in> set (refreshes db). re_request_id r = i \<longrightarrow> \<not> re_active r) \<and>
     (\<forall>a \<in> set (accesses db). ac_request_id a \<noteq> i)"

lemma family_dead_iff: "family_dead i db = dead (family_artefacts i) db"
  by (simp add: family_dead_def dead_def family_artefacts_def)

end
