(* ===== verification/GrantRead.thy ===== *)
theory GrantRead
  imports GrantTx
begin

text \<open>
  The reads of \<^verbatim>\<open>internal/oauth/grant_storage.go\<close> and what a read request says about its accounts
  (\<^verbatim>\<open>account_expiry.go\<close>, \<^verbatim>\<open>machine.go\<close>, \<^verbatim>\<open>oidc/actor.go\<close>): decoding a persisted request with the client it was issued
  to, the sessions of codes, proofs, access and refresh tokens, the chain of actors of a token, and the users that have
  to be alive for it. The reads of one call see one state of the database.
\<close>

section \<open>Clients from metadata documents\<close>

definition cimdClientIDCandidate :: "prims \<Rightarrow> string \<Rightarrow> bool" where
  "cimdClientIDCandidate P i \<longleftrightarrow>
     i \<noteq> '''' \<and> length i \<le> 2048 \<and> trimmed i \<and>
     (case url_ParseRequestURI P i of
        None \<Rightarrow> False
      | Some u \<Rightarrow> url_Opaque u = '''' \<and> url_Scheme u = ''https'' \<and> url_Host u \<noteq> '''' \<and> \<not> url_has_User u \<and>
          url_RawQuery u = '''' \<and> url_Fragment u = '''')"

definition validResourceURL :: "prims \<Rightarrow> string \<Rightarrow> bool" where
  "validResourceURL P raw \<longleftrightarrow>
     (case url_ParseRequestURI P raw of
        None \<Rightarrow> False
      | Some u \<Rightarrow> length raw \<le> 2048 \<and> \<not> list_ex is_space (runes raw) \<and> url_Scheme u = ''https'' \<and> url_Hostname u \<noteq> '''' \<and>
          \<not> url_has_User u \<and> url_RawQuery u = '''' \<and> \<not> url_ForceQuery u \<and> url_Fragment u = '''' \<and> CHR ''#'' \<notin> set raw)"

definition validEphemeralResources :: "prims \<Rightarrow> string list \<Rightarrow> bool" where
  "validEphemeralResources P values \<longleftrightarrow> length values \<le> 32 \<and> list_all (validResourceURL P) values \<and> distinct values"

definition url_port :: "url \<Rightarrow> string" where
  "url_port u = (if url_Port u \<noteq> '''' then url_Port u else ''443'')"

definition sameEphemeralOrigin :: "prims \<Rightarrow> url \<Rightarrow> url \<Rightarrow> bool" where
  "sameEphemeralOrigin P left right \<longleftrightarrow> EqualFold P (url_Hostname left) (url_Hostname right) \<and> url_port left = url_port right"

fun first_allowed :: "string list \<Rightarrow> string list \<Rightarrow> string list" where
  "first_allowed seen [] = []"
| "first_allowed seen (v # vs) =
     (if v \<notin> {''openid'', ''goauthy.read''} \<or> v \<in> set seen then first_allowed seen vs else v # first_allowed (v # seen) vs)"

definition ephemeralScopes :: "string list \<Rightarrow> string list" where
  "ephemeralScopes = first_allowed []"

definition valid_redirect :: "prims \<Rightarrow> url \<Rightarrow> string \<Rightarrow> bool" where
  "valid_redirect P client redirect \<longleftrightarrow>
     (case url_ParseRequestURI P redirect of
        None \<Rightarrow> False
      | Some u \<Rightarrow> url_Scheme u = ''https'' \<and> url_Host u \<noteq> '''' \<and> \<not> url_has_User u \<and> url_RawQuery u = '''' \<and>
          url_Fragment u = '''' \<and> sameEphemeralOrigin P client u)"

definition newEphemeralClientRecord :: "prims \<Rightarrow> ephemeral_client \<Rightarrow> client option" where
  "newEphemeralClientRecord P r =
     (if \<not> cimdClientIDCandidate P (ec_id r) \<or> ec_redirects r = [] then None
      else if ec_scopes r \<noteq> ephemeralScopes (ec_scopes r) then None
      else if ec_resources_present r \<and> ec_resources r = None then None
      else if \<not> validEphemeralResources P (case ec_resources r of None \<Rightarrow> [] | Some rs \<Rightarrow> rs) then None
      else case url_ParseRequestURI P (ec_id r) of
        None \<Rightarrow> None
      | Some u \<Rightarrow> if list_all (valid_redirect P u) (ec_redirects r) \<and> distinct (ec_redirects r) then Some (Ephemeral r) else None)"

section \<open>Decoding\<close>

definition sessionDPoPJKT :: "session \<Rightarrow> string" where
  "sessionDPoPJKT s =
     (case se_extra s of
        None \<Rightarrow> ''''
      | Some m \<Rightarrow> (case m ''cnf'' of
          Some (J_Obj fs) \<Rightarrow> (case map_of fs ''jkt'' of Some (J_Str v) \<Rightarrow> v | _ \<Rightarrow> '''') | _ \<Rightarrow> ''''))"

definition validDPoPJKT :: "string \<Rightarrow> bool" where
  "validDPoPJKT v \<longleftrightarrow> length v = 43 \<and> (case b64_decode v of None \<Rightarrow> False | Some d \<Rightarrow> length d = 32 \<and> b64_encode d = v)"

definition empty_session :: session where
  "empty_session = \<lparr>se_username = '''', se_subject = '''', se_extra = None, se_expires = Map.empty\<rparr>"

text \<open>The session a request is loaded into: only a verified key binding of it survives.\<close>

definition load_session :: "request_record \<Rightarrow> session \<Rightarrow> session" where
  "load_session r target =
     (let jkt = sessionDPoPJKT target; m = (case rr_extra r of None \<Rightarrow> Map.empty | Some m \<Rightarrow> m)
      in \<lparr>se_username = rr_username r, se_subject = rr_subject r,
          se_extra = (if validDPoPJKT jkt then Some (m(''cnf'' \<mapsto> J_Obj [(''jkt'', J_Str jkt)])) else rr_extra r),
          se_expires = se_expires target ++ rr_expires r\<rparr>)"

definition stored_client :: "prims \<Rightarrow> store \<Rightarrow> grant_db \<Rightarrow> request_record \<Rightarrow> grant_err + client" where
  "stored_client P st db r =
     (case rr_managed r of
        Some m \<Rightarrow>
          if mr_id m \<noteq> rr_client r \<or> \<not> mr_enabled m \<or> \<not> so_managed_clients st then Inl G_NotFound
          else (case so_get_client st db (mr_id m) of
                  None \<Rightarrow> Inl G_Client
                | Some (Managed c) \<Rightarrow>
                    if cl_enabled c \<and> cl_generation c = mr_generation m then Inr (Managed c) else Inl G_NotFound
                | Some _ \<Rightarrow> Inl G_NotFound)
      | None \<Rightarrow>
          (case rr_ephemeral r of
             Some e \<Rightarrow>
               if ec_id e \<noteq> rr_client r then Inl G_Client
               else (case newEphemeralClientRecord P e of None \<Rightarrow> Inl G_Client | Some c \<Rightarrow> Inr c)
           | None \<Rightarrow> (case so_get_client st db (rr_client r) of None \<Rightarrow> Inl G_Client | Some c \<Rightarrow> Inr c)))"

definition forceMFA :: "store \<Rightarrow> client \<Rightarrow> bool" where
  "forceMFA st c \<longleftrightarrow>
     (if so_client st = Some (client_id c) then so_force_mfa st else case c of Managed m \<Rightarrow> cl_force_mfa m | _ \<Rightarrow> False)"

text \<open>The device approvals behind a request: none, or one with a second factor.\<close>

definition strong_evidence :: "request_record \<Rightarrow> grant_db \<Rightarrow> bool" where
  "strong_evidence r db \<longleftrightarrow>
     (case sql_select (\<lambda>d. g_token_request d = Some (rr_id r) \<and> g_client d = rr_client r) (grants (device db)) of
        [] \<Rightarrow> True | [d] \<Rightarrow> g_mfa d | _ \<Rightarrow> False)"

definition decodeRequest :: "prims \<Rightarrow> store \<Rightarrow> call_env \<Rightarrow> request_record \<Rightarrow> session option \<Rightarrow> grant_err + request" where
  "decodeRequest P st e r target =
     (if rr_id r = '''' \<or> rr_client r = '''' then Inl G_Encode
      else case stored_client P st (ce_db e) r of
        Inl x \<Rightarrow> Inl x
      | Inr c \<Rightarrow>
          if forceMFA st c \<and> ce_fails e then Inl G_Query
          else if forceMFA st c \<and> \<not> strong_evidence r (ce_db e) then Inl G_InvalidGrant
          else Inr \<lparr>rq_id = rr_id r, rq_client = c, rq_requested_at = rr_requested_at r,
                    rq_requested_scopes = so_arguments st (rr_requested_scopes r),
                    rq_granted_scopes = so_arguments st (rr_granted_scopes r),
                    rq_requested_audience = so_arguments st (rr_requested_audience r),
                    rq_granted_audience = so_arguments st (rr_granted_audience r), rq_form = rr_form r,
                    rq_session = Some (load_session r (case target of None \<Rightarrow> empty_session | Some s \<Rightarrow> s))\<rparr>)"

section \<open>Claims\<close>

definition put_extra :: "((string \<rightharpoonup> json) \<Rightarrow> (string \<rightharpoonup> json)) \<Rightarrow> request \<Rightarrow> request" where
  "put_extra f r =
     r\<lparr>rq_session := map_option (\<lambda>s. s\<lparr>se_extra := Some (f (case se_extra s of None \<Rightarrow> Map.empty | Some m \<Rightarrow> m))\<rparr>) (rq_session r)\<rparr>"

definition json_strings :: "string list \<Rightarrow> json" where
  "json_strings vs = J_Arr (map J_Str vs)"

definition setPrincipalClaims :: "string list \<Rightarrow> string list option \<Rightarrow> request \<Rightarrow> request" where
  "setPrincipalClaims roles groups r =
     put_extra (\<lambda>m. m(''roles'' \<mapsto> json_strings roles,
       ''groups'' := (if ''groups'' \<in> set (rq_granted_scopes r) then map_option json_strings groups else None))) r"

definition customRootNames :: "(string \<rightharpoonup> json) \<Rightarrow> string list" where
  "customRootNames m =
     (case m ''goauthy_custom_root'' of
        Some (J_Arr vs) \<Rightarrow> if list_all (\<lambda>v. case v of J_Str _ \<Rightarrow> True | _ \<Rightarrow> False) vs
          then map (\<lambda>v. case v of J_Str s \<Rightarrow> s | _ \<Rightarrow> '''') vs else []
      | _ \<Rightarrow> [])"

definition drop_keys :: "string list \<Rightarrow> (string \<rightharpoonup> json) \<Rightarrow> (string \<rightharpoonup> json)" where
  "drop_keys ks m = (\<lambda>k. if k \<in> set ks then None else m k)"

text \<open>The custom claims replace those of an earlier token; a root claim must not collide with other data. A map of
  claims is the list of its entries in the order of their names.\<close>

definition setCustomAccessClaims :: "(string \<times> json) list \<Rightarrow> (string \<times> json) list \<Rightarrow> request \<Rightarrow> grant_err + request" where
  "setCustomAccessClaims nested root r =
     (let m = (case rq_session r of Some s \<Rightarrow> (case se_extra s of None \<Rightarrow> Map.empty | Some m \<Rightarrow> m) | None \<Rightarrow> Map.empty);
          m = drop_keys (customRootNames m @ [''custom'', ''goauthy_custom_root'']) m;
          m = (if nested = [] then m else m(''custom'' \<mapsto> J_Obj nested))
      in if list_ex (\<lambda>(k, _). m k \<noteq> None) root then Inl G_Claims
         else Inr (put_extra (\<lambda>_. if root = [] then m
                else (m ++ map_of root)(''goauthy_custom_root'' \<mapsto> json_strings (map fst root))) r))"

section \<open>Sessions of codes and tokens\<close>

text \<open>What a read answers: a usable request, a request of a spent grant, or an error.\<close>

datatype read_result = R_Usable request | R_Spent request | R_Failed grant_err

definition with_claims :: "ctx \<Rightarrow> string \<Rightarrow> request \<Rightarrow> read_result" where
  "with_claims cx sig r =
     (case cx_principal cx of
        Some p \<Rightarrow>
          if ps_signature p = sig then
            (case setCustomAccessClaims (ps_nested p) (ps_root p) (setPrincipalClaims (ps_roles p) (ps_groups p) r) of
               Inl x \<Rightarrow> R_Failed x | Inr r \<Rightarrow> R_Usable r)
          else R_Usable r
      | None \<Rightarrow> R_Usable r)"

definition GetAuthorizeCodeSession :: "prims \<Rightarrow> store \<Rightarrow> call_env \<Rightarrow> ctx \<Rightarrow> string \<Rightarrow> session option \<Rightarrow> read_result" where
  "GetAuthorizeCodeSession P st e cx sig target =
     (if ce_fails e then R_Failed G_Query
      else case sql_select (\<lambda>c. co_sig c = sig) (codes (ce_db e)) of
        [c] \<Rightarrow>
          (case decodeRequest P st e (co_request c) target of
             Inl x \<Rightarrow> R_Failed x
           | Inr r \<Rightarrow>
               if co_invalidated c then R_Spent r
               else case rq_session r of
                 None \<Rightarrow> R_Failed G_Session
               | Some s \<Rightarrow>
                   (case capAccountSession (cx_accounts cx) (ce_clock e) s of
                      Inl x \<Rightarrow> R_Failed x
                    | Inr s \<Rightarrow> with_claims cx sig (r\<lparr>rq_session := Some s\<rparr>)))
      | _ \<Rightarrow> R_Failed G_NotFound)"

definition GetPKCERequestSession :: "prims \<Rightarrow> store \<Rightarrow> call_env \<Rightarrow> string \<Rightarrow> session option \<Rightarrow> read_result" where
  "GetPKCERequestSession P st e sig target =
     (if ce_fails e then R_Failed G_Query
      else case sql_select (\<lambda>p. pk_sig p = sig) (pkces (ce_db e)) of
        [p] \<Rightarrow> (case decodeRequest P st e (pk_request p) target of Inl x \<Rightarrow> R_Failed x | Inr r \<Rightarrow> R_Usable r)
      | _ \<Rightarrow> R_Failed G_NotFound)"

text \<open>The proof of a code is deleted with the code, not when it is read.\<close>

definition DeletePKCERequestSession :: "string \<Rightarrow> ctx \<times> grant_db \<Rightarrow> ctx \<times> grant_db" where
  "DeletePKCERequestSession sig s = s"

definition GetAccessTokenSession :: "prims \<Rightarrow> store \<Rightarrow> call_env \<Rightarrow> string \<Rightarrow> session option \<Rightarrow> read_result" where
  "GetAccessTokenSession P st e sig target =
     (if sig = '''' then R_Failed G_NotFound
      else if ce_fails e then R_Failed G_Query
      else case sql_select (\<lambda>t. tr_sig t = sig) (token_requests (ce_db e)) of
        [t] \<Rightarrow> (case decodeRequest P st e (tr_request t) target of Inl x \<Rightarrow> R_Failed x | Inr r \<Rightarrow> R_Usable r)
      | _ \<Rightarrow> R_Failed G_NotFound)"

definition accessTokenExpiry :: "call_env \<Rightarrow> string \<Rightarrow> grant_err + millis" where
  "accessTokenExpiry e sig =
     (if sig = '''' then Inl G_NotFound
      else if ce_fails e then Inl G_Query
      else case sql_select (\<lambda>a. ac_sig a = sig) (accesses (ce_db e)) of [a] \<Rightarrow> Inr (ac_expires a) | _ \<Rightarrow> Inl G_NotFound)"

definition GetRefreshTokenSession :: "prims \<Rightarrow> store \<Rightarrow> call_env \<Rightarrow> ctx \<Rightarrow> string \<Rightarrow> session option \<Rightarrow> read_result" where
  "GetRefreshTokenSession P st e cx sig target =
     (if ce_fails e then R_Failed G_Query
      else case sql_select (\<lambda>r. re_sig r = sig) (refreshes (ce_db e)) of
        [t] \<Rightarrow>
          (case decodeRequest P st e (re_request t) target of
             Inl x \<Rightarrow> R_Failed x
           | Inr r \<Rightarrow> if \<not> re_active t then R_Spent r else with_claims cx sig r)
      | _ \<Rightarrow> R_Failed G_NotFound)"

section \<open>Accounts\<close>

definition machineSubjectExtra :: string where "machineSubjectExtra = ''goauthy_machine_sub''"

definition actorMachineExtra :: string where "actorMachineExtra = ''goauthy_actor_machine''"

definition TokenExchangeGrantType :: string where
  "TokenExchangeGrantType = ''urn:ietf:params:oauth:grant-type:token-exchange''"

definition extra_of :: "session \<Rightarrow> string \<Rightarrow> json option" where
  "extra_of s k = (case se_extra s of None \<Rightarrow> None | Some m \<Rightarrow> m k)"

text \<open>The subject of a token and whether it is a machine's; None is an error.\<close>

definition machineTokenSubject :: "request \<Rightarrow> (string \<times> bool) option" where
  "machineTokenSubject r =
     (case rq_session r of
        None \<Rightarrow> None
      | Some s \<Rightarrow>
          if client_id (rq_client r) = '''' then None
          else let marker = extra_of s machineSubjectExtra; grant = form_value ''grant_type'' r
               in if se_subject s \<noteq> '''' then (if marker = None then Some (se_subject s, False) else None)
                  else case marker of
                    Some v \<Rightarrow>
                      (case v of
                         J_Str value \<Rightarrow>
                           if (value = '''' \<or> value = client_id (rq_client r)) \<and> (grant = ''client_credentials'' \<or> grant = TokenExchangeGrantType)
                           then Some (value, True) else None
                       | _ \<Rightarrow> None)
                  | None \<Rightarrow> if grant = ''client_credentials'' then Some ('''', True) else None)"

definition markMachineToken :: "bool \<Rightarrow> request \<Rightarrow> request option" where
  "markMachineToken mapSub r =
     (case rq_session r of
        None \<Rightarrow> None
      | Some s \<Rightarrow>
          if client_id (rq_client r) = '''' \<or> se_subject s \<noteq> '''' then None
          else Some (put_extra (\<lambda>m. m(machineSubjectExtra \<mapsto> J_Str (if mapSub then client_id (rq_client r) else ''''))) r))"

text \<open>A chain of actors is the list of its subjects, the current actor first.\<close>

definition maxCustomJSONDepth :: nat where "maxCustomJSONDepth = 8"

fun parse_actor :: "nat \<Rightarrow> json \<Rightarrow> string list option" where
  "parse_actor (Suc n) (J_Obj fs) =
     (case map_of fs ''sub'' of
        Some (J_Str s) \<Rightarrow>
          if s = '''' then None
          else (case map_of fs ''act'' of
                  None \<Rightarrow> if length fs = 1 then Some [s] else None
                | Some v \<Rightarrow> if length fs = 2 then map_option ((#) s) (parse_actor n v) else None)
      | _ \<Rightarrow> None)"
| "parse_actor _ _ = None"

definition ParseActorClaims :: "json \<Rightarrow> string list option" where
  "ParseActorClaims = parse_actor maxCustomJSONDepth"

definition accessSessionActor :: "session \<Rightarrow> string list option" where
  "accessSessionActor s =
     (case extra_of s ''act'' of None \<Rightarrow> Some [] | Some J_Null \<Rightarrow> Some [] | Some v \<Rightarrow> ParseActorClaims v)"

primrec actorClaimsExtra :: "string list \<Rightarrow> json option" where
  "actorClaimsExtra [] = None"
| "actorClaimsExtra (s # ss) =
     Some (J_Obj ((''sub'', J_Str s) # (case actorClaimsExtra ss of None \<Rightarrow> [] | Some v \<Rightarrow> [(''act'', v)])))"

definition actorMachineFlags :: "session \<Rightarrow> string list \<Rightarrow> bool list option" where
  "actorMachineFlags s actor =
     (case extra_of s actorMachineExtra of
        None \<Rightarrow> Some (replicate (length actor) False)
      | Some (J_Arr vs) \<Rightarrow>
          if list_all (\<lambda>v. case v of J_Bool _ \<Rightarrow> True | _ \<Rightarrow> False) vs \<and> length vs = length actor
          then Some (map (\<lambda>v. case v of J_Bool b \<Rightarrow> b | _ \<Rightarrow> False) vs) else None
      | Some _ \<Rightarrow> None)"

text \<open>The subjects in the order in which they first appear.\<close>

fun add_subjects :: "string list \<Rightarrow> string list \<Rightarrow> string list" where
  "add_subjects acc [] = acc"
| "add_subjects acc (s # ss) = add_subjects (if s \<in> set acc then acc else acc @ [s]) ss"

definition tokenAccountSubjects :: "request \<Rightarrow> string list option" where
  "tokenAccountSubjects r =
     (case (machineTokenSubject r, rq_session r) of
        (Some (owner, machine), Some s) \<Rightarrow>
          (case accessSessionActor s of
             None \<Rightarrow> None
           | Some actor \<Rightarrow>
               (case actorMachineFlags s actor of
                  None \<Rightarrow> None
                | Some flags \<Rightarrow>
                    let subjects = (if machine then [] else [owner]) @ map fst (filter (\<lambda>(_, m). \<not> m) (zip actor flags))
                    in if '''' \<in> set subjects then None else Some (add_subjects [] subjects)))
      | _ \<Rightarrow> None)"

text \<open>The exact deadlines of the users of a token, read before the write that is guarded by them.\<close>

fun account_rows :: "grant_db \<Rightarrow> string list \<Rightarrow> (string \<times> millis option) list option" where
  "account_rows db [] = Some []"
| "account_rows db (s # ss) =
     (case sql_select (\<lambda>u. us_subject u = s \<and> \<not> us_disabled u) (users db) of
        [u] \<Rightarrow>
          if (case us_expires u of None \<Rightarrow> False | Some d \<Rightarrow> d < 0) then None
          else map_option ((#) (s, us_expires u)) (account_rows db ss)
      | _ \<Rightarrow> None)"

definition accountContext :: "call_env \<Rightarrow> string list \<Rightarrow> ctx \<Rightarrow> grant_err + ctx" where
  "accountContext e subjects cx =
     (if subjects \<noteq> [] \<and> ce_fails e then Inl G_Query
      else case account_rows (ce_db e) subjects of None \<Rightarrow> Inl G_InvalidGrant | Some as \<Rightarrow> Inr (cx\<lparr>cx_accounts := as\<rparr>))"

definition issuanceAccounts :: "call_env \<Rightarrow> request \<Rightarrow> ctx \<Rightarrow> grant_err + (ctx \<times> request)" where
  "issuanceAccounts e r cx =
     (case tokenAccountSubjects r of
        None \<Rightarrow> Inl G_InvalidGrant
      | Some subjects \<Rightarrow>
          (case accountContext e subjects cx of
             Inl x \<Rightarrow> Inl x
           | Inr cx \<Rightarrow>
               (case rq_session r of
                  None \<Rightarrow> Inl G_InvalidGrant
                | Some s \<Rightarrow>
                    (case capAccountSession (cx_accounts cx) (ce_clock e) s of
                       Inl x \<Rightarrow> Inl x | Inr s \<Rightarrow> Inr (cx, r\<lparr>rq_session := Some s\<rparr>)))))"

definition validateTokenAccounts :: "call_env \<Rightarrow> request \<Rightarrow> grant_err + unit" where
  "validateTokenAccounts e r =
     (case tokenAccountSubjects r of
        None \<Rightarrow> Inl G_Inactive
      | Some subjects \<Rightarrow>
          if subjects = [] then Inr ()
          else if ce_fails e then Inl G_Query
          else if list_all (\<lambda>s. live_user s (ce_clock e) (ce_db e)) subjects then Inr () else Inl G_Inactive)"

text \<open>The check after the commit, before a response is written.\<close>

definition validateIssuanceAccounts :: "call_env \<Rightarrow> ctx \<Rightarrow> grant_err + unit" where
  "validateIssuanceAccounts e cx =
     (if cx_accounts cx = [] then Inr ()
      else if ce_fails e then Inl G_Query
      else if list_all (\<lambda>(s, d). holds (ce_clock e) (ce_db e) (A_Account s d)) (cx_accounts cx) \<and>
              (case accountDeadline (cx_accounts cx) of None \<Rightarrow> True | Some limit \<Rightarrow> ce_clock e < limit)
      then Inr () else Inl G_InvalidGrant)"

definition captureProfileSnapshot :: "call_env \<Rightarrow> string \<Rightarrow> grant_err + (string \<times> string)" where
  "captureProfileSnapshot e subject =
     (if ce_fails e then Inl G_Query
      else Inr (subject, case map_of (profiles (ce_db e)) subject of None \<Rightarrow> '''' | Some p \<Rightarrow> p))"

end
