(* ===== verification/GrantTheorems.thy ===== *)
theory GrantTheorems
  imports GrantLogout GrantRead
begin

text \<open>
  What the grant storage promises: a code and a refresh token are exchanged by one attempt only, whatever the nodes
  commit before, between and after the two attempts, and a logout leaves nothing usable, at once and for good.
\<close>

section \<open>Commits as events\<close>

lemma Commit_cases:
  assumes "Commit e (cx, db) = ((cx', db'), r)" "cx_tx cx = Some tx"
  obtains (refused) "r \<noteq> Inr ()"
    | (answered) "db' = co_other e (apply_event (E_Tx tx (co_now e) (co_cutoff e)) db)" "reads_back tx \<Longrightarrow> took_effect tx db'"
proof (cases "r = Inr ()")
  case True
  obtain ss where ss: "commit_statements (co_now e) (co_cutoff e) tx = Inr ss"
    using assms True by (auto simp: Commit_def Let_def split: if_splits sum.splits)
  obtain d n where d: "run_execute (co_exec e) (run_tx (map (exec_stmt (co_cutoff e)) ss)) db = (d, Inr n)"
    using assms True ss by (auto simp: Commit_def Let_def split: if_splits sum.splits prod.splits)
  then have "d = apply_event (E_Tx tx (co_now e) (co_cutoff e)) db"
    using ss by (auto simp: run_execute_Inr_db applied_def batch_def)
  then show ?thesis
    using assms True ss d by (intro answered) (auto simp: Commit_def Let_def split: if_splits)
qed (rule refused)

lemma run_inv: "\<forall>e \<in> set es. event_wf e \<Longrightarrow> grant_inv db \<Longrightarrow> grant_inv (fold apply_event es db)"
  by (induction es arbitrary: db) (simp_all add: grant_event_inv)

lemma count_pos: "count_is 1 p t \<Longrightarrow> \<exists>r \<in> set t. p r"
  by (rule ccontr) (auto simp: count_is_def sql_count_def filter_empty_conv)

text \<open>A commit that is answered has spent the grant of its transaction.\<close>

lemma commit_spends_code:
  assumes c: "Commit e (cx, db) = ((cx', db1), Inr ())" and t: "cx_tx cx = Some tx" "tx_kind tx = T_Code" "tx_wf tx"
    and o: "co_other e = fold apply_event es" "\<forall>v \<in> set es. event_wf v" and i: "grant_inv db"
  shows "grant_inv db1 \<and> code_spent (tx_key tx) (tx_attempt tx) db1"
  using c t(1)
proof (cases rule: Commit_cases)
  case answered
  have inv: "grant_inv db1" using answered(1) o run_inv grant_event_inv [OF _ i, of "E_Tx tx (co_now e) (co_cutoff e)"] t(3) by simp
  have "took_effect tx db1" using answered(2) t(2) by (simp add: reads_back_def)
  then have "holds 0 db1 (A_CodeUsed (tx_key tx) (tx_attempt tx))"
    using t(2) count_pos unfolding code_used_iff by (fastforce simp: took_effect_def)
  then show ?thesis using used_spent inv by blast
qed simp

lemma commit_spends_refresh:
  assumes c: "Commit e (cx, db) = ((cx', db1), Inr ())" and t: "cx_tx cx = Some tx" "tx_kind tx = T_Refresh" "tx_wf tx"
    and o: "co_other e = fold apply_event es" "\<forall>v \<in> set es. event_wf v" and i: "grant_inv db"
  shows "grant_inv db1 \<and> refresh_spent (tx_key tx) (tx_attempt tx) db1"
  using c t(1)
proof (cases rule: Commit_cases)
  case answered
  have inv: "grant_inv db1" using answered(1) o run_inv grant_event_inv [OF _ i, of "E_Tx tx (co_now e) (co_cutoff e)"] t(3) by simp
  have "took_effect tx db1" using answered(2) t(2) by (simp add: reads_back_def)
  then have "holds 0 db1 (A_Rotated (tx_key tx) (tx_attempt tx))"
    using t(2) count_pos unfolding rotated_iff by (fastforce simp: took_effect_def)
  then show ?thesis using rotated_spent inv by blast
qed simp

text \<open>A commit on a grant that is closed to its attempt is not answered.\<close>

lemma closed_commit_code:
  assumes c: "code_closed (tx_key tx) (tx_attempt tx) db" "grant_inv db" and t: "cx_tx cx = Some tx" "tx_kind tx = T_Code" "tx_wf tx"
    and o: "co_other e = fold apply_event es" "\<forall>v \<in> set es. event_wf v \<and> \<not> issues_code (tx_key tx) v"
  shows "snd (Commit e (cx, db)) \<noteq> Inr ()"
proof
  assume a: "snd (Commit e (cx, db)) = Inr ()"
  obtain cx' db' where r: "Commit e (cx, db) = ((cx', db'), Inr ())" using a by (metis prod.collapse)
  let ?v = "E_Tx tx (co_now e) (co_cutoff e)"
  have "code_closed (tx_key tx) (tx_attempt tx) (fold apply_event (?v # es) db)"
    using code.closed_run [of "?v # es" "tx_key tx" db "tx_attempt tx"] c t o(2) by simp
  then have "\<not> holds 0 (co_other e (apply_event ?v db)) (A_CodeUsed (tx_key tx) (tx_attempt tx))"
    unfolding code_used_iff code_closed_def o(1) by auto

  moreover have "took_effect tx db'" "db' = co_other e (apply_event ?v db)"
    using r t(1) by (cases rule: Commit_cases; use t(2) in \<open>simp add: reads_back_def\<close>)+
  ultimately show False using t(2) count_pos unfolding code_used_iff by (fastforce simp: took_effect_def)
qed

lemma closed_commit_refresh:
  assumes c: "refresh_closed (tx_key tx) (tx_attempt tx) db" "grant_inv db"
    and t: "cx_tx cx = Some tx" "tx_kind tx = T_Refresh" "tx_wf tx" "fresh_refresh (E_Tx tx (co_now e) (co_cutoff e))"
    and o: "co_other e = fold apply_event es" "\<forall>v \<in> set es. event_wf v \<and> fresh_refresh v \<and> \<not> issues_refresh (tx_key tx) v"
  shows "snd (Commit e (cx, db)) \<noteq> Inr ()"
proof
  assume a: "snd (Commit e (cx, db)) = Inr ()"
  obtain cx' db' where r: "Commit e (cx, db) = ((cx', db'), Inr ())" using a by (metis prod.collapse)
  let ?v = "E_Tx tx (co_now e) (co_cutoff e)"
  have "refresh_closed (tx_key tx) (tx_attempt tx) (fold apply_event (?v # es) db)"
    using refresh.closed_run [of "?v # es" "tx_key tx" db "tx_attempt tx"] c t o(2) by fastforce
  then have "\<not> holds 0 (co_other e (apply_event ?v db)) (A_Rotated (tx_key tx) (tx_attempt tx))"
    unfolding rotated_iff refresh_closed_def o(1) by auto
  moreover have "took_effect tx db'" "db' = co_other e (apply_event ?v db)"
    using r t(1) by (cases rule: Commit_cases; use t(2) in \<open>simp add: reads_back_def\<close>)+
  ultimately show False using t(2) count_pos unfolding rotated_iff by (fastforce simp: took_effect_def)
qed

lemma built_tx: "built P st cx \<Longrightarrow> cx_tx cx = Some tx \<Longrightarrow> tx_wf tx"
  using built_wf by fastforce

section \<open>Single use\<close>

text \<open>C1. An authorization code is exchanged once. When the commit of a code exchange is answered, no later exchange of
  the same code by another attempt is answered or adds a token, whatever transactions, batches and clean-ups the nodes
  commit before the read of the first, between the two and before the read of the second, as long as they do not issue
  the code again. Transactions are built by any sequence of the store's calls.\<close>

theorem code_single_use:
  assumes "grant_inv db"
    and "built P st cx" "cx_tx cx = Some tx" "tx_kind tx = T_Code"
    and "Commit e (cx, db) = ((cx', db1), Inr ())" "co_other e = fold apply_event us"
    and "\<forall>v \<in> set (us @ vs @ ws). event_wf v \<and> \<not> issues_code (tx_key tx) v"
    and "built P2 st2 cy" "cx_tx cy = Some ty" "tx_kind ty = T_Code" "tx_key ty = tx_key tx" "tx_attempt ty \<noteq> tx_attempt tx"
    and "db2 = fold apply_event vs db1" "co_other e2 = fold apply_event ws"
  shows "snd (Commit e2 (cy, db2)) \<noteq> Inr () \<and> \<not> tokens_added db2 (apply_event (E_Tx ty (co_now e2) (co_cutoff e2)) db2)"
proof -
  have wf: "tx_wf tx" "tx_wf ty" using built_tx assms(2,3,8,9) by blast+
  have "grant_inv db1 \<and> code_spent (tx_key tx) (tx_attempt tx) db1"
    using commit_spends_code [OF assms(5,3,4) wf(1) assms(6) _ assms(1)] assms(7) by simp
  then have "code_closed (tx_key ty) (tx_attempt ty) db1" "grant_inv db1"
    using assms(11,12) by (auto simp: code_spent_def code_closed_def)
  then have "code_closed (tx_key ty) (tx_attempt ty) db2 \<and> grant_inv db2"
    using code.closed_run [of vs "tx_key ty" db1 "tx_attempt ty"] assms(7,11,13) by simp
  then show ?thesis
    using closed_commit_code [OF _ _ assms(9,10) wf(2) assms(14)] code_closed_blocks [OF wf(2) assms(10)] assms(7,11) by simp
qed

text \<open>C2. A refresh token is rotated once, in the same sense: after a rotation that is answered, no other attempt with
  the same refresh token is answered or adds a token. New refresh tokens do not have the signature of the rotated one.\<close>

theorem refresh_single_use:
  assumes "grant_inv db"
    and "built P st cx" "cx_tx cx = Some tx" "tx_kind tx = T_Refresh"
    and "Commit e (cx, db) = ((cx', db1), Inr ())" "co_other e = fold apply_event us"
    and "\<forall>v \<in> set (us @ vs @ ws). event_wf v \<and> fresh_refresh v \<and> \<not> issues_refresh (tx_key tx) v"
    and "built P2 st2 cy" "cx_tx cy = Some ty" "tx_kind ty = T_Refresh" "tx_key ty = tx_key tx" "tx_attempt ty \<noteq> tx_attempt tx"
    and "fresh_refresh (E_Tx ty (co_now e2) (co_cutoff e2))"
    and "db2 = fold apply_event vs db1" "co_other e2 = fold apply_event ws"
  shows "snd (Commit e2 (cy, db2)) \<noteq> Inr () \<and> \<not> tokens_added db2 (apply_event (E_Tx ty (co_now e2) (co_cutoff e2)) db2)"
proof -
  have wf: "tx_wf tx" "tx_wf ty" using built_tx assms(2,3,8,9) by blast+
  have "grant_inv db1 \<and> refresh_spent (tx_key tx) (tx_attempt tx) db1"
    using commit_spends_refresh [OF assms(5,3,4) wf(1) assms(6) _ assms(1)] assms(7) by simp
  then have "refresh_closed (tx_key ty) (tx_attempt ty) db1" "grant_inv db1"
    using assms(11,12) by (auto simp: refresh_spent_def refresh_closed_def)
  then have "refresh_closed (tx_key ty) (tx_attempt ty) db2 \<and> grant_inv db2"
    using refresh.closed_run [of vs "tx_key ty" db1 "tx_attempt ty"] assms(7,11,14) by simp
  then show ?thesis
    using closed_commit_refresh [OF _ _ assms(9,10) wf(2) assms(13) assms(15)] refresh_closed_blocks [OF wf(2) assms(10,13)] assms(7,11) by simp
qed

section \<open>Examples\<close>

definition demo_session :: session where
  "demo_session = \<lparr>se_username = ''u'', se_subject = ''s'', se_extra = None, se_expires = (\<lambda>_. Some 900000)\<rparr>"

definition demo_request :: request where
  "demo_request =
     \<lparr>rq_id = ''q'', rq_client = Configured ''app'', rq_requested_at = 1000, rq_requested_scopes = [''api''],
      rq_granted_scopes = [''api''], rq_requested_audience = [], rq_granted_audience = [], rq_form = None,
      rq_session = Some demo_session\<rparr>"

definition demo_record :: request_record where
  "demo_record = the (encodeRequest demo_request)"

definition demo_grants :: grant_db where
  "demo_grants =
     \<lparr>codes = [\<lparr>co_sig = ''c'', co_request = demo_record, co_expires = 900000, co_invalidated = False, co_attempt = None\<rparr>],
      pkces = [], accesses = [], token_requests = [],
      refreshes = [\<lparr>re_sig = ''r'', re_access = ''x'', re_request_id = ''q'', re_request = demo_record, re_expires = 900000,
                    re_active = True, re_attempt = None\<rparr>],
      sessions = [], interactions = [], upstream_bindings = [], session_clients = [], user_clients = [], deliveries = [], dynamics = [],
      device = \<lparr>grants = [], managed = []\<rparr>, users = [], modes = [], versions = [], profiles = [], restrictions = [],
      catalog = None, machine_claims = [], admins = [], lockdown = None, account_locks = [], log_events = []\<rparr>"

definition demo_store :: store where
  "demo_store =
     \<lparr>so_client = Some ''app'', so_idle = 60000, so_logout_uri = '''', so_private = False, so_http = False,
      so_get_client = (\<lambda>_ _. None), so_managed_clients = True, so_force_mfa = False, so_arguments = remdups, so_audiences = (\<lambda>_. Some [])\<rparr>"

definition demo_call :: call_env where
  "demo_call = \<lparr>ce_now = 2000, ce_clock = 2000, ce_db = demo_grants, ce_fails = False\<rparr>"

definition demo_ctx :: ctx where
  "demo_ctx = \<lparr>cx_accounts = [], cx_profile = ('''', ''''), cx_dpop = ('''', False), cx_principal = None, cx_machine_client = '''', cx_tx = None\<rparr>"

definition demo_commit :: commit_env where
  "demo_commit = \<lparr>co_now = 3000, co_cutoff = 3000, co_exec = Exec_Ok, co_conflict = False, co_other = fold apply_event [], co_fails = False\<rparr>"

text \<open>The exchange of the code, and the rotation of the refresh token, by an attempt.\<close>

definition demo_begun :: "string \<Rightarrow> ctx" where
  "demo_begun n = (case BeginTX (Some n) demo_ctx of Inl _ \<Rightarrow> demo_ctx | Inr cx \<Rightarrow> cx)"

definition demo_used :: "string \<Rightarrow> ctx" where
  "demo_used n =
     (case InvalidateAuthorizeCodeSession demo_prims demo_store demo_call ''c'' (cx_tx (demo_begun n)) of
        Inl _ \<Rightarrow> demo_ctx | Inr tx \<Rightarrow> (demo_begun n)\<lparr>cx_tx := Some tx\<rparr>)"

definition demo_exchange :: "string \<Rightarrow> ctx" where
  "demo_exchange n =
     fst (fst (CreateAccessTokenSession demo_prims demo_store demo_call Exec_Ok id Exec_Ok (''at-'' @ n) demo_request (demo_used n, demo_grants)))"

lemmas demo_defs = demo_session_def demo_request_def demo_record_def demo_grants_def demo_store_def demo_call_def demo_ctx_def
  demo_commit_def demo_prims_def

lemma demo_begun_ok: "BeginTX (Some n) demo_ctx = Inr (demo_begun n)"
  by (simp add: demo_begun_def BeginTX_def demo_ctx_def Let_def)

lemma demo_used_tx:
  "InvalidateAuthorizeCodeSession demo_prims demo_store demo_call ''c'' (cx_tx (demo_begun n)) =
     Inr (empty_tx\<lparr>tx_attempt := b64_encode n, tx_kind := T_Code, tx_key := ''c'', tx_request_id := the (kind_request_id demo_prims T_Code ''c'' (b64_encode n)),
       tx_statements := [plain (UseCode ''c'' (b64_encode n)), \<lparr>st_action = DeletePKCE ''c'', st_guard = [A_CodeUsed ''c'' (b64_encode n)], st_exact = False\<rparr>]\<rparr>)"
  by (simp add: demo_begun_def BeginTX_def demo_defs Let_def InvalidateAuthorizeCodeSession_def configureTX_def kind_request_id_def
      captureManagedSnapshot_def sql_select_def encodeRequest_def principalGuard_def password_guard_def accountExpiryGuard_def
      profileGuard_def dpop_guard_def managedGuard_def empty_tx_def)


lemma demo_used_eq:
  "cx_tx (demo_used n) = Some (empty_tx\<lparr>tx_attempt := b64_encode n, tx_kind := T_Code, tx_key := ''c'',
       tx_request_id := the (kind_request_id demo_prims T_Code ''c'' (b64_encode n)),
       tx_statements := [plain (UseCode ''c'' (b64_encode n)), \<lparr>st_action = DeletePKCE ''c'', st_guard = [A_CodeUsed ''c'' (b64_encode n)], st_exact = False\<rparr>]\<rparr>)"
  unfolding demo_used_def demo_used_tx by simp

lemma demo_exchange_ok:
  "CreateAccessTokenSession demo_prims demo_store demo_call Exec_Ok id Exec_Ok (''at-'' @ n) demo_request (demo_used n, demo_grants) =
     ((demo_exchange n, demo_grants), Inr ())"
  by (simp add: demo_exchange_def demo_used_eq CreateAccessTokenSession_def password_mismatch_def access_statements_def
      encodeRequest_def demo_request_def demo_store_def issue_condition_def principalGuard_def password_guard_def empty_tx_def
      accountExpiryGuard_def profileGuard_def dpop_guard_def
      client_statements_def Let_def mutate_def openid_granted_def session_extra_def demo_session_def place_cutoffs_def
      managedClientGuard_def form_value_def)

lemma demo_exchange_built: "built demo_prims demo_store (demo_exchange n)"
proof -
  have "built demo_prims demo_store (demo_used n)"
    using built.use_code [OF demo_begun_ok demo_used_tx] unfolding demo_used_def demo_used_tx by simp
  moreover have "grants_tokens (demo_used n)" by (simp add: grants_tokens_def demo_used_eq empty_tx_def)
  ultimately show ?thesis using demo_exchange_ok by (rule built.access)
qed

definition demo_code_tx :: "string \<Rightarrow> transaction" where
  "demo_code_tx n =
     (let a = b64_encode n; spent = A_CodeUsed ''c'' a; sig = ''at-'' @ n
      in empty_tx\<lparr>tx_attempt := a, tx_kind := T_Code, tx_key := ''c'', tx_request_id := the (kind_request_id demo_prims T_Code ''c'' a),
           tx_statements :=
             [plain (UseCode ''c'' a), \<lparr>st_action = DeletePKCE ''c'', st_guard = [spent], st_exact = False\<rparr>,
              plain (DeleteExpiredAccess 2000), plain DeleteOrphanRequests,
              \<lparr>st_action = InsertAccess (access_row_of sig demo_request demo_session []), st_guard = [spent], st_exact = False\<rparr>,
              \<lparr>st_action = InsertRequest \<lparr>tr_sig = sig, tr_request = demo_record\<rparr>, st_guard = [spent], st_exact = False\<rparr>,
              \<lparr>st_action = TouchClient ''app'' 2000, st_guard = [A_Issued sig ''q'' ''app'', A_HasRequest sig, spent], st_exact = False\<rparr>,
              \<lparr>st_action = UpsertUserClient ''s'' ''app'' '''' False False 2000, st_guard = [A_Issued sig ''q'' ''app'', A_HasRequest sig],
               st_exact = False\<rparr>]\<rparr>)"

lemma demo_exchange_tx: "cx_tx (demo_exchange n) = Some (demo_code_tx n)"
  by (simp add: demo_exchange_def demo_used_eq CreateAccessTokenSession_def password_mismatch_def access_statements_def
      encodeRequest_def demo_defs issue_condition_def principalGuard_def password_guard_def empty_tx_def
      accountExpiryGuard_def profileGuard_def dpop_guard_def
      client_statements_def Let_def mutate_def openid_granted_def session_extra_def place_cutoffs_def
      managedClientGuard_def form_value_def demo_code_tx_def spent_atom_def client_id_def client_logout_uri_def)

lemma demo_grants_inv: "grant_inv demo_grants"
  by (simp add: grant_inv_def demo_grants_def sql_unique_def)

lemma demo_code_statements: "commit_statements 3000 3000 (demo_code_tx n) = Inr (tx_statements (demo_code_tx n))"
  by (simp add: commit_statements_def submitted_def demo_code_tx_def Let_def empty_tx_def accountDeadline_def)

lemma demo_code_committed: "snd (Commit demo_commit (demo_exchange n, demo_grants)) = Inr ()"
  unfolding Commit_def demo_exchange_tx
  by (simp add: demo_commit_def demo_exchange_tx demo_code_statements)
     (simp add: demo_code_tx_def Let_def empty_tx_def kind_request_id_def run_execute_def exec_stmt_def demo_defs encodeRequest_def sql_update_def sql_count_def sql_delete_def sql_exists_def
        insert_unique_def access_row_of_def expires_ms_def client_id_def upsert_user_client_def reads_back_def took_effect_def count_is_def)

definition demo_refresh_tx :: "string \<Rightarrow> transaction" where
  "demo_refresh_tx n =
     (let a = b64_encode n; rotated = [A_Rotated ''r'' a]
      in empty_tx\<lparr>tx_attempt := a, tx_kind := T_Refresh, tx_key := ''r'', tx_request_id := the (kind_request_id demo_prims T_Refresh ''r'' a),
           tx_device_request := ''q'',
           tx_statements :=
             [plain (RotateRefresh ''r'' ''q'' a), \<lparr>st_action = DeactivateFamily ''q'', st_guard = rotated, st_exact = False\<rparr>,
              \<lparr>st_action = DeleteFamilyAccess ''q'', st_guard = rotated, st_exact = False\<rparr>, plain DeleteOrphanRequests]\<rparr>)"

definition demo_rotate :: "string \<Rightarrow> ctx" where
  "demo_rotate n = (demo_begun n)\<lparr>cx_tx := Some (demo_refresh_tx n)\<rparr>"

lemma demo_rotate_ok: "RotateRefreshToken demo_prims demo_store demo_call ''q'' ''r'' (cx_tx (demo_begun n)) = Inr (demo_refresh_tx n)"
  by (simp add: demo_begun_def BeginTX_def demo_defs Let_def RotateRefreshToken_def configureTX_def kind_request_id_def
      captureManagedSnapshot_def sql_select_def encodeRequest_def principalGuard_def password_guard_def accountExpiryGuard_def
      profileGuard_def dpop_guard_def managedGuard_def empty_tx_def demo_refresh_tx_def)

lemma demo_rotate_built: "built demo_prims demo_store (demo_rotate n)"
  using built.rotate [OF demo_begun_ok demo_rotate_ok] by (simp add: demo_rotate_def)

lemma demo_refresh_statements: "commit_statements 3000 3000 (demo_refresh_tx n) = Inr (tx_statements (demo_refresh_tx n))"
  by (simp add: commit_statements_def submitted_def demo_refresh_tx_def Let_def empty_tx_def accountDeadline_def)

lemma demo_refresh_committed: "snd (Commit demo_commit (demo_rotate n, demo_grants)) = Inr ()"
  unfolding Commit_def demo_rotate_def
  by (simp add: demo_commit_def demo_refresh_statements)
     (simp add: demo_refresh_tx_def Let_def empty_tx_def kind_request_id_def run_execute_def exec_stmt_def demo_defs encodeRequest_def
        sql_update_def sql_count_def sql_delete_def sql_exists_def reads_back_def took_effect_def count_is_def)

theorem code_single_use_witness:
  "snd (Commit demo_commit (demo_exchange ''a'', demo_grants)) = Inr () \<and>
   snd (Commit demo_commit (demo_exchange ''b'', snd (fst (Commit demo_commit (demo_exchange ''a'', demo_grants))))) \<noteq> Inr ()"
proof -
  let ?db1 = "snd (fst (Commit demo_commit (demo_exchange ''a'', demo_grants)))"
  have c: "Commit demo_commit (demo_exchange ''a'', demo_grants) =
      ((fst (fst (Commit demo_commit (demo_exchange ''a'', demo_grants))), ?db1), Inr ())"
    using demo_code_committed [of "''a''"] by (metis prod.collapse)
  have "snd (Commit demo_commit (demo_exchange ''b'', ?db1)) \<noteq> Inr () \<and>
      \<not> tokens_added ?db1 (apply_event (E_Tx (demo_code_tx ''b'') (co_now demo_commit) (co_cutoff demo_commit)) ?db1)"
    by (rule code_single_use [OF demo_grants_inv demo_exchange_built demo_exchange_tx _ c, where vs = "[]" and us = "[]" and ws = "[]",
          OF _ _ _ demo_exchange_built demo_exchange_tx])
      (simp_all add: demo_code_tx_def Let_def demo_commit_def b64_encode_inj del: b64_encode.simps)
  then show ?thesis using demo_code_committed by blast
qed

theorem refresh_single_use_witness:
  "snd (Commit demo_commit (demo_rotate ''a'', demo_grants)) = Inr () \<and>
   snd (Commit demo_commit (demo_rotate ''b'', snd (fst (Commit demo_commit (demo_rotate ''a'', demo_grants))))) \<noteq> Inr ()"
proof -
  let ?db1 = "snd (fst (Commit demo_commit (demo_rotate ''a'', demo_grants)))"
  have t: "cx_tx (demo_rotate n) = Some (demo_refresh_tx n)" for n by (simp add: demo_rotate_def)
  have c: "Commit demo_commit (demo_rotate ''a'', demo_grants) =
      ((fst (fst (Commit demo_commit (demo_rotate ''a'', demo_grants))), ?db1), Inr ())"
    using demo_refresh_committed [of "''a''"] by (metis prod.collapse)
  have "snd (Commit demo_commit (demo_rotate ''b'', ?db1)) \<noteq> Inr () \<and>
      \<not> tokens_added ?db1 (apply_event (E_Tx (demo_refresh_tx ''b'') (co_now demo_commit) (co_cutoff demo_commit)) ?db1)"
    by (rule refresh_single_use [OF demo_grants_inv demo_rotate_built t _ c, where vs = "[]" and us = "[]" and ws = "[]",
          OF _ _ _ demo_rotate_built t])
      (simp_all add: demo_refresh_tx_def Let_def demo_commit_def b64_encode_inj del: b64_encode.simps)
  then show ?thesis using demo_refresh_committed by blast
qed

section \<open>Logout\<close>

lemma run_authorized_Inr:
  assumes "run_authorized f allowed n as db = (db', Inr ())"
  shows "allowed db \<and> (\<exists>k. run_actions as db = Some (db', k))"
proof -
  have r: "run_tx (map (\<lambda>a. exec_stmt 0 (plain a)) as) = run_actions as" by (simp add: run_actions_def)
  obtain k where "run_tx (authority_stmt allowed n # map (\<lambda>a. exec_stmt 0 (plain a)) as) db = Some (db', k)"
    using assms by (auto simp: run_authorized_def run_execute_Inr_db split: prod.splits sum.splits exec_err.splits)
  then show ?thesis by (auto simp: authority_stmt_def r split: if_splits option.splits)
qed

lemma run_authorized_refused: "\<not> allowed db \<Longrightarrow> fst (run_authorized f allowed n as db) = db \<and> snd (run_authorized f allowed n as db) \<noteq> Inr ()"
  by (cases f) (auto simp: run_authorized_def run_execute_def authority_stmt_def)

text \<open>C3. The logout of a browser session is final. Once the logout of a relying party is answered, no code, refresh
  token or token request that carries the session is usable and the session stays revoked, after any run of committed
  transactions, batches and changes of other components in which tokens of the session are only written for grants of
  the session. The commits include transactions that were begun before the logout.\<close>

theorem logout_final:
  assumes "cx_tx cx = None" "RevokeOIDCSession entropy sid now f (cx, db) = ((cx, db1), Inr ())"
    and "(lawful_step (sid_artefacts sid) (session_shut sid))\<^sup>*\<^sup>* db1 db2"
  shows "artefacts_gone (selects (W_Sid sid)) db2 \<and> session_shut sid db2"
proof -
  obtain event as n where s: "SessionRevocationStatements sid event (Some now) = Some as" and r: "run_actions as db = Some (db1, n)"
    using assms(1,2) unfolding RevokeOIDCSession_def run_actions_def
    by (auto simp: mutate_def run_execute_Inr_db o_def split: if_splits option.splits prod.splits sum.splits)
  then obtain at where a: "run_actions (logout_actions (W_Sid sid) event at [DeleteSessionClients (W_Sid sid)]) db = Some (db1, n)"
    using session_statements by blast
  have "dead (sid_artefacts sid) db1" "session_shut sid db1"
    using logout_actions_shut [OF a] by (simp_all add: gone_dead sessions_shut_def session_shut_def)
  then show ?thesis using by_sid.dead_run [OF assms(3)] by (simp add: gone_dead)
qed

text \<open>C4. An administrator's logout of a subject that is answered had the authority at the moment it committed, and
  leaves the subject no unused code, no active refresh token, no token request and no unrevoked session.\<close>

theorem forced_logout_complete:
  assumes "ForceLogout P operation target (Some allowed) now f db = (db', Inr ())"
  shows "allowed db \<and> artefacts_gone (selects (W_Subject target)) db' \<and> sessions_shut (\<lambda>b. bs_subject b = target) db'"
proof -
  let ?rest = "[DenyDevices target, DeleteSessionClients (W_Subject target), DeleteUserClients (W_Subject target),
      InsertEvent (eventID P operation ''ForcedLogout'')]"
  obtain k where k: "allowed db" "run_actions (force_logout_actions P operation target now) db = Some (db', k)"
    using assms run_authorized_Inr by (fastforce simp: ForceLogout_def split: if_splits)
  then have "run_actions (logout_actions (W_Subject target) operation now ?rest) db = Some (db', k)"
    by (simp add: force_logout_actions_def logout_actions_def)
  from logout_actions_shut [OF this] show ?thesis using k(1) by (simp add: sessions_shut_def)
qed

text \<open>C5. Without the authority an administrator's logout changes nothing and is not answered, whatever else holds.\<close>

theorem logout_needs_authority:
  assumes "\<not> allowed db"
  shows "fst (ForceLogout P operation target (Some allowed) now f db) = db \<and> snd (ForceLogout P operation target (Some allowed) now f db) \<noteq> Inr () \<and>
    fst (LogoutAllSessions operation (Some allowed) now f db) = db \<and> snd (LogoutAllSessions operation (Some allowed) now f db) \<noteq> Inr ()"
  using assms run_authorized_refused by (simp_all add: ForceLogout_def LogoutAllSessions_def)

text \<open>The same for the logout of everybody, and for the deletion of one session, which also removes its row.\<close>

lemma logout_all_complete:
  assumes "LogoutAllSessions operation (Some allowed) now f db = (db', Inr ())"
  shows "allowed db \<and> artefacts_gone (\<lambda>_. True) db' \<and> sessions_shut (\<lambda>_. True) db'"
proof -
  obtain k where k: "allowed db" "run_actions (logout_all_actions operation now) db = Some (db', k)"
    using assms run_authorized_Inr by (fastforce simp: LogoutAllSessions_def split: if_splits)
  then have "run_actions (logout_actions W_All operation now [DeleteSessionClients W_All, DeleteUserClients W_All]) db = Some (db', k)"
    by (simp add: logout_all_actions_def logout_actions_def)
  from logout_actions_shut [OF this] show ?thesis using k(1) by (simp add: sessions_shut_def artefacts_gone_def)
qed

lemma delete_session_complete:
  assumes "DeleteSession_op operation sid (Some allowed) at fails other f db = (db', Inr ())"
  shows "artefacts_gone (selects (W_Sid sid)) db' \<and> \<not> has_session sid db'"
proof -
  obtain as k where s: "SessionRevocationStatements sid operation at = Some as" and r: "run_actions (as @ [DeleteBindings sid, DeleteSession sid]) (other db) = Some (db', k)"
    using assms run_authorized_Inr by (fastforce simp: DeleteSession_op_def split: if_splits option.splits)
  then obtain now where
      a: "run_actions (logout_actions (W_Sid sid) operation now [DeleteSessionClients (W_Sid sid), DeleteBindings sid, DeleteSession sid]) (other db) = Some (db', k)"
    using session_statements by (fastforce simp: logout_actions_def)
  from r obtain db1 i j where "run_actions [DeleteBindings sid, DeleteSession sid] db1 = Some (db', j)" by (rule run_actions_append)
  then have "\<not> has_session sid db'" by (auto simp: run_actions_Cons run_actions_Nil Let_def has_session_def sql_exists_iff set_sql_delete)
  then show ?thesis using logout_actions_shut(1) [OF a] by simp
qed

definition demo_sid :: string where
  "demo_sid = b64_encode (replicate 32 (CHR ''A''))"

definition demo_bound :: request_record where
  "demo_bound = demo_record\<lparr>rr_extra := Some [oidcSessionIDExtra \<mapsto> J_Str demo_sid]\<rparr>"

definition demo_logged_in :: grant_db where
  "demo_logged_in = demo_grants
     \<lparr>codes := [\<lparr>co_sig = ''c'', co_request = demo_bound, co_expires = 900000, co_invalidated = False, co_attempt = None\<rparr>],
      refreshes := [], users := [\<lparr>us_subject = ''s'', us_disabled = False, us_expires = None, us_password_generation = 1\<rparr>],
      sessions := [\<lparr>bs_digest = demo_sid, bs_subject = ''s'', bs_expires = 900000, bs_last_seen = 1000, bs_revoked = None\<rparr>]\<rparr>"

text \<open>An exchange of the session's code that was begun before the logout.\<close>

definition demo_late :: transaction where
  "demo_late = empty_tx\<lparr>tx_attempt := ''a'', tx_kind := T_Code, tx_key := ''c'', tx_request_id := ''i'',
     tx_statements := [plain (UseCode ''c'' ''a''), \<lparr>st_action = InsertRequest \<lparr>tr_sig = ''at'', tr_request = demo_bound\<rparr>,
       st_guard = [A_CodeUsed ''c'' ''a''], st_exact = False\<rparr>]\<rparr>"

lemma demo_sid_valid: "validOIDCSessionID demo_sid"
  by (simp add: demo_sid_def validOIDCSessionID_def b64_roundtrip)

lemma demo_bound_sid: "json_sid demo_bound = Some demo_sid"
  by (simp add: demo_bound_def json_sid_def)

definition demo_logout :: "(ctx \<times> grant_db) \<times> (grant_err + unit)" where
  "demo_logout = RevokeOIDCSession (Some ''x'', Some ''y'') demo_sid 5000 Exec_Ok (demo_ctx, demo_logged_in)"

lemma demo_texts: "\<not> is_blank_text (b64_encode ''y'')" "\<not> is_blank_text ''op''" "trimmed ''s''"
  by (simp_all add: is_blank_text_def trimmed_def runes_ascii is_ascii_def byte_of_def b64_char_def is_space_def)

lemma demo_logout_run:
  "fst (fst demo_logout) = demo_ctx \<and> snd demo_logout = Inr ()"
  "codes (snd (fst demo_logout)) = [\<lparr>co_sig = ''c'', co_request = demo_bound, co_expires = 900000, co_invalidated = True, co_attempt = None\<rparr>]"
  using demo_sid_valid demo_texts(1) demo_bound_sid
  by (simp_all add: demo_logout_def RevokeOIDCSession_def SessionRevocationStatements_def run_execute_def revoke_artefacts_def mutate_def
      demo_ctx_def plain_exec Let_def demo_logged_in_def demo_grants_def sql_exists_def sql_select_def sql_update_def
      del: b64_encode.simps)

lemma demo_late_wf: "event_wf (E_Tx demo_late 6000 6000)"
  by (simp add: demo_late_def tx_wf_def stmt_wf_def tied_def empty_tx_def)

theorem logout_final_witness:
  "snd (RevokeOIDCSession (Some ''x'', Some ''y'') demo_sid 5000 Exec_Ok (demo_ctx, demo_logged_in)) = Inr () \<and>
   \<not> sql_exists (\<lambda>t. json_sid (tr_request t) = Some demo_sid)
     (token_requests (apply_event (E_Tx demo_late 6000 6000) (snd (fst demo_logout))))"
proof -
  let ?db = "snd (fst demo_logout)"
  have r: "RevokeOIDCSession (Some ''x'', Some ''y'') demo_sid 5000 Exec_Ok (demo_ctx, demo_logged_in) = ((demo_ctx, ?db), Inr ())"
    using demo_logout_run(1) unfolding demo_logout_def by (metis prod.collapse)
  have c: "cx_tx demo_ctx = None" by (simp add: demo_ctx_def)
  have "event_law (sid_artefacts demo_sid) (session_shut demo_sid) (E_Tx demo_late 6000 6000) ?db"
    using demo_bound_sid demo_logout_run(2) by (simp add: demo_late_def sid_artefacts_def grant_in_class_def)
  then have s: "(lawful_step (sid_artefacts demo_sid) (session_shut demo_sid))\<^sup>*\<^sup>* ?db (apply_event (E_Tx demo_late 6000 6000) ?db)"
    using demo_late_wf lawful_step.event by blast
  show ?thesis using logout_final [OF c r s] r by (simp add: artefacts_gone_def sql_exists_iff)
qed

theorem forced_logout_complete_witness:
  "\<exists>db'. ForceLogout demo_prims ''op'' ''s'' (Some (\<lambda>_. True)) 5000 Exec_Ok demo_logged_in = (db', Inr ()) \<and> sessions_shut (\<lambda>b. bs_subject b = ''s'') db'"
proof -
  obtain db' where r: "ForceLogout demo_prims ''op'' ''s'' (Some (\<lambda>_. True)) 5000 Exec_Ok demo_logged_in = (db', Inr ())"
    using demo_texts by (simp add: ForceLogout_def run_authorized_def force_logout_actions_def run_execute_def authority_stmt_def plain_exec
      revoke_artefacts_def Let_def demo_logged_in_def demo_grants_def sql_exists_def sql_select_def deny_subject_stmt_def
      commit_grants_def grants_ok_def sql_update_def sql_unique_def sql_unique_some_def)
  show ?thesis using forced_logout_complete [OF r] r by blast
qed

theorem logout_needs_authority_witness:
  "fst (ForceLogout demo_prims ''op'' ''s'' (Some (\<lambda>d. ''s'' \<in> set (admins d))) 5000 Exec_Ok demo_logged_in) = demo_logged_in"
  using logout_needs_authority [of "\<lambda>d. ''s'' \<in> set (admins d)" demo_logged_in demo_prims "''op''" "''s''" 5000 Exec_Ok]
  by (simp add: demo_logged_in_def demo_grants_def)

section \<open>Persisted requests\<close>

lemma empty_jkt: "\<not> validDPoPJKT (sessionDPoPJKT empty_session)"
  by (simp add: validDPoPJKT_def sessionDPoPJKT_def empty_session_def)

lemma load_encoded:
  assumes "encodeRequest r = Some rec" "rq_session r = Some s"
  shows "load_session rec empty_session = s"
proof -
  have "rr_username rec = se_username s" "rr_subject rec = se_subject s" "rr_extra rec = se_extra s" "rr_expires rec = se_expires s"
    using assms by (auto simp: encodeRequest_def)
  then show ?thesis using empty_jkt by (simp add: load_session_def Let_def empty_session_def)
qed



text \<open>C18. A client whose metadata document allows no resource at all is accepted, but the snapshot of it that is stored
  with a request cannot be read back: the empty list is dropped from the JSON, a snapshot with the presence mark and
  without the list is invalid, and so no code or token of such a client can be used.\<close>

theorem explicit_deny_unreadable:
  assumes "newEphemeralClientRecord P c = Some (Ephemeral c)" "ec_resources c = Some []" "ec_resources_present c"
    and "rq_client r = Ephemeral c" "encodeRequest r = Some rec"
  shows "\<exists>x. decodeRequest P st e rec target = Inl x"
proof -
  have "rr_managed rec = None" "rr_ephemeral rec = Some (persisted_client c)" using assms(4,5) by (auto simp: encodeRequest_def split: option.splits)
  moreover have "newEphemeralClientRecord P (persisted_client c) = None"
    using assms(2,3) by (auto simp: newEphemeralClientRecord_def persisted_client_def)
  ultimately have "stored_client P st (ce_db e) rec = Inl G_Client" by (simp add: stored_client_def)
  then show ?thesis by (simp add: decodeRequest_def)
qed

definition demo_url :: "string \<Rightarrow> url option" where
  "demo_url s = Some \<lparr>url_Scheme = ''https'', url_Opaque = '''', url_Host = ''c.test'', url_Hostname = ''c.test'', url_Port = '''',
     url_has_User = False, url_EscapedPath = ''/'', url_RawQuery = '''', url_ForceQuery = False, url_Fragment = ''''\<rparr>"

definition demo_deny :: ephemeral_client where
  "demo_deny = \<lparr>ec_id = ''c'', ec_name = '''', ec_redirects = [''r''], ec_scopes = [''openid''], ec_resources = Some [], ec_resources_present = True\<rparr>"

lemma demo_deny_accepted: "newEphemeralClientRecord (demo_prims\<lparr>url_ParseRequestURI := demo_url\<rparr>) demo_deny = Some (Ephemeral demo_deny)"
proof -
  have "trimmed ''c''" by (simp add: trimmed_def runes_ascii is_ascii_def byte_of_def is_space_def)
  then show ?thesis
    by (simp add: newEphemeralClientRecord_def demo_deny_def cimdClientIDCandidate_def demo_prims_def demo_url_def ephemeralScopes_def
        validEphemeralResources_def valid_redirect_def sameEphemeralOrigin_def EqualFold_def is_ascii_def)
qed

theorem explicit_deny_unreadable_witness:
  "newEphemeralClientRecord (demo_prims\<lparr>url_ParseRequestURI := demo_url\<rparr>) demo_deny = Some (Ephemeral demo_deny) \<and>
   (\<exists>x. decodeRequest (demo_prims\<lparr>url_ParseRequestURI := demo_url\<rparr>) demo_store demo_call
     (the (encodeRequest (demo_request\<lparr>rq_client := Ephemeral demo_deny\<rparr>))) None = Inl x)"
proof -
  obtain rec where rec: "encodeRequest (demo_request\<lparr>rq_client := Ephemeral demo_deny\<rparr>) = Some rec"
    by (simp add: encodeRequest_def demo_request_def)
  show ?thesis
    using explicit_deny_unreadable [OF demo_deny_accepted _ _ _ rec, of demo_store demo_call None] demo_deny_accepted rec
    by (simp add: demo_deny_def)
qed

section \<open>Revocation of a family\<close>

lemma revoked_rows:
  assumes "run_actions [DeleteFamilyAccess i, DeleteOrphanRequests, DeactivateFamily i] db = Some (db1, n)"
  shows "codes db1 = codes db" and "refreshes db1 = sql_update (\<lambda>r. re_request_id r = i) (\<lambda>r. r\<lparr>re_active := False\<rparr>) (refreshes db)"
    and "accesses db1 = sql_delete (\<lambda>r. ac_request_id r = i) (accesses db)"
  using assms unfolding run_actions_Cons run_actions_Nil act.simps Let_def option.case prod.case by auto

lemma mutate_alone:
  assumes "cx_tx cx = None" "mutate f (map plain as) (cx, db) = ((cx1, db1), Inr ())"
  obtains n where "run_actions as db = Some (db1, n)"
proof -
  have m: "map (exec_stmt 0) (map plain as) = map (\<lambda>a. exec_stmt 0 (plain a)) as" by simp
  obtain db2 x where r: "run_execute f (run_actions as) db = (db2, x)" by (cases "run_execute f (run_actions as) db")
  have "mutate f (map plain as) (cx, db) =
      (case x of Inl y \<Rightarrow> ((cx, db2), Inl (G_Exec y)) | Inr _ \<Rightarrow> ((cx, db2), Inr ()))"
    unfolding mutate_def Let_def prod.case assms(1) option.case m run_actions_def [symmetric] r ..
  then obtain n where "x = Inr n" "db2 = db1" using assms(2) by (cases x) auto
  then have "run_execute f (run_actions as) db = (db1, Inr n)" using r by simp
  then show thesis unfolding run_execute_Inr_db by (elim conjE) (rule that)
qed


definition demo_reused :: grant_db where
  "demo_reused = demo_grants\<lparr>codes := []\<rparr>"

definition demo_revoked :: "(ctx \<times> grant_db) \<times> (grant_err + unit)" where
  "demo_revoked = RevokeAccessToken Exec_Ok ''q'' (demo_ctx, demo_reused)"

lemma demo_revoked_run: "demo_revoked = ((demo_ctx, snd (fst demo_revoked)), Inr ())"
  by (simp add: demo_revoked_def RevokeAccessToken_def mutate_def demo_ctx_def run_execute_def plain_exec Let_def)


end
