(* ===== verification/TokenExchange.thy ===== *)
theory TokenExchange
  imports GrantTheorems
begin

text \<open>
  The token exchange of RFC 8693 in \<^verbatim>\<open>internal/oauth/token_exchange.go\<close>: the validation of the subject and actor
  tokens, the narrowing of scopes, audiences and lifetime, and the issue of the target token in a transaction that is
  guarded by both input tokens. The strategy that generates and validates token strings, the removal of secrets from a
  request and the lifetimes of clients belong to the protocol library and are parameters.
\<close>

section \<open>Requests\<close>

record exchange_config =
  xc_signature :: "string \<Rightarrow> string"
  xc_valid :: "request \<Rightarrow> string \<Rightarrow> bool"
  xc_generate :: "request \<Rightarrow> string option"
  xc_sanitize :: "request \<Rightarrow> request"
  xc_lifespan :: "client \<Rightarrow> millis"
  xc_public :: "client \<Rightarrow> bool"
  xc_grants :: "client \<Rightarrow> string list"
  xc_audience :: "client \<Rightarrow> string list"
  xc_allowed :: "string list"
  xc_defaults :: "string \<rightharpoonup> string"

datatype exchange_err =
    X_Unauthorized | X_InvalidRequest | X_InvalidGrant | X_InvalidTarget | X_InvalidScope | X_Server | X_Unknown

text \<open>A token request with its grant types and the fields of its form.\<close>

type_synonym form = "(string \<times> string list) list"

record access_request =
  ar_request :: request
  ar_grants :: "string list"
  ar_form :: form

definition accessTokenType :: string where
  "accessTokenType = ''urn:ietf:params:oauth:token-type:access_token''"

definition exchange_fields :: "string list" where
  "exchange_fields =
     [''grant_type'', ''client_id'', ''client_secret'', ''subject_token'', ''subject_token_type'', ''actor_token'',
      ''actor_token_type'', ''requested_token_type'', ''scope'', ''resource'', ''audience'']"

definition onlyExchangeFields :: "form \<Rightarrow> bool" where
  "onlyExchangeFields form \<longleftrightarrow> list_all (\<lambda>(k, _). k \<in> set exchange_fields) form"

definition exactlyOne :: "form \<Rightarrow> string \<Rightarrow> string option" where
  "exactlyOne form key = (case map_of form key of Some [v] \<Rightarrow> if v = '''' then None else Some v | _ \<Rightarrow> None)"

definition form_Get :: "form \<Rightarrow> string \<Rightarrow> string" where
  "form_Get form key = (case map_of form key of Some (v # _) \<Rightarrow> v | _ \<Rightarrow> '''')"

definition form_Set :: "string \<Rightarrow> string \<Rightarrow> form \<Rightarrow> form" where
  "form_Set key v form = (key, [v]) # filter (\<lambda>(k, _). k \<noteq> key) form"

definition form_Del :: "string list \<Rightarrow> form \<Rightarrow> form" where
  "form_Del keys form = filter (\<lambda>(k, _). k \<notin> set keys) form"

section \<open>Input tokens\<close>

text \<open>The three reads of an input token are separate: its request, its users and its expiry.\<close>

record input_reads =
  in_request :: call_env
  in_accounts :: call_env
  in_expiry :: call_env

definition exchangePrincipal ::
  "prims \<Rightarrow> store \<Rightarrow> exchange_config \<Rightarrow> input_reads \<Rightarrow> millis \<Rightarrow> string \<Rightarrow> (request \<times> string \<times> session) option" where
  "exchangePrincipal P st xc e now raw =
     (let sig = xc_signature xc raw
      in case GetAccessTokenSession P st (in_request e) sig (Some empty_session) of
           R_Usable r \<Rightarrow>
             (case rq_session r of
                None \<Rightarrow> None
              | Some s \<Rightarrow>
                  if xc_valid xc r raw \<and> sessionDPoPJKT s = '''' \<and> validateTokenAccounts (in_accounts e) r = Inr () \<and>
                     now < expires_ms s AccessToken
                  then Some (r, sig, s) else None)
         | _ \<Rightarrow> None)"

text \<open>The expiry of a row that is still live.\<close>

definition live_expiry :: "call_env \<Rightarrow> millis \<Rightarrow> string \<Rightarrow> millis option" where
  "live_expiry e now sig = (case accessTokenExpiry e sig of Inr x \<Rightarrow> if now < x then Some x else None | Inl _ \<Rightarrow> None)"

record actor_input =
  ai_sig :: string
  ai_expiry :: millis
  ai_chain :: "string list"
  ai_flags :: "bool list"

text \<open>The actor of the form: absent, or its token with the chain it becomes the head of.\<close>

definition exchange_actor ::
  "prims \<Rightarrow> store \<Rightarrow> exchange_config \<Rightarrow> input_reads \<Rightarrow> millis \<Rightarrow> form \<Rightarrow> exchange_err + actor_input option" where
  "exchange_actor P st xc e now form =
     (case map_of form ''actor_token'' of
        None \<Rightarrow> if map_of form ''actor_token_type'' \<noteq> None then Inl X_InvalidRequest else Inr None
      | Some tokens \<Rightarrow>
          if length tokens \<noteq> 1 \<or> hd tokens = '''' then Inl X_InvalidRequest
          else if exactlyOne form ''actor_token_type'' \<noteq> Some accessTokenType then Inl X_InvalidRequest
          else case exchangePrincipal P st xc e now (hd tokens) of
            None \<Rightarrow> Inl X_InvalidGrant
          | Some (r, sig, s) \<Rightarrow>
              (case (accessSessionActor s, machineTokenSubject r) of
                 (Some prior, Some (subject, machine)) \<Rightarrow>
                   if subject = '''' then Inl X_InvalidGrant
                   else (case actorMachineFlags s prior of
                           None \<Rightarrow> Inl X_InvalidGrant
                         | Some flags \<Rightarrow>
                             (case Option.bind (actorClaimsExtra (subject # prior)) ParseActorClaims of
                                None \<Rightarrow> Inl X_InvalidGrant
                              | Some chain \<Rightarrow>
                                  (case live_expiry (in_expiry e) now sig of
                                     None \<Rightarrow> Inl X_InvalidGrant
                                   | Some x \<Rightarrow> Inr (Some \<lparr>ai_sig = sig, ai_expiry = x, ai_chain = chain, ai_flags = machine # flags\<rparr>))))
               | _ \<Rightarrow> Inl X_InvalidGrant))"

section \<open>Narrowing\<close>

definition target_audience ::
  "prims \<Rightarrow> exchange_config \<Rightarrow> client \<Rightarrow> string list \<Rightarrow> string list \<Rightarrow> exchange_err + string list" where
  "target_audience P xc c values audiences =
     (case values of
        [target] \<Rightarrow>
          if \<not> validResourceURL P target \<or> target \<notin> set (xc_audience xc c) \<or> target \<notin> set (xc_allowed xc) then Inl X_InvalidTarget
          else Inr (if target \<in> set audiences then audiences else audiences @ [target])
      | _ \<Rightarrow> Inl X_InvalidRequest)"

definition exchange_audiences :: "prims \<Rightarrow> exchange_config \<Rightarrow> client \<Rightarrow> form \<Rightarrow> exchange_err + string list" where
  "exchange_audiences P xc c form =
     (let audiences = (case (c, xc_defaults xc (client_id c)) of
            (Managed _, _) \<Rightarrow> [] | (_, Some v) \<Rightarrow> if v = '''' then [] else [v] | (_, None) \<Rightarrow> [])
      in case (map_of form ''resource'', map_of form ''audience'') of
           (Some _, Some _) \<Rightarrow> Inl X_InvalidRequest
         | (Some vs, None) \<Rightarrow> target_audience P xc c vs audiences
         | (None, Some vs) \<Rightarrow> target_audience P xc c vs audiences
         | (None, None) \<Rightarrow> Inr audiences)"

definition exchange_scopes :: "prims \<Rightarrow> string list \<Rightarrow> form \<Rightarrow> exchange_err + string list" where
  "exchange_scopes P source form =
     (case map_of form ''scope'' of
        None \<Rightarrow> Inr source
      | Some [v] \<Rightarrow>
          if v = '''' then Inl X_InvalidScope
          else let scopes = Fields P v
               in if scopes = [] \<or> \<not> distinct scopes \<or> \<not> set scopes \<subseteq> set source then Inl X_InvalidScope else Inr scopes
      | Some _ \<Rightarrow> Inl X_InvalidScope)"

section \<open>The handler\<close>

definition exchangeSourceSignatureForm :: string where "exchangeSourceSignatureForm = ''goauthy_exchange_source_signature''"
definition exchangeSourceExpiryForm :: string where "exchangeSourceExpiryForm = ''goauthy_exchange_source_expiry''"
definition exchangeActorSignatureForm :: string where "exchangeActorSignatureForm = ''goauthy_exchange_actor_signature''"
definition exchangeActorExpiryForm :: string where "exchangeActorExpiryForm = ''goauthy_exchange_actor_expiry''"

definition may_exchange :: "store \<Rightarrow> exchange_config \<Rightarrow> access_request \<Rightarrow> bool" where
  "may_exchange st xc a \<longleftrightarrow>
     (let c = rq_client (ar_request a)
      in ar_grants a = [TokenExchangeGrantType] \<and> TokenExchangeGrantType \<in> set (xc_grants xc c) \<and> \<not> xc_public xc c \<and>
         (case c of Managed m \<Rightarrow> cl_enabled m | _ \<Rightarrow> so_client st = Some (client_id c)))"

text \<open>The session of the target token: the subject of the source, and nothing of its data but a machine marker.\<close>

definition target_extra :: "bool \<Rightarrow> actor_input option \<Rightarrow> string \<rightharpoonup> json" where
  "target_extra machine actor =
     (let m = (if machine then [machineSubjectExtra \<mapsto> J_Str ''''] else Map.empty)
      in case actor of
           None \<Rightarrow> m
         | Some i \<Rightarrow>
             if ai_sig i = '''' then m
             else m(''act'' := actorClaimsExtra (ai_chain i), actorMachineExtra \<mapsto> J_Arr (map J_Bool (ai_flags i))))"

definition exchange_form :: "string \<Rightarrow> millis \<Rightarrow> actor_input option \<Rightarrow> form \<Rightarrow> form" where
  "exchange_form sig expiry actor form =
     (let form = form_Set exchangeSourceExpiryForm (itoa expiry) (form_Set exchangeSourceSignatureForm sig form)
      in case actor of
           None \<Rightarrow> form
         | Some i \<Rightarrow>
             if ai_sig i = '''' then form
             else form_Set exchangeActorExpiryForm (itoa (ai_expiry i)) (form_Set exchangeActorSignatureForm (ai_sig i) form))"

definition HandleTokenEndpointRequest ::
  "prims \<Rightarrow> store \<Rightarrow> exchange_config \<Rightarrow> input_reads \<Rightarrow> input_reads \<Rightarrow> millis \<Rightarrow> access_request \<Rightarrow> exchange_err + access_request" where
  "HandleTokenEndpointRequest P st xc es ea now a =
     (let r = ar_request a; form = ar_form a
      in if \<not> may_exchange st xc a then Inl X_Unauthorized
         else if \<not> onlyExchangeFields form then Inl X_InvalidRequest
         else case exactlyOne form ''subject_token'' of
           None \<Rightarrow> Inl X_InvalidRequest
         | Some token \<Rightarrow>
             if exactlyOne form ''subject_token_type'' \<noteq> Some accessTokenType then Inl X_InvalidRequest
             else if map_of form ''requested_token_type'' \<notin> {None, Some [accessTokenType]} then Inl X_InvalidRequest
             else if (case rq_session r of None \<Rightarrow> False | Some target \<Rightarrow> sessionDPoPJKT target \<noteq> '''') then Inl X_InvalidRequest
             else case exchangePrincipal P st xc es now token of
               None \<Rightarrow> Inl X_InvalidGrant
             | Some (source, sig, s) \<Rightarrow>
                 (case live_expiry (in_expiry es) now sig of
                    None \<Rightarrow> Inl X_InvalidGrant
                  | Some expiry \<Rightarrow>
                      (case exchange_actor P st xc ea now form of
                         Inl x \<Rightarrow> Inl x
                       | Inr actor \<Rightarrow>
                           (case exchange_audiences P xc (rq_client r) form of
                              Inl x \<Rightarrow> Inl x
                            | Inr audiences \<Rightarrow>
                                (case exchange_scopes P (rq_granted_scopes source) form of
                                   Inl x \<Rightarrow> Inl x
                                 | Inr scopes \<Rightarrow>
                                     (case (rq_session r, machineTokenSubject source) of
                                        (None, _) \<Rightarrow> Inl X_Server
                                      | (Some target, None) \<Rightarrow> Inl X_InvalidGrant
                                      | (Some target, Some (_, machine)) \<Rightarrow>
                                          let remaining = (case actor of None \<Rightarrow> expiry | Some i \<Rightarrow> min expiry (ai_expiry i)) - now;
                                              lifespan = min (xc_lifespan xc (rq_client r)) remaining
                                          in if lifespan \<le> 0 then Inl X_InvalidGrant
                                             else Inr (a\<lparr>ar_form := exchange_form sig expiry actor form,
                                               ar_request := r\<lparr>rq_requested_scopes := so_arguments st scopes,
                                                 rq_granted_scopes := so_arguments st (rq_granted_scopes r @ scopes),
                                                 rq_requested_audience := so_arguments st audiences,
                                                 rq_granted_audience := so_arguments st (rq_granted_audience r @ audiences),
                                                 rq_session := Some (target\<lparr>se_subject := se_subject s, se_username := se_username s,
                                                   se_extra := Some (target_extra machine actor),
                                                   se_expires := (se_expires target)(AccessToken \<mapsto> now + lifespan)\<rparr>)\<rparr>\<rparr>)))))))"

text \<open>How the issue goes: its clocks, the state of the wall clock at each use, the writes and the commit.\<close>

record issue_env =
  ie_entropy :: "string option"
  ie_start :: millis
  ie_begin :: millis
  ie_after :: millis
  ie_call :: call_env
  ie_commit :: commit_env

definition exchange_secrets :: "string list" where
  "exchange_secrets =
     [''subject_token'', ''subject_token_type'', ''actor_token'', ''actor_token_type'', ''client_secret'',
      exchangeSourceSignatureForm, exchangeSourceExpiryForm, exchangeActorSignatureForm, exchangeActorExpiryForm]"

text \<open>The inputs that the first step left in the form.\<close>

definition exchange_inputs :: "form \<Rightarrow> (string \<times> millis \<times> string \<times> millis option) option" where
  "exchange_inputs form =
     (let sig = form_Get form exchangeSourceSignatureForm; actor = form_Get form exchangeActorSignatureForm
      in case ParseInt64 (form_Get form exchangeSourceExpiryForm) of
           None \<Rightarrow> None
         | Some x \<Rightarrow>
             if sig = '''' \<or> x \<le> 0 then None
             else if actor = '''' then (if form_Get form exchangeActorExpiryForm \<noteq> '''' then None else Some (sig, x, '''', None))
             else case ParseInt64 (form_Get form exchangeActorExpiryForm) of
                    None \<Rightarrow> None
                  | Some y \<Rightarrow> if y \<le> 0 then None else Some (sig, x, actor, Some y))"

definition PopulateTokenEndpointResponse ::
  "prims \<Rightarrow> store \<Rightarrow> exchange_config \<Rightarrow> issue_env \<Rightarrow> access_request \<Rightarrow> ctx \<times> grant_db \<Rightarrow> (ctx \<times> grant_db) \<times> (exchange_err + string)" where
  "PopulateTokenEndpointResponse P st xc e a s =
     (let (cx, db) = s
      in if ar_grants a \<noteq> [TokenExchangeGrantType] then (s, Inl X_Unknown)
         else case exchange_inputs (ar_form a) of
           None \<Rightarrow> (s, Inl X_Server)
         | Some (sig, x, actor, y) \<Rightarrow>
             let r = (ar_request a)\<lparr>rq_form := Some (map_of (form_Del exchange_secrets (ar_form a)))\<rparr>
             in if x \<le> ie_start e then (s, Inl X_InvalidGrant)
                else case beginTokenExchangeTX (ie_entropy e) (ie_begin e) sig x actor y cx of
                  Inl _ \<Rightarrow> (s, Inl X_Server)
                | Inr cx \<Rightarrow>
                    let remaining = (case y of None \<Rightarrow> x - ie_start e | Some y \<Rightarrow> min (x - ie_start e) (y - ie_after e));
                        lifespan = min (xc_lifespan xc (rq_client r)) remaining
                    in if lifespan \<le> 0 then ((Rollback cx, db), Inl X_InvalidGrant)
                       else case xc_generate xc r of
                         None \<Rightarrow> ((Rollback cx, db), Inl X_Server)
                       | Some target \<Rightarrow>
                           (case CreateAccessTokenSession P st (ie_call e) Exec_Ok id Exec_Ok target (xc_sanitize xc r) (cx, db) of
                              ((cx, db), Inl _) \<Rightarrow> ((Rollback cx, db), Inl X_Server)
                            | ((cx, db), Inr _) \<Rightarrow>
                                (case Commit (ie_commit e) (cx, db) of
                                   (s, Inl x) \<Rightarrow> (s, Inl (if x = G_Serialization then X_InvalidGrant else X_Server))
                                 | (s, Inr _) \<Rightarrow> (s, Inr target))))"

section \<open>Attenuation\<close>

lemma exchange_scopes_subset: "exchange_scopes P source form = Inr scopes \<Longrightarrow> set scopes \<subseteq> set source"
  by (auto simp: exchange_scopes_def Let_def split: option.splits list.splits if_splits)

lemma target_extra_no_session: "target_extra machine actor oidcSessionIDExtra = None"
  by (auto simp: target_extra_def Let_def oidcSessionIDExtra_def machineSubjectExtra_def actorMachineExtra_def split: option.splits)

lemma exchangePrincipal_request:
  "exchangePrincipal P st xc e now raw = Some (r, sig, s) \<Longrightarrow>
     sig = xc_signature xc raw \<and> GetAccessTokenSession P st (in_request e) sig (Some empty_session) = R_Usable r \<and> rq_session r = Some s"
  by (auto simp: exchangePrincipal_def Let_def split: read_result.splits option.splits if_splits)

lemma exchange_handled:
  assumes "HandleTokenEndpointRequest P st xc es ea now a = Inr a'"
  obtains token source sig s x actor audiences scopes target owner machine where
    "exactlyOne (ar_form a) ''subject_token'' = Some token"
    "exchangePrincipal P st xc es now token = Some (source, sig, s)" "live_expiry (in_expiry es) now sig = Some x"
    "exchange_actor P st xc ea now (ar_form a) = Inr actor" "exchange_audiences P xc (rq_client (ar_request a)) (ar_form a) = Inr audiences"
    "exchange_scopes P (rq_granted_scopes source) (ar_form a) = Inr scopes" "rq_session (ar_request a) = Some target"
    "machineTokenSubject source = Some (owner, machine)"
    "rq_granted_scopes (ar_request a') = so_arguments st (rq_granted_scopes (ar_request a) @ scopes)"
    "\<exists>y. rq_session (ar_request a') = Some (target\<lparr>se_subject := se_subject s, se_username := se_username s,
       se_extra := Some (target_extra machine actor), se_expires := (se_expires target)(AccessToken \<mapsto> y)\<rparr>) \<and>
       now < y \<and> y \<le> x \<and> (\<forall>i. actor = Some i \<longrightarrow> y \<le> ai_expiry i)"
    "ar_form a' = exchange_form sig x actor (ar_form a)"
proof -
  show ?thesis
    using assms
    unfolding HandleTokenEndpointRequest_def Let_def
    by (auto split: if_splits option.splits sum.splits prod.splits intro!: that)
      (rule exI, rule conjI, rule refl, auto simp: min_def split: if_splits)+
qed

text \<open>C8. A token exchange only narrows. When the handler accepts a request, the target token has the subject of a stored
  source token, a subset of its scopes, no browser session, and a lifetime that ends with the source token at the
  latest, and with the actor token if there is one.\<close>

theorem exchange_attenuates:
  assumes "HandleTokenEndpointRequest P st xc es ea now a = Inr a'"
    and "\<forall>xs. set (so_arguments st xs) \<subseteq> set xs" "rq_granted_scopes (ar_request a) = []"
  shows "\<exists>sig source s x target y.
    GetAccessTokenSession P st (in_request es) sig (Some empty_session) = R_Usable source \<and> rq_session source = Some s \<and>
    accessTokenExpiry (in_expiry es) sig = Inr x \<and> rq_session (ar_request a') = Some target \<and>
    se_subject target = se_subject s \<and> set (rq_granted_scopes (ar_request a')) \<subseteq> set (rq_granted_scopes source) \<and>
    se_expires target AccessToken = Some y \<and> now < y \<and> y \<le> x \<and> session_extra (ar_request a') = None \<and>
    (\<forall>i. exchange_actor P st xc ea now (ar_form a) = Inr (Some i) \<longrightarrow> y \<le> ai_expiry i)"
  using assms(1)
proof (rule exchange_handled)
  fix token source sig s x actor audiences scopes target owner machine
  assume p: "exchangePrincipal P st xc es now token = Some (source, sig, s)" and x: "live_expiry (in_expiry es) now sig = Some x"
    and i: "exchange_actor P st xc ea now (ar_form a) = Inr actor"
    and sc: "exchange_scopes P (rq_granted_scopes source) (ar_form a) = Inr scopes"
    and g: "rq_granted_scopes (ar_request a') = so_arguments st (rq_granted_scopes (ar_request a) @ scopes)"
    and "\<exists>y. rq_session (ar_request a') = Some (target\<lparr>se_subject := se_subject s, se_username := se_username s,
       se_extra := Some (target_extra machine actor), se_expires := (se_expires target)(AccessToken \<mapsto> y)\<rparr>) \<and>
       now < y \<and> y \<le> x \<and> (\<forall>i. actor = Some i \<longrightarrow> y \<le> ai_expiry i)"
  then obtain y where y: "rq_session (ar_request a') = Some (target\<lparr>se_subject := se_subject s, se_username := se_username s,
       se_extra := Some (target_extra machine actor), se_expires := (se_expires target)(AccessToken \<mapsto> y)\<rparr>)"
      "now < y" "y \<le> x" "\<forall>i. actor = Some i \<longrightarrow> y \<le> ai_expiry i" by blast
  have "accessTokenExpiry (in_expiry es) sig = Inr x" using x by (auto simp: live_expiry_def split: sum.splits if_splits)
  moreover have "set (rq_granted_scopes (ar_request a')) \<subseteq> set (rq_granted_scopes source)"
    using g assms(2,3) exchange_scopes_subset [OF sc] by auto
  moreover have "session_extra (ar_request a') = None" using y(1) target_extra_no_session by (simp add: session_extra_def)
  ultimately show ?thesis using exchangePrincipal_request [OF p] y i by auto
qed

section \<open>The fence of the issue\<close>

lemma principalGuard_frame: "principalGuard now tx = (g, tx') \<Longrightarrow> \<exists>n. tx' = tx\<lparr>tx_issue_now := n\<rparr>"
proof -
  have i: "\<exists>n. tx' = tx\<lparr>tx_issue_now := n\<rparr>" if "issueNowMillis now tx = (k, tx')" for k tx tx'
    using that by (auto simp: issueNowMillis_def Let_def)
  have "\<exists>n. tx = tx\<lparr>tx_issue_now := n\<rparr>" for tx :: transaction by (rule exI [of _ "tx_issue_now tx"]) simp
  then have p: "\<exists>n. tx' = tx\<lparr>tx_issue_now := n\<rparr>" if "password_guard now tx = (g, tx')" for g tx tx'
    using that i by (auto simp: password_guard_def split: if_splits prod.splits)
  have q: "\<exists>n. tx' = tx\<lparr>tx_issue_now := n\<rparr>" if "subject_guard now tx = (g, tx')" for g tx tx'
    using that i \<open>\<And>tx. \<exists>n. tx = tx\<lparr>tx_issue_now := n\<rparr>\<close> by (auto simp: subject_guard_def split: if_splits prod.splits)
  assume g: "principalGuard now tx = (g, tx')"
  obtain a tx1 where a: "password_guard now tx = (a, tx1)" by fastforce
  obtain b tx2 where b: "subject_guard now tx1 = (b, tx2)" by fastforce
  obtain m n where "tx1 = tx\<lparr>tx_issue_now := m\<rparr>" "tx2 = tx1\<lparr>tx_issue_now := n\<rparr>" using p [OF a] q [OF b] by blast
  moreover have "tx' = tx1 \<or> tx' = tx2" using g a b by (auto simp: principalGuard_def Let_def split: if_splits option.splits)
  ultimately show ?thesis by auto
qed

lemma exchange_begun:
  assumes "beginTokenExchangeTX n now src x actor y cx = Inr cx1"
  obtains tx where "cx_tx cx1 = Some tx" "tx_kind tx = T_Exchange" "tx_source tx = src" "tx_source_expires tx = x" "tx_actor tx = actor"
    "y = None \<longleftrightarrow> actor = ''''" "\<And>d. y = Some d \<Longrightarrow> tx_actor_expires tx = d" "tx_statements tx = []" "\<not> tx_done tx"
    "tx_target_access tx = ''''"
  using assms that
  by (auto simp: beginTokenExchangeTX_def BeginTX_def Let_def empty_tx_def begin_snapshot_def split: if_splits option.splits)

text \<open>The four statements of the target token, with the conditions on the source first and on the actor after them.\<close>

lemma exchange_written:
  assumes b: "beginTokenExchangeTX n now src x actor y cx = Inr cx1"
    and c: "CreateAccessTokenSession P st e f other f2 sig r (cx1, db) = ((cx2, db2), Inr ())"
  obtains tx s0 s1 row req g where "cx_tx cx2 = Some tx" "db2 = db" "tx_kind tx = T_Exchange" "tx_target_access tx = sig"
    "tx_actor tx = actor" "ac_sig row = sig"
    "tx_statements tx = [s0, s1, \<lparr>st_action = InsertAccess row, st_guard = g, st_exact = False\<rparr>,
       \<lparr>st_action = InsertRequest req, st_guard = g, st_exact = False\<rparr>]"
    "st_action s0 = DeleteExpiredAccess (ce_now e)" "st_action s1 = DeleteOrphanRequests"
    "0 < length g" "g ! 0 = A_AccessLive src x 0" "actor \<noteq> '''' \<Longrightarrow> 3 < length g \<and> g ! 3 = A_AccessLive actor (the y) 0"
    "tx_cut_access tx = (2, 0)" "tx_cut_request tx = (3, 0)" "actor \<noteq> '''' \<Longrightarrow> tx_cut_actor_access tx = (2, 3) \<and> tx_cut_actor_request tx = (3, 3)"
proof -
  from b obtain t where t: "cx_tx cx1 = Some t" "tx_kind t = T_Exchange" "tx_source t = src" "tx_source_expires t = x" "tx_actor t = actor"
    "y = None \<longleftrightarrow> actor = ''''" "\<And>d. y = Some d \<Longrightarrow> tx_actor_expires t = d" "tx_statements t = []" "\<not> tx_done t" "tx_target_access t = ''''"
    by (rule exchange_begun) blast
  let ?t = "t\<lparr>tx_target_access := sig, tx_request_id := tokenExchangeRequestID P sig\<rparr>"
  obtain q t1 where q: "principalGuard (ce_now e) ?t = (q, t1)" by fastforce
  obtain k where k: "t1 = ?t\<lparr>tx_issue_now := k\<rparr>" using principalGuard_frame [OF q] by blast
  show ?thesis
    using c t q unfolding k
    by (auto simp: CreateAccessTokenSession_def password_mismatch_def access_statements_def issue_condition_def client_statements_def
        exchange_condition_def exchangeInputClientGuard_def mutate_def place_cutoffs_def Let_def access_row_of_def
        split: if_splits option.splits sum.splits prod.splits intro!: that)
qed

lemma exchange_bound:
  assumes "bindExchangeCutoff cutoff tx = Some ss" "tx_statements tx = [s0, s1, s2, s3]" "st_guard s2 = g" "st_guard s3 = g"
    "tx_cut_access tx = (2, 0)" "tx_cut_request tx = (3, 0)"
    "0 < length g" "g ! 0 = A_AccessLive src x k"
    "tx_actor tx \<noteq> '''' \<Longrightarrow> 3 < length g \<and> g ! 3 = A_AccessLive (tx_actor tx) d k'"
    "tx_actor tx \<noteq> '''' \<Longrightarrow> tx_cut_actor_access tx = (2, 3) \<and> tx_cut_actor_request tx = (3, 3)"
  obtains g' g'' where "ss = [s0, s1, s2\<lparr>st_guard := g'\<rparr>, s3\<lparr>st_guard := g''\<rparr>]" "A_AccessLive src x cutoff \<in> set g'"
    "tx_actor tx \<noteq> '''' \<Longrightarrow> A_AccessLive (tx_actor tx) d cutoff \<in> set g'"
proof (cases "tx_actor tx = ''''")
  case True
  then have "ss = [s0, s1, s2\<lparr>st_guard := g[0 := A_AccessLive src x cutoff]\<rparr>, s3\<lparr>st_guard := g[0 := A_AccessLive src x cutoff]\<rparr>]"
    using assms by (auto simp: bindExchangeCutoff_def bind_location_def Let_def)
  then show ?thesis using True assms(7) by (intro that) (auto intro: set_update_memI)
next
  case False
  let ?g = "g[0 := A_AccessLive src x cutoff, 3 := A_AccessLive (tx_actor tx) d cutoff]"
  have "ss = [s0, s1, s2\<lparr>st_guard := ?g\<rparr>, s3\<lparr>st_guard := ?g\<rparr>]"
    using assms False by (auto simp: bindExchangeCutoff_def bind_location_def Let_def)
  moreover have "?g ! 0 = A_AccessLive src x cutoff" "?g ! 3 = A_AccessLive (tx_actor tx) d cutoff" "3 < length ?g"
    using assms(7,9) False by auto
  then have "A_AccessLive src x cutoff \<in> set ?g" "A_AccessLive (tx_actor tx) d cutoff \<in> set ?g"
    by (metis nth_mem length_list_update less_trans zero_less_numeral)+
  ultimately show ?thesis by (rule that)
qed

text \<open>An access token is only added by the insertion, and only while its guard holds.\<close>

lemma batch_inserts:
  assumes r: "batch cutoff [s0, s1, s2, s3] db = Some (db', n)"
    and a: "st_action s0 = DeleteExpiredAccess k" "st_action s1 = DeleteOrphanRequests" "st_action s3 = InsertRequest q"
    and t: "\<not> sql_exists (\<lambda>r. ac_sig r = target) (accesses db)" "sql_exists (\<lambda>r. ac_sig r = target) (accesses db')"
  shows "\<exists>d. list_all (holds cutoff d) (st_guard s2) \<and> set (accesses d) \<subseteq> set (accesses db)"
proof -
  from r obtain d1 n1 d2 n2 d3 n3 n4 where e: "exec_stmt cutoff s0 db = Some (d1, n1)" "exec_stmt cutoff s1 d1 = Some (d2, n2)"
      "exec_stmt cutoff s2 d2 = Some (d3, n3)" "exec_stmt cutoff s3 d3 = Some (db', n4)"
    by (auto simp: batch_def split: option.splits prod.splits)
  have sub: "set (accesses d') \<subseteq> set (accesses d)" if "exec_stmt cutoff s d = Some (d', m)" "\<And>r. st_action s \<noteq> InsertAccess r" for s d d' m
    using that(1)
  proof (cases rule: exec_stmt_cases)
    case (run j)
    then show ?thesis using act_accesses that(2) by blast
  qed simp
  have 2: "set (accesses d2) \<subseteq> set (accesses db)" using sub [OF e(1)] sub [OF e(2)] a by auto
  have 3: "set (accesses db') \<subseteq> set (accesses d3)" using sub [OF e(4)] a by auto
  have n: "d3 \<noteq> d2" using 2 3 t by (auto simp: sql_exists_iff)
  have "list_all (holds cutoff d2) (st_guard s2)" using e(3) by (cases rule: exec_stmt_cases) (use n in auto)
  then show ?thesis using 2 by blast
qed

lemma live_input:
  assumes "list_all (holds cutoff d) g" "A_AccessLive sig x cutoff \<in> set g" "set (accesses d) \<subseteq> set (accesses db)"
  shows "\<exists>r \<in> set (accesses db). ac_sig r = sig \<and> ac_expires r = x \<and> cutoff < x"
proof -
  have "holds cutoff d (A_AccessLive sig x cutoff)" using assms(1,2) unfolding list_all_iff by blast
  then show ?thesis using assms(3) by (auto simp: sql_exists_iff)
qed

lemma exchange_committed:
  assumes b: "beginTokenExchangeTX n now src x actor y cx = Inr cx1"
    and w: "CreateAccessTokenSession P st ce f other f2 target r (cx1, db) = ((cx2, db), Inr ())"
    and c: "Commit e (cx2, db) = (s', Inr ())"
    and t: "\<not> sql_exists (\<lambda>r. ac_sig r = target) (accesses db)"
      "\<And>d. ac_sig ` set (accesses (co_other e d)) \<subseteq> ac_sig ` set (accesses d)"
  shows "\<exists>d g. list_all (holds (co_cutoff e) d) g \<and> set (accesses d) \<subseteq> set (accesses db) \<and> A_AccessLive src x (co_cutoff e) \<in> set g \<and>
     (actor \<noteq> '''' \<longrightarrow> A_AccessLive actor (the y) (co_cutoff e) \<in> set g)"
proof -
  obtain tx s0 s1 row req g where tx: "cx_tx cx2 = Some tx" "tx_kind tx = T_Exchange" "tx_target_access tx = target"
    "tx_actor tx = actor" "ac_sig row = target"
    "tx_statements tx = [s0, s1, \<lparr>st_action = InsertAccess row, st_guard = g, st_exact = False\<rparr>,
       \<lparr>st_action = InsertRequest req, st_guard = g, st_exact = False\<rparr>]"
    "st_action s0 = DeleteExpiredAccess (ce_now ce)" "st_action s1 = DeleteOrphanRequests"
    "0 < length g" "g ! 0 = A_AccessLive src x 0" "actor \<noteq> '''' \<Longrightarrow> 3 < length g \<and> g ! 3 = A_AccessLive actor (the y) 0"
    "tx_cut_access tx = (2, 0)" "tx_cut_request tx = (3, 0)" "actor \<noteq> '''' \<Longrightarrow> tx_cut_actor_access tx = (2, 3) \<and> tx_cut_actor_request tx = (3, 3)"
    using b w by (rule exchange_written) blast
  obtain cx3 db3 where s': "s' = (cx3, db3)" by (cases s')
  have e: "db3 = co_other e (apply_event (E_Tx tx (co_now e) (co_cutoff e)) db)" "took_effect tx db3"
    using c [unfolded s'] tx(1) by (cases rule: Commit_cases; use tx(2) in \<open>simp add: reads_back_def\<close>)+
  let ?db = "apply_event (E_Tx tx (co_now e) (co_cutoff e)) db"
  have "count_is 1 (\<lambda>a. ac_sig a = target) (accesses db3)" using e(2) tx(2,3) by (simp add: took_effect_def)
  then have "target \<in> ac_sig ` set (accesses db3)" using count_pos by fastforce
  then have "target \<in> ac_sig ` set (accesses ?db)" using t(2) e(1) by blast
  then have new: "sql_exists (\<lambda>r. ac_sig r = target) (accesses ?db)" by (auto simp: sql_exists_iff)
  then obtain ss where ss: "commit_statements (co_now e) (co_cutoff e) tx = Inr ss" using t(1) by (auto split: sum.splits)
  then have bd: "bindExchangeCutoff (co_cutoff e) tx = Some ss"
    using tx(2) by (auto simp: commit_statements_def split: option.splits if_splits)
  obtain g' g'' where g': "ss = [s0, s1, \<lparr>st_action = InsertAccess row, st_guard = g', st_exact = False\<rparr>,
       \<lparr>st_action = InsertRequest req, st_guard = g'', st_exact = False\<rparr>]"
      "A_AccessLive src x (co_cutoff e) \<in> set g'" "actor \<noteq> '''' \<Longrightarrow> A_AccessLive actor (the y) (co_cutoff e) \<in> set g'"
    using tx by (auto elim!: exchange_bound [OF bd, where d = "the y" and k' = 0 and g = g and src = src and x = x and k = 0])
  obtain n where "batch (co_cutoff e) ss db = Some (?db, n)"
    using new t(1) ss by (auto simp: applied_def split: option.splits)
  from batch_inserts [OF this [unfolded g'(1)] tx(7,8) _ t(1) new] show ?thesis using g'(2,3) by auto
qed


section \<open>Examples\<close>

definition demo_inputs :: grant_db where
  "demo_inputs = demo_grants
     \<lparr>token_requests := [\<lparr>tr_sig = ''st'', tr_request = demo_record\<rparr>],
      accesses := [access_row_of ''st'' demo_request demo_session []],
      users := [\<lparr>us_subject = ''s'', us_disabled = False, us_expires = None, us_password_generation = 1\<rparr>]\<rparr>"

definition demo_exchange_store :: store where
  "demo_exchange_store = demo_store\<lparr>so_get_client := (\<lambda>_ _. Some (Configured ''app''))\<rparr>"

definition demo_exchange_config :: exchange_config where
  "demo_exchange_config =
     \<lparr>xc_signature = id, xc_valid = (\<lambda>_ _. True), xc_generate = (\<lambda>_. Some ''tt''), xc_sanitize = id, xc_lifespan = (\<lambda>_. 60000),
      xc_public = (\<lambda>_. False), xc_grants = (\<lambda>_. [TokenExchangeGrantType]), xc_audience = (\<lambda>_. []), xc_allowed = [],
      xc_defaults = Map.empty\<rparr>"

definition demo_reads :: input_reads where
  "demo_reads =
     (let e = \<lparr>ce_now = 2000, ce_clock = 2000, ce_db = demo_inputs, ce_fails = False\<rparr>
      in \<lparr>in_request = e, in_accounts = e, in_expiry = e\<rparr>)"

definition demo_access_request :: access_request where
  "demo_access_request =
     \<lparr>ar_request = demo_request\<lparr>rq_granted_scopes := []\<rparr>, ar_grants = [TokenExchangeGrantType],
      ar_form = [(''subject_token'', [''st'']), (''subject_token_type'', [accessTokenType]), (''scope'', [''api''])]\<rparr>"

lemmas demo_exchange_defs = demo_defs demo_inputs_def demo_exchange_store_def demo_exchange_config_def demo_reads_def demo_access_request_def

lemma demo_source:
  "\<exists>r s. exchangePrincipal demo_prims demo_exchange_store demo_exchange_config demo_reads 2000 ''st'' = Some (r, ''st'', s) \<and>
     machineTokenSubject r = Some (''s'', False) \<and> rq_granted_scopes r = [''api'']"
  by (simp add: exchangePrincipal_def GetAccessTokenSession_def decodeRequest_def stored_client_def demo_exchange_defs encodeRequest_def
      sql_select_def forceMFA_def client_id_def load_session_def sessionDPoPJKT_def empty_session_def Let_def validateTokenAccounts_def
      tokenAccountSubjects_def machineTokenSubject_def extra_of_def accessSessionActor_def actorMachineFlags_def live_user_def
      sql_exists_def unexpired_def expires_ms_def persistedRequestForm_def form_value_def validDPoPJKT_def)

lemma demo_handled:
  "\<exists>a'. HandleTokenEndpointRequest demo_prims demo_exchange_store demo_exchange_config demo_reads demo_reads 2000 demo_access_request = Inr a'"
proof -
  obtain r s where p: "exchangePrincipal demo_prims demo_exchange_store demo_exchange_config demo_reads 2000 ''st'' = Some (r, ''st'', s)"
      "machineTokenSubject r = Some (''s'', False)" "rq_granted_scopes r = [''api'']"
    using demo_source by blast
  have "live_expiry (in_expiry demo_reads) 2000 ''st'' = Some 900000"
    by (simp add: live_expiry_def accessTokenExpiry_def demo_exchange_defs sql_select_def access_row_of_def expires_ms_def Let_def)
  moreover have "Fields demo_prims ''api'' = [''api'']"
    by (simp add: Fields_def is_ascii_def is_space_def byte_of_def)
  ultimately show ?thesis using p
    by (simp add: HandleTokenEndpointRequest_def Let_def demo_access_request_def may_exchange_def demo_exchange_config_def
        demo_exchange_store_def demo_store_def onlyExchangeFields_def exchange_fields_def exactlyOne_def demo_request_def
        client_id_def demo_session_def sessionDPoPJKT_def exchange_actor_def exchange_audiences_def exchange_scopes_def accessTokenType_def)
qed

theorem exchange_attenuates_witness:
  "\<exists>a'. HandleTokenEndpointRequest demo_prims demo_exchange_store demo_exchange_config demo_reads demo_reads 2000 demo_access_request = Inr a' \<and>
     session_extra (ar_request a') = None"
proof -
  obtain a' where h: "HandleTokenEndpointRequest demo_prims demo_exchange_store demo_exchange_config demo_reads demo_reads 2000 demo_access_request = Inr a'"
    using demo_handled by blast
  have "\<forall>xs. set (so_arguments demo_exchange_store xs) \<subseteq> set xs" "rq_granted_scopes (ar_request demo_access_request) = []"
    by (simp_all add: demo_exchange_store_def demo_store_def demo_access_request_def)
  from exchange_attenuates [OF h this] show ?thesis using h by blast
qed

definition demo_issue_request :: access_request where
  "demo_issue_request = demo_access_request\<lparr>ar_form := exchange_form ''st'' 900000 None (ar_form demo_access_request)\<rparr>"

definition demo_issue_env :: issue_env where
  "demo_issue_env =
     \<lparr>ie_entropy = Some ''n'', ie_start = 2000, ie_begin = 2000, ie_after = 2000,
      ie_call = \<lparr>ce_now = 2000, ce_clock = 2000, ce_db = demo_inputs, ce_fails = False\<rparr>, ie_commit = demo_commit\<rparr>"

lemma demo_issue_inputs: "exchange_inputs (ar_form demo_issue_request) = Some (''st'', 900000, '''', None)"
  by (simp add: exchange_inputs_def demo_issue_request_def exchange_form_def form_Set_def form_Get_def ParseInt64_itoa demo_access_request_def
      exchangeSourceSignatureForm_def exchangeSourceExpiryForm_def exchangeActorSignatureForm_def exchangeActorExpiryForm_def)

definition demo_exchange_begun :: transaction where
  "demo_exchange_begun = empty_tx\<lparr>tx_attempt := b64_encode ''n'', tx_kind := T_Exchange, tx_source := ''st'', tx_source_expires := 900000\<rparr>"

definition demo_target :: request where
  "demo_target = (ar_request demo_issue_request)\<lparr>rq_form := Some (map_of (form_Del exchange_secrets (ar_form demo_issue_request)))\<rparr>"

definition demo_exchange_tx :: transaction where
  "demo_exchange_tx =
     (let g = [A_AccessLive ''st'' 900000 0, A_HasRequest ''st'', A_InputClient ''st'' ''app'']
      in demo_exchange_begun\<lparr>tx_target_access := ''tt'', tx_request_id := tokenExchangeRequestID demo_prims ''tt'',
           tx_cut_access := (2, 0), tx_cut_request := (3, 0),
           tx_statements :=
             [plain (DeleteExpiredAccess 2000), plain DeleteOrphanRequests,
              \<lparr>st_action = InsertAccess (access_row_of ''tt'' demo_target demo_session []), st_guard = g, st_exact = False\<rparr>,
              \<lparr>st_action = InsertRequest \<lparr>tr_sig = ''tt'', tr_request = the (encodeRequest demo_target)\<rparr>, st_guard = g, st_exact = False\<rparr>]\<rparr>)"

lemma demo_exchange_begins:
  "beginTokenExchangeTX (Some ''n'') 2000 ''st'' 900000 '''' None demo_ctx = Inr (demo_ctx\<lparr>cx_tx := Some demo_exchange_begun\<rparr>)"
  by (simp add: beginTokenExchangeTX_def BeginTX_def demo_ctx_def demo_exchange_begun_def empty_tx_def Let_def)

lemma demo_target_facts: "rq_session demo_target = Some demo_session" "rq_client demo_target = Configured ''app''" "encodeRequest demo_target \<noteq> None"
  by (simp_all add: demo_target_def demo_issue_request_def demo_access_request_def demo_request_def encodeRequest_def)

lemma demo_exchange_writes:
  "CreateAccessTokenSession demo_prims demo_exchange_store (ie_call demo_issue_env) Exec_Ok id Exec_Ok ''tt'' demo_target
     (demo_ctx\<lparr>cx_tx := Some demo_exchange_begun\<rparr>, demo_inputs) = ((demo_ctx\<lparr>cx_tx := Some demo_exchange_tx\<rparr>, demo_inputs), Inr ())"
  using demo_target_facts
  by (auto simp: CreateAccessTokenSession_def password_mismatch_def access_statements_def issue_condition_def principalGuard_def
      password_guard_def accountExpiryGuard_def profileGuard_def dpop_guard_def exchange_condition_def exchangeInputClientGuard_def
      client_statements_def mutate_def place_cutoffs_def managedClientGuard_def Let_def demo_exchange_begun_def demo_exchange_tx_def
      empty_tx_def demo_ctx_def demo_exchange_store_def demo_store_def demo_issue_env_def openid_granted_def
      simp del: b64_encode.simps)

lemma demo_exchange_commits: "snd (Commit demo_commit (demo_ctx\<lparr>cx_tx := Some demo_exchange_tx\<rparr>, demo_inputs)) = Inr ()"
proof -
  let ?g = "[A_AccessLive ''st'' 900000 3000, A_HasRequest ''st'', A_InputClient ''st'' ''app'']"
  have c: "commit_statements 3000 3000 demo_exchange_tx = Inr
      [plain (DeleteExpiredAccess 2000), plain DeleteOrphanRequests,
       \<lparr>st_action = InsertAccess (access_row_of ''tt'' demo_target demo_session []), st_guard = ?g, st_exact = False\<rparr>,
       \<lparr>st_action = InsertRequest \<lparr>tr_sig = ''tt'', tr_request = the (encodeRequest demo_target)\<rparr>, st_guard = ?g, st_exact = False\<rparr>]"
    by (simp add: commit_statements_def bindExchangeCutoff_def bind_location_def demo_exchange_tx_def demo_exchange_begun_def empty_tx_def
        accountDeadline_def Let_def)
  show ?thesis
    unfolding Commit_def
    by (simp add: demo_commit_def c)
      (simp add: demo_exchange_tx_def demo_exchange_begun_def Let_def empty_tx_def tokenExchangeRequestID_def run_execute_def exec_stmt_def
        demo_inputs_def demo_grants_def sql_update_def sql_count_def sql_delete_def sql_exists_def insert_unique_def
        access_row_of_def expires_ms_def demo_session_def input_client_def reads_back_def took_effect_def count_is_def
        demo_record_def demo_request_def encodeRequest_def client_id_def demo_commit_def)
qed

lemma demo_issued:
  "snd (PopulateTokenEndpointResponse demo_prims demo_exchange_store demo_exchange_config demo_issue_env demo_issue_request (demo_ctx, demo_inputs)) =
     Inr ''tt''"
proof -
  obtain s' where "Commit (ie_commit demo_issue_env) (demo_ctx\<lparr>cx_tx := Some demo_exchange_tx\<rparr>, demo_inputs) = (s', Inr ())"
    using demo_exchange_commits by (metis prod.collapse demo_issue_env_def issue_env.simps(6))
  then show ?thesis
    using demo_exchange_begins demo_exchange_writes
    by (simp add: PopulateTokenEndpointResponse_def demo_issue_inputs Let_def demo_target_def [symmetric])
      (simp add: demo_issue_env_def demo_exchange_config_def demo_issue_request_def demo_access_request_def)
qed


end
