(* ===== verification/DeviceMachine.thy ===== *)
theory DeviceMachine
  imports DeviceStore SingleUse
begin

text \<open>
  The life cycle of device grants: the committed statements of \<open>DeviceStore\<close> as events of a state
  machine, the invariant of its reachable states, and the properties of the store's operations that
  follow from it, whatever the nodes of the cluster interleave.
\<close>

section \<open>Events\<close>

datatype device_event =
    EvCreate string client_binding grant_row
  | EvDecide string string bool bool string session_guard millis
  | EvPoll string string millis grant_row millis int
  | EvClaim string string millis string
  | EvComplete string bool millis
  | EvConsume "string \<Rightarrow> bool" string string string millis
  | EvRevoke string string bool millis "device_db \<Rightarrow> int"
  | EvDenySubject string bool
  | EvDeleteSubject string bool
  | EvDeleteClient "string list" bool
  | EvClients "managed_client list"

text \<open>\<open>EvDecide d subject approve mfa attempt guard now\<close> approves or denies; a managed client table
  may change at any time.\<close>

definition new_row_wf :: "string \<Rightarrow> grant_row \<Rightarrow> bool" where
  "new_row_wf client row \<longleftrightarrow> (\<exists>d u b scopes now. row = new_grant_row d u client b scopes now)"

fun event_stmt :: "device_event \<Rightarrow> device_db mutation" where
  "event_stmt (EvCreate client b row) db = create_stmt client b row db"
| "event_stmt (EvDecide d subject ok mfa a g now) db =
     decide_stmt d subject (if ok then Approved else Denied) mfa a g now db"
| "event_stmt (EvPoll d client now seen next iv) db = poll_stmt d client now seen next iv db"
| "event_stmt (EvClaim d client now td) db = claim_stmt d client now td db"
| "event_stmt (EvComplete td ok now) db = complete_stmt td (if ok then Consumed else Approved) now db"
| "event_stmt (EvConsume live d td i now) db = consume_stmt live d td i now db"
| "event_stmt (EvRevoke owner i a now tokens) db = revoke_stmt owner i a now tokens db"
| "event_stmt (EvDenySubject s a) db = deny_subject_stmt s a db"
| "event_stmt (EvDeleteSubject s a) db = delete_subject_stmt s a db"
| "event_stmt (EvDeleteClient cs a) db = delete_client_stmt cs a db"
| "event_stmt (EvClients cs) db = Some (db\<lparr>managed := cs\<rparr>, 0)"

definition device_apply :: "device_event \<Rightarrow> device_db \<Rightarrow> device_db" where
  "device_apply e db = (case event_stmt e db of None \<Rightarrow> db | Some (db', _) \<Rightarrow> db')"

definition event_wf :: "device_event \<Rightarrow> bool" where
  "event_wf e \<longleftrightarrow> (\<forall>client b row. e = EvCreate client b row \<longrightarrow> new_row_wf client row)"

inductive device_step :: "device_db \<Rightarrow> device_db \<Rightarrow> bool" where
  commit: "event_stmt e db = Some (db', n) \<Longrightarrow> event_wf e \<Longrightarrow> device_step db db'"

inductive_cases device_stepE: "device_step db db'"

definition device_run :: "device_event list \<Rightarrow> device_db \<Rightarrow> device_db" where
  "device_run es db = fold device_apply es db"

text \<open>Device codes are random: no later event creates a grant with the code of an earlier one.\<close>

fun creates :: "string \<Rightarrow> device_event \<Rightarrow> bool" where
  "creates d (EvCreate client b row) = (g_device row = d)"
| "creates d _ = False"

definition later :: "string \<Rightarrow> device_event \<Rightarrow> bool" where
  "later d e \<longleftrightarrow> event_wf e \<and> \<not> creates d e"

section \<open>How one row evolves\<close>

definition same_identity :: "grant_row \<Rightarrow> grant_row \<Rightarrow> bool" where
  "same_identity r r' \<longleftrightarrow>
     g_device r' = g_device r \<and> g_user r' = g_user r \<and> g_client r' = g_client r \<and>
     g_generation r' = g_generation r \<and> g_resource r' = g_resource r \<and> g_scopes r' = g_scopes r \<and>
     g_expires r' = g_expires r \<and> g_created r' = g_created r"

definition same_decision :: "grant_row \<Rightarrow> grant_row \<Rightarrow> bool" where
  "same_decision r r' \<longleftrightarrow> g_subject r' = g_subject r \<and> g_mfa r' = g_mfa r \<and> g_attempt r' = g_attempt r"

fun state_order :: "grant_state \<Rightarrow> grant_state \<Rightarrow> bool" where
  "state_order Pending s = (s \<noteq> Consumed)"
| "state_order Approved s = (s \<noteq> Pending)"
| "state_order Denied s = (s = Denied)"
| "state_order Consumed s = (s = Consumed)"

text \<open>One committed statement: identity kept, state only forward, and a decided row keeps its
  decision.\<close>

definition evolves1 :: "grant_row \<Rightarrow> grant_row \<Rightarrow> bool" where
  "evolves1 r r' \<longleftrightarrow> same_identity r r' \<and> state_order (g_state r) (g_state r') \<and>
     (g_state r \<noteq> Pending \<longrightarrow> same_decision r r')"

fun state_reaches :: "grant_state \<Rightarrow> grant_state \<Rightarrow> bool" where
  "state_reaches Pending s = True"
| "state_reaches Approved s = (s \<noteq> Pending)"
| "state_reaches Denied s = (s = Denied)"
| "state_reaches Consumed s = (s = Consumed)"

definition evolves :: "grant_row \<Rightarrow> grant_row \<Rightarrow> bool" where
  "evolves r r' \<longleftrightarrow> same_identity r r' \<and> state_reaches (g_state r) (g_state r') \<and>
     (g_state r \<noteq> Pending \<longrightarrow> same_decision r r')"

lemma evolves_refl [simp]: "evolves r r"
  by (cases "g_state r") (simp_all add: evolves_def same_identity_def same_decision_def)

lemma evolves1_refl [simp]: "evolves1 r r"
  by (cases "g_state r") (simp_all add: evolves1_def same_identity_def same_decision_def)

lemma state_order_reaches: "state_order s s' \<Longrightarrow> state_reaches s s'"
  by (cases s) auto

lemma evolves_trans1: "evolves r r' \<Longrightarrow> evolves1 r' r'' \<Longrightarrow> evolves r r''"
  by (cases "g_state r"; cases "g_state r'")
    (auto simp: evolves_def evolves1_def same_identity_def same_decision_def)

section \<open>The invariant\<close>

definition row_wf :: "grant_row \<Rightarrow> bool" where
  "row_wf r \<longleftrightarrow>
     (g_state r = Pending \<longrightarrow> g_subject r = None \<and> g_attempt r = None \<and> \<not> g_mfa r) \<and>
     (g_state r = Pending \<or> g_state r = Denied \<longrightarrow> g_claim r = None) \<and>
     (g_state r \<noteq> Consumed \<longrightarrow> g_token_request r = None \<and> g_revoked_at r = None)"

definition device_inv :: "device_db \<Rightarrow> bool" where
  "device_inv db \<longleftrightarrow> grants_ok (grants db) \<and> list_all row_wf (grants db)"

lemma commit_grants_Some:
  "commit_grants db t n = Some (db', m) \<longleftrightarrow> grants_ok t \<and> db' = db\<lparr>grants := t\<rparr> \<and> m = n"
  by (auto simp: commit_grants_def)

lemmas stmt_defs = create_stmt_def decide_stmt_def poll_stmt_def claim_stmt_def complete_stmt_def
  consume_stmt_def revoke_stmt_def deny_subject_stmt_def delete_subject_stmt_def delete_client_stmt_def

lemmas row_defs = evolves1_def same_identity_def same_decision_def row_wf_def

text \<open>What each statement does to a row it selects.\<close>

definition good_row :: "grant_row \<Rightarrow> grant_row \<Rightarrow> bool" where
  "good_row r r' \<longleftrightarrow> evolves1 r r' \<and> row_wf r'"

lemma decide_row:
  assumes "row_wf r" "decide_where d st mfa g now db r" "st = Approved \<or> st = Denied"
  shows "good_row r (decide_set st subject a mfa r)"
  using assms by (auto simp: good_row_def row_defs decide_where_def decide_set_def)

lemma poll_row:
  assumes "row_wf r" "poll_where d client now seen r"
  shows "good_row r (r\<lparr>g_next_poll := n, g_interval := i\<rparr>)"
  using assms by (auto simp: good_row_def row_defs poll_where_def)

lemma claim_row:
  assumes "row_wf r" "claim_where d client now r"
  shows "good_row r (r\<lparr>g_claim := Some td, g_claim_until := Some u\<rparr>)"
  using assms by (auto simp: good_row_def row_defs claim_where_def)

lemma complete_row:
  assumes "row_wf r" "complete_where td now r" "st = Approved \<or> st = Consumed"
  shows "good_row r (r\<lparr>g_state := st, g_claim := None, g_claim_until := None\<rparr>)"
  using assms by (auto simp: good_row_def row_defs complete_where_def)

lemma consume_row:
  assumes "row_wf r" "g_state r = Approved"
  shows "good_row r (r\<lparr>g_state := Consumed, g_claim_until := Some 0, g_token_request := Some i\<rparr>)"
  using assms by (auto simp: good_row_def row_defs)

lemma revoke_row:
  assumes "row_wf r" "revoke_where owner i a r"
  shows "good_row r (r\<lparr>g_revoked_at := v\<rparr>)"
  using assms by (auto simp: good_row_def row_defs revoke_where_def)

lemma deny_row:
  assumes "row_wf r" "g_state r = Pending \<or> g_state r = Approved" "g_subject r = Some s"
  shows "good_row r (r\<lparr>g_state := Denied, g_claim := None, g_claim_until := None\<rparr>)"
  using assms by (auto simp: good_row_def row_defs)

text \<open>The row that the consuming statement changes is the one its guard found.\<close>

lemma consume_selects_guarded:
  assumes "sql_unique g_device t" "r \<in> set t" "g_device r = d" "sql_exists (deviceGuard live d td now db) t"
  shows "deviceGuard live d td now db r"
proof -
  from assms(4) obtain x where x: "x \<in> set t" "deviceGuard live d td now db x"
    by (auto simp: sql_exists_iff)
  then have "g_device x = d" by (simp add: deviceGuard_def)
  with assms x sql_unique_eq [of g_device t x r] show ?thesis by simp
qed

text \<open>Where the rows after a statement come from: kept or changed in place, or inserted.\<close>

definition row_origin :: "device_event \<Rightarrow> device_db \<Rightarrow> grant_row \<Rightarrow> bool" where
  "row_origin e db r' \<longleftrightarrow>
     (\<exists>r \<in> set (grants db). r' = r \<or> good_row r r') \<or> (\<exists>client b. e = EvCreate client b r')"

lemma update_origin:
  assumes "grants db' = sql_update p f (grants db)" "r' \<in> set (grants db')"
    and "\<And>r. r \<in> set (grants db) \<Longrightarrow> p r \<Longrightarrow> good_row r (f r)"
  shows "row_origin e db r'"
  using assms by (auto simp: set_sql_update row_origin_def)

text \<open>The table after each statement.\<close>

lemma stmt_rows:
  "decide_stmt d subject st mfa a g now db = Some (db', n) \<Longrightarrow>
     grants db' = sql_update (decide_where d st mfa g now db) (decide_set st subject a mfa) (grants db)"
  "poll_stmt d client now seen nx iv db = Some (db', n) \<Longrightarrow>
     grants db' = sql_update (poll_where d client now seen) (\<lambda>r. r\<lparr>g_next_poll := nx, g_interval := iv\<rparr>) (grants db)"
  "claim_stmt d client now td db = Some (db', n) \<Longrightarrow>
     grants db' = sql_update (claim_where d client now)
       (\<lambda>r. r\<lparr>g_claim := Some td, g_claim_until := Some (now + claimLease)\<rparr>) (grants db)"
  "complete_stmt td st now db = Some (db', n) \<Longrightarrow>
     grants db' = sql_update (complete_where td now)
       (\<lambda>r. r\<lparr>g_state := st, g_claim := None, g_claim_until := None\<rparr>) (grants db)"
  "revoke_stmt owner i auth now tokens db = Some (db', n) \<Longrightarrow>
     grants db' = sql_update (revoke_where owner i auth)
       (\<lambda>r. r\<lparr>g_revoked_at := (case g_revoked_at r of None \<Rightarrow> Some now | Some u \<Rightarrow> Some u)\<rparr>) (grants db)"
  "deny_subject_stmt s allowed db = Some (db', n) \<Longrightarrow>
     grants db' = sql_update (\<lambda>r. g_subject r = Some s \<and> (g_state r = Pending \<or> g_state r = Approved) \<and> allowed)
       (\<lambda>r. r\<lparr>g_state := Denied, g_claim := None, g_claim_until := None\<rparr>) (grants db)"
  by (auto simp: stmt_defs commit_grants_Some Let_def)

lemma consume_stmt_Some:
  assumes "device_inv db" "consume_stmt live d td i now db = Some (db', n)"
  obtains r where "r \<in> set (grants db)" "deviceGuard live d td now db r"
    "grants db' = sql_update (\<lambda>r. g_device r = d)
       (\<lambda>r. r\<lparr>g_state := Consumed, g_claim_until := Some 0, g_token_request := Some i\<rparr>) (grants db)"
proof -
  let ?p = "\<lambda>r. g_device r = d \<and> sql_exists (deviceGuard live d td now db) (grants db)"
  from assms(2) have "sql_count ?p (grants db) = 1"
    and db': "grants db' = sql_update ?p (\<lambda>r. r\<lparr>g_state := Consumed, g_claim_until := Some 0, g_token_request := Some i\<rparr>) (grants db)"
    by (auto simp: consume_stmt_def commit_grants_Some Let_def split: if_splits)
  then obtain r where r: "r \<in> set (grants db)" "?p r"
    using sql_count_pos_iff [of ?p "grants db"] by auto
  moreover from r have "deviceGuard live d td now db r"
    using consume_selects_guarded assms(1) by (auto simp: device_inv_def grants_ok_def)
  ultimately show ?thesis using that db' by auto
qed

lemma consume_rows:
  assumes "device_inv db" "consume_stmt live d td i now db = Some (db', n)" "r' \<in> set (grants db')"
  shows "row_origin e db r'"
proof -
  obtain x where x: "x \<in> set (grants db)" "deviceGuard live d td now db x"
    "grants db' = sql_update (\<lambda>r. g_device r = d)
       (\<lambda>r. r\<lparr>g_state := Consumed, g_claim_until := Some 0, g_token_request := Some i\<rparr>) (grants db)"
    using consume_stmt_Some [OF assms(1,2)] by blast
  have "r = x" if "r \<in> set (grants db)" "g_device r = d" for r
    using that x assms(1) sql_unique_eq [of g_device "grants db" r x]
    by (simp add: device_inv_def grants_ok_def deviceGuard_def)
  moreover have "g_state x = Approved" "row_wf x"
    using x assms(1) by (auto simp: deviceGuard_def device_inv_def list_all_iff)
  ultimately show ?thesis using consume_row by (intro update_origin [OF x(3) assms(3)]) blast
qed

lemma event_rows:
  assumes inv: "device_inv db" and stmt: "event_stmt e db = Some (db', n)" and r': "r' \<in> set (grants db')"
  shows "row_origin e db r'"
proof -
  have wf: "row_wf r" if "r \<in> set (grants db)" for r
    using that inv by (simp add: device_inv_def list_all_iff)
  note upd = update_origin [OF stmt_rows(1) r'] update_origin [OF stmt_rows(2) r'] update_origin [OF stmt_rows(3) r']
    update_origin [OF stmt_rows(4) r'] update_origin [OF stmt_rows(5) r'] update_origin [OF stmt_rows(6) r']
  show ?thesis
  proof (cases e)
    case (EvCreate client b row)
    with stmt r' show ?thesis by (auto simp: create_stmt_def commit_grants_Some row_origin_def split: if_splits)
  next
    case (EvDecide d subject ok mfa a g now)
    show ?thesis
      by (rule upd(1), use EvDecide stmt in simp) (rule decide_row [OF wf]; simp)
  next
    case (EvPoll d client now seen nx iv)
    show ?thesis by (rule upd(2), use EvPoll stmt in simp) (rule poll_row [OF wf])
  next
    case (EvClaim d client now td)
    show ?thesis by (rule upd(3), use EvClaim stmt in simp) (rule claim_row [OF wf])
  next
    case (EvComplete td ok now)
    show ?thesis by (rule upd(4), use EvComplete stmt in simp) (rule complete_row [OF wf]; simp)
  next
    case (EvConsume live d td i now)
    show ?thesis by (rule consume_rows [OF inv _ r'], use EvConsume stmt in simp)
  next
    case (EvRevoke owner i a now tokens)
    show ?thesis by (rule upd(5), use EvRevoke stmt in simp) (rule revoke_row [OF wf])
  next
    case (EvDenySubject s a)
    show ?thesis by (rule upd(6), use EvDenySubject stmt in simp) (rule deny_row [OF wf]; simp)
  qed (use stmt r' in \<open>auto simp: delete_subject_stmt_def delete_client_stmt_def commit_grants_Some Let_def
        set_sql_delete row_origin_def\<close>)
qed

section \<open>Every committed statement\<close>

lemma event_grants_ok:
  assumes "event_stmt e db = Some (db', n)" "device_inv db"
  shows "grants_ok (grants db')"
  using assms
  by (cases e) (auto simp: stmt_defs commit_grants_Some Let_def device_inv_def split: if_splits)

lemma new_row_wf_row_wf: "new_row_wf client row \<Longrightarrow> row_wf row"
  by (auto simp: new_row_wf_def new_grant_row_def row_wf_def)

lemma event_inv:
  assumes "event_stmt e db = Some (db', n)" "event_wf e" "device_inv db"
  shows "device_inv db'"
proof -
  have "row_wf r'" if "r' \<in> set (grants db')" for r'
    using event_rows [OF assms(3,1) that] assms(2,3) new_row_wf_row_wf
    by (auto simp: row_origin_def good_row_def device_inv_def list_all_iff event_wf_def)
  then show ?thesis using event_grants_ok [OF assms(1,3)] by (simp add: device_inv_def list_all_iff)
qed

lemma event_evolves:
  assumes "event_stmt e db = Some (db', n)" "device_inv db" "r' \<in> set (grants db')" "\<not> creates (g_device r') e"
  shows "\<exists>r \<in> set (grants db). evolves1 r r'"
  using event_rows [OF assms(2,1,3)] assms(4) by (auto simp: row_origin_def good_row_def intro: evolves1_refl)

lemma device_step_inv: "device_step db db' \<Longrightarrow> device_inv db \<Longrightarrow> device_inv db'"
  by (auto elim!: device_stepE intro: event_inv)

lemma device_steps_inv: "device_step\<^sup>*\<^sup>* db db' \<Longrightarrow> device_inv db \<Longrightarrow> device_inv db'"
  by (induction rule: rtranclp_induct) (auto intro: device_step_inv)

lemma device_apply_inv: "event_wf e \<Longrightarrow> device_inv db \<Longrightarrow> device_inv (device_apply e db)"
  by (auto simp: device_apply_def split: option.split intro: event_inv)

lemma device_apply_evolves:
  assumes "later (g_device r') e" "device_inv db" "r' \<in> set (grants (device_apply e db))"
  shows "\<exists>r \<in> set (grants db). evolves1 r r'"
  using assms event_evolves [OF _ assms(2), of e _ _ r']
  by (auto simp: device_apply_def later_def split: option.splits intro: bexI [of _ r'])

text \<open>What holds of every row that \<open>d\<close> ever has: an invariant that steps of rows keep.\<close>

lemma device_run_rows:
  assumes "device_inv db" "list_all (later d) es"
    and "\<forall>r \<in> set (grants db). g_device r = d \<longrightarrow> evolves r0 r"
  shows "\<forall>r \<in> set (grants (device_run es db)). g_device r = d \<longrightarrow> evolves r0 r"
  using assms
proof (induction es arbitrary: db)
  case (Cons e es)
  have "evolves r0 r'" if r': "r' \<in> set (grants (device_apply e db))" "g_device r' = d" for r'
  proof -
    obtain r where "r \<in> set (grants db)" "evolves1 r r'"
      using device_apply_evolves [of r' e db] Cons.prems r' by auto
    moreover from this r'(2) have "g_device r = d" by (simp add: evolves1_def same_identity_def)
    ultimately show ?thesis using Cons.prems(3) evolves_trans1 by blast
  qed
  moreover have "device_inv (device_apply e db)"
    using Cons.prems device_apply_inv by (simp add: later_def)
  ultimately have "\<forall>r \<in> set (grants (device_run es (device_apply e db))). g_device r = d \<longrightarrow> evolves r0 r"
    using Cons.IH [of "device_apply e db"] Cons.prems(2) by simp
  then show ?case by (simp add: device_run_def)
qed (simp add: device_run_def)

lemma device_run_evolves:
  assumes "device_inv db" "r \<in> set (grants db)" "list_all (later (g_device r)) es"
    and "r' \<in> set (grants (device_run es db))" "g_device r' = g_device r"
  shows "evolves r r'"
proof -
  have "x = r" if "x \<in> set (grants db)" "g_device x = g_device r" for x
    using that assms(1,2) sql_unique_eq [of g_device "grants db" x r] by (simp add: device_inv_def grants_ok_def)
  then have "\<forall>x \<in> set (grants db). g_device x = g_device r \<longrightarrow> evolves r x"
    using evolves_refl by blast
  then show ?thesis using device_run_rows assms by blast
qed

section \<open>Issuing at most once\<close>

fun consumes :: "string \<Rightarrow> device_event \<Rightarrow> device_db \<Rightarrow> bool" where
  "consumes d (EvConsume live d' td i now) db = (d' = d \<and> consume_stmt live d' td i now db \<noteq> None)"
| "consumes d _ db = False"

text \<open>A device code is spent when no row of it is left that is not consumed.\<close>

definition issued :: "string \<Rightarrow> device_db \<Rightarrow> bool" where
  "issued d db \<longleftrightarrow> (\<forall>r \<in> set (grants db). g_device r = d \<longrightarrow> g_state r = Consumed)"

lemma consumed_issued:
  assumes "grants db' = sql_update (\<lambda>r. g_device r = d) f (grants db)" "\<And>r. g_state (f r) = Consumed"
  shows "issued d db'"
  using assms by (auto simp: issued_def set_sql_update)

lemma consume_stmt_issued:
  assumes "device_inv db" "consume_stmt live d td i now db = Some (db', n)"
  shows "issued d db'"
  by (rule consume_stmt_Some [OF assms]) (erule consumed_issued, simp)

interpretation issue: single_use device_apply "consumes d" "issued d" device_inv "later d" for d
proof unfold_locales
  fix s e
  assume s: "device_inv s" and e: "later d e"
  show "device_inv (device_apply e s)" using device_apply_inv s e by (simp add: later_def)
  show "issued d (device_apply e s)" if "consumes d e s"
  proof -
    from that obtain live td i now db' n where ev: "e = EvConsume live d td i now"
      and run: "consume_stmt live d td i now s = Some (db', n)"
      by (cases e) auto
    have "device_apply e s = db'" using ev run by (simp add: device_apply_def)
    then show ?thesis using consume_stmt_issued [OF s run] by simp
  qed
  assume spent: "issued d s"
  show "issued d (device_apply e s)"
    unfolding issued_def
  proof (intro ballI impI)
    fix r'
    assume r': "r' \<in> set (grants (device_apply e s))" "g_device r' = d"
    then obtain r where "r \<in> set (grants s)" "evolves1 r r'"
      using device_apply_evolves [of r' e s] e s by auto
    with spent r'(2) show "g_state r' = Consumed" by (auto simp: issued_def evolves1_def same_identity_def)
  qed
  show "\<not> consumes d e s"
  proof
    assume "consumes d e s"
    then obtain live td i now db' n where "consume_stmt live d td i now s = Some (db', n)"
      by (cases e) auto
    from consume_stmt_Some [OF s this] obtain x where "x \<in> set (grants s)" "deviceGuard live d td now s x" by blast
    then show False using spent by (auto simp: issued_def deviceGuard_def)
  qed
qed

fun issues :: "string \<Rightarrow> device_event list \<Rightarrow> device_db \<Rightarrow> nat" where
  "issues d [] db = 0"
| "issues d (e # es) db = (if consumes d e db then 1 else 0) + issues d es (device_apply e db)"

lemma issues_eq: "issues d es db = issue.winners d es db"
  by (induction es arbitrary: db) simp_all

section \<open>The claim lease\<close>

text \<open>\<open>held d td u db\<close>: the grant of \<open>d\<close> is leased to the token \<open>td\<close> until \<open>u\<close>, or it was denied or
  deleted since.\<close>

definition held :: "string \<Rightarrow> string \<Rightarrow> millis \<Rightarrow> device_db \<Rightarrow> bool" where
  "held d td u db \<longleftrightarrow> (\<forall>r \<in> set (grants db). g_device r = d \<longrightarrow>
     g_state r = Denied \<or> g_state r = Approved \<and> g_claim r = Some td \<and> g_claim_until r = Some u)"

text \<open>The events of others: they neither draw nor present \<open>td\<close>, and a claim comes before \<open>u\<close>.\<close>

fun of_other :: "string \<Rightarrow> millis \<Rightarrow> device_event \<Rightarrow> bool" where
  "of_other td u (EvClaim d client now td') = (now < u \<and> td' \<noteq> td)"
| "of_other td u (EvComplete td' ok now) = (td' \<noteq> td)"
| "of_other td u (EvConsume live d td' i now) = (td' \<noteq> td)"
| "of_other td u e = True"

lemma held_update:
  assumes "held d td u db" "grants db' = sql_update p f (grants db)"
    and "\<And>r. p r \<Longrightarrow> g_device r = d \<Longrightarrow> g_state r = Approved \<Longrightarrow> g_claim r = Some td \<Longrightarrow> g_claim_until r = Some u \<Longrightarrow>
           g_state (f r) = Denied"
    and "\<And>r. p r \<Longrightarrow> g_device r = d \<Longrightarrow> g_state r = Denied \<Longrightarrow> g_state (f r) = Denied"
    and "\<And>r. g_device (f r) = g_device r"
  shows "held d td u db'"
  using assms by (auto simp: held_def set_sql_update)

lemma event_held:
  assumes "device_inv db" "event_stmt e db = Some (db', n)" "later d e" "of_other td u e" "held d td u db"
  shows "held d td u db'"
proof -
  note upd = stmt_rows [THEN held_update [OF assms(5)]]
  show ?thesis
  proof (cases e)
    case (EvCreate client b row)
    with assms show ?thesis
      by (auto simp: create_stmt_def commit_grants_Some held_def later_def split: if_splits)
  next
    case (EvDecide d' subject ok mfa a g now)
    show ?thesis by (rule upd(1), use EvDecide assms(2) in simp) (auto simp: decide_where_def decide_set_def)
  next
    case (EvPoll d' client now seen nx iv)
    show ?thesis by (rule upd(2), use EvPoll assms(2) in simp) (auto simp: poll_where_def)
  next
    case (EvClaim d' client now td')
    show ?thesis by (rule upd(3), use EvClaim assms(2) in simp) (use EvClaim assms(4) in \<open>auto simp: claim_where_def\<close>)
  next
    case (EvComplete td' ok now)
    show ?thesis
      by (rule upd(4), use EvComplete assms(2) in simp) (use EvComplete assms(4) in \<open>auto simp: complete_where_def\<close>)
  next
    case (EvConsume live d' td' i now)
    obtain x where x: "x \<in> set (grants db)" "deviceGuard live d' td' now db x"
      "grants db' = sql_update (\<lambda>r. g_device r = d')
         (\<lambda>r. r\<lparr>g_state := Consumed, g_claim_until := Some 0, g_token_request := Some i\<rparr>) (grants db)"
      using consume_stmt_Some [OF assms(1), of live d' td' i now] assms(2) EvConsume by auto
    moreover from x(1,2) have "d' \<noteq> d" using assms(4,5) EvConsume by (auto simp: held_def deviceGuard_def)
    ultimately show ?thesis by (intro held_update [OF assms(5) x(3)]) auto
  next
    case (EvRevoke owner i a now tokens)
    show ?thesis by (rule upd(5), use EvRevoke assms(2) in simp) (auto simp: revoke_where_def)
  next
    case (EvDenySubject s a)
    show ?thesis by (rule upd(6), use EvDenySubject assms(2) in simp) auto
  qed (use assms(2,5) in \<open>auto simp: delete_subject_stmt_def delete_client_stmt_def commit_grants_Some Let_def
        held_def set_sql_delete\<close>)
qed

lemma held_apply:
  assumes "device_inv db" "later d e" "of_other td u e" "held d td u db"
  shows "held d td u (device_apply e db)" "\<not> consumes d e db"
proof -
  show "held d td u (device_apply e db)"
    using event_held [OF assms(1) _ assms(2-4)] assms(4)
    by (auto simp: device_apply_def split: option.split)
  show "\<not> consumes d e db"
  proof
    assume "consumes d e db"
    then obtain live td' i now db' n where "e = EvConsume live d td' i now"
      "consume_stmt live d td' i now db = Some (db', n)" by (cases e) auto
    moreover from consume_stmt_Some [OF assms(1) this(2)] obtain x
      where "x \<in> set (grants db)" "deviceGuard live d td' now db x" by blast
    ultimately show False using assms(3,4) by (auto simp: held_def deviceGuard_def)
  qed
qed

lemma held_run:
  assumes "device_inv db" "list_all (later d) es" "list_all (of_other td u) es" "held d td u db"
  shows "held d td u (device_run es db) \<and> issues d es db = 0"
  using assms
proof (induction es arbitrary: db)
  case (Cons e es)
  then have "device_inv (device_apply e db)" "held d td u (device_apply e db)" "\<not> consumes d e db"
    using device_apply_inv held_apply [of db d e td u] by (auto simp: later_def)
  then show ?case using Cons by (simp add: device_run_def)
qed (simp add: device_run_def)

text \<open>Nobody but its holder writes the token \<open>td\<close> into a row.\<close>

definition unclaimed :: "string \<Rightarrow> string \<Rightarrow> device_db \<Rightarrow> bool" where
  "unclaimed d td db \<longleftrightarrow> (\<forall>r \<in> set (grants db). g_device r = d \<longrightarrow> row_claim r \<noteq> td)"

lemma unclaimed_update:
  assumes "unclaimed d td db" "td \<noteq> ''''" "grants db' = sql_update p f (grants db)"
    and "\<And>r. g_claim (f r) = g_claim r \<or> g_claim (f r) = None \<or> (\<exists>td'. g_claim (f r) = Some td' \<and> td' \<noteq> td)"
    and "\<And>r. g_device (f r) = g_device r"
  shows "unclaimed d td db'"
proof -
  have "row_claim (f r) \<noteq> td" if "row_claim r \<noteq> td" for r
    using assms(4) [of r] that assms(2) by (auto simp: row_claim_def orEmpty_def)
  then show ?thesis using assms(1,3,5) unfolding unclaimed_def by (fastforce simp: set_sql_update)
qed

lemma event_unclaimed:
  assumes "device_inv db" "event_stmt e db = Some (db', n)" "later d e" "of_other td u e"
    and "unclaimed d td db" "td \<noteq> ''''"
  shows "unclaimed d td db'"
proof -
  note upd = stmt_rows [THEN unclaimed_update [OF assms(5,6)]]
  show ?thesis
  proof (cases e)
    case (EvCreate client b row)
    with assms show ?thesis
      by (auto simp: create_stmt_def commit_grants_Some unclaimed_def later_def split: if_splits)
  next
    case (EvDecide d' subject ok mfa a g now)
    show ?thesis by (rule upd(1), use EvDecide assms(2) in simp) (auto simp: decide_set_def)
  next
    case (EvPoll d' client now seen nx iv)
    show ?thesis by (rule upd(2), use EvPoll assms(2) in simp) auto
  next
    case (EvClaim d' client now td')
    show ?thesis by (rule upd(3), use EvClaim assms(2) in simp) (use EvClaim assms(4) in auto)
  next
    case (EvComplete td' ok now)
    show ?thesis by (rule upd(4), use EvComplete assms(2) in simp) auto
  next
    case (EvConsume live d' td' i now)
    obtain x where x: "x \<in> set (grants db)" "deviceGuard live d' td' now db x"
      "grants db' = sql_update (\<lambda>r. g_device r = d')
         (\<lambda>r. r\<lparr>g_state := Consumed, g_claim_until := Some 0, g_token_request := Some i\<rparr>) (grants db)"
      using consume_stmt_Some [OF assms(1), of live d' td' i now] assms(2) EvConsume by auto
    show ?thesis by (rule unclaimed_update [OF assms(5,6) x(3)]) auto
  next
    case (EvRevoke owner i a now tokens)
    show ?thesis by (rule upd(5), use EvRevoke assms(2) in simp) auto
  next
    case (EvDenySubject s a)
    show ?thesis by (rule upd(6), use EvDenySubject assms(2) in simp) auto
  qed (use assms(2,5) in \<open>auto simp: delete_subject_stmt_def delete_client_stmt_def commit_grants_Some Let_def
        unclaimed_def set_sql_delete\<close>)
qed

lemma unclaimed_run:
  assumes "device_inv db" "list_all (later d) es" "list_all (of_other td u) es" "unclaimed d td db" "td \<noteq> ''''"
  shows "unclaimed d td (device_run es db)"
  using assms
proof (induction es arbitrary: db)
  case (Cons e es)
  have "unclaimed d td (device_apply e db)"
    using event_unclaimed [of db e _ _ d td u] Cons.prems by (auto simp: device_apply_def split: option.split)
  then show ?case using Cons device_apply_inv by (simp add: device_run_def later_def)
qed (simp add: device_run_def)

lemma device_run_inv: "device_inv db \<Longrightarrow> list_all event_wf es \<Longrightarrow> device_inv (device_run es db)"
  by (induction es arbitrary: db) (auto simp: device_run_def device_apply_inv)

end
