(* ===== verification/DeviceFlow.thy ===== *)
theory DeviceFlow
  imports DeviceMachine
begin

text \<open>
  The properties of the device grant store: what a successful answer of each operation says about the
  table, whatever the other nodes commit in between, and what the state machine of \<open>DeviceMachine\<close>
  guarantees over whole runs.
\<close>

section \<open>Runs\<close>

text \<open>C23. Every table the committed statements can produce from an empty one, in any order and from
  any number of nodes, satisfies its invariant: the constraints of the schema hold, a pending grant
  has no subject, no decision and no claim, a denied grant has no claim, and only a consumed grant
  carries a token request or a revocation time.\<close>

theorem device_reachable_wf:
  assumes "device_step\<^sup>*\<^sup>* \<lparr>grants = [], managed = cs\<rparr> db"
  shows "device_inv db"
  using assms by (rule device_steps_inv) (simp add: device_inv_def grants_ok_def sql_unique_some_def)

definition demo_binding :: client_binding where
  "demo_binding = \<lparr>cb_ID = '''', cb_Generation = '''', cb_Revision = 0, cb_Resource = ''''\<rparr>"

definition demo_grant :: grant_row where
  "demo_grant = new_grant_row ''d'' ''u'' ''c'' demo_binding [''openid''] 1000"

definition demo_db :: device_db where
  "demo_db = \<lparr>grants = [demo_grant], managed = []\<rparr>"

lemmas demo_defs = demo_binding_def demo_grant_def demo_db_def new_grant_row_def nilIfEmpty_def

lemmas table_eval = grants_ok_def grant_check_def sql_unique_def sql_unique_some_def sql_update_def
  sql_count_def sql_exists_def sql_select_def commit_grants_def

lemma demo_created:
  "event_stmt (EvCreate ''c'' demo_binding demo_grant) \<lparr>grants = [], managed = []\<rparr> = Some (demo_db, 1)"
  by (simp add: create_stmt_def create_guard_def table_eval demo_defs DefaultInterval_def)

lemma new_row_wf_demo: "new_row_wf ''c'' demo_grant"
  unfolding new_row_wf_def demo_grant_def by blast

lemma demo_step: "device_step \<lparr>grants = [], managed = []\<rparr> demo_db"
  using demo_created by (rule device_step.commit) (simp add: event_wf_def new_row_wf_demo)

lemma demo_inv: "device_inv demo_db"
  by (simp add: device_inv_def row_wf_def table_eval demo_defs DefaultInterval_def)

theorem device_reachable_wf_witness: "device_inv demo_db"
  by (rule device_reachable_wf [of "[]"]) (simp add: demo_step r_into_rtranclp)


definition demo_approved :: "string \<Rightarrow> millis \<Rightarrow> device_db" where
  "demo_approved td u = demo_db\<lparr>grants := [demo_grant\<lparr>g_state := Approved, g_subject := Some ''alice'',
     g_attempt := Some ''a'', g_claim := Some td, g_claim_until := Some u\<rparr>]\<rparr>"

lemma demo_approved_inv: "device_inv (demo_approved td u)"
  by (simp add: device_inv_def row_wf_def demo_approved_def table_eval demo_defs DefaultInterval_def)

definition demo_issues :: "device_event list" where
  "demo_issues = [EvConsume (\<lambda>_. True) ''d'' ''t'' ''req1'' 2000, EvConsume (\<lambda>_. True) ''d'' ''t'' ''req2'' 2000]"

lemma demo_issues_later: "list_all (later ''d'') demo_issues"
  by (simp add: later_def event_wf_def demo_issues_def)


text \<open>C9. The tokens of a device code are issued at most once: in any sequence of committed
  statements, with any clocks, accounts and client changes, at most one consuming transaction of the
  device code succeeds.\<close>

theorem device_single_issue:
  assumes "device_inv db" "list_all (later d) es"
  shows "issues d es db \<le> 1"
  unfolding issues_eq using assms by (intro issue.at_most_one_winner) (auto simp: list_all_iff)

theorem device_single_issue_witness: "issues ''d'' demo_issues (demo_approved ''t'' 9000) = 1"
proof -
  have "issues ''d'' demo_issues (demo_approved ''t'' 9000) \<le> 1"
    by (rule device_single_issue [OF demo_approved_inv demo_issues_later])
  moreover have "0 < issues ''d'' demo_issues (demo_approved ''t'' 9000)"
    by (simp add: demo_issues_def demo_approved_def consume_stmt_def deviceGuard_def table_eval demo_defs
        DefaultInterval_def DefaultExpiry_def)
  ultimately show ?thesis by simp
qed

section \<open>Claiming\<close>

lemma load_Some:
  assumes "load P f d client db = Inr (Some r)"
  shows "r \<in> set (grants db)" "g_device r = d" "g_client r = client"
proof -
  have "sql_select (\<lambda>r. g_device r = d \<and> g_client r = client) (grants db) = [r]"
    using assms by (auto simp: load_def split: if_splits list.splits option.splits)
  then have "r \<in> set (sql_select (\<lambda>r. g_device r = d \<and> g_client r = client) (grants db))" by simp
  then show "r \<in> set (grants db)" "g_device r = d" "g_client r = client" by (auto simp: set_sql_select)
qed



lemma poll_pending_not_claimed:
  "poll_pending P d client now env row db = (db', Inr res) \<Longrightarrow> pr_Status res \<noteq> StatusClaimed"
  by (auto simp: poll_pending_def status_only_def poll_fresh_status_def Let_def
      split: prod.splits sum.splits option.splits if_splits)

lemma poll_approved_claimed:
  assumes "poll_approved P d client now env row db = (db', Inr res)" "pr_Status res = StatusClaimed"
  obtains token n fresh db1 where "claim_stmt d client now (digest P token) db = Some (db1, n)"
    "db' = pe_other2 env db1" "fresh \<in> set (grants db')" "g_device fresh = d" "g_client fresh = client"
    "row_claim fresh = digest P token" "res = claimed_result token fresh"
proof -
  obtain rnd where rnd: "pe_rnd env = Some rnd"
    using assms by (auto simp: poll_approved_def randomCode_def status_only_def split: if_splits option.splits)
  let ?token = "b64_encode rnd"
  obtain db1 n where run: "run_execute (pe_exec env) (claim_stmt d client now (digest P ?token)) db = (db1, Inr n)"
    using assms rnd by (auto simp: poll_approved_def randomCode_def status_only_def
        split: if_splits option.splits prod.splits sum.splits)
  obtain fresh where fresh: "load P (pe_reload_fails env) d client (pe_other2 env db1) = Inr (Some fresh)"
    "row_claim fresh = digest P ?token" "db' = pe_other2 env db1" "res = claimed_result ?token fresh"
    using assms rnd run by (auto simp: poll_approved_def randomCode_def status_only_def Let_def
        split: if_splits option.splits sum.splits)
  have stmt: "claim_stmt d client now (digest P ?token) db = Some (db1, n)"
    using run by (simp add: run_execute_Inr_db)
  have loaded: "load P (pe_reload_fails env) d client db' = Inr (Some fresh)" using fresh(1,3) by simp
  show ?thesis by (rule that [OF stmt fresh(3) load_Some [OF loaded] fresh(2,4)])
qed

lemma claim_held:
  assumes "device_inv db" "claim_stmt d client now td db = Some (db1, n)"
    and "\<exists>r \<in> set (grants db1). g_device r = d \<and> row_claim r = td" "unclaimed d td db"
  shows "held d td (now + claimLease) db1"
proof -
  have t: "grants db1 = sql_update (claim_where d client now)
      (\<lambda>r. r\<lparr>g_claim := Some td, g_claim_until := Some (now + claimLease)\<rparr>) (grants db)"
    using assms(2) by (rule stmt_rows(3))
  with assms(3,4) obtain r where r: "r \<in> set (grants db)" "claim_where d client now r"
    by (auto simp: set_sql_update unclaimed_def)
  have "x = r" if "x \<in> set (grants db)" "g_device x = d" for x
    using that r assms(1) sql_unique_eq [of g_device "grants db" x r]
    by (simp add: device_inv_def grants_ok_def claim_where_def)
  then show ?thesis using t r by (auto simp: held_def set_sql_update claim_where_def)
qed

text \<open>C10. A claim is exclusive. When \<open>Poll\<close> answers that it claimed a grant, the answer describes an
  approved grant of that device code and client, and from then on, until the lease of thirty seconds
  ends, no sequence of statements of others makes another claim or issues the tokens. \<open>between\<close> is what
  other nodes commit between the claim and the second read; the first read may be followed by
  anything.\<close>

theorem device_claim_exclusive:
  assumes "device_inv (pe_other env db)" "Poll P deviceCode client now env db = (db', Inr res)"
    and "pr_Status res = StatusClaimed"
    and "td = digest P (pr_ClaimToken res)" "unclaimed (digest P deviceCode) td (pe_other env db)" "td \<noteq> ''''"
    and "pe_other2 env = device_run between" "list_all (later (digest P deviceCode)) between"
    and "list_all (of_other td (now + claimLease)) between"
    and "list_all (later (digest P deviceCode)) es" "list_all (of_other td (now + claimLease)) es"
  shows "issues (digest P deviceCode) es db' = 0 \<and>
     held (digest P deviceCode) td (now + claimLease) (device_run es db') \<and>
     (\<exists>r \<in> set (grants db'). g_device r = digest P deviceCode \<and> g_client r = client \<and> g_state r = Approved \<and>
        g_subject r = Some (pr_Subject res) \<and> pr_Scopes res = g_scopes r \<and> pr_MFAVerified res = g_mfa r)"
proof -
  let ?d = "digest P deviceCode" and ?u = "now + claimLease"
  obtain row where "poll_approved P ?d client now env row (pe_other env db) = (db', Inr res)"
    using assms(2,3) poll_pending_not_claimed
    by (auto simp: Poll_def status_only_def Let_def split: if_splits sum.splits option.splits grant_state.splits)
  then obtain token n fresh db1
    where stmt: "claim_stmt ?d client now (digest P token) (pe_other env db) = Some (db1, n)"
      and db': "db' = pe_other2 env db1" "fresh \<in> set (grants db')" "g_device fresh = ?d" "g_client fresh = client"
      and tok: "row_claim fresh = digest P token" "res = claimed_result token fresh"
    using assms(3) by (rule poll_approved_claimed)
  have td: "td = digest P token" using assms(4) tok(2) by (simp add: claimed_result_def)
  have inv1: "device_inv db1"
    using event_inv [of "EvClaim ?d client now td"] stmt assms(1) td by (simp add: event_wf_def)
  have inv': "device_inv db'"
    using device_run_inv [OF inv1] assms(7,8) db'(1) by (simp add: later_def list_all_iff)
  have "\<not> unclaimed ?d td db'" using db' tok(1) td by (auto simp: unclaimed_def)
  then have "\<not> unclaimed ?d td db1" using unclaimed_run [OF inv1 assms(8,9)] assms(6,7) db'(1) by auto
  then have "held ?d td ?u db1" using claim_held [OF assms(1)] stmt assms(5) td by (auto simp: unclaimed_def)
  then have held': "held ?d td ?u db'" using held_run [OF inv1 assms(8,9)] assms(7) db'(1) by simp
  then have "g_state fresh = Approved"
    using db' tok(1) td assms(6) inv' by (auto simp: held_def device_inv_def list_all_iff row_wf_def row_claim_def orEmpty_def)
  then have "g_subject fresh \<noteq> None"
    using inv' db'(2) by (auto simp: device_inv_def grants_ok_def grant_check_def list_all_iff)
  with \<open>g_state fresh = Approved\<close> show ?thesis
    using held_run [OF inv' assms(10,11) held'] db' tok(2)
    by (auto simp: claimed_result_def orEmpty_def intro!: bexI [of _ fresh])
qed

definition demo_code_db :: "grant_row \<Rightarrow> device_db" where
  "demo_code_db r = \<lparr>grants = [r\<lparr>g_device := digest demo_prims ''d''\<rparr>], managed = []\<rparr>"

definition demo_env :: poll_env where
  "demo_env = \<lparr>pe_load_fails = False, pe_other = (\<lambda>x. x), pe_rnd = Some ''r'', pe_exec = Exec_Ok,
     pe_other2 = device_run [], pe_reload_fails = False\<rparr>"

definition demo_ready :: grant_row where
  "demo_ready = demo_grant\<lparr>g_state := Approved, g_subject := Some ''alice'', g_attempt := Some ''a''\<rparr>"

definition demo_rival :: "device_event list" where
  "demo_rival = [EvClaim (digest demo_prims ''d'') ''c'' 3000 ''x'',
     EvConsume (\<lambda>_. True) (digest demo_prims ''d'') ''x'' ''req'' 3000]"

lemma demo_poll:
  "pr_Status (projr (snd (Poll demo_prims ''d'' ''c'' 2000 demo_env (demo_code_db demo_ready)))) = StatusClaimed"
  "pr_ClaimToken (projr (snd (Poll demo_prims ''d'' ''c'' 2000 demo_env (demo_code_db demo_ready)))) = ''cg''"
  "isl (snd (Poll demo_prims ''d'' ''c'' 2000 demo_env (demo_code_db demo_ready))) = False"
  "digest demo_prims ''cg'' = ''Y2c''"
  by code_simp+

theorem device_claim_exclusive_witness:
  "issues (digest demo_prims ''d'') demo_rival
     (fst (Poll demo_prims ''d'' ''c'' 2000 demo_env (demo_code_db demo_ready))) = 0"
proof -
  let ?poll = "Poll demo_prims ''d'' ''c'' 2000 demo_env (demo_code_db demo_ready)"
  have run: "?poll = (fst ?poll, Inr (projr (snd ?poll)))"
    using demo_poll(3) by (cases ?poll) (simp add: sum.expand)
  show ?thesis
    by (rule conjunct1 [OF device_claim_exclusive [OF _ run demo_poll(1) refl, of "[]"]])
      (simp_all add: demo_poll, simp_all add: demo_env_def demo_rival_def later_def event_wf_def claimLease_def
        unclaimed_def demo_code_db_def demo_ready_def demo_defs row_claim_def orEmpty_def
        device_inv_def row_wf_def table_eval DefaultInterval_def)
qed

section \<open>Polling a pending grant\<close>

lemma grants_ok_update:
  assumes "grants_ok t" "\<And>r. r \<in> set t \<Longrightarrow> p r \<Longrightarrow> grant_check (f r)"
    and "\<And>r. g_device (f r) = g_device r" "\<And>r. g_user (f r) = g_user r"
    and "\<And>r. g_token_request (f r) = g_token_request r"
  shows "grants_ok (sql_update p f t)"
  using assms
  by (auto simp: grants_ok_def list_all_iff set_sql_update sql_unique_some_def map_sql_update_frame)

definition resource_ok :: "prims \<Rightarrow> grant_row \<Rightarrow> bool" where
  "resource_ok P r \<longleftrightarrow> (\<forall>v. g_resource r = Some v \<longrightarrow> validResource P v)"

lemma load_row:
  assumes "grants_ok (grants db)" "r \<in> set (grants db)" "resource_ok P r"
  shows "load P False (g_device r) (g_client r) db = Inr (Some r)"
proof -
  have "sql_select (\<lambda>x. g_device x = g_device r \<and> g_client x = g_client r) (grants db) = [r]"
    using assms(1,2) by (intro sql_select_unique_key [of g_device]) (auto simp: grants_ok_def)
  then show ?thesis using assms(3) by (auto simp: load_def resource_ok_def split: option.split)
qed

text \<open>An environment in which nothing fails and nothing else is committed.\<close>

definition calm :: "poll_env \<Rightarrow> bool" where
  "calm env \<longleftrightarrow> \<not> pe_load_fails env \<and> pe_exec env = Exec_Ok \<and> \<not> pe_reload_fails env"


lemma row_selected:
  assumes "sql_unique g_device t" "r \<in> set t" "p r" "\<And>x. p x \<Longrightarrow> g_device x = g_device r"
  shows "sql_update p f t = sql_update (\<lambda>x. x = r) (\<lambda>_. f r) t" "sql_count p t = 1"
proof -
  have "p x \<longleftrightarrow> x = r" if "x \<in> set t" for x
    using sql_unique_eq [OF assms(1) that assms(2)] assms(3,4) by blast
  then show "sql_update p f t = sql_update (\<lambda>x. x = r) (\<lambda>_. f r) t"
    unfolding sql_update_def by (intro map_cong) auto
  have "filter p t = [r]" using assms by (rule filter_unique_key)
  then show "sql_count p t = 1" by (simp add: sql_count_def)
qed

lemma Poll_pending:
  assumes "device_inv db" "r \<in> set (grants db)" "resource_ok P r" "g_state r = Pending" "now < g_expires r"
    and "g_device r = digest P deviceCode" "deviceCode \<noteq> ''''" "g_client r \<noteq> ''''"
    and "calm env" "pe_other env db = db"
  shows "Poll P deviceCode (g_client r) now env db = poll_pending P (g_device r) (g_client r) now env r db"
proof -
  have "load P (pe_load_fails env) (digest P deviceCode) (g_client r) db = Inr (Some r)"
    using load_row [of db r P] assms(1-3,6,9) by (simp add: calm_def device_inv_def)
  then show ?thesis using assms(4-8,10) by (simp add: Poll_def)
qed

lemma poll_stmt_row:
  assumes "device_inv db" "r \<in> set (grants db)" "g_state r = Pending" "now < g_expires r"
  shows "poll_stmt (g_device r) (g_client r) now r nx iv db =
           (if 5 \<le> iv \<and> iv \<le> 60
            then Some (db\<lparr>grants := sql_update (\<lambda>x. x = r) (\<lambda>_. r\<lparr>g_next_poll := nx, g_interval := iv\<rparr>) (grants db)\<rparr>, 1)
            else None)"
proof -
  let ?p = "poll_where (g_device r) (g_client r) now r" and ?f = "\<lambda>x. x\<lparr>g_next_poll := nx, g_interval := iv\<rparr>"
  have sel: "sql_update ?p ?f (grants db) = sql_update (\<lambda>x. x = r) (\<lambda>_. ?f r) (grants db)"
    "sql_count ?p (grants db) = 1"
    by (rule row_selected; use assms in \<open>simp add: poll_where_def device_inv_def grants_ok_def\<close>)+
  have check: "grant_check r" using assms(1,2) by (simp add: device_inv_def grants_ok_def list_all_iff)
  have "grants_ok (sql_update ?p ?f (grants db)) \<longleftrightarrow> 5 \<le> iv \<and> iv \<le> 60"
  proof
    assume "grants_ok (sql_update ?p ?f (grants db))"
    moreover have "?f r \<in> set (sql_update ?p ?f (grants db))" using sel(1) assms(2) by (auto simp: set_sql_update)
    ultimately have "grant_check (?f r)" by (auto simp: grants_ok_def list_all_iff)
    then show "5 \<le> iv \<and> iv \<le> 60" by (simp add: grant_check_def)
  next
    assume "5 \<le> iv \<and> iv \<le> 60"
    then show "grants_ok (sql_update ?p ?f (grants db))"
      using assms(1) by (intro grants_ok_update) (auto simp: device_inv_def grants_ok_def list_all_iff grant_check_def)
  qed
  then show ?thesis using sel by (simp add: poll_stmt_def commit_grants_def Let_def)
qed

text \<open>A poll of a pending grant answers \<open>slow_down\<close> exactly when it comes before the announced time,
  lengthens the interval by five seconds only then, and never moves the announced time back. The
  interval has to be below the bound of the table.\<close>

lemma device_poll_pending:
  assumes "device_inv db" "r \<in> set (grants db)" "resource_ok P r" "g_state r = Pending" "now < g_expires r"
    and "g_device r = digest P deviceCode" "deviceCode \<noteq> ''''" "g_client r \<noteq> ''''"
    and "calm env" "pe_other env db = db" "pe_other2 env = (\<lambda>x. x)"
    and "g_next_poll r \<le> now \<or> g_interval r \<le> 55"
    and iv: "iv = (if now < g_next_poll r then g_interval r + 5 else g_interval r)"
  shows "Poll P deviceCode (g_client r) now env db =
     (db\<lparr>grants := sql_update (\<lambda>x. x = r)
        (\<lambda>_. r\<lparr>g_next_poll := max (g_next_poll r) (now + iv * 1000), g_interval := iv\<rparr>) (grants db)\<rparr>,
      Inr (status_only (if now < g_next_poll r then StatusSlowDown else StatusPending)))"
    (is "_ = (?db', _)")
proof -
  let ?r = "r\<lparr>g_next_poll := max (g_next_poll r) (now + iv * 1000), g_interval := iv\<rparr>"
  have sched: "poll_interval now r = iv" "poll_next now r = max (g_next_poll r) (now + iv * 1000)"
    using iv by (auto simp: poll_interval_def poll_next_def Let_def max_def)
  have "5 \<le> g_interval r \<and> g_interval r \<le> 60"
    using assms(1,2) by (auto simp: device_inv_def grants_ok_def grant_check_def list_all_iff)
  then have bounds: "5 \<le> iv \<and> iv \<le> 60" using iv assms(12) by auto
  then have stmt: "poll_stmt (g_device r) (g_client r) now r (poll_next now r) (poll_interval now r) db = Some (?db', 1)"
    using poll_stmt_row [OF assms(1,2,4,5)] sched by simp
  have "device_inv ?db'"
    using event_inv [of "EvPoll (g_device r) (g_client r) now r (poll_next now r) (poll_interval now r)"] stmt assms(1)
    by (simp add: event_wf_def)
  moreover have "?r \<in> set (grants ?db')" using assms(2) by (auto simp: set_sql_update)
  ultimately have "load P False (g_device r) (g_client r) ?db' = Inr (Some ?r)"
    using load_row [of ?db' ?r P] assms(3) by (simp add: device_inv_def resource_ok_def)
  then show ?thesis
    using Poll_pending [OF assms(1-10)] stmt assms(4,5,9,11) sched
    by (simp add: poll_pending_def run_execute_def calm_def poll_fresh_status_def)
qed

text \<open>C28. A pending grant whose interval has grown past 55 seconds is not slowed down any more: an
  early poll computes an interval above the bound of the table, its statement is rejected, and the
  client gets a server error instead of \<open>slow_down\<close>.\<close>

theorem device_poll_interval_overflow:
  assumes "device_inv db" "r \<in> set (grants db)" "resource_ok P r" "g_state r = Pending" "now < g_expires r"
    and "g_device r = digest P deviceCode" "deviceCode \<noteq> ''''" "g_client r \<noteq> ''''"
    and "calm env" "pe_other env db = db"
    and "now < g_next_poll r" "55 < g_interval r"
  shows "Poll P deviceCode (g_client r) now env db = (db, Inl (ErrExec Exec_Rejected))"
  using Poll_pending [OF assms(1-10)] poll_stmt_row [OF assms(1,2,4,5)] assms(9,11,12)
  by (simp add: poll_pending_def run_execute_def calm_def poll_interval_def)

definition demo_slow :: "int \<Rightarrow> grant_row" where
  "demo_slow iv = demo_grant\<lparr>g_device := digest demo_prims ''d'', g_interval := iv, g_next_poll := 5000\<rparr>"

definition demo_slow_db :: "int \<Rightarrow> device_db" where
  "demo_slow_db iv = \<lparr>grants = [demo_slow iv], managed = []\<rparr>"

definition demo_calm :: poll_env where
  "demo_calm = \<lparr>pe_load_fails = False, pe_other = (\<lambda>x. x), pe_rnd = None, pe_exec = Exec_Ok,
     pe_other2 = (\<lambda>x. x), pe_reload_fails = False\<rparr>"

lemma demo_slow_facts:
  "5 \<le> iv \<Longrightarrow> iv \<le> 60 \<Longrightarrow> device_inv (demo_slow_db iv)" "demo_slow iv \<in> set (grants (demo_slow_db iv))"
  "resource_ok demo_prims (demo_slow iv)" "g_state (demo_slow iv) = Pending" "2000 < g_expires (demo_slow iv)"
  "g_device (demo_slow iv) = digest demo_prims ''d''" "g_client (demo_slow iv) = ''c''"
  "g_next_poll (demo_slow iv) = 5000" "g_interval (demo_slow iv) = iv"
  by (simp_all add: device_inv_def row_wf_def demo_slow_db_def demo_slow_def resource_ok_def
      table_eval demo_defs DefaultExpiry_def)

lemma device_poll_pending_example:
  "snd (Poll demo_prims ''d'' ''c'' 2000 demo_calm (demo_slow_db 5)) = Inr (status_only StatusSlowDown)"
  using device_poll_pending [where db = "demo_slow_db 5" and r = "demo_slow 5" and P = demo_prims and now = 2000
      and deviceCode = "''d''" and env = demo_calm and iv = 10] demo_slow_facts [of 5]
  by (simp add: demo_calm_def calm_def)

theorem device_poll_interval_overflow_witness:
  "Poll demo_prims ''d'' ''c'' 2000 demo_calm (demo_slow_db 60) = (demo_slow_db 60, Inl (ErrExec Exec_Rejected))"
  using device_poll_interval_overflow [where db = "demo_slow_db 60" and r = "demo_slow 60" and P = demo_prims and now = 2000
      and deviceCode = "''d''" and env = demo_calm]
    demo_slow_facts [of 60]
  by (simp add: demo_calm_def calm_def)

section \<open>Creating and deciding\<close>

text \<open>The columns that an operation writes and that never change.\<close>

lemma recoverCreate_stored:
  assumes "recoverCreate row db = (True, c)"
  shows "\<exists>r \<in> set (grants db). g_device r = g_device row \<and> g_user r = g_user row \<and> g_client r = g_client row \<and>
     g_scopes r = g_scopes row \<and> g_expires r = g_expires row"
proof -
  obtain r where "sql_select (\<lambda>r. g_device r = g_device row \<or> g_user r = g_user row) (grants db) = [r]"
    "g_device r = g_device row" "g_user r = g_user row" "g_client r = g_client row"
    "g_scopes r = g_scopes row" "g_expires r = g_expires row"
    using assms by (auto simp: recoverCreate_def split: list.splits if_splits)
  moreover from this(1) have "r \<in> set (grants db)"
    by (metis (no_types, lifting) list.set_intros(1) mem_Collect_eq set_sql_select)
  ultimately show ?thesis by blast
qed

definition stored_grant :: "prims \<Rightarrow> string \<Rightarrow> string list \<Rightarrow> grant \<Rightarrow> device_db \<Rightarrow> bool" where
  "stored_grant P client scopes g db \<longleftrightarrow>
     (\<exists>r \<in> set (grants db). g_device r = digest P (DeviceCode g) \<and>
        g_user r = digest P (NormalizeUserCode P (UserCode g)) \<and> g_client r = client \<and> g_scopes r = scopes \<and>
        g_expires r = ExpiresAt g)"

lemma create_loop_stored:
  "create_loop P client scopes b now env i left db = (db', Inr g) \<Longrightarrow>
   stored_grant P client scopes g db' \<and> ExpiresAt g = now + DefaultExpiry \<and>
   (\<exists>k bytes. ce_user_rnd (env k) = bytes \<and> randomUserCode bytes = Some (UserCode g))"
proof (induction left arbitrary: i db)
  case (Suc left)
  obtain dc uc where codes: "randomCode (ce_device_rnd (env i)) = Some dc" "randomUserCode (ce_user_rnd (env i)) = Some uc"
    using Suc.prems
    by (cases "randomCode (ce_device_rnd (env i))"; cases "randomUserCode (ce_user_rnd (env i))") (auto simp: Let_def)
  define row where "row = new_grant_row (digest P dc) (digest P (NormalizeUserCode P uc)) client b scopes now"
  define g' where "g' = \<lparr>DeviceCode = dc, UserCode = uc, ExpiresAt = now + DefaultExpiry, Interval = DefaultInterval\<rparr>"
  have stored: "stored_grant P client scopes g' x"
    if "\<exists>r \<in> set (grants x). g_device r = g_device row \<and> g_user r = g_user row \<and> g_client r = g_client row \<and>
     g_scopes r = g_scopes row \<and> g_expires r = g_expires row" for x
    using that by (simp add: stored_grant_def g'_def row_def new_grant_row_def)
  obtain db1 response where run: "run_execute (ce_exec (env i)) (create_stmt client b row) db = (db1, response)"
    by (cases "run_execute (ce_exec (env i)) (create_stmt client b row) db")
  let ?err = "case response of Inl x \<Rightarrow> Some (ErrExec x) | Inr n \<Rightarrow> if n \<noteq> 1 then Some ErrInvalid else None"
  let ?db2 = "ce_other (env i) db1"
  have step: "create_loop P client scopes b now env i (Suc left) db =
      (if ce_query_fails (env i) then (?db2, Inl x) else if rec then (?db2, Inr g')
       else if \<not> col then (?db2, Inl x) else create_loop P client scopes b now env (Suc i) left ?db2)"
    if "recoverCreate row ?db2 = (rec, col)" "?err = Some x" for rec col x
    using that codes run by (simp add: row_def [symmetric] g'_def [symmetric] Let_def)
  show ?case
  proof (cases ?err)
    case None
    then have "response = Inr 1" by (auto split: sum.splits if_splits)
    then have "row \<in> set (grants db1)"
      using run by (auto simp: run_execute_Inr_db create_stmt_def commit_grants_Some split: if_splits)
    moreover have "db' = db1" "g = g'" using Suc.prems codes run None by (auto simp: row_def g'_def Let_def)
    ultimately show ?thesis using stored codes by (auto simp: g'_def)
  next
    case (Some x)
    obtain rec col where rc: "recoverCreate row ?db2 = (rec, col)" by (cases "recoverCreate row ?db2")
    have "rec \<and> db' = ?db2 \<and> g = g' \<or> create_loop P client scopes b now env (Suc i) left ?db2 = (db', Inr g)"
      using Suc.prems unfolding step [OF rc Some] by (simp split: if_splits)
    then consider "rec" "db' = ?db2" "g = g'" | "create_loop P client scopes b now env (Suc i) left ?db2 = (db', Inr g)"
      by blast
    then show ?thesis
    proof cases
      case 1
      then show ?thesis using stored recoverCreate_stored rc codes by (auto simp: g'_def)
    next
      case 2
      then show ?thesis by (rule Suc.IH)
    qed
  qed
qed simp

text \<open>When \<open>create\<close> returns a grant, the table has a row with the digests of exactly the returned
  codes, the client, the scopes and the returned deadline, also when the reply of the insertion was
  lost, a code collided, or other nodes wrote in between.\<close>

lemma device_create_stored:
  assumes "create P client scopes b now env db = (db', Inr g)"
  shows "stored_grant P client scopes g db' \<and> ExpiresAt g = now + DefaultExpiry"
  using assms create_loop_stored [of P client scopes b now env 0 4 db db' g]
  by (auto simp: create_def Let_def split: if_splits)

definition demo_create_env :: "nat \<Rightarrow> create_env" where
  "demo_create_env i = \<lparr>ce_device_rnd = Some ''r'', ce_user_rnd = [0, 1, 2, 3, 4, 5, 6, 7, 8, 250, 9],
     ce_exec = Exec_Lost, ce_other = (\<lambda>x. x), ce_query_fails = False\<rparr>"

definition demo_create :: "device_db \<times> (device_err + grant)" where
  "demo_create = create demo_prims ''c'' [''openid''] demo_binding 1000 demo_create_env \<lparr>grants = [], managed = []\<rparr>"

lemma demo_create_ok: "isl (snd demo_create) = False" "UserCode (projr (snd demo_create)) = ''ABCD-EFGH-JK''"
  by code_simp+

lemma device_create_stored_example:
  "stored_grant demo_prims ''c'' [''openid''] (projr (snd demo_create)) (fst demo_create)"
proof -
  have "demo_create = (fst demo_create, Inr (projr (snd demo_create)))"
    using demo_create_ok(1) by (cases demo_create) (simp add: sum.expand)
  then show ?thesis unfolding demo_create_def using device_create_stored by blast
qed

text \<open>When an approval or denial is reported as applied, the grant of the user code carries that
  decision, by this attempt and for this subject, and is not expired, whether the reply
  arrived or the decision was found by reading the grant back.\<close>

lemma device_decide_applied:
  assumes "decide P userCode subject st mfa sid guard now env db = (db', Inr ())" "st = Approved \<or> st = Denied"
    and "d = digest P (NormalizeUserCode P userCode)"
  shows "\<exists>r \<in> set (grants db'). g_user r = d \<and> g_state r = st \<and>
     g_attempt r = Some (decide_id P d st now mfa subject sid) \<and>
     (st = Approved \<longrightarrow> g_subject r = Some subject) \<and> now < g_expires r"
proof -
  let ?attempt = "decide_id P d st now mfa subject sid"
  have pre: "st = Approved \<longrightarrow> subject \<noteq> ''''" "\<not> is_blank guard"
    using assms(1) by (auto simp: decide_def Let_def split: if_splits)
  obtain db1 response where run: "run_execute (de_exec env) (decide_stmt d subject st mfa ?attempt guard now) db = (db1, response)"
    by (cases "run_execute (de_exec env) (decide_stmt d subject st mfa ?attempt guard now) db")
  show ?thesis
  proof (cases response)
    case (Inl x)
    then have "decisionApplied d st subject ?attempt now (de_other env db1)" "db' = de_other env db1"
      using assms run pre by (auto simp: decide_def Let_def split: if_splits)
    then obtain r where "sql_select (\<lambda>r. g_user r = d) (grants db') = [r]" "g_state r = st" "g_attempt r = Some ?attempt"
      "st = Approved \<longrightarrow> g_subject r = Some subject" "now < g_expires r"
      by (auto simp: decisionApplied_def split: list.splits)
    moreover from this(1) have "r \<in> set (grants db')" "g_user r = d"
      using set_sql_select [of "\<lambda>r. g_user r = d" "grants db'"] by auto
    ultimately show ?thesis by blast
  next
    case (Inr n)
    then have n: "n \<noteq> 0" "db' = db1" using assms run pre by (auto simp: decide_def Let_def split: if_splits)
    have stmt: "decide_stmt d subject st mfa ?attempt guard now db = Some (db1, n)"
      using run Inr by (simp add: run_execute_Inr_db)
    have "n = sql_count (decide_where d st mfa guard now db) (grants db)"
      using stmt by (auto simp: decide_stmt_def commit_grants_Some Let_def)
    then obtain r where r: "r \<in> set (grants db)" "decide_where d st mfa guard now db r"
      using n(1) by (auto simp: sql_count_0_iff)
    then have "decide_set st subject ?attempt mfa r \<in> set (grants db')"
      using stmt_rows(1) [OF stmt] n(2) by (auto simp: set_sql_update)
    then show ?thesis using r(2) pre(1) assms(2)
      by (intro bexI [of _ "decide_set st subject ?attempt mfa r"])
        (auto simp: decide_set_def decide_where_def nilIfEmpty_def)
  qed
qed

definition demo_decide_env :: decide_env where
  "demo_decide_env = \<lparr>de_exec = Exec_Lost, de_other = (\<lambda>x. x), de_query_fails = False\<rparr>"

definition demo_decide :: "device_db \<times> (device_err + unit)" where
  "demo_decide = decide demo_prims ''abcd-efgh-jk'' ''alice'' Approved True '''' NoGuard 2000 demo_decide_env (fst demo_create)"

lemma demo_decide_ok: "snd demo_decide = Inr ()"
  by code_simp

lemma device_decide_applied_example:
  "\<exists>r \<in> set (grants (fst demo_decide)). g_state r = Approved \<and> g_subject r = Some ''alice''"
proof -
  have "demo_decide = (fst demo_decide, Inr ())"
    using demo_decide_ok by (metis surjective_pairing)
  then show ?thesis unfolding demo_decide_def using device_decide_applied [OF _ _ refl] by blast
qed

section \<open>Issuing\<close>

lemma unique_some_set:
  assumes "sql_unique_some k t" "distinct (map key t)" "\<forall>x \<in> set t. k x \<noteq> Some i"
    and "\<And>x. k (f x) = Some i"
  shows "sql_unique_some k (sql_update (\<lambda>x. key x = d) f t)"
  using assms(1-3)
proof (induction t)
  case (Cons x t)
  have rest: "sql_unique_some k t" using Cons.prems(1) by (auto simp: sql_unique_some_def split: if_splits)
  let ?t = "sql_update (\<lambda>x. key x = d) f t"
  have IH: "sql_unique_some k ?t" using Cons rest by simp
  show ?case
  proof (cases "key x = d")
    case True
    moreover have "key x \<notin> key ` set t" using Cons.prems(2) by simp
    ultimately have "?t = t" by (intro sql_update_none) (metis imageI)
    moreover have "Some i \<notin> set (filter (\<lambda>v. v \<noteq> None) (map k t))" using Cons.prems(3) by auto
    moreover have "sql_update (\<lambda>x. key x = d) f (x # t) = f x # ?t" using True by (simp add: sql_update_def)
    ultimately show ?thesis using rest assms(4) by (simp add: sql_unique_some_def)
  next
    case False
    have "k x \<notin> k ` set ?t" if "k x \<noteq> None"
    proof -
      have "k x \<notin> k ` set t" using that Cons.prems(1) by (auto simp: sql_unique_some_def split: if_splits)
      moreover have "k x \<noteq> Some i" using Cons.prems(3) by simp
      ultimately show ?thesis using assms(4) by (auto simp: set_sql_update)
    qed
    moreover have "sql_update (\<lambda>x. key x = d) f (x # t) = x # ?t" using False by (simp add: sql_update_def)
    ultimately show ?thesis using IH by (auto simp: sql_unique_some_def)
  qed
qed (simp add: sql_unique_some_def sql_update_def)

lemma consume_stmt_exact:
  assumes "device_inv db" "\<forall>r \<in> set (grants db). g_token_request r \<noteq> Some i"
  shows "consume_stmt live d td i now db =
     (if sql_exists (deviceGuard live d td now db) (grants db)
      then Some (db\<lparr>grants := sql_update (\<lambda>r. g_device r = d)
             (\<lambda>r. r\<lparr>g_state := Consumed, g_claim_until := Some 0, g_token_request := Some i\<rparr>) (grants db)\<rparr>, 1)
      else None)"
proof (cases "sql_exists (deviceGuard live d td now db) (grants db)")
  case True
  let ?f = "\<lambda>r. r\<lparr>g_state := Consumed, g_claim_until := Some 0, g_token_request := Some i\<rparr>"
  let ?t = "sql_update (\<lambda>r. g_device r = d) ?f (grants db)"
  have ok: "grants_ok (grants db)" using assms(1) by (simp add: device_inv_def)
  from True obtain r where r: "r \<in> set (grants db)" "deviceGuard live d td now db r" by (auto simp: sql_exists_iff)
  have d: "g_device r = d" "g_claim r = Some td" using r(2) by (simp_all add: deviceGuard_def)
  have only: "x = r" if "x \<in> set (grants db)" "g_device x = d" for x
    using that sql_unique_eq [of g_device "grants db" x r] ok r(1) d by (simp add: grants_ok_def)
  have count: "sql_count (\<lambda>x. g_device x = d) (grants db) = 1"
    by (rule row_selected(2) [of _ r]) (use ok r(1) d in \<open>simp_all add: grants_ok_def\<close>)
  have check: "grant_check (?f r)" if "grant_check r"
    using that d by (simp add: grant_check_def)
  have "list_all grant_check ?t"
    using ok check only by (auto simp: grants_ok_def list_all_iff set_sql_update)
  moreover have "sql_unique g_device ?t" "sql_unique g_user ?t" using ok by (auto simp: grants_ok_def)
  moreover have "sql_unique_some g_token_request ?t"
    by (rule unique_some_set) (use ok assms(2) in \<open>simp_all add: grants_ok_def sql_unique_def\<close>)
  ultimately have "grants_ok ?t" by (simp add: grants_ok_def)
  then show ?thesis using True count by (simp add: consume_stmt_def commit_grants_def)
next
  case False
  then show ?thesis by (simp add: consume_stmt_def sql_count_def)
qed

lemma deviceGuard_iff:
  "deviceGuard live d td now db r \<longleftrightarrow>
     g_device r = d \<and> g_claim r = Some td \<and> g_state r = Approved \<and> (\<exists>u. g_claim_until r = Some u \<and> now < u) \<and> now < g_expires r \<and>
     (\<exists>s. g_subject r = Some s \<and> live s) \<and>
     (if g_generation r = None then \<forall>c \<in> set (managed db). mc_id c \<noteq> g_client r
      else \<exists>c \<in> set (managed db). mc_id c = g_client r \<and> g_generation r = Some (mc_generation c) \<and> mc_enabled c \<and>
             \<not> mc_deleted c \<and> (mc_force_mfa c \<longrightarrow> g_mfa r))"
  by (cases "g_generation r") (auto simp: deviceGuard_def sql_exists_iff split: option.splits)

lemma commit_device_guard:
  assumes "device_inv db" "\<forall>r \<in> set (grants db). g_token_request r \<noteq> Some i"
  shows "commit_device live d td i now Exec_Ok False db =
     (if \<exists>r \<in> set (grants db). deviceGuard live d td now db r
      then (db\<lparr>grants := sql_update (\<lambda>r. g_device r = d)
             (\<lambda>r. r\<lparr>g_state := Consumed, g_claim_until := Some 0, g_token_request := Some i\<rparr>) (grants db)\<rparr>, Inr ())
      else (db, Inl ErrSerializationFailure))"
proof (cases "\<exists>r \<in> set (grants db). deviceGuard live d td now db r")
  case True
  then obtain r where r: "r \<in> set (grants db)" "g_device r = d" "g_claim r = Some td" by (auto simp: deviceGuard_def)
  let ?f = "\<lambda>r. r\<lparr>g_state := Consumed, g_claim_until := Some 0, g_token_request := Some i\<rparr>"
  let ?t = "sql_update (\<lambda>r. g_device r = d) ?f (grants db)"
  have "sql_unique g_device (grants db)" using assms(1) by (simp add: device_inv_def grants_ok_def)
  then have u: "sql_unique g_device ?t" by (rule sql_unique_update) simp
  have "?f r \<in> set ?t" using r(1,2) unfolding set_sql_update by blast
  then have "sql_select (\<lambda>x. g_device x = d \<and> g_claim x = Some td \<and> g_state x = Consumed) ?t = [?f r]"
    using r by (intro sql_select_unique_key [OF u]) simp_all
  then show ?thesis
    using True consume_stmt_exact [OF assms, of live d td now]
    by (simp add: commit_device_def run_execute_def sql_exists_iff)
next
  case False
  then show ?thesis
    using consume_stmt_exact [OF assms, of live d td now]
    by (simp add: commit_device_def run_execute_def sql_exists_iff)
qed



section \<open>User codes\<close>

definition code_char :: "char \<Rightarrow> bool" where
  "code_char c \<longleftrightarrow> c \<in> set user_code_alphabet"

lemma code_char_facts:
  "list_all (\<lambda>c. is_ascii c \<and> \<not> user_code_ignored c \<and> upper_ascii c = c \<and> \<not> is_space (byte_of c) \<and>
     (65 \<le> byte_of c \<and> byte_of c \<le> 90 \<or> 48 \<le> byte_of c \<and> byte_of c \<le> 57)) user_code_alphabet"
  by (simp add: user_code_alphabet_def is_ascii_def user_code_ignored_def upper_ascii_def is_lower_def byte_of_def is_space_def)

lemma code_charD:
  assumes "code_char c"
  shows "is_ascii c" "\<not> user_code_ignored c" "upper_ascii c = c" "\<not> is_space (byte_of c)"
    "65 \<le> byte_of c \<and> byte_of c \<le> 90 \<or> 48 \<le> byte_of c \<and> byte_of c \<le> 57"
  using assms code_char_facts by (auto simp: list_all_iff code_char_def)

lemma pick_chars_spec: "pick_chars n rs = Some s \<Longrightarrow> length s = n \<and> list_all code_char s"
proof (induction n rs arbitrary: s rule: pick_chars.induct)
  case (3 n r rs)
  have "user_code_alphabet ! (r mod length user_code_alphabet) \<in> set user_code_alphabet"
    by (rule nth_mem) (simp add: user_code_alphabet_def)
  with 3 show ?case by (auto simp: code_char_def split: if_splits)
qed simp_all

text \<open>Enough random bytes below the limit always give a code.\<close>

lemma pick_chars_returns:
  "n \<le> length (filter (\<lambda>r. r < user_code_limit) rs) \<Longrightarrow> \<exists>s. pick_chars n rs = Some s"
proof (induction n rs rule: pick_chars.induct)
  case (3 n r rs)
  then show ?case by (cases "r < user_code_limit") auto
qed simp_all

lemma code_chars_normalize:
  assumes "list_all code_char a"
  shows "filter (\<lambda>c. \<not> user_code_ignored c) a = a" "map upper_ascii a = a" "list_all is_ascii a"
proof -
  have "\<not> user_code_ignored c" "upper_ascii c = c" "is_ascii c" if "c \<in> set a" for c
    using code_charD that assms by (auto simp: list_all_iff)
  then show "filter (\<lambda>c. \<not> user_code_ignored c) a = a" "map upper_ascii a = a" "list_all is_ascii a"
    by (simp_all add: filter_id_conv list_all_iff map_idI)
qed

lemma split_code:
  assumes "length s = 10"
  shows "take 4 s @ take 4 (drop 4 s) @ drop 8 s = s"
proof -
  have "take 4 (drop 4 s) @ drop 8 s = drop 4 s"
    using append_take_drop_id [of 4 "drop 4 s"] by (simp add: add.commute)
  then show ?thesis by simp
qed

lemma list_all_take_drop: "list_all p s \<Longrightarrow> list_all p (take n s) \<and> list_all p (drop n s)"
  by (auto simp: list_all_iff dest: in_set_takeD in_set_dropD)

lemma byte_of_char_of [simp]: "n < 256 \<Longrightarrow> byte_of (char_of n) = n"
  by (simp add: byte_of_def)

lemma byte_of_eq: "c = d \<longleftrightarrow> byte_of c = byte_of d"
  by (simp add: byte_of_def)

lemma ignored_byte: "user_code_ignored c \<longleftrightarrow> byte_of c \<in> {45, 32, 9, 10, 13}"
  by (simp add: user_code_ignored_def byte_of_eq [of c]) (simp add: byte_of_def)

lemma lower_code_facts:
  assumes "code_char c"
  shows "is_ascii (lower_ascii c)" "\<not> user_code_ignored (lower_ascii c)" "upper_ascii (lower_ascii c) = c"
  using code_charD(5) [OF assms]
  by (auto simp: lower_ascii_def is_upper_def upper_ascii_def is_lower_def is_ascii_def ignored_byte)

lemma lower_code_chars:
  assumes "list_all code_char a"
  shows "filter (\<lambda>c. \<not> user_code_ignored c) (map lower_ascii a) = map lower_ascii a"
    "map (\<lambda>c. upper_ascii (lower_ascii c)) a = a" "list_all is_ascii (map lower_ascii a)"
proof -
  have "\<not> user_code_ignored (lower_ascii c)" "upper_ascii (lower_ascii c) = c" "is_ascii (lower_ascii c)"
    if "c \<in> set a" for c
    using lower_code_facts that assms by (auto simp: list_all_iff)
  then show "filter (\<lambda>c. \<not> user_code_ignored c) (map lower_ascii a) = map lower_ascii a"
    "map (\<lambda>c. upper_ascii (lower_ascii c)) a = a" "list_all is_ascii (map lower_ascii a)"
    by (simp_all add: filter_id_conv list_all_iff map_idI)
qed

lemma ignored_dash: "user_code_ignored CHR ''-''" "lower_ascii CHR ''-'' = CHR ''-''"
  by (simp_all add: user_code_ignored_def lower_ascii_def is_upper_def byte_of_def)

lemma user_code_shape:
  assumes "randomUserCode rs = Some code"
  shows "\<exists>s. length s = 10 \<and> list_all code_char s \<and>
     code = take 4 s @ ''-'' @ take 4 (drop 4 s) @ ''-'' @ drop 8 s \<and>
     NormalizeUserCode P code = s \<and> NormalizeUserCode P (map lower_ascii code) = s"
proof -
  obtain s where s: "length s = 10" "list_all code_char s" "code = format_user_code s"
    using assms pick_chars_spec by (auto simp: randomUserCode_def)
  have parts: "list_all code_char (take 4 s)" "list_all code_char (take 4 (drop 4 s))" "list_all code_char (drop 8 s)"
    using s(2) list_all_take_drop by blast+
  have "filter (\<lambda>c. \<not> user_code_ignored c) code = s"
    unfolding s(3) format_user_code_def using parts [THEN code_chars_normalize(1)] split_code [OF s(1)]
    by (simp add: ignored_dash)
  moreover have "filter (\<lambda>c. \<not> user_code_ignored c) (map lower_ascii code) = map lower_ascii s"
  proof -
    have "filter (\<lambda>c. \<not> user_code_ignored c) (map lower_ascii code) =
        map lower_ascii (take 4 s) @ map lower_ascii (take 4 (drop 4 s)) @ map lower_ascii (drop 8 s)"
      unfolding s(3) format_user_code_def map_append filter_append parts [THEN lower_code_chars(1)]
      by (simp add: ignored_dash)
    then show ?thesis using arg_cong [OF split_code [OF s(1)], of "map lower_ascii"] by (simp only: map_append)
  qed
  ultimately have "NormalizeUserCode P code = s" "NormalizeUserCode P (map lower_ascii code) = s"
    using code_chars_normalize(2,3) [OF s(2)] lower_code_chars(2,3) [OF s(2)]
    by (simp_all add: NormalizeUserCode_def ToUpper_def comp_def)
  with s show ?thesis by (auto simp: format_user_code_def)
qed

lemma alphabet_facts: "length user_code_alphabet = 30" "distinct user_code_alphabet" "user_code_limit = 240"
  by (simp_all add: user_code_limit_def user_code_alphabet_def)

lemma user_code_uniform:
  assumes "code_char c"
  shows "card {r. r < 256 \<and> r < user_code_limit \<and> user_code_alphabet ! (r mod length user_code_alphabet) = c} = 8"
    (is "card ?S = 8")
proof -
  from assms obtain k where k: "k < 30" "c = user_code_alphabet ! k"
    by (auto simp: code_char_def in_set_conv_nth alphabet_facts)
  have pick: "user_code_alphabet ! (r mod 30) = c \<longleftrightarrow> r mod 30 = k" for r :: nat
    using k alphabet_facts by (simp add: nth_eq_iff_index_eq)
  have "?S = (\<lambda>q. q * 30 + k) ` {..<8}"
  proof
    show "?S \<subseteq> (\<lambda>q. q * 30 + k) ` {..<8}"
    proof
      fix r assume "r \<in> ?S"
      then have "r < 240" "r mod 30 = k" by (simp_all add: alphabet_facts pick)
      then have "r = r div 30 * 30 + k" "r div 30 < 8" by auto
      then show "r \<in> (\<lambda>q. q * 30 + k) ` {..<8}" by blast
    qed
    show "(\<lambda>q. q * 30 + k) ` {..<8} \<subseteq> ?S" using k(1) by (auto simp: alphabet_facts pick)
  qed
  moreover have "inj_on (\<lambda>q. q * 30 + k) {..<8::nat}" by (auto simp: inj_on_def)
  ultimately show ?thesis by (simp add: card_image)
qed

text \<open>A generated user code is ten characters of the alphabet in groups of four, four and two;
  normalizing it, as every lookup does, removes exactly the dashes, so the digest under which a grant
  is stored is the one under which the typed code is found, in either case and with or without
  dashes; and rejection sampling makes every character of the alphabet equally likely, since each is
  picked for exactly eight byte values.\<close>

lemma device_user_code:
  "(\<forall>rs code. randomUserCode rs = Some code \<longrightarrow>
      (\<exists>s. length s = 10 \<and> list_all code_char s \<and>
         code = take 4 s @ ''-'' @ take 4 (drop 4 s) @ ''-'' @ drop 8 s \<and>
         NormalizeUserCode P code = s \<and> NormalizeUserCode P (map lower_ascii code) = s)) \<and>
   (\<forall>c. code_char c \<longrightarrow>
      card {r. r < 256 \<and> r < user_code_limit \<and> user_code_alphabet ! (r mod length user_code_alphabet) = c} = 8)"
  using user_code_shape user_code_uniform by blast

lemma demo_user_code:
  "randomUserCode [0, 1, 2, 3, 4, 5, 6, 7, 8, 9] = Some ''ABCD-EFGH-JK''"
  by code_simp

lemma device_user_code_example:
  "\<exists>s. length s = 10 \<and> list_all code_char s \<and> NormalizeUserCode demo_prims ''ABCD-EFGH-JK'' = s"
  using device_user_code [of demo_prims] demo_user_code by blast

end
