(* ===== verification/LoginPolicy.thy ===== *)
theory LoginPolicy
  imports Encoding RateLimit
begin

text \<open>
  The replicated brute-force protection of \<^verbatim>\<open>internal/loginpolicy/policy.go\<close> with the
  automatic blacklist of \<^verbatim>\<open>internal/ipblacklist/auto.go\<close>: attempt quotas, the failure
  counter of an address with its blocks, the successful-login mean and the delay of an answer. The
  state is the tables \<^verbatim>\<open>login_ip_failures\<close>, \<^verbatim>\<open>login_timing\<close>,
  \<^verbatim>\<open>ip_blacklist_entries\<close>, \<^verbatim>\<open>oauth_rate_limits\<close> and the events that
  a failure appends to the log. \<open>net_canonical\<close> is the printed form of a parsed address and
  \<open>host_prefix\<close> the printed host prefix of one; they are arguments.
\<close>

section \<open>Constants\<close>

definition DefaultSuccessFloor :: int where "DefaultSuccessFloor = 2000"
definition maxSuccessMean :: int where "maxSuccessMean = 30000"
definition DefaultAttemptWindow :: int where "DefaultAttemptWindow = 60000"
definition DefaultAttemptLimit :: int where "DefaultAttemptLimit = 20"
definition PasswordResetAttemptLimit :: int where "PasswordResetAttemptLimit = 5"
definition OpenRegistrationAttemptLimit :: int where "OpenRegistrationAttemptLimit = 5"
definition failureIdleTTL :: int where "failureIdleTTL = 86400000"
definition maxTrustedStaleAge :: int where "maxTrustedStaleAge = failureIdleTTL + 3600000"

lemmas login_consts = DefaultSuccessFloor_def maxSuccessMean_def DefaultAttemptWindow_def DefaultAttemptLimit_def
  PasswordResetAttemptLimit_def OpenRegistrationAttemptLimit_def failureIdleTTL_def maxTrustedStaleAge_def

section \<open>Tables\<close>

record failure_row =
  lf_key :: string
  lf_failures :: int
  lf_blocked :: millis
  lf_updated :: millis

record black_row =
  bl_prefix :: string
  bl_note :: string
  bl_expires :: "millis option"
  bl_created :: millis
  bl_updated :: millis

datatype login_event =
    InvalidLogin string int int millis
  | IPBlacklisted string int millis

record login_db =
  ip_failures :: "failure_row list"
  timing :: "int option"
  blacklist :: "black_row list"
  event_log :: "login_event list"

text \<open>The CHECK constraints.\<close>

definition failure_check :: "failure_row \<Rightarrow> bool" where
  "failure_check r \<longleftrightarrow> 0 \<le> lf_failures r \<and> 0 \<le> lf_blocked r"

definition black_check :: "black_row \<Rightarrow> bool" where
  "black_check r \<longleftrightarrow> bl_prefix r \<noteq> '''' \<and> length (bl_note r) \<le> 256 \<and>
     (case bl_expires r of None \<Rightarrow> True | Some e \<Rightarrow> 0 < e) \<and> 0 \<le> bl_created r \<and> bl_created r \<le> bl_updated r"

datatype policy_err = PErrInvalid | PErrRand | PErrQuery | PErrEvent | PErrExec exec_err

record status =
  Failures :: int
  BlockedUntil :: "millis option"
  Mean :: int

section \<open>Keys\<close>

definition login_digest :: "prims \<Rightarrow> string \<Rightarrow> string" where
  "login_digest P v = b64_encode (sha256 P (''login-ip/'' @ v))"

definition passwordResetDigest :: "prims \<Rightarrow> string \<Rightarrow> string" where
  "passwordResetDigest P ip = b64_encode (sha256 P (''password-reset/'' @ ip))"

definition openRegistrationDigest :: "prims \<Rightarrow> string \<Rightarrow> string" where
  "openRegistrationDigest P ip = b64_encode (sha256 P (''open-registration/'' @ ip))"

definition canonicalIP :: "(string \<Rightarrow> string option) \<Rightarrow> string \<Rightarrow> bool" where
  "canonicalIP net_canonical ip \<longleftrightarrow> net_canonical ip = Some ip"

definition randomRequestID :: "string \<Rightarrow> string option \<Rightarrow> string option" where
  "randomRequestID prefix rnd = map_option (\<lambda>v. prefix @ ''/'' @ b64_encode v) rnd"

section \<open>Attempt quotas\<close>

definition reserve ::
  "rate_request \<Rightarrow> string option \<Rightarrow> exec_fault \<Rightarrow> rate_row list \<Rightarrow> rate_row list \<times> (policy_err + bool)" where
  "reserve q request f t =
     (case request of
        None \<Rightarrow> (t, Inl PErrRand)
      | Some _ \<Rightarrow>
          (case run_execute f (rate_upsert (rq_limit q) (rate_new_row q)) t of
             (t1, Inl x) \<Rightarrow> (t1, Inl (PErrExec x))
           | (t1, Inr n) \<Rightarrow> (t1, Inr (n = 1))))"

definition Allow ::
  "prims \<Rightarrow> string \<Rightarrow> millis \<Rightarrow> string option \<Rightarrow> exec_fault \<Rightarrow> rate_row list \<Rightarrow> rate_row list \<times> (policy_err + bool)" where
  "Allow P ip now rnd f t =
     (if ip = '''' then (t, Inl PErrInvalid)
      else reserve \<lparr>rq_key = login_digest P (''attempt/'' @ ip), rq_window = DefaultAttemptWindow,
                    rq_limit = DefaultAttemptLimit, rq_now = now\<rparr>
             (randomRequestID ''login-attempt'' rnd) f t)"

definition allowBounded ::
  "(string \<Rightarrow> string option) \<Rightarrow> string \<Rightarrow> millis \<Rightarrow> string \<Rightarrow> string \<Rightarrow> int \<Rightarrow> int \<Rightarrow> string option \<Rightarrow> exec_fault \<Rightarrow>
   rate_row list \<Rightarrow> rate_row list \<times> (policy_err + bool)" where
  "allowBounded net ip now requestPrefix key window limit rnd f t =
     (if \<not> canonicalIP net ip then (t, Inl PErrInvalid)
      else reserve \<lparr>rq_key = key, rq_window = window, rq_limit = limit, rq_now = now\<rparr>
             (randomRequestID requestPrefix rnd) f t)"

definition AllowPasswordReset where
  "AllowPasswordReset P net ip now rnd f t =
     allowBounded net ip now ''password-reset-attempt'' (passwordResetDigest P ip) 60000 PasswordResetAttemptLimit rnd f t"

definition AllowOpenRegistration where
  "AllowOpenRegistration P net ip now rnd f t =
     allowBounded net ip now ''open-registration-attempt'' (openRegistrationDigest P ip) 60000
       OpenRegistrationAttemptLimit rnd f t"

section \<open>Checking an address\<close>

text \<open>The linearizable snapshot: the rows of the address and the timing row.\<close>

definition applyMean :: "status \<Rightarrow> int option \<Rightarrow> policy_err + status" where
  "applyMean st mean =
     (case mean of
        None \<Rightarrow> Inr st
      | Some m \<Rightarrow> if m < 1 \<or> maxSuccessMean < m then Inl PErrInvalid else Inr (st\<lparr>Mean := m\<rparr>))"

definition Check :: "prims \<Rightarrow> string \<Rightarrow> millis \<Rightarrow> bool \<Rightarrow> login_db \<Rightarrow> policy_err + status" where
  "Check P ip now fails db =
     (if ip = '''' then Inl PErrInvalid
      else if fails then Inl PErrQuery
      else
        let st = \<lparr>Failures = 0, BlockedUntil = None, Mean = DefaultSuccessFloor\<rparr> in
        (case sql_select (\<lambda>r. lf_key r = login_digest P ip) (ip_failures db) of
           [] \<Rightarrow> applyMean st (timing db)
         | [r] \<Rightarrow>
             if lf_failures r < 0 then Inl PErrInvalid
             else if now < lf_updated r then Inl PErrInvalid
             else if lf_updated r \<le> now - failureIdleTTL then applyMean st (timing db)
             else applyMean (st\<lparr>Failures := lf_failures r,
                               BlockedUntil := (if now < lf_blocked r then Some (lf_blocked r) else None)\<rparr>)
                    (timing db)
         | _ \<Rightarrow> Inl PErrInvalid))"

section \<open>Recording a failure\<close>

definition validateFailureClock :: "string \<Rightarrow> millis \<Rightarrow> bool \<Rightarrow> login_db \<Rightarrow> policy_err + unit" where
  "validateFailureClock key now fails db =
     (if fails then Inl PErrQuery
      else case sql_select (\<lambda>r. lf_key r = key) (ip_failures db) of
             [] \<Rightarrow> Inr ()
           | [r] \<Rightarrow> if lf_updated r < 0 \<or> now < lf_updated r then Inl PErrInvalid else Inr ()
           | _ \<Rightarrow> Inl PErrInvalid)"

text \<open>The first two WHEN branches: the row is a marker of an unconfirmed clock jump.\<close>

definition marked :: "failure_row \<Rightarrow> bool" where
  "marked r \<longleftrightarrow> 0 < lf_updated r \<and> lf_blocked r = lf_updated r"

definition block_ms :: "int \<Rightarrow> int option" where
  "block_ms n =
     (if 25 \<le> n then Some 86400000
      else if n = 20 then Some 3600000
      else if n = 15 then Some 900000
      else if n = 10 then Some 600000
      else if n = 7 then Some 60000
      else None)"

definition failure_bump :: "millis \<Rightarrow> failure_row \<Rightarrow> failure_row" where
  "failure_bump now r =
     r\<lparr>lf_failures :=
         (if marked r \<and> lf_updated r < now then 1
          else if marked r then lf_failures r
          else if lf_updated r \<le> now - failureIdleTTL \<and> now - maxTrustedStaleAge < lf_updated r then 1
          else if lf_updated r \<le> now - failureIdleTTL then lf_failures r
          else lf_failures r + 1),
       lf_blocked :=
         (if marked r \<and> lf_updated r < now then 0
          else if marked r then lf_blocked r
          else if lf_updated r \<le> now - failureIdleTTL \<and> now - maxTrustedStaleAge < lf_updated r then 0
          else if lf_updated r \<le> now - failureIdleTTL then now
          else case block_ms (lf_failures r + 1) of Some d \<Rightarrow> now + d | None \<Rightarrow> lf_blocked r),
       lf_updated := max (lf_updated r) now\<rparr>"

text \<open>The upsert with its RETURNING clause and the expectation of one returned row: no row returned, or
  a row outside the constraints, rejects the transaction.\<close>

definition failure_upsert :: "string \<Rightarrow> millis \<Rightarrow> failure_row list \<Rightarrow> (failure_row list \<times> failure_row) option" where
  "failure_upsert key now t =
     (case sql_select (\<lambda>r. lf_key r = key) t of
        [] \<Rightarrow>
          let new = \<lparr>lf_key = key, lf_failures = 1, lf_blocked = 0, lf_updated = now\<rparr>
          in Some (t @ [new], new)
      | r # _ \<Rightarrow>
          if lf_updated r \<le> now \<and> failure_check (failure_bump now r)
          then Some (sql_update (\<lambda>x. lf_key x = key) (failure_bump now) t, failure_bump now r)
          else None)"

definition failure_level :: "int \<Rightarrow> int" where
  "failure_level n = (if 20 \<le> n then 3 else if 10 \<le> n then 2 else if 7 \<le> n then 1 else 0)"

section \<open>The automatic blacklist\<close>

definition block_count :: "int \<Rightarrow> bool" where
  "block_count n \<longleftrightarrow> n \<in> {7, 10, 15, 20} \<or> 25 \<le> n"

text \<open>The row of this failure stands at a threshold and blocks.\<close>

definition blocking :: "string \<Rightarrow> millis \<Rightarrow> failure_row list \<Rightarrow> bool" where
  "blocking key now t \<longleftrightarrow>
     sql_exists (\<lambda>r. lf_key r = key \<and> block_count (lf_failures r) \<and> lf_updated r = now \<and> now < lf_blocked r) t"

definition AutomaticExpiryPruneStatement :: "string \<Rightarrow> millis \<Rightarrow> login_db \<Rightarrow> login_db" where
  "AutomaticExpiryPruneStatement key now db =
     db\<lparr>blacklist := sql_delete (\<lambda>b. (case bl_expires b of None \<Rightarrow> False | Some e \<Rightarrow> e \<le> now) \<and>
          blocking key now (ip_failures db)) (blacklist db)\<rparr>"

definition auto_ms :: "int \<Rightarrow> int" where
  "auto_ms n =
     (if 25 \<le> n then 86400000 else if 20 \<le> n then 3600000 else if 15 \<le> n then 900000
      else if 10 \<le> n then 600000 else if 7 \<le> n then 60000 else 0)"

definition extend_black :: "black_row \<Rightarrow> black_row \<Rightarrow> black_row" where
  "extend_black new b =
     b\<lparr>bl_expires := (case bl_expires b of
                        None \<Rightarrow> None
                      | Some e \<Rightarrow> if the (bl_expires new) \<le> e then Some e else bl_expires new),
       bl_updated := max (bl_updated b) (bl_updated new)\<rparr>"

definition AutomaticFailureStatement :: "nat \<Rightarrow> string \<Rightarrow> string \<Rightarrow> millis \<Rightarrow> login_db \<Rightarrow> login_db option" where
  "AutomaticFailureStatement maxEntries prefix key now db =
     (case sql_select (\<lambda>r. lf_key r = key \<and> block_count (lf_failures r) \<and> lf_updated r = now \<and> now < lf_blocked r)
             (ip_failures db) of
        [] \<Rightarrow> Some db
      | r # _ \<Rightarrow>
          if length (blacklist db) < maxEntries \<or> sql_exists (\<lambda>b. bl_prefix b = prefix) (blacklist db)
          then
            let new = \<lparr>bl_prefix = prefix, bl_note = '''', bl_expires = Some (now + auto_ms (lf_failures r)),
                       bl_created = now, bl_updated = now\<rparr>;
                t = (if sql_exists (\<lambda>b. bl_prefix b = prefix) (blacklist db)
                     then sql_update (\<lambda>b. bl_prefix b = prefix) (extend_black new) (blacklist db)
                     else blacklist db @ [new])
            in if list_all black_check t then Some (db\<lparr>blacklist := t\<rparr>) else None
          else Some db)"

text \<open>The scalar projection that the event is bound to: the expiry in seconds, or null.\<close>

definition auto_projection :: "string \<Rightarrow> string \<Rightarrow> millis \<Rightarrow> login_db \<Rightarrow> int option" where
  "auto_projection prefix key now db =
     (if blocking key now (ip_failures db)
      then (case sql_select (\<lambda>b. bl_prefix b = prefix) (blacklist db) of
              [] \<Rightarrow> None
            | b # _ \<Rightarrow> map_option (\<lambda>e. go_div e 1000) (bl_expires b))
      else None)"

text \<open>The whole failure transaction; \<open>auto\<close> is the host prefix and the capacity when a blacklist is
  configured.\<close>

definition failure_tx :: "string \<Rightarrow> string \<Rightarrow> millis \<Rightarrow> (string \<times> nat) option \<Rightarrow> login_db mutation" where
  "failure_tx ip key now auto db =
     (case failure_upsert key now (ip_failures db) of
        None \<Rightarrow> None
      | Some (t, r) \<Rightarrow>
          let db1 = db\<lparr>ip_failures := t,
                event_log := event_log db @ [InvalidLogin ip (min (lf_failures r) 4294967295) (failure_level (lf_failures r)) now]\<rparr>
          in case auto of
               None \<Rightarrow> Some (db1, 1)
             | Some (prefix, maxEntries) \<Rightarrow>
                 (case AutomaticFailureStatement maxEntries prefix key now (AutomaticExpiryPruneStatement key now db1) of
                    None \<Rightarrow> None
                  | Some db2 \<Rightarrow>
                      (case auto_projection prefix key now db2 of
                         None \<Rightarrow> Some (db2, 1)
                       | Some e \<Rightarrow> Some (db2\<lparr>event_log := event_log db2 @ [IPBlacklisted ip e now]\<rparr>, 1))))"

record failure_env =
  fe_clock_fails :: bool
  fe_rnd :: "string option"
  fe_other :: "login_db \<Rightarrow> login_db"
  fe_exec :: exec_fault
  fe_other2 :: "login_db \<Rightarrow> login_db"
  fe_check_fails :: bool

definition Failure ::
  "prims \<Rightarrow> (string \<Rightarrow> string option) \<Rightarrow> (string \<Rightarrow> string option) \<Rightarrow> nat option \<Rightarrow> string \<Rightarrow> millis \<Rightarrow> failure_env \<Rightarrow>
   login_db \<Rightarrow> login_db \<times> (policy_err + status)" where
  "Failure P net host_prefix maxEntries ip now env db =
     (if \<not> canonicalIP net ip then (db, Inl PErrInvalid)
      else
        let key = login_digest P ip in
        (case validateFailureClock key now (fe_clock_fails env) db of
           Inl e \<Rightarrow> (db, Inl e)
         | Inr _ \<Rightarrow>
             (case randomRequestID ''login-failure'' (fe_rnd env) of
                None \<Rightarrow> (db, Inl PErrRand)
              | Some _ \<Rightarrow>
                  if now < 0 then (db, Inl PErrEvent)
                  else if maxEntries \<noteq> None \<and> (host_prefix ip = None \<or> key = '''') then (db, Inl PErrInvalid)
                  else
                    let auto = (case maxEntries of None \<Rightarrow> None | Some n \<Rightarrow> Some (the (host_prefix ip), n));
                        db0 = fe_other env db
                    in case run_execute (fe_exec env) (failure_tx ip key now auto) db0 of
                         (db1, Inl x) \<Rightarrow> (db1, Inl (PErrExec x))
                       | (db1, Inr _) \<Rightarrow>
                           let db2 = fe_other2 env db1 in (db2, Check P ip now (fe_check_fails env) db2))))"

section \<open>Successful logins and delays\<close>

definition success_mean :: "int \<Rightarrow> int" where
  "success_mean elapsed_ns =
     (let mean = go_div elapsed_ns 1000000 in
      if mean < 1 then 1 else if maxSuccessMean < mean then maxSuccessMean else mean)"

definition success_stmt :: "int \<Rightarrow> login_db mutation" where
  "success_stmt mean db =
     (let m = (case timing db of None \<Rightarrow> mean | Some old \<Rightarrow> go_div (old + mean) 2)
      in if 0 < m then Some (db\<lparr>timing := Some m\<rparr>, 1) else None)"

definition Success :: "string \<Rightarrow> int \<Rightarrow> string option \<Rightarrow> exec_fault \<Rightarrow> login_db \<Rightarrow> login_db \<times> (policy_err + unit)" where
  "Success ip elapsed rnd f db =
     (if ip = '''' \<or> elapsed < 0 then (db, Inl PErrInvalid)
      else case randomRequestID ''login-success'' rnd of
             None \<Rightarrow> (db, Inl PErrRand)
           | Some _ \<Rightarrow>
               (case run_execute f (success_stmt (success_mean elapsed)) db of
                  (db1, Inl x) \<Rightarrow> (db1, Inl (PErrExec x))
                | (db1, Inr _) \<Rightarrow> (db1, Inr ())))"

text \<open>Durations in nanoseconds, with the wrap-around of the 64-bit products. The mean of a status is in
  milliseconds.\<close>

definition Delay :: "status \<Rightarrow> int \<Rightarrow> int" where
  "Delay st elapsed =
     (if BlockedUntil st \<noteq> None then 0
      else
        let base = int64 (Mean st * 1000000 - elapsed);
            base = (if base < 0 then 0 else base);
            n = Failures st;
            extra = (if 20 < n then int64 (int64 (n * 20) * 1000000000)
                     else if 15 < n then int64 (int64 (n * 15) * 1000000000)
                     else if 10 < n then int64 (int64 (n * 10) * 1000000000)
                     else if 7 < n then int64 (int64 (n * 5) * 1000000000)
                     else if 5 \<le> n then int64 (int64 (n * 3) * 1000000000)
                     else if 3 \<le> n then int64 (int64 (n * 2) * 1000000000)
                     else 0)
        in int64 (base + extra))"

section \<open>The failure counter\<close>

definition failures_inv :: "login_db \<Rightarrow> bool" where
  "failures_inv db \<longleftrightarrow> sql_unique lf_key (ip_failures db) \<and> list_all failure_check (ip_failures db)"

lemma failure_row_selected:
  assumes "failures_inv db" "r \<in> set (ip_failures db)"
  shows "sql_select (\<lambda>x. lf_key x = lf_key r) (ip_failures db) = [r]"
  using assms by (intro sql_select_unique_key [of lf_key]) (auto simp: failures_inv_def)

lemma bump_key [simp]: "lf_key (failure_bump now r) = lf_key r"
  by (simp add: failure_bump_def)

lemma bump_check: "failure_check r \<Longrightarrow> 0 \<le> now \<Longrightarrow> failure_check (failure_bump now r)"
  by (auto simp: failure_check_def failure_bump_def block_ms_def split: option.splits)

lemma failure_upsert_row:
  assumes "failures_inv db" "r \<in> set (ip_failures db)" "lf_updated r \<le> now" "0 \<le> now"
  shows "failure_upsert (lf_key r) now (ip_failures db) =
     Some (sql_update (\<lambda>x. lf_key x = lf_key r) (failure_bump now) (ip_failures db), failure_bump now r)"
proof -
  have "failure_check r" using assms(1,2) by (simp add: failures_inv_def list_all_iff)
  then show ?thesis
    using failure_row_selected [OF assms(1,2)] assms(3,4) bump_check by (simp add: failure_upsert_def)
qed

lemma failure_upsert_inv:
  assumes "failure_upsert key now t = Some (t', r)" "sql_unique lf_key t" "list_all failure_check t"
  shows "sql_unique lf_key t'" "list_all failure_check t'"
proof -
  have "sql_unique lf_key t' \<and> list_all failure_check t'"
  proof (cases "sql_select (\<lambda>r. lf_key r = key) t")
    case Nil
    then have none: "\<forall>x \<in> set t. lf_key x \<noteq> key" by (auto simp: sql_select_def filter_empty_conv)
    have "t' = t @ [\<lparr>lf_key = key, lf_failures = 1, lf_blocked = 0, lf_updated = now\<rparr>]"
      using assms(1) Nil by (auto simp: failure_upsert_def Let_def)
    then show ?thesis using assms(2,3) none by (simp add: sql_unique_insert failure_check_def)
  next
    case (Cons x xs)
    then have x: "x \<in> set t" "lf_key x = key" using set_sql_select [of "\<lambda>r. lf_key r = key" t] by auto
    have t': "t' = sql_update (\<lambda>x. lf_key x = key) (failure_bump now) t" "failure_check (failure_bump now x)"
      using assms(1) Cons by (auto simp: failure_upsert_def split: if_splits)
    have "y = x" if "y \<in> set t" "lf_key y = key" for y
      using that x assms(2) sql_unique_eq [of lf_key t y x] by simp
    then show ?thesis using t' assms(2,3) by (auto simp: list_all_iff set_sql_update)
  qed
  then show "sql_unique lf_key t'" "list_all failure_check t'" by simp_all
qed

text \<open>A row that is updated in place is what the next check reads.\<close>

lemma Check_row:
  assumes "failures_inv db" "r \<in> set (ip_failures db)" "lf_key r = login_digest P ip" "ip \<noteq> ''''"
    and "lf_updated r \<le> now" "now - failureIdleTTL < lf_updated r"
  shows "Check P ip now False db =
     applyMean \<lparr>Failures = lf_failures r, BlockedUntil = (if now < lf_blocked r then Some (lf_blocked r) else None),
                Mean = DefaultSuccessFloor\<rparr> (timing db)"
proof -
  have "0 \<le> lf_failures r" using assms(1,2) by (auto simp: failures_inv_def list_all_iff failure_check_def)
  then show ?thesis
    using failure_row_selected [OF assms(1,2)] assms by (simp add: Check_def Let_def)
qed

lemma Check_stale_clock:
  assumes "failures_inv db" "r \<in> set (ip_failures db)" "lf_key r = login_digest P ip" "now < lf_updated r"
  shows "ip \<noteq> '''' \<Longrightarrow> Check P ip now False db = Inl PErrInvalid"
    and "validateFailureClock (login_digest P ip) now False db = Inl PErrInvalid"
  using failure_row_selected [OF assms(1,2)] assms(3,4) by (auto simp: Check_def validateFailureClock_def Let_def)

definition calm_failure :: "failure_env \<Rightarrow> bool" where
  "calm_failure env \<longleftrightarrow> \<not> fe_clock_fails env \<and> fe_rnd env \<noteq> None \<and> fe_other env = (\<lambda>x. x) \<and> fe_exec env = Exec_Ok \<and>
     fe_other2 env = (\<lambda>x. x) \<and> \<not> fe_check_fails env"

definition mean_ok :: "login_db \<Rightarrow> bool" where
  "mean_ok db \<longleftrightarrow> (case timing db of None \<Rightarrow> True | Some m \<Rightarrow> 1 \<le> m \<and> m \<le> maxSuccessMean)"

lemma applyMean_ok:
  "mean_ok db \<Longrightarrow> applyMean st (timing db) = Inr (st\<lparr>Mean := (case timing db of None \<Rightarrow> Mean st | Some m \<Rightarrow> m)\<rparr>)"
  by (auto simp: applyMean_def mean_ok_def split: option.splits)

definition after_failure :: "millis \<Rightarrow> failure_row \<Rightarrow> login_db \<Rightarrow> login_db" where
  "after_failure now r db =
     db\<lparr>ip_failures := sql_update (\<lambda>x. lf_key x = lf_key r) (failure_bump now) (ip_failures db)\<rparr>"

lemma Failure_row:
  assumes "failures_inv db" "r \<in> set (ip_failures db)" "lf_key r = login_digest P ip" "canonicalIP net ip"
    and "0 \<le> lf_updated r" "lf_updated r \<le> now" "calm_failure env"
  shows "\<exists>evs. Failure P net hp None ip now env db =
     (after_failure now r db\<lparr>event_log := evs\<rparr>, Check P ip now False (after_failure now r db\<lparr>event_log := evs\<rparr>))"
proof -
  have "validateFailureClock (login_digest P ip) now False db = Inr ()"
    using failure_row_selected [OF assms(1,2)] assms(3,5,6) by (simp add: validateFailureClock_def)
  moreover have "failure_tx ip (login_digest P ip) now None db =
      Some (after_failure now r db\<lparr>event_log := event_log db @
        [InvalidLogin ip (min (lf_failures (failure_bump now r)) 4294967295) (failure_level (lf_failures (failure_bump now r))) now]\<rparr>, 1)"
    using failure_upsert_row [OF assms(1,2,6)] assms(3,5,6) by (simp add: failure_tx_def after_failure_def)
  ultimately show ?thesis
    using assms(4,5,6,7) by (auto simp: Failure_def calm_failure_def run_execute_def randomRequestID_def)
qed

lemma after_failure_inv:
  assumes "failures_inv db" "r \<in> set (ip_failures db)" "lf_updated r \<le> now" "0 \<le> now"
  shows "failures_inv (after_failure now r db\<lparr>event_log := evs\<rparr>)"
    and "failure_bump now r \<in> set (ip_failures (after_failure now r db\<lparr>event_log := evs\<rparr>))"
proof -
  show "failures_inv (after_failure now r db\<lparr>event_log := evs\<rparr>)"
    using failure_upsert_inv [OF failure_upsert_row [OF assms]] assms(1) by (simp add: failures_inv_def after_failure_def)
  show "failure_bump now r \<in> set (ip_failures (after_failure now r db\<lparr>event_log := evs\<rparr>))"
    using assms(2) by (auto simp: after_failure_def set_sql_update)
qed

text \<open>C22. Escalation. A failure of an address whose counter is live (not idle for a day, not a clock
  marker) adds exactly one, and blocks the address for one, ten and fifteen minutes, an hour and a day
  at 7, 10, 15, 20 and from 25 failures on; between the thresholds a running block stays.\<close>

theorem login_failure_exact:
  assumes "failures_inv db" "mean_ok db" "r \<in> set (ip_failures db)" "lf_key r = login_digest P ip" "canonicalIP net ip"
    and "ip \<noteq> ''''" "0 \<le> lf_updated r" "lf_updated r \<le> now" "now < lf_updated r + failureIdleTTL" "\<not> marked r"
    and "calm_failure env"
  shows "\<exists>m. snd (Failure P net hp None ip now env db) =
     Inr \<lparr>Failures = lf_failures r + 1,
          BlockedUntil = (let n = lf_failures r + 1 in
            if 25 \<le> n then Some (now + 24 * 60 * 60 * 1000)
            else if n = 20 then Some (now + 60 * 60 * 1000)
            else if n = 15 then Some (now + 15 * 60 * 1000)
            else if n = 10 then Some (now + 10 * 60 * 1000)
            else if n = 7 then Some (now + 60 * 1000)
            else if now < lf_blocked r then Some (lf_blocked r) else None),
          Mean = m\<rparr>"
proof -
  obtain evs where run: "Failure P net hp None ip now env db =
     (after_failure now r db\<lparr>event_log := evs\<rparr>, Check P ip now False (after_failure now r db\<lparr>event_log := evs\<rparr>))"
    using Failure_row [OF assms(1,3-5,7,8,11)] by blast
  let ?db = "after_failure now r db\<lparr>event_log := evs\<rparr>" and ?r = "failure_bump now r"
  have now: "0 \<le> now" using assms(7,8) by simp
  have r: "lf_failures ?r = lf_failures r + 1" "lf_updated ?r = now"
    "lf_blocked ?r = (case block_ms (lf_failures r + 1) of Some d \<Rightarrow> now + d | None \<Rightarrow> lf_blocked r)"
    using assms(8-10) by (simp_all add: failure_bump_def)
  have "Check P ip now False ?db =
     applyMean \<lparr>Failures = lf_failures ?r, BlockedUntil = (if now < lf_blocked ?r then Some (lf_blocked ?r) else None),
                Mean = DefaultSuccessFloor\<rparr> (timing ?db)"
    using after_failure_inv [OF assms(1,3,8) now] assms(4,6) r(2)
    by (intro Check_row) (simp_all add: failureIdleTTL_def)
  also have "\<dots> = applyMean \<lparr>Failures = lf_failures ?r, BlockedUntil = (if now < lf_blocked ?r then Some (lf_blocked ?r) else None),
                Mean = DefaultSuccessFloor\<rparr> (timing db)"
    by (simp add: after_failure_def)
  finally show ?thesis using run assms(2) r by (simp add: applyMean_ok block_ms_def Let_def)
qed

definition demo_ip :: string where "demo_ip = ''192.0.2.1''"

definition demo_row :: "int \<Rightarrow> millis \<Rightarrow> millis \<Rightarrow> failure_row" where
  "demo_row n blocked updated =
     \<lparr>lf_key = login_digest demo_prims demo_ip, lf_failures = n, lf_blocked = blocked, lf_updated = updated\<rparr>"

definition demo_login :: "failure_row \<Rightarrow> login_db" where
  "demo_login r = \<lparr>ip_failures = [r], timing = None, blacklist = [], event_log = []\<rparr>"

definition demo_failure_env :: failure_env where
  "demo_failure_env = \<lparr>fe_clock_fails = False, fe_rnd = Some ''r'', fe_other = (\<lambda>x. x), fe_exec = Exec_Ok,
     fe_other2 = (\<lambda>x. x), fe_check_fails = False\<rparr>"

lemmas demo_login_defs = demo_login_def demo_row_def failures_inv_def failure_check_def mean_ok_def sql_unique_def
  demo_failure_env_def calm_failure_def canonicalIP_def demo_ip_def marked_def failureIdleTTL_def

theorem login_failure_exact_witness:
  "\<exists>m. snd (Failure demo_prims Some Some None demo_ip 2000 demo_failure_env (demo_login (demo_row 6 0 1000))) =
     Inr \<lparr>Failures = 7, BlockedUntil = Some 62000, Mean = m\<rparr>"
  using login_failure_exact [where db = "demo_login (demo_row 6 0 1000)" and r = "demo_row 6 0 1000"
      and P = demo_prims and net = Some and hp = Some and ip = demo_ip and now = 2000 and env = demo_failure_env]
  by (simp add: demo_login_defs)

text \<open>A single request from a clock that runs far ahead does not erase the counter: it leaves the
  number of failures and marks the row, and then every request with an honest clock is refused, by the
  check as well as by the recording of a failure.\<close>

lemma login_skew_fails_closed:
  assumes "failures_inv db" "r \<in> set (ip_failures db)" "lf_key r = login_digest P ip" "canonicalIP net ip" "ip \<noteq> ''''"
    and "0 \<le> lf_updated r" "\<not> marked r" "lf_updated r + maxTrustedStaleAge \<le> skewed" "calm_failure env"
    and "db' = fst (Failure P net hp None ip skewed env db)" "now < skewed"
  shows "lf_failures r \<in> lf_failures ` {x \<in> set (ip_failures db'). lf_key x = login_digest P ip} \<and>
     Check P ip now False db' = Inl PErrInvalid \<and> Failure P net hp None ip now env db' = (db', Inl PErrInvalid)"
proof -
  have later: "lf_updated r \<le> skewed" "0 \<le> skewed"
    using assms(6,8) by (auto simp: maxTrustedStaleAge_def failureIdleTTL_def)
  obtain evs where db': "db' = after_failure skewed r db\<lparr>event_log := evs\<rparr>"
    using Failure_row [OF assms(1-4,6) later(1) assms(9), of hp] assms(10) by fastforce
  let ?r = "failure_bump skewed r"
  have r: "lf_failures ?r = lf_failures r" "lf_updated ?r = skewed" "lf_key ?r = login_digest P ip"
    using assms(3,7,8) by (auto simp: failure_bump_def maxTrustedStaleAge_def failureIdleTTL_def)
  note inv' = after_failure_inv [OF assms(1,2) later, of evs, folded db']
  have stale: "Check P ip now False db' = Inl PErrInvalid"
    "validateFailureClock (login_digest P ip) now False db' = Inl PErrInvalid"
    using Check_stale_clock [OF inv' r(3)] r(2) assms(5,11) by simp_all
  moreover have "Failure P net hp None ip now env db' = (db', Inl PErrInvalid)"
    using stale(2) assms(4,9) by (simp add: Failure_def calm_failure_def)
  moreover have "lf_failures r \<in> lf_failures ` {x \<in> set (ip_failures db'). lf_key x = login_digest P ip}"
    using inv'(2) r by (metis (mono_tags, lifting) image_eqI mem_Collect_eq)
  ultimately show ?thesis by simp
qed

lemma login_skew_fails_closed_example:
  "Check demo_prims demo_ip 2000 False
     (fst (Failure demo_prims Some Some None demo_ip 100000000 demo_failure_env (demo_login (demo_row 6 0 1000)))) =
   Inl PErrInvalid"
  using login_skew_fails_closed [where db = "demo_login (demo_row 6 0 1000)" and r = "demo_row 6 0 1000"
      and P = demo_prims and net = Some and hp = Some and ip = demo_ip and now = 2000 and skewed = 100000000
      and env = demo_failure_env, OF _ _ _ _ _ _ _ _ _ refl]
  by (simp add: demo_login_defs maxTrustedStaleAge_def)

text \<open>C29. The marker of a clock jump is the coincidence of the end of the block with the time of the
  last failure, and an ordinary failure can produce it: a failure in the very millisecond in which a
  block ends leaves a marked row, and the next failure after it puts the counter back to one and drops
  the block, although no clock jumped and no day passed.\<close>

theorem login_marker_aliasing:
  assumes "\<not> marked r" "0 < lf_blocked r" "lf_updated r \<le> lf_blocked r" "lf_blocked r < lf_updated r + failureIdleTTL"
    and "block_ms (lf_failures r + 1) = None" "lf_blocked r < now"
  shows "lf_failures (failure_bump (lf_blocked r) r) = lf_failures r + 1 \<and>
     lf_failures (failure_bump now (failure_bump (lf_blocked r) r)) = 1 \<and>
     lf_blocked (failure_bump now (failure_bump (lf_blocked r) r)) = 0"
  using assms by (auto simp: failure_bump_def marked_def)

theorem login_marker_aliasing_witness:
  "lf_failures (failure_bump 61001 (failure_bump 61000 (demo_row 7 61000 1000))) = 1"
  using login_marker_aliasing [of "demo_row 7 61000 1000" 61001]
  by (simp add: demo_row_def marked_def block_ms_def failureIdleTTL_def)

section \<open>The mean and the delay\<close>

lemma success_mean_bounds: "1 \<le> success_mean e \<and> success_mean e \<le> maxSuccessMean"
  by (auto simp: success_mean_def Let_def maxSuccessMean_def)

lemma half_between:
  fixes a b :: int
  assumes "1 \<le> a" "1 \<le> b" "a \<le> m" "b \<le> m"
  shows "1 \<le> go_div (a + b) 2 \<and> go_div (a + b) 2 \<le> m"
proof -
  have "go_div (a + b) 2 = (a + b) div 2" using assms by simp
  moreover have "2 \<le> a + b" "a + b \<le> 2 * m" using assms by auto
  ultimately show ?thesis by linarith
qed

lemma success_stmt_mean:
  assumes "mean_ok db" "success_stmt (success_mean e) db = Some (db', n)"
  shows "mean_ok db'"
proof (cases "timing db")
  case None
  then have "timing db' = Some (success_mean e)" using assms(2) by (auto simp: success_stmt_def Let_def split: if_splits)
  then show ?thesis using success_mean_bounds by (simp add: mean_ok_def)
next
  case (Some old)
  then have "timing db' = Some (go_div (old + success_mean e) 2)"
    using assms(2) by (auto simp: success_stmt_def Let_def split: if_splits)
  then show ?thesis
    using half_between [of old "success_mean e" maxSuccessMean] success_mean_bounds [of e] assms(1) Some
    by (simp add: mean_ok_def)
qed

lemma Success_fst:
  "fst (Success ip e rnd f db) = db \<or>
   fst (Success ip e rnd f db) = fst (run_execute f (success_stmt (success_mean e)) db)"
  by (auto simp: Success_def split: option.split prod.split sum.split)

lemma Success_mean_ok:
  assumes "mean_ok db"
  shows "mean_ok (fst (Success ip e rnd f db))"
proof -
  have "mean_ok (fst (run_execute f (success_stmt (success_mean e)) db))"
    by (rule run_execute_invariant [where I = mean_ok]) (auto intro: assms success_stmt_mean [OF assms])
  then show ?thesis using Success_fst [of ip e rnd f db] assms by metis
qed

fun successes :: "(string \<times> int \<times> string option \<times> exec_fault) list \<Rightarrow> login_db \<Rightarrow> login_db" where
  "successes [] db = db"
| "successes ((ip, e, rnd, f) # es) db = successes es (fst (Success ip e rnd f db))"

text \<open>Whatever durations successful logins report, and whether or not their statements reach the
  database, the replicated mean stays between one millisecond and thirty seconds, so the check of an
  address never fails on it.\<close>

lemma login_mean_bounded:
  assumes "timing db = None"
  shows "\<forall>m. timing (successes es db) = Some m \<longrightarrow> 1 \<le> m \<and> m \<le> 30000"
proof -
  have "mean_ok db \<Longrightarrow> mean_ok (successes es db)" for db
    by (induction es arbitrary: db) (auto simp: Success_mean_ok)
  moreover have "mean_ok db" using assms by (simp add: mean_ok_def)
  ultimately have "mean_ok (successes es db)" by blast
  then show ?thesis by (simp add: mean_ok_def maxSuccessMean_def split: option.splits)
qed

lemma login_mean_bounded_example:
  "\<exists>m. timing (successes [(demo_ip, 5000000000000, Some ''r'', Exec_Ok), (demo_ip, 0, Some ''r'', Exec_Ok)]
     (demo_login (demo_row 1 0 1000))) = Some m \<and> 1 \<le> m \<and> m \<le> 30000"
proof -
  let ?db = "successes [(demo_ip, 5000000000000, Some ''r'', Exec_Ok), (demo_ip, 0, Some ''r'', Exec_Ok)] (demo_login (demo_row 1 0 1000))"
  have "timing ?db \<noteq> None" by code_simp
  then obtain m where m: "timing ?db = Some m" by blast
  have "timing (demo_login (demo_row 1 0 1000)) = None" by (simp add: demo_login_def)
  from login_mean_bounded [OF this] m show ?thesis by blast
qed

definition delay_seconds :: "int \<Rightarrow> int" where
  "delay_seconds n =
     (if 20 < n then n * 20 else if 15 < n then n * 15 else if 10 < n then n * 10
      else if 7 < n then n * 5 else if 5 \<le> n then n * 3 else if 3 \<le> n then n * 2 else 0)"

lemma delay_seconds_mono: "0 \<le> m \<Longrightarrow> m \<le> n \<Longrightarrow> delay_seconds m \<le> delay_seconds n"
  by (auto simp: delay_seconds_def)

lemma delay_seconds_bound: "0 \<le> n \<Longrightarrow> n \<le> 400000000 \<Longrightarrow> 0 \<le> delay_seconds n \<and> delay_seconds n \<le> 8000000000"
  by (auto simp: delay_seconds_def)

lemma int64_seconds:
  "0 \<le> x \<Longrightarrow> x \<le> 8000000000 \<Longrightarrow> int64 x = x"
  "0 \<le> x \<Longrightarrow> x \<le> 8000000000 \<Longrightarrow> int64 (x * 1000000000) = x * 1000000000"
  by (rule int64_id; simp)+

lemma Delay_exact:
  assumes "BlockedUntil st = None" "0 \<le> Failures st" "Failures st \<le> 400000000" "1 \<le> Mean st" "Mean st \<le> 30000"
    and "0 \<le> e" "e < 2 ^ 62"
  shows "Delay st e = max 0 (Mean st * 1000000 - e) + delay_seconds (Failures st) * 1000000000"
proof -
  let ?n = "Failures st"
  have small: "int64 (?n * k) = ?n * k" "int64 (?n * k * 1000000000) = ?n * k * 1000000000" if "0 \<le> k" "k \<le> 20" for k
  proof -
    have "0 \<le> ?n * k" using that assms(2) by simp
    moreover have "?n * k \<le> 400000000 * 20" using that assms(2,3) by (intro mult_mono) simp_all
    ultimately have "0 \<le> ?n * k" "?n * k \<le> 8000000000" by simp_all
    then show "int64 (?n * k) = ?n * k" "int64 (?n * k * 1000000000) = ?n * k * 1000000000"
      by (auto intro: int64_seconds)
  qed
  have secs: "int64 (int64 (?n * 20) * 1000000000) = ?n * 20 * 1000000000"
    "int64 (int64 (?n * 15) * 1000000000) = ?n * 15 * 1000000000"
    "int64 (int64 (?n * 10) * 1000000000) = ?n * 10 * 1000000000"
    "int64 (int64 (?n * 5) * 1000000000) = ?n * 5 * 1000000000"
    "int64 (int64 (?n * 3) * 1000000000) = ?n * 3 * 1000000000"
    "int64 (int64 (?n * 2) * 1000000000) = ?n * 2 * 1000000000"
    by (subst small(1), simp, simp, rule small(2), simp, simp)+
  have base: "int64 (Mean st * 1000000 - e) = Mean st * 1000000 - e" using assms(4-7) by (intro int64_id) auto
  have extra: "(if 20 < ?n then int64 (int64 (?n * 20) * 1000000000)
                     else if 15 < ?n then int64 (int64 (?n * 15) * 1000000000)
                     else if 10 < ?n then int64 (int64 (?n * 10) * 1000000000)
                     else if 7 < ?n then int64 (int64 (?n * 5) * 1000000000)
                     else if 5 \<le> ?n then int64 (int64 (?n * 3) * 1000000000)
                     else if 3 \<le> ?n then int64 (int64 (?n * 2) * 1000000000)
                     else 0) = delay_seconds ?n * 1000000000"
    unfolding secs delay_seconds_def by simp
  have "int64 (max 0 (Mean st * 1000000 - e) + delay_seconds ?n * 1000000000) =
      max 0 (Mean st * 1000000 - e) + delay_seconds ?n * 1000000000"
    using delay_seconds_bound [OF assms(2,3)] assms(4-6) by (intro int64_id) auto
  then show ?thesis
    unfolding Delay_def Let_def extra base using assms(1) by (cases "e \<le> Mean st * 1000000") (simp_all add: max_def)
qed

text \<open>The delay of an answer never shrinks as failures accumulate and covers at least what is
  missing to the mean of successful logins, without wrapping around for any counter up to four hundred
  million.\<close>

lemma login_delay_monotone:
  assumes "BlockedUntil st = None" "1 \<le> Mean st" "Mean st \<le> 30000" "0 \<le> e" "e < 2 ^ 62"
    and "0 \<le> Failures st" "Failures st \<le> n" "n \<le> 400000000"
  shows "Delay st e \<le> Delay (st\<lparr>Failures := n\<rparr>) e \<and> Mean st * 1000000 - e \<le> Delay st e \<and> 0 \<le> Delay st e"
  using Delay_exact [of st e] Delay_exact [of "st\<lparr>Failures := n\<rparr>" e] delay_seconds_mono [of "Failures st" n]
    delay_seconds_bound [of "Failures st"] assms
  by (simp add: max_def)

lemma login_delay_monotone_example:
  "Delay \<lparr>Failures = 7, BlockedUntil = None, Mean = 2000\<rparr> 500000000 \<le> Delay \<lparr>Failures = 8, BlockedUntil = None, Mean = 2000\<rparr> 500000000"
  using login_delay_monotone [of "\<lparr>Failures = 7, BlockedUntil = None, Mean = 2000\<rparr>" 500000000 8] by simp

section \<open>The automatic blacklist of a failing address\<close>

lemma auto_ms_block: "block_count n \<Longrightarrow> block_ms n = Some (auto_ms n)"
  by (auto simp: block_count_def block_ms_def auto_ms_def)

lemma block_ms_count: "block_ms n = Some d \<Longrightarrow> block_count n"
  by (auto simp: block_count_def block_ms_def split: if_splits)

definition black_inv :: "login_db \<Rightarrow> bool" where
  "black_inv db \<longleftrightarrow> sql_unique bl_prefix (blacklist db)"

text \<open>How one entry of the blacklist may change: it keeps its prefix, note and creation time; a
  permanent entry stays permanent, a finite one is at most extended.\<close>

definition black_kept :: "black_row \<Rightarrow> black_row \<Rightarrow> bool" where
  "black_kept b b' \<longleftrightarrow> bl_prefix b' = bl_prefix b \<and> bl_note b' = bl_note b \<and> bl_created b' = bl_created b \<and>
     (case bl_expires b of None \<Rightarrow> bl_expires b' = None
      | Some e \<Rightarrow> \<exists>e'. bl_expires b' = Some e' \<and> e \<le> e')"

lemma black_kept_refl: "black_kept b b"
  by (auto simp: black_kept_def split: option.split)

lemma extend_kept: "bl_expires new = Some x \<Longrightarrow> black_kept b (extend_black new b)"
  by (auto simp: black_kept_def extend_black_def split: option.split)

lemma automatic_statement_spec:
  assumes "AutomaticFailureStatement n prefix key now db = Some db'"
  shows "ip_failures db' = ip_failures db" "length (blacklist db') \<le> max n (length (blacklist db))"
    "b \<in> set (blacklist db) \<Longrightarrow> \<exists>b' \<in> set (blacklist db'). black_kept b b'"
proof -
  let ?new = "\<lambda>k. \<lparr>bl_prefix = prefix, bl_note = '''', bl_expires = Some (now + auto_ms k),
                       bl_created = now, bl_updated = now\<rparr>"
  have "db' = db \<or> (\<exists>k. length (blacklist db) < n \<and> db' = db\<lparr>blacklist := blacklist db @ [?new k]\<rparr>) \<or>
      (\<exists>k. db' = db\<lparr>blacklist := sql_update (\<lambda>b. bl_prefix b = prefix) (extend_black (?new k)) (blacklist db)\<rparr>)"
  proof (cases "sql_select (\<lambda>r. lf_key r = key \<and> block_count (lf_failures r) \<and> lf_updated r = now \<and> now < lf_blocked r)
       (ip_failures db)")
    case Nil
    then show ?thesis using assms by (simp add: AutomaticFailureStatement_def)
  next
    case (Cons r rs)
    show ?thesis
    proof (cases "sql_exists (\<lambda>b. bl_prefix b = prefix) (blacklist db)")
      case True
      then have "db' = db\<lparr>blacklist := sql_update (\<lambda>b. bl_prefix b = prefix) (extend_black (?new (lf_failures r))) (blacklist db)\<rparr>"
        using assms Cons by (simp add: AutomaticFailureStatement_def Let_def split: if_splits)
      then show ?thesis by blast
    next
      case False
      then have "db' = db \<or> length (blacklist db) < n \<and> db' = db\<lparr>blacklist := blacklist db @ [?new (lf_failures r)]\<rparr>"
        using assms Cons by (simp add: AutomaticFailureStatement_def Let_def split: if_splits)
      then show ?thesis by blast
    qed
  qed
  then consider "db' = db"
    | k where "length (blacklist db) < n" "db' = db\<lparr>blacklist := blacklist db @ [?new k]\<rparr>"
    | k where "db' = db\<lparr>blacklist := sql_update (\<lambda>b. bl_prefix b = prefix) (extend_black (?new k)) (blacklist db)\<rparr>"
    by blast
  then have "ip_failures db' = ip_failures db \<and> length (blacklist db') \<le> max n (length (blacklist db)) \<and>
      (b \<in> set (blacklist db) \<longrightarrow> (\<exists>b' \<in> set (blacklist db'). black_kept b b'))"
  proof cases
    case 1
    then show ?thesis using black_kept_refl by auto
  next
    case (2 k)
    then show ?thesis using black_kept_refl by auto
  next
    case (3 k)
    have "\<exists>b' \<in> set (blacklist db'). black_kept b b'" if "b \<in> set (blacklist db)"
    proof (cases "bl_prefix b = prefix")
      case True
      then show ?thesis using that 3 extend_kept [of "?new k" _ b] by (auto simp: set_sql_update)
    next
      case False
      then show ?thesis using that 3 black_kept_refl by (auto simp: set_sql_update)
    qed
    then show ?thesis using 3 by simp
  qed
  then show "ip_failures db' = ip_failures db" "length (blacklist db') \<le> max n (length (blacklist db))"
    "b \<in> set (blacklist db) \<Longrightarrow> \<exists>b' \<in> set (blacklist db'). black_kept b b'" by simp_all
qed

lemma prune_spec:
  "ip_failures (AutomaticExpiryPruneStatement key now db) = ip_failures db"
  "length (blacklist (AutomaticExpiryPruneStatement key now db)) \<le> length (blacklist db)"
  "b \<in> set (blacklist db) \<Longrightarrow> (\<And>e. bl_expires b = Some e \<Longrightarrow> now < e) \<Longrightarrow>
     b \<in> set (blacklist (AutomaticExpiryPruneStatement key now db))"
  by (auto simp: AutomaticExpiryPruneStatement_def length_sql_delete set_sql_delete split: option.splits)

lemma failure_tx_auto:
  assumes "failure_tx ip key now (Some (prefix, n)) db = Some (db', k)"
  obtains t r evs db2 where "failure_upsert key now (ip_failures db) = Some (t, r)"
    "AutomaticFailureStatement n prefix key now
       (AutomaticExpiryPruneStatement key now (db\<lparr>ip_failures := t, event_log := evs\<rparr>)) = Some db2"
    "blacklist db' = blacklist db2" "ip_failures db' = ip_failures db2"
proof -
  obtain t r where up: "failure_upsert key now (ip_failures db) = Some (t, r)"
    using assms by (auto simp: failure_tx_def split: option.splits)
  let ?evs = "event_log db @ [InvalidLogin ip (min (lf_failures r) 4294967295) (failure_level (lf_failures r)) now]"
  obtain db2 where auto: "AutomaticFailureStatement n prefix key now
       (AutomaticExpiryPruneStatement key now (db\<lparr>ip_failures := t, event_log := ?evs\<rparr>)) = Some db2"
    using assms up by (auto simp: failure_tx_def Let_def split: option.splits)
  moreover have "blacklist db' = blacklist db2 \<and> ip_failures db' = ip_failures db2"
    using assms up auto by (auto simp: failure_tx_def Let_def split: option.splits)
  ultimately show ?thesis using that up by blast
qed

definition at_threshold :: "string \<Rightarrow> millis \<Rightarrow> failure_row \<Rightarrow> bool" where
  "at_threshold key now r \<longleftrightarrow> lf_key r = key \<and> block_count (lf_failures r) \<and> lf_updated r = now \<and> now < lf_blocked r"

lemma automatic_statement_lists:
  assumes "AutomaticFailureStatement n prefix key now db = Some db'" "sql_unique lf_key (ip_failures db)"
    and "r \<in> set (ip_failures db)" "at_threshold key now r" "length (blacklist db) < n"
  shows "\<exists>b \<in> set (blacklist db'). bl_prefix b = prefix \<and>
           (\<forall>e. bl_expires b = Some e \<longrightarrow> now + auto_ms (lf_failures r) \<le> e)"
proof -
  let ?new = "\<lparr>bl_prefix = prefix, bl_note = '''', bl_expires = Some (now + auto_ms (lf_failures r)),
                bl_created = now, bl_updated = now\<rparr>"
  have "sql_select (\<lambda>r. lf_key r = key \<and> block_count (lf_failures r) \<and> lf_updated r = now \<and> now < lf_blocked r)
      (ip_failures db) = [r]"
    using assms(2-4) by (intro sql_select_unique_key [of lf_key]) (auto simp: at_threshold_def)
  note sel = this
  show ?thesis
  proof (cases "sql_exists (\<lambda>b. bl_prefix b = prefix) (blacklist db)")
    case True
    then obtain b where b: "b \<in> set (blacklist db)" "bl_prefix b = prefix" by (auto simp: sql_exists_iff)
    have db': "db' = db\<lparr>blacklist := sql_update (\<lambda>b. bl_prefix b = prefix) (extend_black ?new) (blacklist db)\<rparr>"
      using assms(1) sel True by (simp add: AutomaticFailureStatement_def Let_def split: if_splits)
    have "extend_black ?new b \<in> set (blacklist db')" using b db' by (auto simp: set_sql_update)
    moreover have "\<forall>e. bl_expires (extend_black ?new b) = Some e \<longrightarrow> now + auto_ms (lf_failures r) \<le> e"
      by (auto simp: extend_black_def split: option.splits if_splits)
    moreover have "bl_prefix (extend_black ?new b) = prefix" using b(2) by (simp add: extend_black_def)
    ultimately show ?thesis by blast
  next
    case False
    then have "db' = db\<lparr>blacklist := blacklist db @ [?new]\<rparr>"
      using assms(1,5) sel by (simp add: AutomaticFailureStatement_def Let_def split: if_splits)
    then show ?thesis by simp
  qed
qed

text \<open>C27. The automatic blacklist only ever adds protection: a failure transaction keeps every
  entry that has not expired, never makes a permanent entry finite, never shortens a finite one, never
  grows the table past its capacity, and when the failure reaches a threshold and the table has room,
  the address is listed at least as long as it is blocked.\<close>

theorem login_blacklist_only_extends:
  assumes "failure_tx ip key now (Some (prefix, n)) db = Some (db', k)" "failures_inv db"
  shows "length (blacklist db') \<le> max n (length (blacklist db)) \<and>
     (\<forall>b \<in> set (blacklist db). (\<forall>e. bl_expires b = Some e \<longrightarrow> now < e) \<longrightarrow>
        (\<exists>b' \<in> set (blacklist db'). black_kept b b')) \<and>
     (\<forall>r \<in> set (ip_failures db'). at_threshold key now r \<longrightarrow> length (blacklist db) < n \<longrightarrow>
        (\<exists>b \<in> set (blacklist db'). bl_prefix b = prefix \<and>
           (\<forall>e. bl_expires b = Some e \<longrightarrow> now + auto_ms (lf_failures r) \<le> e)))"
proof -
  obtain t r evs db2 where up: "failure_upsert key now (ip_failures db) = Some (t, r)"
    and auto: "AutomaticFailureStatement n prefix key now
       (AutomaticExpiryPruneStatement key now (db\<lparr>ip_failures := t, event_log := evs\<rparr>)) = Some db2"
    and eq: "blacklist db' = blacklist db2" "ip_failures db' = ip_failures db2"
    using assms(1) by (rule failure_tx_auto)
  let ?db1 = "db\<lparr>ip_failures := t, event_log := evs\<rparr>"
  let ?p = "AutomaticExpiryPruneStatement key now ?db1"
  have pr: "ip_failures ?p = t" "length (blacklist ?p) \<le> length (blacklist db)"
    using prune_spec(1,2) [of key now ?db1] by simp_all
  have kept: "\<exists>b' \<in> set (blacklist db'). black_kept b b'"
    if "b \<in> set (blacklist db)" "\<forall>e. bl_expires b = Some e \<longrightarrow> now < e" for b
    using automatic_statement_spec(3) [OF auto] prune_spec(3) [of b ?db1 now key] that eq(1) by simp
  have listed: "\<exists>b \<in> set (blacklist db'). bl_prefix b = prefix \<and>
      (\<forall>e. bl_expires b = Some e \<longrightarrow> now + auto_ms (lf_failures x) \<le> e)"
    if "x \<in> set (ip_failures db')" "at_threshold key now x" "length (blacklist db) < n" for x
  proof -
    have "sql_unique lf_key (ip_failures ?p)"
      using failure_upsert_inv(1) [OF up] assms(2) pr(1) by (simp add: failures_inv_def)
    moreover have "x \<in> set (ip_failures ?p)" using that(1) eq(2) automatic_statement_spec(1) [OF auto] by simp
    moreover have "length (blacklist ?p) < n" using pr(2) that(3) by simp
    ultimately show ?thesis using automatic_statement_lists [OF auto _ _ that(2)] eq(1) by simp
  qed
  have "length (blacklist db') \<le> max n (length (blacklist db))"
    using automatic_statement_spec(2) [OF auto] pr(2) eq(1) by simp
  then show ?thesis using kept listed by blast
qed

definition demo_black :: black_row where
  "demo_black = \<lparr>bl_prefix = ''192.0.2.1/32'', bl_note = ''manual'', bl_expires = None, bl_created = 0, bl_updated = 0\<rparr>"

theorem login_blacklist_only_extends_witness:
  "\<exists>b' \<in> set (blacklist (fst (the (failure_tx demo_ip (login_digest demo_prims demo_ip) 2000 (Some (''192.0.2.1/32'', 10))
       (demo_login (demo_row 6 0 1000)\<lparr>blacklist := [demo_black]\<rparr>))))). black_kept demo_black b'"
proof -
  let ?db = "demo_login (demo_row 6 0 1000)\<lparr>blacklist := [demo_black]\<rparr>"
  let ?tx = "failure_tx demo_ip (login_digest demo_prims demo_ip) 2000 (Some (''192.0.2.1/32'', 10)) ?db"
  have "?tx \<noteq> None" by code_simp
  then have run: "?tx = Some (fst (the ?tx), snd (the ?tx))" by auto
  have inv: "failures_inv ?db" by (simp add: demo_login_defs)
  show ?thesis using login_blacklist_only_extends [OF run inv] by (simp add: demo_black_def)
qed

end
