(* ===== verification/CronParse.thy ===== *)
theory CronParse
  imports Encoding
begin

text \<open>
  The cron parser of \<^verbatim>\<open>internal/backupschedule/parse.go\<close>. The cursor of the code (text
  and position) is the remaining input; a failed scan of digits or letters leaves the cursor after the
  blanks it skipped, which is the second component of its result.
\<close>

section \<open>Bounds\<close>

record bounds =
  b_min :: int
  b_max :: int
  b_any :: bool
  b_names :: "(string \<times> int) list option"

definition month_names :: "(string \<times> int) list" where
  "month_names =
     [(''jan'', 1), (''january'', 1), (''feb'', 2), (''february'', 2), (''mar'', 3), (''march'', 3),
      (''apr'', 4), (''april'', 4), (''may'', 5), (''jun'', 6), (''june'', 6), (''jul'', 7), (''july'', 7),
      (''aug'', 8), (''august'', 8), (''sep'', 9), (''september'', 9), (''oct'', 10), (''october'', 10),
      (''nov'', 11), (''november'', 11), (''dec'', 12)]"

definition day_names :: "(string \<times> int) list" where
  "day_names =
     [(''sun'', 1), (''sunday'', 1), (''mon'', 2), (''monday'', 2), (''tue'', 3), (''tues'', 3), (''tuesday'', 3),
      (''wed'', 4), (''wednesday'', 4), (''thu'', 5), (''thurs'', 5), (''thursday'', 5), (''fri'', 6),
      (''friday'', 6), (''sat'', 7), (''saturday'', 7)]"

definition plain_bounds :: "int \<Rightarrow> int \<Rightarrow> bounds" where
  "plain_bounds lo hi = \<lparr>b_min = lo, b_max = hi, b_any = False, b_names = None\<rparr>"

definition parseBoundsByField :: "bounds list" where
  "parseBoundsByField =
     [plain_bounds 0 59, plain_bounds 0 59, plain_bounds 0 23,
      (plain_bounds 1 31)\<lparr>b_any := True\<rparr>,
      (plain_bounds 1 12)\<lparr>b_names := Some month_names\<rparr>,
      (plain_bounds 1 7)\<lparr>b_any := True, b_names := Some day_names\<rparr>,
      plain_bounds 1970 2100]"

section \<open>Scanning\<close>

definition parseSpace :: "char \<Rightarrow> bool" where
  "parseSpace c \<longleftrightarrow> c \<in> {CHR '' '', CHR 0x09, CHR 0x0D, CHR 0x0A}"

definition skipSpace :: "string \<Rightarrow> string" where
  "skipSpace s = dropWhile parseSpace s"

definition is_alpha :: "char \<Rightarrow> bool" where
  "is_alpha c \<longleftrightarrow> is_lower c \<or> is_upper c"

definition scan :: "(char \<Rightarrow> bool) \<Rightarrow> string \<Rightarrow> string option \<times> string" where
  "scan p s =
     (let s = skipSpace s; tok = takeWhile p s
      in if tok = [] then (None, s) else (Some tok, skipSpace (dropWhile p s)))"

definition parseDigits :: "string \<Rightarrow> string option \<times> string" where
  "parseDigits = scan is_digit"

definition parseName :: "string \<Rightarrow> string option \<times> string" where
  "parseName = scan is_alpha"

section \<open>Values\<close>

datatype cron_err = CronEmpty | CronStep | CronQuestion | CronRange | CronValue | CronSpecifier | CronTrailing | CronField nat cron_err

text \<open>Only decimal digits, and \<^verbatim>\<open>strconv.Atoi\<close> fails beyond the 64-bit range.\<close>

definition parseNumber :: "string \<Rightarrow> int option" where
  "parseNumber s =
     (if s = '''' \<or> \<not> list_all is_digit s then None
      else if digits_value s < 2 ^ 63 then Some (digits_value s) else None)"

definition parseAlpha :: "string \<Rightarrow> bool" where
  "parseAlpha s \<longleftrightarrow> s \<noteq> '''' \<and> list_all is_alpha s"

text \<open>The value and whether it was a name.\<close>

definition parseValue :: "string \<Rightarrow> bounds \<Rightarrow> cron_err + int \<times> bool" where
  "parseValue tok b =
     (case parseNumber tok of
        Some n \<Rightarrow> if n < b_min b \<or> b_max b < n then Inl CronValue else Inr (n, False)
      | None \<Rightarrow>
          (case b_names b of
             None \<Rightarrow> Inl CronValue
           | Some names \<Rightarrow>
               if \<not> parseAlpha tok then Inl CronValue
               else case map_of names (ToLower_ascii tok) of
                      None \<Rightarrow> Inl CronValue
                    | Some v \<Rightarrow> Inr (v, True)))"

section \<open>Specifiers\<close>

datatype kind = parseAllSpecifier | parsePoint | parseRangeSpecifier | parseNamedPoint

definition parseNumericRange ::
  "bounds \<Rightarrow> string \<Rightarrow> (cron_err + (kind \<times> int \<times> int) \<times> string) option" where
  "parseNumericRange b s =
     (case parseDigits s of
        (None, _) \<Rightarrow> None
      | (Some left, r) \<Rightarrow>
          (case r of
             [] \<Rightarrow> None
           | c # r1 \<Rightarrow>
               if c \<noteq> CHR ''-'' then None
               else Some (case parseDigits r1 of
                      (None, _) \<Rightarrow> Inl CronRange
                    | (Some right, r2) \<Rightarrow>
                        (case parseValue left b of
                           Inl e \<Rightarrow> Inl e
                         | Inr (start, _) \<Rightarrow>
                             (case parseValue right b of
                                Inl _ \<Rightarrow> Inl CronRange
                              | Inr (fin, _) \<Rightarrow>
                                  if fin < start then Inl CronRange
                                  else Inr ((parseRangeSpecifier, start, fin), r2))))))"

definition parseNamedRange ::
  "bounds \<Rightarrow> string \<Rightarrow> (cron_err + (kind \<times> int \<times> int) \<times> string) option" where
  "parseNamedRange b s =
     (case parseName s of
        (None, _) \<Rightarrow> None
      | (Some left, r) \<Rightarrow>
          (case r of
             [] \<Rightarrow> None
           | c # r1 \<Rightarrow>
               if c \<noteq> CHR ''-'' then None
               else Some (case parseName r1 of
                      (None, _) \<Rightarrow> Inl CronRange
                    | (Some right, r2) \<Rightarrow>
                        (case parseValue left b of
                           Inr (start, True) \<Rightarrow>
                             (case parseValue right b of
                                Inr (fin, True) \<Rightarrow>
                                  if fin < start then Inl CronRange
                                  else Inr ((parseRangeSpecifier, start, fin), r2)
                              | _ \<Rightarrow> Inl CronRange)
                         | _ \<Rightarrow> Inl CronRange))))"

text \<open>The point branches; a name that parses as no name is the zero kind with no error in the code,
  which needs a letter-only text that is a number and so does not happen.\<close>

definition parse_point :: "bounds \<Rightarrow> string \<Rightarrow> cron_err + (kind \<times> int \<times> int) \<times> string" where
  "parse_point b s =
     (case parseDigits s of
        (Some tok, r) \<Rightarrow>
          (case parseValue tok b of Inl e \<Rightarrow> Inl e | Inr (v, _) \<Rightarrow> Inr ((parsePoint, v, v), r))
      | (None, s1) \<Rightarrow>
          (case parseNamedRange b s1 of
             Some res \<Rightarrow> res
           | None \<Rightarrow>
               (case parseName s1 of
                  (None, _) \<Rightarrow> Inl CronSpecifier
                | (Some tok, r) \<Rightarrow>
                    (case parseValue tok b of
                       Inl e \<Rightarrow> Inl e
                     | Inr (v, named) \<Rightarrow>
                         if named then Inr ((parseNamedPoint, v, v), r) else Inr ((parseAllSpecifier, 0, 0), r)))))"

definition parseSpecifier :: "bounds \<Rightarrow> string \<Rightarrow> cron_err + (kind \<times> int \<times> int) \<times> string" where
  "parseSpecifier b s =
     (case s of
        c # r \<Rightarrow>
          if c = CHR ''*'' then Inr ((parseAllSpecifier, 0, 0), r)
          else if c = CHR ''?'' then (if b_any b then Inr ((parseAllSpecifier, 0, 0), r) else Inl CronQuestion)
          else (case parseNumericRange b s of Some res \<Rightarrow> res | None \<Rightarrow> parse_point b s)
      | [] \<Rightarrow> (case parseNumericRange b s of Some res \<Rightarrow> res | None \<Rightarrow> parse_point b s))"

definition parseRange :: "int \<Rightarrow> int \<Rightarrow> int list" where
  "parseRange start fin = [start..fin]"

definition parseAll :: "bounds \<Rightarrow> int list" where
  "parseAll b = parseRange (b_min b) (b_max b)"

fun every_from :: "nat \<Rightarrow> nat \<Rightarrow> 'a list \<Rightarrow> 'a list" where
  "every_from k step [] = []"
| "every_from 0 step (v # vs) = v # every_from (step - 1) step vs"
| "every_from (Suc k) step (v # vs) = every_from k step vs"

definition parseEvery :: "int list \<Rightarrow> int \<Rightarrow> int list" where
  "parseEvery values step = every_from 0 (nat step) values"

definition parseSpecifierValues :: "kind \<Rightarrow> int \<Rightarrow> int \<Rightarrow> bounds \<Rightarrow> int list" where
  "parseSpecifierValues k start fin b =
     (case k of
        parseAllSpecifier \<Rightarrow> parseAll b
      | parsePoint \<Rightarrow> [start]
      | parseNamedPoint \<Rightarrow> [start]
      | parseRangeSpecifier \<Rightarrow> parseRange start fin)"

definition parseRootSpecifier :: "bounds \<Rightarrow> string \<Rightarrow> cron_err + int list \<times> string" where
  "parseRootSpecifier b s =
     (case parseSpecifier b s of
        Inl e \<Rightarrow> Inl e
      | Inr ((k, start, fin), r) \<Rightarrow>
          (case r of
             [] \<Rightarrow> Inr (parseSpecifierValues k start fin b, r)
           | c # r1 \<Rightarrow>
               if c \<noteq> CHR ''/'' then Inr (parseSpecifierValues k start fin b, r)
               else if k = parseNamedPoint then Inl CronStep
               else (case parseDigits r1 of
                       (None, _) \<Rightarrow> Inl CronStep
                     | (Some tok, r2) \<Rightarrow>
                         (case parseNumber tok of
                            None \<Rightarrow> Inl CronStep
                          | Some step \<Rightarrow>
                              if step < 1 \<or> b_max b < step then Inl CronStep
                              else
                                let values = (if k = parsePoint then parseRange start (b_max b)
                                              else parseSpecifierValues k start fin b)
                                in Inr (parseEvery values step, r2)))))"

section \<open>Progress\<close>

lemma skipSpace_length: "length (skipSpace s) \<le> length s"
  by (simp add: skipSpace_def length_dropWhile_le)

lemma scan_None: "scan p s = (None, r) \<Longrightarrow> r = skipSpace s"
  by (auto simp: scan_def Let_def split: if_splits)

lemma scan_Some:
  assumes "scan p s = (Some tok, r)"
  shows "tok \<noteq> ''''" "list_all p tok" "length r < length s"
proof -
  let ?s = "skipSpace s"
  have t: "tok = takeWhile p ?s" "tok \<noteq> []" "r = skipSpace (dropWhile p ?s)"
    using assms by (auto simp: scan_def Let_def split: if_splits)
  show "tok \<noteq> ''''" "list_all p tok" using t(1,2) by (auto simp: list_all_iff dest: set_takeWhileD)
  have "length (takeWhile p ?s) + length (dropWhile p ?s) = length ?s"
    by (metis length_append takeWhile_dropWhile_id)
  moreover have "0 < length (takeWhile p ?s)" using t(1,2) by simp
  ultimately show "length r < length s"
    unfolding t(3) using skipSpace_length [of s] skipSpace_length [of "dropWhile p ?s"] by linarith
qed

lemma parseNumericRange_length: "parseNumericRange b s = Some (Inr (v, r)) \<Longrightarrow> length r < length s"
  unfolding parseNumericRange_def parseDigits_def
  by (auto split: prod.splits option.splits list.splits if_splits sum.splits dest!: scan_Some(3))

lemma parseNamedRange_length: "parseNamedRange b s = Some (Inr (v, r)) \<Longrightarrow> length r < length s"
  unfolding parseNamedRange_def parseName_def
  by (auto split: prod.splits option.splits list.splits if_splits sum.splits bool.splits dest!: scan_Some(3))

lemma parse_point_length:
  assumes "parse_point b s = Inr (v, r)"
  shows "length r < length s"
proof (cases "parseDigits s")
  case (Pair t s1)
  show ?thesis
  proof (cases t)
    case tn: None
    then have "length s1 \<le> length s" using Pair scan_None skipSpace_length unfolding parseDigits_def by metis
    moreover have "length r < length s1"
    proof (cases "parseNamedRange b s1")
      case None
      obtain t2 r2 where n: "parseName s1 = (t2, r2)" by (cases "parseName s1")
      then obtain tok where "t2 = Some tok" "r2 = r"
        using assms Pair tn None by (auto simp: parse_point_def split: option.splits sum.splits if_splits)
      then show ?thesis using n scan_Some(3) unfolding parseName_def by metis
    next
      case (Some res)
      then show ?thesis using assms Pair tn parseNamedRange_length by (auto simp: parse_point_def)
    qed
    ultimately show ?thesis by simp
  next
    case (Some tok)
    then have "r = s1" using assms Pair by (auto simp: parse_point_def split: sum.splits)
    then show ?thesis using Pair Some scan_Some(3) unfolding parseDigits_def by metis
  qed
qed

lemma parseSpecifier_length: "parseSpecifier b s = Inr (v, r) \<Longrightarrow> length r < length s"
  by (cases s) (auto simp: parseSpecifier_def split: if_splits option.splits
      dest: parseNumericRange_length parse_point_length)

lemma parseRootSpecifier_length:
  assumes "parseRootSpecifier b s = Inr (vs, r)"
  shows "length r < length s"
proof -
  obtain k start fin r0 where sp: "parseSpecifier b s = Inr ((k, start, fin), r0)"
    using assms by (auto simp: parseRootSpecifier_def split: sum.splits)
  have "length r \<le> length r0"
  proof (cases "\<exists>r1. r0 = CHR ''/'' # r1")
    case True
    then obtain r1 where r1: "r0 = CHR ''/'' # r1" by blast
    obtain t r2 where d: "parseDigits r1 = (t, r2)" by (cases "parseDigits r1")
    have "t \<noteq> None \<and> r2 = r"
      using assms sp r1 d by (auto simp: parseRootSpecifier_def Let_def split: option.splits if_splits)
    then have "length r < length r1" using d scan_Some(3) unfolding parseDigits_def by fastforce
    then show ?thesis using r1 by simp
  next
    case False
    then have "r0 = r" using assms sp by (auto simp: parseRootSpecifier_def split: list.splits if_splits)
    then show ?thesis by simp
  qed
  then show ?thesis using parseSpecifier_length [OF sp] by simp
qed

section \<open>Fields and expressions\<close>

text \<open>The comma-separated specifiers of a field; \<^verbatim>\<open>selected\<close> collects the values.\<close>

function parse_specifiers :: "bounds \<Rightarrow> int list \<Rightarrow> string \<Rightarrow> cron_err + int list \<times> string" where
  "parse_specifiers b selected s =
     (case parseRootSpecifier b s of
        Inl e \<Rightarrow> Inl e
      | Inr (values, r) \<Rightarrow>
          (case r of
             [] \<Rightarrow> Inr (selected @ values, r)
           | c # r1 \<Rightarrow>
               if c = CHR '','' then parse_specifiers b (selected @ values) r1
               else Inr (selected @ values, r)))"
  by pat_completeness auto
termination
  by (relation "measure (\<lambda>(b, sel, s). length s)") (auto dest: parseRootSpecifier_length)

declare parse_specifiers.simps [simp del]

definition parseField :: "bounds \<Rightarrow> string \<Rightarrow> cron_err + int list \<times> string" where
  "parseField b s =
     (let s = skipSpace s
      in if s = '''' then Inl CronEmpty
         else case parse_specifiers b [] s of
                Inl e \<Rightarrow> Inl e
              | Inr (selected, r) \<Rightarrow> Inr (sort (remdups selected), skipSpace r))"

definition parseShorthand :: "string \<Rightarrow> int list list option" where
  "parseShorthand expression =
     (let s = skipSpace expression;
          keyword = takeWhile (\<lambda>c. \<not> parseSpace c) s;
          rest = skipSpace (dropWhile (\<lambda>c. \<not> parseSpace c) s);
          fs = map parseAll parseBoundsByField
      in if rest \<noteq> '''' then None
         else if keyword = ''@yearly'' then Some (fs[0 := [0], 1 := [0], 2 := [0], 3 := [1], 4 := [1]])
         else if keyword = ''@monthly'' then Some (fs[0 := [0], 1 := [0], 2 := [0], 3 := [1]])
         else if keyword = ''@weekly'' then Some (fs[0 := [0], 1 := [0], 2 := [0], 5 := [1]])
         else if keyword = ''@daily'' then Some (fs[0 := [0], 1 := [0], 2 := [0]])
         else if keyword = ''@hourly'' then Some (fs[0 := [0], 1 := [0]])
         else None)"

fun parse_fields :: "nat \<Rightarrow> bounds list \<Rightarrow> string \<Rightarrow> cron_err + int list list \<times> string" where
  "parse_fields i [] s = Inr ([], s)"
| "parse_fields i (b # bs) s =
     (case parseField b s of
        Inl e \<Rightarrow> Inl (CronField (Suc i) e)
      | Inr (values, r) \<Rightarrow>
          (case parse_fields (Suc i) bs r of
             Inl e \<Rightarrow> Inl e
           | Inr (rest, r') \<Rightarrow> Inr (values # rest, r')))"

definition Parse :: "string \<Rightarrow> cron_err + int list list" where
  "Parse expression =
     (case parseShorthand expression of
        Some fs \<Rightarrow> Inr fs
      | None \<Rightarrow>
          (case parse_fields 0 (take 6 parseBoundsByField) expression of
             Inl e \<Rightarrow> Inl e
           | Inr (fs, r) \<Rightarrow>
               if r = '''' then Inr (fs @ [parseAll (parseBoundsByField ! 6)])
               else (case parseField (parseBoundsByField ! 6) r of
                       Inl e \<Rightarrow> Inl (CronField 7 e)
                     | Inr (years, r') \<Rightarrow> if r' \<noteq> '''' then Inl CronTrailing else Inr (fs @ [years]))))"

section \<open>What a schedule is\<close>

definition field_ok :: "bounds \<Rightarrow> int list \<Rightarrow> bool" where
  "field_ok b vs \<longleftrightarrow> vs \<noteq> [] \<and> sorted_wrt (<) vs \<and> set vs \<subseteq> {b_min b..b_max b}"

definition schedule_ok :: "int list list \<Rightarrow> bool" where
  "schedule_ok fs \<longleftrightarrow> list_all2 field_ok parseBoundsByField fs"

definition bounds_ok :: "bounds \<Rightarrow> bool" where
  "bounds_ok b \<longleftrightarrow>
     b_min b \<le> b_max b \<and>
     (\<forall>names. b_names b = Some names \<longrightarrow> list_all (\<lambda>(n, v). b_min b \<le> v \<and> v \<le> b_max b) names)"

lemma parseBounds_ok: "list_all bounds_ok parseBoundsByField"
  by (simp add: parseBoundsByField_def bounds_ok_def plain_bounds_def month_names_def day_names_def)

lemma length_parseBounds [simp]: "length parseBoundsByField = 7"
  by (simp add: parseBoundsByField_def)

lemma parseBounds_split: "parseBoundsByField = take 6 parseBoundsByField @ [parseBoundsByField ! 6]"
  by (simp add: parseBoundsByField_def)

lemma parseRange_ok: "a \<le> c \<Longrightarrow> parseRange a c \<noteq> []" "set (parseRange a c) = {a..c}"
  by (auto simp: parseRange_def)

lemma set_every_from: "set (every_from k n vs) \<subseteq> set vs"
  by (induction k n vs rule: every_from.induct) auto

lemma parseEvery_ok: "vs \<noteq> [] \<Longrightarrow> parseEvery vs n \<noteq> []" "set (parseEvery vs n) \<subseteq> set vs"
  unfolding parseEvery_def by (cases vs, simp_all) (rule set_every_from)

lemma parseValue_bounds:
  assumes "bounds_ok b" "parseValue tok b = Inr (v, named)"
  shows "b_min b \<le> v \<and> v \<le> b_max b"
  using assms
  by (auto simp: parseValue_def bounds_ok_def list_all_iff split: option.splits if_splits dest!: map_of_SomeD)

text \<open>The values a specifier stands for, and the bounds of the range a step may walk.\<close>

definition spec_ok :: "bounds \<Rightarrow> kind \<times> int \<times> int \<Rightarrow> bool" where
  "spec_ok b sp \<longleftrightarrow>
     (case sp of (k, start, fin) \<Rightarrow>
        k = parseAllSpecifier \<or> b_min b \<le> start \<and> start \<le> fin \<and> fin \<le> b_max b)"

lemma parseNumericRange_ok:
  "bounds_ok b \<Longrightarrow> parseNumericRange b s = Some (Inr (sp, r)) \<Longrightarrow> spec_ok b sp"
  by (auto simp: parseNumericRange_def spec_ok_def split: prod.splits option.splits list.splits if_splits sum.splits
      dest: parseValue_bounds)

lemma parseNamedRange_ok:
  "bounds_ok b \<Longrightarrow> parseNamedRange b s = Some (Inr (sp, r)) \<Longrightarrow> spec_ok b sp"
  by (auto simp: parseNamedRange_def spec_ok_def
      split: prod.splits option.splits list.splits if_splits sum.splits bool.splits dest: parseValue_bounds)

lemma parse_point_ok:
  assumes "bounds_ok b" "parse_point b s = Inr (sp, r)"
  shows "spec_ok b sp"
  using assms
  by (auto simp: parse_point_def spec_ok_def split: prod.splits option.splits if_splits sum.splits
      dest: parseValue_bounds parseNamedRange_ok [unfolded spec_ok_def])

lemma parseSpecifier_ok:
  "bounds_ok b \<Longrightarrow> parseSpecifier b s = Inr (sp, r) \<Longrightarrow> spec_ok b sp"
  by (cases s)
     (auto simp: parseSpecifier_def spec_ok_def [of b "(parseAllSpecifier, _)"] split: if_splits option.splits
       dest: parseNumericRange_ok parse_point_ok)

lemma parseSpecifierValues_ok:
  assumes "bounds_ok b" "spec_ok b (k, start, fin)"
  shows "parseSpecifierValues k start fin b \<noteq> []"
    and "set (parseSpecifierValues k start fin b) \<subseteq> {b_min b..b_max b}"
  using assms parseRange_ok(1)
  by (auto simp: parseSpecifierValues_def spec_ok_def bounds_ok_def parseAll_def parseRange_ok(2) split: kind.splits)

lemma parseRootSpecifier_ok:
  assumes b: "bounds_ok b" and p: "parseRootSpecifier b s = Inr (vs, r)"
  shows "vs \<noteq> [] \<and> set vs \<subseteq> {b_min b..b_max b}"
proof -
  obtain k start fin r0 where sp: "parseSpecifier b s = Inr ((k, start, fin), r0)"
    using p by (auto simp: parseRootSpecifier_def split: sum.splits)
  have ok: "spec_ok b (k, start, fin)" by (rule parseSpecifier_ok [OF b sp])
  let ?vs = "if k = parsePoint then parseRange start (b_max b) else parseSpecifierValues k start fin b"
  have "?vs \<noteq> [] \<and> set ?vs \<subseteq> {b_min b..b_max b}"
    using parseSpecifierValues_ok [OF b ok] parseRange_ok(1) ok
    by (auto simp: spec_ok_def parseRange_ok(2))
  then have "parseEvery ?vs n \<noteq> [] \<and> set (parseEvery ?vs n) \<subseteq> {b_min b..b_max b}" for n
    using parseEvery_ok by blast
  moreover have "vs = parseSpecifierValues k start fin b \<or> (\<exists>n. vs = parseEvery ?vs n)"
    using p sp by (auto simp: parseRootSpecifier_def Let_def split: list.splits if_splits prod.splits option.splits)
  ultimately show ?thesis using parseSpecifierValues_ok [OF b ok] by metis
qed

lemma parse_specifiers_ok:
  "bounds_ok b \<Longrightarrow> parse_specifiers b sel s = Inr (vs, r) \<Longrightarrow> set sel \<subseteq> {b_min b..b_max b} \<Longrightarrow>
   vs \<noteq> [] \<and> set vs \<subseteq> {b_min b..b_max b}"
proof (induction b sel s rule: parse_specifiers.induct)
  case (1 b sel s)
  obtain ws r0 where w: "parseRootSpecifier b s = Inr (ws, r0)"
    using 1(3) by (subst (asm) parse_specifiers.simps) (auto split: sum.splits)
  note ok = parseRootSpecifier_ok [OF 1(2) w]
  show ?case
  proof (cases "\<exists>r1. r0 = CHR '','' # r1")
    case True
    then obtain r1 where "r0 = CHR '','' # r1" by blast
    moreover from this have "parse_specifiers b (sel @ ws) r1 = Inr (vs, r)"
      using 1(3) w by (simp add: parse_specifiers.simps [of b sel s])
    ultimately show ?thesis using 1(1) [of "(ws, r0)" ws r0] 1(2,4) ok w by simp
  next
    case False
    then have "vs = sel @ ws"
      using 1(3) w by (auto simp: parse_specifiers.simps [of b sel s] split: list.splits)
    then show ?thesis using ok 1(4) by simp
  qed
qed

lemma parseField_ok:
  assumes "bounds_ok b" "parseField b s = Inr (vs, r)"
  shows "field_ok b vs"
proof -
  obtain sel r0 where "parse_specifiers b [] (skipSpace s) = Inr (sel, r0)" "vs = sort (remdups sel)"
    using assms(2) by (auto simp: parseField_def Let_def split: if_splits sum.splits)
  then show ?thesis
    using parse_specifiers_ok [OF assms(1), of "[]" "skipSpace s" sel r0]
    by (auto simp: field_ok_def strict_sorted_iff dest: arg_cong [of _ "[]" set])
qed

lemma parse_fields_ok:
  "list_all bounds_ok bs \<Longrightarrow> parse_fields i bs s = Inr (fs, r) \<Longrightarrow> list_all2 field_ok bs fs"
  by (induction i bs s arbitrary: fs r rule: parse_fields.induct)
     (auto split: sum.splits dest: parseField_ok)

lemma field_ok_all: "bounds_ok b \<Longrightarrow> field_ok b (parseAll b)"
  by (auto simp: field_ok_def bounds_ok_def parseAll_def parseRange_def strict_sorted_iff)

lemma field_ok_single: "b_min b \<le> v \<Longrightarrow> v \<le> b_max b \<Longrightarrow> field_ok b [v]"
  by (simp add: field_ok_def)

lemma all_fields_ok: "list_all2 field_ok parseBoundsByField (map parseAll parseBoundsByField)"
  using parseBounds_ok by (simp add: list_all2_map2 list_all2_same list_all_iff field_ok_all)


lemma parseShorthand_ok:
  assumes "parseShorthand e = Some fs"
  shows "schedule_ok fs"
proof -
  have "schedule_ok (map parseAll parseBoundsByField)" using all_fields_ok by (simp add: schedule_ok_def)
  then show ?thesis
    using assms
    by (auto simp: parseShorthand_def Let_def parseBoundsByField_def plain_bounds_def schedule_ok_def
        field_ok_single split: if_splits)
qed

text \<open>C34. Every expression the parser accepts gives a schedule of seven non-empty fields, each sorted,
  without repetitions and within the bounds of its position.\<close>

theorem Parse_sound:
  assumes "Parse expression = Inr fs"
  shows "schedule_ok fs"
proof (cases "parseShorthand expression")
  case None
  then obtain six r where f: "parse_fields 0 (take 6 parseBoundsByField) expression = Inr (six, r)"
    using assms by (auto simp: Parse_def split: sum.splits)
  let ?y = "parseBoundsByField ! 6"
  have b: "list_all bounds_ok (take 6 parseBoundsByField)" "bounds_ok ?y"
    using parseBounds_ok by (auto simp: list_all_iff dest: in_set_takeD)
  have "\<exists>years. fs = six @ [years] \<and> field_ok ?y years"
    using assms None f b(2) field_ok_all
    by (auto simp: Parse_def split: sum.splits if_splits dest: parseField_ok)
  then show ?thesis
    unfolding schedule_ok_def
    by (subst parseBounds_split) (auto intro: list_all2_appendI parse_fields_ok [OF b(1) f])
qed (use assms parseShorthand_ok in \<open>simp add: Parse_def\<close>)

theorem Parse_sound_witness:
  "schedule_ok ((map parseAll parseBoundsByField)[0 := [0], 1 := [0]])"
  by (rule Parse_sound [of "''@hourly''"]) code_simp

section \<open>Steps\<close>

lemma set_every_from_upto:
  assumes "0 < n"
  shows "set (every_from k n [a..c]) = {v. a \<le> v \<and> v \<le> c \<and> int k \<le> v - a \<and> int n dvd v - a - int k}"
proof (induction "nat (c + 1 - a)" arbitrary: a k)
  case 0
  then show ?case by auto
next
  case (Suc d)
  then have ac: "a \<le> c" "[a..c] = a # [a + 1..c]" by (auto simp: upto_rec1)
  note IH = Suc(1) [of "a + 1"]
  show ?case
  proof (cases k)
    case 0
    have "v = a \<or> a + 1 \<le> v \<and> int (n - 1) \<le> v - (a + 1) \<and> int n dvd v - (a + 1) - int (n - 1) \<longleftrightarrow>
        a \<le> v \<and> int n dvd v - a" for v
    proof (cases "a < v")
      case True
      have e: "v - (a + 1) - int (n - 1) = (v - a) - int n" using assms by (simp add: of_nat_diff)
      have "int n dvd v - (a + 1) - int (n - 1) \<longleftrightarrow> int n dvd v - a" unfolding e by (simp add: dvd_diff_left_iff)
      moreover have "int n dvd v - a \<Longrightarrow> int n \<le> v - a" using True zdvd_imp_le by auto
      ultimately show ?thesis using True assms by (auto simp: of_nat_diff)
    qed auto
    then show ?thesis using ac 0 IH [of "n - 1"] Suc(2) by auto
  next
    case (Suc k')
    then show ?thesis using ac IH [of k'] \<open>Suc d = _\<close> by (auto simp: algebra_simps)
  qed
qed

text \<open>A stepped range selects exactly the values of the range that lie a multiple of the step
  above its start.\<close>

lemma parseEvery_range:
  assumes "0 < step"
  shows "set (parseEvery (parseRange start fin) step) = {v. start \<le> v \<and> v \<le> fin \<and> step dvd v - start}"
  using assms set_every_from_upto [of "nat step" 0 start fin] by (auto simp: parseEvery_def parseRange_def)

lemma parseEvery_range_example:
  "set (parseEvery (parseRange 5 20) 7) = {v. 5 \<le> v \<and> v \<le> 20 \<and> (7 :: int) dvd v - 5}"
  by (rule parseEvery_range) simp

section \<open>Printing a schedule\<close>

definition print_values :: "int list \<Rightarrow> string" where
  "print_values vs = concat (map (\<lambda>v. CHR '','' # itoa v) vs)"

definition print_field :: "int list \<Rightarrow> string" where
  "print_field vs = (case vs of [] \<Rightarrow> '''' | v # vs \<Rightarrow> itoa v @ print_values vs)"

fun print_schedule :: "int list list \<Rightarrow> string" where
  "print_schedule [] = ''''"
| "print_schedule [f] = print_field f"
| "print_schedule (f # g # fs) = print_field f @ CHR '' '' # print_schedule (g # fs)"

definition digit_start :: "string \<Rightarrow> bool" where
  "digit_start s \<longleftrightarrow> (case s of [] \<Rightarrow> False | c # _ \<Rightarrow> is_digit c)"

lemma digit_start_append [simp]: "digit_start s \<Longrightarrow> digit_start (s @ t)"
  by (cases s) (auto simp: digit_start_def)

lemma is_digit_plain:
  "is_digit c \<Longrightarrow> \<not> parseSpace c"
  "is_digit c \<Longrightarrow> c \<notin> {CHR ''*'', CHR ''?'', CHR ''-'', CHR ''/'', CHR '','', CHR ''@''}"
  by (auto simp: is_digit_def parseSpace_def byte_of_def)

lemma skipSpace_digit [simp]: "digit_start s \<Longrightarrow> skipSpace s = s"
  by (cases s) (auto simp: digit_start_def skipSpace_def is_digit_plain(1))

lemma skipSpace_blank [simp]: "skipSpace (CHR '' '' # s) = skipSpace s"
  by (simp add: skipSpace_def parseSpace_def)

lemma itoa_digits:
  assumes "0 \<le> v"
  shows "list_all is_digit (itoa v)" "itoa v \<noteq> ''''" "digits_value (itoa v) = v" "digit_start (itoa v)"
  using itoa_decimal [OF assms] by (auto simp: digit_start_def list_all_iff split: list.splits)

lemma parseValue_itoa:
  assumes "0 \<le> v" "v < 2 ^ 63" "b_min b \<le> v" "v \<le> b_max b"
  shows "parseValue (itoa v) b = Inr (v, False)"
  using assms itoa_digits [of v] by (simp add: parseValue_def parseNumber_def)

lemma parseDigits_itoa:
  assumes "0 \<le> v" "\<not> digit_start rest"
  shows "parseDigits (itoa v @ rest) = (Some (itoa v), skipSpace rest)"
proof -
  have "takeWhile is_digit rest = []" "dropWhile is_digit rest = rest"
    using assms(2) by (auto simp: digit_start_def split: list.splits)
  then show ?thesis
    using itoa_digits [OF assms(1)] by (simp add: parseDigits_def scan_def list_all_iff)
qed

text \<open>What may follow a number: the end, a comma or a blank before another number.\<close>

definition follows :: "string \<Rightarrow> bool" where
  "follows rest \<longleftrightarrow> rest = '''' \<or> (\<exists>r. rest = CHR '','' # r) \<or> (\<exists>r. rest = CHR '' '' # r \<and> digit_start r)"

lemma follows_not_digit: "follows rest \<Longrightarrow> \<not> digit_start rest"
  by (auto simp: follows_def digit_start_def is_digit_def byte_of_def)

lemma follows_skip:
  assumes "follows rest"
  shows "skipSpace rest = '''' \<or> (\<exists>r. skipSpace rest = CHR '','' # r) \<or> digit_start (skipSpace rest)"
  using assms by (auto simp: follows_def) (auto simp: skipSpace_def parseSpace_def)

lemma follows_hd:
  assumes "follows rest" "skipSpace rest = c # r"
  shows "c \<noteq> CHR ''-'' \<and> c \<noteq> CHR ''/''"
  using follows_skip [OF assms(1)] assms(2) by (auto simp: digit_start_def is_digit_def byte_of_def)

lemma parseSpecifier_itoa:
  assumes v: "0 \<le> v" "v < 2 ^ 63" "b_min b \<le> v" "v \<le> b_max b" and f: "follows rest"
  shows "parseSpecifier b (itoa v @ rest) = Inr ((parsePoint, v, v), skipSpace rest)"
proof -
  let ?s = "itoa v @ rest"
  have d: "parseDigits ?s = (Some (itoa v), skipSpace rest)"
    using parseDigits_itoa [OF v(1)] follows_not_digit [OF f] by blast
  then have n: "parseNumericRange b ?s = None"
    using follows_hd [OF f] by (auto simp: parseNumericRange_def split: list.splits)
  have p: "parse_point b ?s = Inr ((parsePoint, v, v), skipSpace rest)"
    using d parseValue_itoa [OF v] by (simp add: parse_point_def)
  obtain c r where "itoa v = c # r" "is_digit c"
    using itoa_digits(4) [OF v(1)] by (auto simp: digit_start_def split: list.splits)
  then show ?thesis using n p is_digit_plain(2) [of c] by (simp add: parseSpecifier_def)
qed

lemma parseRootSpecifier_itoa:
  assumes "0 \<le> v" "v < 2 ^ 63" "b_min b \<le> v" "v \<le> b_max b" "follows rest"
  shows "parseRootSpecifier b (itoa v @ rest) = Inr ([v], skipSpace rest)"
  using parseSpecifier_itoa [OF assms] follows_hd [OF assms(5)]
  by (auto simp: parseRootSpecifier_def parseSpecifierValues_def split: list.splits)

text \<open>A field whose values fit in the machine integers the parser reads.\<close>

definition values_fit :: "bounds \<Rightarrow> int list \<Rightarrow> bool" where
  "values_fit b vs \<longleftrightarrow> (\<forall>v \<in> set vs. 0 \<le> v \<and> v < 2 ^ 63 \<and> b_min b \<le> v \<and> v \<le> b_max b)"

definition ends :: "string \<Rightarrow> bool" where
  "ends rest \<longleftrightarrow> rest = '''' \<or> (\<exists>r. rest = CHR '' '' # r \<and> digit_start r)"

lemma print_values_follows: "ends rest \<Longrightarrow> follows (print_values vs @ rest)"
  by (cases vs) (auto simp: print_values_def follows_def ends_def)

lemma ends_skip: "ends rest \<Longrightarrow> skipSpace rest = '''' \<or> digit_start (skipSpace rest)"
  by (auto simp: ends_def) (simp add: skipSpace_def)

lemma parse_specifiers_print:
  "values_fit b (v # vs) \<Longrightarrow> ends rest \<Longrightarrow>
   parse_specifiers b sel (itoa v @ print_values vs @ rest) = Inr (sel @ v # vs, skipSpace rest)"
proof (induction vs arbitrary: v sel)
  case Nil
  then have "parseRootSpecifier b (itoa v @ rest) = Inr ([v], skipSpace rest)"
    using print_values_follows [of rest "[]"]
    by (intro parseRootSpecifier_itoa) (auto simp: values_fit_def print_values_def)
  then show ?case
    using ends_skip [OF Nil(2)] is_digit_plain(2)
    by (auto simp: parse_specifiers.simps [of b sel] print_values_def digit_start_def split: list.splits)
next
  case (Cons w ws)
  let ?r = "itoa w @ print_values ws @ rest"
  have "parseRootSpecifier b (itoa v @ CHR '','' # ?r) = Inr ([v], skipSpace (CHR '','' # ?r))"
    using Cons.prems(1) by (intro parseRootSpecifier_itoa) (auto simp: values_fit_def follows_def)
  moreover have "skipSpace (CHR '','' # ?r) = CHR '','' # ?r" by (simp add: skipSpace_def parseSpace_def)
  moreover have "parse_specifiers b (sel @ [v]) ?r = Inr ((sel @ [v]) @ w # ws, skipSpace rest)"
    using Cons by (intro Cons.IH) (auto simp: values_fit_def)
  ultimately show ?case by (simp add: parse_specifiers.simps [of b sel] print_values_def)
qed

lemma sort_remdups_strict: "sorted_wrt (<) (vs :: int list) \<Longrightarrow> sort (remdups vs) = vs"
  by (simp add: strict_sorted_iff distinct_remdups_id sorted_sort_id)

lemma print_field_start: "values_fit b f \<Longrightarrow> f \<noteq> [] \<Longrightarrow> digit_start (print_field f)"
  by (cases f) (auto simp: print_field_def values_fit_def itoa_digits(4))

lemma parseField_print:
  assumes "field_ok b vs" "values_fit b vs" "ends rest"
  shows "parseField b (print_field vs @ rest) = Inr (vs, skipSpace rest)"
proof -
  obtain v ws where vs: "vs = v # ws" using assms(1) by (cases vs) (auto simp: field_ok_def)
  have d: "digit_start (print_field vs @ rest)"
    using print_field_start [OF assms(2)] vs by simp
  have "parse_specifiers b [] (print_field vs @ rest) = Inr (vs, skipSpace rest)"
    using parse_specifiers_print [of b v ws rest "[]"] assms(2,3) vs by (simp add: print_field_def)
  moreover have "skipSpace (skipSpace rest) = skipSpace rest" using ends_skip [OF assms(3)] by (auto simp: skipSpace_def)
  moreover have "sort (remdups vs) = vs" using assms(1) by (simp add: field_ok_def sort_remdups_strict)
  ultimately show ?thesis using d by (simp add: parseField_def Let_def) (auto simp: digit_start_def)
qed

lemma print_schedule_start:
  "list_all2 (\<lambda>b f. field_ok b f \<and> values_fit b f) bs fs \<Longrightarrow> fs \<noteq> [] \<Longrightarrow> digit_start (print_schedule fs)"
  by (induction fs arbitrary: bs rule: print_schedule.induct)
     (auto simp: list_all2_Cons2 field_ok_def print_field_start)

lemma parse_fields_print:
  assumes "list_all2 (\<lambda>b f. field_ok b f \<and> values_fit b f) bs fs"
    and "list_all2 (\<lambda>b f. field_ok b f \<and> values_fit b f) cs gs" "gs \<noteq> []"
  shows "parse_fields i bs (print_schedule (fs @ gs)) = Inr (fs, print_schedule gs)"
  using assms(1)
proof (induction bs fs arbitrary: i rule: list_all2_induct)
  case (Cons b bs f fs)
  obtain g hs where e: "fs @ gs = g # hs" using assms(3) by (cases "fs @ gs") auto
  have "digit_start (print_schedule (fs @ gs))"
    using print_schedule_start [OF list_all2_appendI [OF Cons(2) assms(2)]] assms(3) by simp
  then have "parseField b (print_schedule ((f # fs) @ gs)) = Inr (f, print_schedule (fs @ gs))"
    using parseField_print [of b f "CHR '' '' # print_schedule (fs @ gs)"] Cons(1) e by (simp add: ends_def)
  then show ?case using Cons(3) by simp
qed simp

lemma schedule_fits:
  assumes "schedule_ok fs"
  shows "list_all2 (\<lambda>b f. field_ok b f \<and> values_fit b f) parseBoundsByField fs"
proof -
  have "\<forall>b \<in> set parseBoundsByField. 0 \<le> b_min b \<and> b_max b < 2 ^ 63"
    by (simp add: parseBoundsByField_def plain_bounds_def)
  then have "\<And>b f. b \<in> set parseBoundsByField \<Longrightarrow> field_ok b f \<Longrightarrow> values_fit b f"
    by (fastforce simp: field_ok_def values_fit_def)
  then show ?thesis using assms unfolding schedule_ok_def by (auto elim: list.rel_mono_strong)
qed

text \<open>C33. Printing a schedule and parsing it is the identity: every well-formed schedule is written by
  the expression that lists its values.\<close>

theorem Parse_print:
  assumes "schedule_ok fs"
  shows "Parse (print_schedule fs) = Inr fs"
proof -
  let ?ok = "\<lambda>b f. field_ok b f \<and> values_fit b f"
  have all: "list_all2 ?ok (take 6 parseBoundsByField @ [parseBoundsByField ! 6]) fs"
    using schedule_fits [OF assms] parseBounds_split by simp
  then obtain six ys where fs: "fs = six @ [ys]" "list_all2 ?ok (take 6 parseBoundsByField) six"
      "?ok (parseBoundsByField ! 6) ys"
    by (auto simp: list_all2_append1 list_all2_Cons1)
  have y: "list_all2 ?ok [parseBoundsByField ! 6] [ys]" using fs(3) by simp
  have "parse_fields 0 (take 6 parseBoundsByField) (print_schedule fs) = Inr (six, print_field ys)"
    using parse_fields_print [OF fs(2) y] fs(1) by simp
  moreover have "print_field ys \<noteq> ''''"
    using print_schedule_start [OF y] by (auto simp: digit_start_def)
  moreover have "parseField (parseBoundsByField ! 6) (print_field ys) = Inr (ys, '''')"
    using parseField_print [of _ ys "''''"] fs(3) by (simp add: ends_def skipSpace_def)
  moreover have "parseShorthand (print_schedule fs) = None"
    using print_schedule_start [OF all] fs(1)
    by (auto simp: parseShorthand_def Let_def digit_start_def is_digit_def byte_of_def split: list.splits)
  ultimately show ?thesis using fs(1) by (simp add: Parse_def)
qed

theorem Parse_print_witness:
  "Parse (print_schedule [[0, 30], [0], [3], [1, 15], [1], [2, 6], [2030]]) = Inr [[0, 30], [0], [3], [1, 15], [1], [2, 6], [2030]]"
  by (rule Parse_print)
     (simp add: schedule_ok_def parseBoundsByField_def plain_bounds_def field_ok_def)

end
