(* ===== verification/CronNext.thy ===== *)
theory CronNext
  imports CronParse
begin

text \<open>
  The search of \<^verbatim>\<open>internal/backupschedule/next.go\<close>. A civil time and an instant are whole
  seconds since the first of January of year 1 (the zero of Go's \<^verbatim>\<open>time.Time\<close>), so the zero
  time of the code is \<^term>\<open>None\<close>. A context is the number of its checks that still succeed, or
  \<^term>\<open>None\<close> when it is never cancelled: once \<^verbatim>\<open>ctx.Err\<close> is not nil it stays so.
\<close>

section \<open>The proleptic Gregorian calendar\<close>

definition is_leap :: "int \<Rightarrow> bool" where
  "is_leap y \<longleftrightarrow> y mod 4 = 0 \<and> (y mod 100 \<noteq> 0 \<or> y mod 400 = 0)"

text \<open>Days before the first of January of a year.\<close>

definition days_before_year :: "int \<Rightarrow> int" where
  "days_before_year y = 365 * (y - 1) + (y - 1) div 4 - (y - 1) div 100 + (y - 1) div 400"

definition days_before_month :: "bool \<Rightarrow> int \<Rightarrow> int" where
  "days_before_month leap m =
     [0, 31, 59, 90, 120, 151, 181, 212, 243, 273, 304, 334, 365] ! nat (m - 1) + (if leap \<and> 2 < m then 1 else 0)"

definition days_in_month :: "int \<Rightarrow> int \<Rightarrow> int" where
  "days_in_month y m = days_before_month (is_leap y) (m + 1) - days_before_month (is_leap y) m"

text \<open>\<^verbatim>\<open>time.Date\<close> at midnight; a day beyond the month runs into the next one.\<close>

definition day_number :: "int \<Rightarrow> int \<Rightarrow> int \<Rightarrow> int" where
  "day_number y m d = days_before_year y + days_before_month (is_leap y) m + d - 1"

definition year_of :: "int \<Rightarrow> int" where
  "year_of n =
     (let y = n * 400 div 146097 + 1
      in if n < days_before_year y then y - 1 else if days_before_year (y + 1) \<le> n then y + 1 else y)"

definition month_of :: "int \<Rightarrow> int" where
  "month_of n =
     (let y = year_of n; r = n - days_before_year y
      in 1 + int (length (filter (\<lambda>m. days_before_month (is_leap y) m \<le> r) [2..12])))"

definition day_of :: "int \<Rightarrow> int" where
  "day_of n = n - days_before_year (year_of n) - days_before_month (is_leap (year_of n)) (month_of n) + 1"

text \<open>The first of January of year 1 is a Monday; Sunday is zero.\<close>

definition weekday_of :: "int \<Rightarrow> int" where
  "weekday_of n = (n + 1) mod 7"

lemma days_before_year_Suc: "days_before_year (y + 1) = days_before_year y + (if is_leap y then 366 else 365)"
proof -
  have d: "(n :: int) div k - (n - 1) div k = (if n mod k = 0 then 1 else 0)" if "0 < k" for n k
  proof -
    have "n - 1 = k * (n div k) + (n mod k - 1)" by simp
    then have "(n - 1) div k = n div k + (n mod k - 1) div k"
      using that by (metis div_mult_self2 less_irrefl mult.commute add.commute)
    moreover have "(n mod k - 1) div k = (if n mod k = 0 then - 1 else 0)"
    proof (cases "n mod k = 0")
      case False
      then have "0 \<le> n mod k - 1" "n mod k - 1 < k"
        using that pos_mod_bound [of k n] pos_mod_sign [of k n] by linarith+
      then show ?thesis using False by (simp add: div_pos_pos_trivial)
    qed (use that in \<open>simp add: div_eq_minus1\<close>)
    ultimately show ?thesis by simp
  qed
  have m: "y mod 400 = 0 \<Longrightarrow> y mod 100 = 0" "y mod 100 = 0 \<Longrightarrow> y mod 4 = 0" by presburger+
  have "days_before_year (y + 1) =
      days_before_year y + 365 + (y div 4 - (y - 1) div 4) - (y div 100 - (y - 1) div 100) + (y div 400 - (y - 1) div 400)"
    unfolding days_before_year_def by (simp add: algebra_simps)
  also have "\<dots> = days_before_year y + 365 + (if y mod 4 = 0 then 1 else 0) - (if y mod 100 = 0 then 1 else 0)
      + (if y mod 400 = 0 then 1 else 0)"
    using d [of 4 y] d [of 100 y] d [of 400 y] by (simp only:)
  also have "\<dots> = days_before_year y + (if is_leap y then 366 else 365)"
    unfolding is_leap_def using m by (cases "y mod 400 = 0"; cases "y mod 100 = 0"; cases "y mod 4 = 0"; simp only: if_True if_False) auto
  finally show ?thesis .
qed

lemma days_before_year_mono: "x \<le> y \<Longrightarrow> days_before_year x \<le> days_before_year y"
proof (induction y rule: int_ge_induct)
  case (step y)
  then show ?case using days_before_year_Suc [of y] by (auto split: if_splits)
qed simp

lemma year_of_bounds: "days_before_year (year_of n) \<le> n \<and> n < days_before_year (year_of n + 1)"
proof -
  define k where "k = n * 400 div 146097"
  have q: "146097 * k \<le> n * 400" "n * 400 < 146097 * k + 146097" unfolding k_def by linarith+
  have "days_before_year k \<le> n"
    using q by (simp add: days_before_year_def)
  moreover have "n < days_before_year (k + 3)"
    using q by (simp add: days_before_year_def)
  ultimately show ?thesis by (auto simp: year_of_def Let_def k_def [symmetric] add.commute)
qed

lemma year_of_eq:
  assumes "days_before_year y \<le> n" "n < days_before_year (y + 1)"
  shows "year_of n = y"
proof (rule ccontr)
  assume "year_of n \<noteq> y"
  then have "year_of n + 1 \<le> y \<or> y + 1 \<le> year_of n" by linarith
  then show False
    using year_of_bounds [of n] assms days_before_year_mono [of "year_of n + 1" y]
      days_before_year_mono [of "y + 1" "year_of n"] by linarith
qed

text \<open>The cumulated days of the months.\<close>

lemma month_cases:
  assumes "1 \<le> m" "m \<le> (12 :: int)"
  shows "m \<in> {1, 2, 3, 4, 5, 6, 7, 8, 9, 10, 11, 12}"
  unfolding insert_iff empty_iff using assms by presburger

lemma days_before_month_bounds:
  assumes "1 \<le> m" "m \<le> 12"
  shows "0 \<le> days_before_month l m" "days_before_month l m + 28 \<le> days_before_month l (m + 1)"
    "days_before_month l (m + 1) \<le> days_before_month l m + 31"
    "days_before_month l (m + 1) \<le> (if l then 366 else 365)"
  using month_cases [OF assms] by (auto simp: days_before_month_def)

lemma days_before_month_mono:
  assumes "1 \<le> i" "i \<le> j" "j \<le> 13"
  shows "days_before_month l i \<le> days_before_month l j"
  using assms(2,3)
proof (induction j rule: int_ge_induct)
  case (step j)
  then show ?case using days_before_month_bounds(2) [of j l] assms(1) by simp
qed simp

lemma month_count:
  assumes "1 \<le> m" "m \<le> 12" "days_before_month l m \<le> r" "r < days_before_month l (m + 1)"
  shows "1 + int (length (filter (\<lambda>k. days_before_month l k \<le> r) [2..12])) = m"
proof -
  have "days_before_month l k \<le> r \<longleftrightarrow> k \<le> m" if "2 \<le> k" "k \<le> 12" for k
    using days_before_month_mono [of k m l] days_before_month_mono [of "m + 1" k l] that assms by linarith
  then have "{k. days_before_month l k \<le> r} \<inter> {2..12} = {2..m}" using assms by fastforce
  moreover have "set [2..12] = {2..12 :: int}" by (rule set_upto)
  ultimately show ?thesis
    using distinct_length_filter [of "[2..12]" "\<lambda>k. days_before_month l k \<le> r"] assms by simp
qed

definition valid_date :: "int \<Rightarrow> int \<Rightarrow> int \<Rightarrow> bool" where
  "valid_date y m d \<longleftrightarrow> 1 \<le> m \<and> m \<le> 12 \<and> 1 \<le> d \<and> d \<le> days_in_month y m"

lemma civil_of_day_number:
  assumes "valid_date y m d"
  shows "year_of (day_number y m d) = y" "month_of (day_number y m d) = m" "day_of (day_number y m d) = d"
proof -
  let ?n = "day_number y m d"
  have m: "1 \<le> m" "m \<le> 12" and d: "1 \<le> d" "d \<le> days_in_month y m" using assms by (auto simp: valid_date_def)
  note b = days_before_month_bounds [OF m, of "is_leap y"]
  show y: "year_of ?n = y"
    using b d by (intro year_of_eq) (auto simp: day_number_def days_before_year_Suc days_in_month_def split: if_splits)
  have "1 + int (length (filter (\<lambda>k. days_before_month (is_leap y) k \<le> ?n - days_before_year y) [2..12])) = m"
    using d by (intro month_count m) (auto simp: day_number_def days_in_month_def)
  then show m': "month_of ?n = m" by (simp add: month_of_def Let_def y)
  show "day_of ?n = d" unfolding day_of_def y m' by (simp add: day_number_def)
qed

lemma civil_valid:
  "valid_date (year_of n) (month_of n) (day_of n) \<and> day_number (year_of n) (month_of n) (day_of n) = n"
proof -
  let ?y = "year_of n"
  let ?l = "is_leap ?y" and ?r = "n - days_before_year ?y"
  have r: "0 \<le> ?r" "?r < days_before_month ?l 13"
    using year_of_bounds [of n] by (auto simp: days_before_year_Suc days_before_month_def split: if_splits)
  have "\<exists>m. 1 \<le> m \<and> m \<le> 12 \<and> days_before_month ?l m \<le> ?r \<and> ?r < days_before_month ?l (m + 1)"
  proof (rule ccontr)
    assume no: "\<not> ?thesis"
    have "1 \<le> m \<Longrightarrow> m \<le> 13 \<Longrightarrow> days_before_month ?l m \<le> ?r" for m
    proof (induction m rule: int_ge_induct)
      case base
      then show ?case using r by (simp add: days_before_month_def)
    next
      case (step m)
      then show ?case using no by force
    qed
    then show False using r(2) by (meson leD order.refl one_le_numeral)
  qed
  then obtain m where m: "1 \<le> m" "m \<le> 12" "days_before_month ?l m \<le> ?r" "?r < days_before_month ?l (m + 1)" by blast
  then have "month_of n = m" using month_count by (simp add: month_of_def Let_def)
  then show ?thesis using m by (simp add: valid_date_def day_of_def days_in_month_def day_number_def)
qed

section \<open>The calendar search\<close>

definition hour_of :: "int \<Rightarrow> int" where
  "hour_of w = w mod 86400 div 3600"

definition minute_of :: "int \<Rightarrow> int" where
  "minute_of w = w mod 3600 div 60"

definition second_of :: "int \<Rightarrow> int" where
  "second_of w = w mod 60"

definition date_of :: "int \<Rightarrow> int" where
  "date_of w = w div 86400"

text \<open>\<^verbatim>\<open>slices.BinarySearch\<close>.\<close>

function bsearch :: "int list \<Rightarrow> int \<Rightarrow> nat \<Rightarrow> nat \<Rightarrow> nat" where
  "bsearch xs v i j =
     (if i < j then let h = (i + j) div 2 in if xs ! h < v then bsearch xs v (h + 1) j else bsearch xs v i h else i)"
  by pat_completeness auto
termination by (relation "measure (\<lambda>(xs, v, i, j). j - i)") auto

declare bsearch.simps [simp del]

definition BinarySearch :: "int list \<Rightarrow> int \<Rightarrow> bool" where
  "BinarySearch xs v = (let i = bsearch xs v 0 (length xs) in i < length xs \<and> xs ! i = v)"

definition wall_values :: "int \<Rightarrow> int list" where
  "wall_values w =
     [second_of w, minute_of w, hour_of w, day_of (date_of w), month_of (date_of w), weekday_of (date_of w) + 1,
      year_of (date_of w)]"

definition matches :: "int list list \<Rightarrow> int \<Rightarrow> bool" where
  "matches s t = list_all (\<lambda>i. BinarySearch (s ! i) (wall_values t ! i)) [0..<7]"

text \<open>A loop that ends at the first hit.\<close>

primrec first_some :: "('a \<Rightarrow> 'b option) \<Rightarrow> 'a list \<Rightarrow> 'b option" where
  "first_some f [] = None"
| "first_some f (x # xs) = (case f x of None \<Rightarrow> first_some f xs | Some y \<Rightarrow> Some y)"

definition scan_seconds :: "int list list \<Rightarrow> int \<Rightarrow> bool \<Rightarrow> int option" where
  "scan_seconds s lower sameMinute =
     first_some (\<lambda>second. if sameMinute \<and> second < second_of lower then None else Some second) (s ! 0)"

definition scan_minutes :: "int list list \<Rightarrow> int \<Rightarrow> bool \<Rightarrow> int option" where
  "scan_minutes s lower sameHour =
     first_some (\<lambda>minute.
       if sameHour \<and> minute < minute_of lower then None
       else map_option (\<lambda>second. minute * 60 + second)
              (scan_seconds s lower (sameHour \<and> minute = minute_of lower))) (s ! 1)"

definition scan_hours :: "int list list \<Rightarrow> int \<Rightarrow> bool \<Rightarrow> int option" where
  "scan_hours s lower sameDay =
     first_some (\<lambda>hour.
       if sameDay \<and> hour < hour_of lower then None
       else map_option (\<lambda>t. hour * 3600 + t) (scan_minutes s lower (sameDay \<and> hour = hour_of lower))) (s ! 2)"

type_synonym ctx = "nat option"

datatype next_err = Cancelled | OffsetErr

definition ctx_Err :: "ctx \<Rightarrow> ctx option" where
  "ctx_Err c = (case c of None \<Rightarrow> Some None | Some n \<Rightarrow> if n = 0 then None else Some (Some (n - 1)))"

primrec ctx_first ::
  "('a \<Rightarrow> ctx \<Rightarrow> ctx \<times> (next_err + 'b option)) \<Rightarrow> 'a list \<Rightarrow> ctx \<Rightarrow> ctx \<times> (next_err + 'b option)" where
  "ctx_first f [] c = (c, Inr None)"
| "ctx_first f (x # xs) c =
     (case f x c of
        (c', Inl e) \<Rightarrow> (c', Inl e)
      | (c', Inr None) \<Rightarrow> ctx_first f xs c'
      | (c', Inr (Some y)) \<Rightarrow> (c', Inr (Some y)))"

text \<open>One day of the search, without the check of the context.\<close>

definition day_hit :: "int list list \<Rightarrow> int \<Rightarrow> int \<Rightarrow> int \<Rightarrow> int \<Rightarrow> int option" where
  "day_hit s lower year month day =
     (let date = day_number year month day
      in if month_of date \<noteq> month \<or> weekday_of date + 1 \<notin> set (s ! 5) then None
         else if (date + 1) * 86400 \<le> lower then None
         else
           let sameDay = (year = year_of (date_of lower) \<and> month = month_of (date_of lower) \<and> day = day_of (date_of lower))
           in map_option (\<lambda>t. date * 86400 + t) (scan_hours s lower sameDay))"

definition scan_day ::
  "int list list \<Rightarrow> int \<Rightarrow> int \<Rightarrow> int \<Rightarrow> int \<Rightarrow> ctx \<Rightarrow> ctx \<times> (next_err + int option)" where
  "scan_day s lower year month day c =
     (case ctx_Err c of None \<Rightarrow> (c, Inl Cancelled) | Some c' \<Rightarrow> (c', Inr (day_hit s lower year month day)))"

definition scan_month ::
  "int list list \<Rightarrow> int \<Rightarrow> int \<Rightarrow> int \<Rightarrow> ctx \<Rightarrow> ctx \<times> (next_err + int option)" where
  "scan_month s lower year month c =
     (if year = year_of (date_of lower) \<and> month < month_of (date_of lower) then (c, Inr None)
      else ctx_first (scan_day s lower year month) (s ! 3) c)"

definition scan_year :: "int list list \<Rightarrow> int \<Rightarrow> int \<Rightarrow> ctx \<Rightarrow> ctx \<times> (next_err + int option)" where
  "scan_year s lower year c =
     (if year < year_of (date_of lower) then (c, Inr None) else ctx_first (scan_month s lower year) (s ! 4) c)"

definition nextWall :: "int list list \<Rightarrow> int \<Rightarrow> ctx \<Rightarrow> ctx \<times> (next_err + int option)" where
  "nextWall s lower c = ctx_first (scan_year s lower) (s ! 6) c"

section \<open>The search over zone intervals\<close>

text \<open>What the code asks of a location: the offset at an instant and the end of its zone interval.\<close>

record zone =
  z_offset :: "int \<Rightarrow> int"
  z_end :: "int \<Rightarrow> int option"

definition next_limit :: int where
  "next_limit = day_number 2101 1 2 * 86400"

function next_loop :: "zone \<Rightarrow> int list list \<Rightarrow> int \<Rightarrow> ctx \<Rightarrow> next_err + int option" where
  "next_loop z s cursor c =
     (if next_limit \<le> cursor then (case ctx_Err c of None \<Rightarrow> Inl Cancelled | Some _ \<Rightarrow> Inr None)
      else case ctx_Err c of
        None \<Rightarrow> Inl Cancelled
      | Some c1 \<Rightarrow>
          let offset = z_offset z cursor
          in if offset < - 86400 \<or> 86400 < offset then Inl OffsetErr
             else case z_end z cursor of
               None \<Rightarrow>
                 (case nextWall s (cursor + offset) c1 of
                    (_, Inl e) \<Rightarrow> Inl e
                  | (_, Inr (Some w)) \<Rightarrow> Inr (Some (w - offset))
                  | (c2, Inr None) \<Rightarrow> (case ctx_Err c2 of None \<Rightarrow> Inl Cancelled | Some _ \<Rightarrow> Inr None))
             | Some e \<Rightarrow>
                 if e \<le> cursor then
                   (if matches s (cursor + offset) then Inr (Some cursor) else next_loop z s (cursor + 1) c1)
                 else
                   (case nextWall s (cursor + offset) c1 of
                      (_, Inl err) \<Rightarrow> Inl err
                    | (c2, Inr (Some w)) \<Rightarrow> if w - offset < e then Inr (Some (w - offset)) else next_loop z s e c2
                    | (c2, Inr None) \<Rightarrow> next_loop z s e c2))"
  by pat_completeness auto
termination
  by (relation "measure (\<lambda>(z, s, cursor, c). nat (next_limit - cursor))") auto

declare next_loop.simps [simp del]

text \<open>\<^verbatim>\<open>after\<close> in nanoseconds.\<close>

definition Next :: "zone \<Rightarrow> int list list \<Rightarrow> int \<Rightarrow> ctx \<Rightarrow> next_err + int option" where
  "Next z s after c = next_loop z s (after div 1000000000 + 1) c"

section \<open>Least elements\<close>

definition is_least :: "int set \<Rightarrow> int option \<Rightarrow> bool" where
  "is_least A r \<longleftrightarrow> (case r of None \<Rightarrow> A = {} | Some a \<Rightarrow> a \<in> A \<and> (\<forall>b \<in> A. a \<le> b))"

lemma is_least_None [simp]: "is_least A None \<longleftrightarrow> A = {}"
  by (simp add: is_least_def)

lemma is_least_Some [simp]: "is_least A (Some a) \<longleftrightarrow> a \<in> A \<and> (\<forall>b \<in> A. a \<le> b)"
  by (simp add: is_least_def)

lemma is_least_unique: "is_least A r \<Longrightarrow> is_least A q \<Longrightarrow> r = q"
  by (cases r; cases q) (auto intro: antisym)

lemma is_least_shift: "is_least A r \<Longrightarrow> is_least ((\<lambda>t. k + t) ` A) (map_option (\<lambda>t. k + t) r)"
  by (cases r) auto

lemma is_least_below:
  assumes "is_least A r" "\<And>a. a \<in> A \<Longrightarrow> a \<in> B" "\<And>b. b \<in> B \<Longrightarrow> b \<notin> A \<Longrightarrow> \<forall>a \<in> A. a \<le> b" "A \<noteq> {}"
  shows "is_least B r"
  using assms by (cases r) auto

text \<open>The first hit of groups that come in order is the least of all.\<close>

lemma first_some_least:
  assumes "sorted_wrt (<) xs" "\<And>x. x \<in> set xs \<Longrightarrow> is_least (A x) (f x)"
    and "\<And>x y a b. x \<in> set xs \<Longrightarrow> y \<in> set xs \<Longrightarrow> x < y \<Longrightarrow> a \<in> A x \<Longrightarrow> b \<in> A y \<Longrightarrow> a \<le> b"
  shows "is_least (\<Union>x \<in> set xs. A x) (first_some f (xs :: int list))"
  using assms
proof (induction xs)
  case (Cons x xs)
  show ?case
  proof (cases "f x")
    case None
    then have "A x = {}" using Cons.prems(2) [of x] by simp
    moreover have "is_least (\<Union>x \<in> set xs. A x) (first_some f xs)"
    proof (rule Cons.IH)
      show "sorted_wrt (<) xs" using Cons.prems(1) by simp
    qed (use Cons.prems(2,3) in \<open>meson list.set_intros(2)\<close>)+
    ultimately show ?thesis using None by simp
  next
    case (Some a)
    then have a: "a \<in> A x" "\<forall>b \<in> A x. a \<le> b" using Cons.prems(2) [of x] by auto
    moreover have "a \<le> b" if "y \<in> set xs" "b \<in> A y" for y b
      using Cons.prems(1) a(1) that by (intro Cons.prems(3) [of x y]) auto
    ultimately show ?thesis using Some by auto
  qed
qed simp

text \<open>A search under a context is the same search, unless the context is cancelled.\<close>

definition search :: "(ctx \<Rightarrow> ctx \<times> (next_err + int option)) \<Rightarrow> int option \<Rightarrow> bool" where
  "search f r \<longleftrightarrow> f None = (None, Inr r) \<and> (\<forall>c. snd (f c) = Inl Cancelled \<or> snd (f c) = Inr r)"

lemma search_const: "search (\<lambda>c. (c, Inr r)) r"
  by (simp add: search_def)

lemma search_ctx_first:
  assumes "\<And>x. x \<in> set xs \<Longrightarrow> search (f x) (g x)"
  shows "search (ctx_first f xs) (first_some g xs)"
  using assms
proof (induction xs)
  case (Cons x xs)
  have x: "search (f x) (g x)" and xs: "search (ctx_first f xs) (first_some g xs)"
    using Cons by auto
  have "snd (ctx_first f (x # xs) c) = Inl Cancelled \<or> snd (ctx_first f (x # xs) c) = Inr (first_some g (x # xs))" for c
  proof (cases "f x c")
    case (Pair c' r)
    then have "r = Inl Cancelled \<or> r = Inr (g x)" using x by (metis search_def snd_conv)
    then show ?thesis using Pair xs by (cases "g x") (auto simp: search_def)
  qed
  then show ?case using x xs by (cases "g x") (auto simp: search_def)
qed (simp add: search_def)

section \<open>The search returns the least match\<close>

lemma bsearch_spec:
  assumes "sorted xs" "i \<le> j" "j \<le> length xs" "\<forall>k < i. xs ! k < v" "\<forall>k. j \<le> k \<and> k < length xs \<longrightarrow> v \<le> xs ! k"
  shows "bsearch xs v i j \<le> length xs \<and> (\<forall>k < bsearch xs v i j. xs ! k < v) \<and>
         (\<forall>k. bsearch xs v i j \<le> k \<and> k < length xs \<longrightarrow> v \<le> xs ! k)"
  using assms
proof (induction xs v i j rule: bsearch.induct)
  case (1 xs v i j)
  show ?case
  proof (cases "i < j")
    case True
    let ?h = "(i + j) div 2"
    have h: "i \<le> ?h" "?h < j" using True by auto
    show ?thesis
    proof (cases "xs ! ?h < v")
      case lt: True
      have "\<forall>k < ?h + 1. xs ! k < v"
      proof (intro allI impI)
        fix k assume "k < ?h + 1"
        then have "xs ! k \<le> xs ! ?h" using h 1(3,5) by (intro sorted_nth_mono) auto
        then show "xs ! k < v" using lt by simp
      qed
      moreover have "bsearch xs v i j = bsearch xs v (?h + 1) j"
        using True lt by (subst bsearch.simps) (simp add: Let_def)
      ultimately show ?thesis using 1(1) [OF True refl lt 1(3) _ 1(5) _ 1(7)] h by simp
    next
      case ge: False
      have "\<forall>k. ?h \<le> k \<and> k < length xs \<longrightarrow> v \<le> xs ! k"
      proof (intro allI impI)
        fix k assume "?h \<le> k \<and> k < length xs"
        then have "xs ! ?h \<le> xs ! k" using 1(3) by (intro sorted_nth_mono) auto
        then show "v \<le> xs ! k" using ge by simp
      qed
      moreover have "bsearch xs v i j = bsearch xs v i ?h"
        using True ge by (subst bsearch.simps) (simp add: Let_def)
      ultimately show ?thesis using 1(2) [OF True refl ge 1(3) h(1) _ 1(6)] h 1(5) by simp
    qed
  next
    case False
    then have "bsearch xs v i j = i" by (subst bsearch.simps) simp
    moreover have "i = j" using False 1(4) by simp
    ultimately show ?thesis using 1(5,6,7) by simp
  qed
qed

lemma BinarySearch_iff:
  assumes "sorted_wrt (<) xs"
  shows "BinarySearch xs v \<longleftrightarrow> v \<in> set xs"
proof -
  let ?i = "bsearch xs v 0 (length xs)"
  have i: "?i \<le> length xs" "\<forall>k < ?i. xs ! k < v" "\<forall>k. ?i \<le> k \<and> k < length xs \<longrightarrow> v \<le> xs ! k"
    using bsearch_spec [of xs 0 "length xs" v] assms by (auto simp: strict_sorted_iff)
  have "?i < length xs \<and> xs ! ?i = v" if "v \<in> set xs"
  proof -
    obtain k where k: "k < length xs" "xs ! k = v" using \<open>v \<in> set xs\<close> by (auto simp: in_set_conv_nth)
    then have "?i \<le> k" using i(2) by (meson not_le less_irrefl)
    then have "xs ! ?i \<le> v" using assms k sorted_nth_mono [of xs ?i k] by (auto simp: strict_sorted_iff)
    then show ?thesis using i(3) k \<open>?i \<le> k\<close> by (auto intro: antisym)
  qed
  then show ?thesis by (auto simp: BinarySearch_def Let_def dest: nth_mem)
qed

lemma schedule_field:
  assumes "schedule_ok s" "i < 7"
  shows "field_ok (parseBoundsByField ! i) (s ! i)"
  using assms by (simp add: schedule_ok_def list_all2_conv_all_nth)

lemma schedule_sorted:
  assumes "schedule_ok s" "i < 7"
  shows "sorted_wrt (<) (s ! i)"
  using schedule_field [OF assms] by (simp add: field_ok_def)

lemma schedule_range:
  assumes "schedule_ok s"
  shows "v \<in> set (s ! 0) \<Longrightarrow> 0 \<le> v \<and> v \<le> 59" "v \<in> set (s ! 1) \<Longrightarrow> 0 \<le> v \<and> v \<le> 59"
    "v \<in> set (s ! 2) \<Longrightarrow> 0 \<le> v \<and> v \<le> 23" "v \<in> set (s ! 3) \<Longrightarrow> 1 \<le> v \<and> v \<le> 31"
    "v \<in> set (s ! 4) \<Longrightarrow> 1 \<le> v \<and> v \<le> 12" "v \<in> set (s ! 6) \<Longrightarrow> 1970 \<le> v \<and> v \<le> 2100"
proof -
  have *: "v \<in> set (s ! i) \<Longrightarrow> i < 7 \<Longrightarrow>
      b_min (parseBoundsByField ! i) \<le> v \<and> v \<le> b_max (parseBoundsByField ! i)" for i
    using schedule_field [OF assms, of i] by (auto simp: field_ok_def)
  show "v \<in> set (s ! 0) \<Longrightarrow> 0 \<le> v \<and> v \<le> 59" "v \<in> set (s ! 1) \<Longrightarrow> 0 \<le> v \<and> v \<le> 59"
    "v \<in> set (s ! 2) \<Longrightarrow> 0 \<le> v \<and> v \<le> 23" "v \<in> set (s ! 3) \<Longrightarrow> 1 \<le> v \<and> v \<le> 31"
    "v \<in> set (s ! 4) \<Longrightarrow> 1 \<le> v \<and> v \<le> 12" "v \<in> set (s ! 6) \<Longrightarrow> 1970 \<le> v \<and> v \<le> 2100"
    using * [of 0] * [of 1] * [of 2] * [of 3] * [of 4] * [of 6]
    by (auto simp: parseBoundsByField_def plain_bounds_def)
qed

lemma scan_seconds_least:
  assumes "schedule_ok s"
  shows "is_least {c \<in> set (s ! 0). same \<longrightarrow> second_of lower \<le> c} (scan_seconds s lower same)"
proof -
  have "is_least (\<Union>x \<in> set (s ! 0). if same \<and> x < second_of lower then {} else {x}) (scan_seconds s lower same)"
    unfolding scan_seconds_def using schedule_sorted [OF assms, of 0] by (intro first_some_least) (auto split: if_splits)
  moreover have "(\<Union>x \<in> set (s ! 0). if same \<and> x < second_of lower then {} else {x}) =
      {c \<in> set (s ! 0). same \<longrightarrow> second_of lower \<le> c}" by (auto split: if_splits)
  ultimately show ?thesis by simp
qed

definition minute_clocks :: "int list list \<Rightarrow> int set" where
  "minute_clocks s = {m * 60 + c |m c. m \<in> set (s ! 1) \<and> c \<in> set (s ! 0)}"

definition clocks :: "int list list \<Rightarrow> int set" where
  "clocks s = {h * 3600 + t |h t. h \<in> set (s ! 2) \<and> t \<in> minute_clocks s}"

lemma minute_clocks_range: "schedule_ok s \<Longrightarrow> t \<in> minute_clocks s \<Longrightarrow> 0 \<le> t \<and> t < 3600"
  using schedule_range(1,2) by (fastforce simp: minute_clocks_def)

lemma clocks_range: "schedule_ok s \<Longrightarrow> t \<in> clocks s \<Longrightarrow> 0 \<le> t \<and> t < 86400"
  using schedule_range(3) minute_clocks_range by (fastforce simp: clocks_def)

text \<open>Skipping smaller high digits and, at an equal one, comparing the low digits is comparing the numbers.\<close>

lemma two_digits:
  assumes "0 \<le> c" "c < k" "(0 :: int) < k"
  shows "(L mod (k * j)) \<le> m * k + c \<longleftrightarrow> L mod (k * j) div k \<le> m \<and> (m = L mod (k * j) div k \<longrightarrow> L mod (k * j) mod k \<le> c)"
proof -
  define a b where "a = L mod (k * j) div k" and "b = L mod (k * j) mod k"
  have e: "L mod (k * j) = a * k + b" by (simp add: a_def b_def)
  have b: "0 \<le> b" "b < k" using assms(3) by (auto simp: b_def)
  have "a * k + b \<le> m * k + c \<longleftrightarrow> a \<le> m \<and> (m = a \<longrightarrow> b \<le> c)"
  proof (cases "a < m")
    case True
    then have "(a + 1) * k \<le> m * k" using assms(3) by (intro mult_right_mono) auto
    then show ?thesis using True b assms by (simp add: algebra_simps)
  next
    case False
    show ?thesis
    proof (cases "m = a")
      case False
      then have "(m + 1) * k \<le> a * k" using \<open>\<not> a < m\<close> assms(3) by (intro mult_right_mono) auto
      then show ?thesis using False \<open>\<not> a < m\<close> b assms by (simp add: algebra_simps)
    qed simp
  qed
  then show ?thesis unfolding a_def [symmetric] b_def [symmetric] using e by simp
qed

lemma scan_minutes_least:
  assumes "schedule_ok s"
  shows "is_least {c \<in> minute_clocks s. same \<longrightarrow> lower mod 3600 \<le> c} (scan_minutes s lower same)"
proof -
  let ?A = "\<lambda>m. if same \<and> m < minute_of lower then {} else
      (\<lambda>c. m * 60 + c) ` {c \<in> set (s ! 0). (same \<and> m = minute_of lower) \<longrightarrow> second_of lower \<le> c}"
  have "is_least (\<Union>m \<in> set (s ! 1). ?A m) (scan_minutes s lower same)"
    unfolding scan_minutes_def
  proof (rule first_some_least)
    show "sorted_wrt (<) (s ! 1)" using schedule_sorted [OF assms, of 1] by simp
    show "is_least (?A m) (if same \<and> m < minute_of lower then None
        else map_option (\<lambda>second. m * 60 + second) (scan_seconds s lower (same \<and> m = minute_of lower)))" for m
      using is_least_shift [OF scan_seconds_least [OF assms]] by simp
    fix x y a b assume xy: "x < y" "a \<in> ?A x" "b \<in> ?A y"
    then obtain c d where "a = x * 60 + c" "c \<in> set (s ! 0)" "b = y * 60 + d" "d \<in> set (s ! 0)"
      by (auto split: if_splits)
    then show "a \<le> b" using xy(1) schedule_range(1) [OF assms, of c] schedule_range(1) [OF assms, of d] by linarith
  qed
  moreover have "(\<Union>m \<in> set (s ! 1). ?A m) = {c \<in> minute_clocks s. same \<longrightarrow> lower mod 3600 \<le> c}"
  proof -
    have "lower mod 3600 \<le> m * 60 + c \<longleftrightarrow> minute_of lower \<le> m \<and> (m = minute_of lower \<longrightarrow> second_of lower \<le> c)"
      if "c \<in> set (s ! 0)" for m c
      using two_digits [of c 60 lower 60 m] schedule_range(1) [OF assms that]
      by (simp add: minute_of_def second_of_def mod_mod_cancel)
    then show ?thesis by (auto simp: minute_clocks_def not_less split: if_splits)
  qed
  ultimately show ?thesis by simp
qed

lemma scan_hours_least:
  assumes "schedule_ok s"
  shows "is_least {c \<in> clocks s. same \<longrightarrow> lower mod 86400 \<le> c} (scan_hours s lower same)"
proof -
  let ?A = "\<lambda>h. if same \<and> h < hour_of lower then {} else
      (\<lambda>c. h * 3600 + c) ` {c \<in> minute_clocks s. (same \<and> h = hour_of lower) \<longrightarrow> lower mod 3600 \<le> c}"
  have "is_least (\<Union>h \<in> set (s ! 2). ?A h) (scan_hours s lower same)"
    unfolding scan_hours_def
  proof (rule first_some_least)
    show "sorted_wrt (<) (s ! 2)" using schedule_sorted [OF assms, of 2] by simp
    show "is_least (?A h) (if same \<and> h < hour_of lower then None
        else map_option (\<lambda>t. h * 3600 + t) (scan_minutes s lower (same \<and> h = hour_of lower)))" for h
      using is_least_shift [OF scan_minutes_least [OF assms]] by simp
    fix x y a b assume xy: "x < y" "a \<in> ?A x" "b \<in> ?A y"
    then obtain c d where "a = x * 3600 + c" "c \<in> minute_clocks s" "b = y * 3600 + d" "d \<in> minute_clocks s"
      by (auto split: if_splits)
    then show "a \<le> b"
      using xy(1) minute_clocks_range [OF assms, of c] minute_clocks_range [OF assms, of d] by linarith
  qed
  moreover have "(\<Union>h \<in> set (s ! 2). ?A h) = {c \<in> clocks s. same \<longrightarrow> lower mod 86400 \<le> c}"
  proof -
    have "lower mod 86400 \<le> h * 3600 + c \<longleftrightarrow> hour_of lower \<le> h \<and> (h = hour_of lower \<longrightarrow> lower mod 3600 \<le> c)"
      if "c \<in> minute_clocks s" for h c
      using two_digits [of c 3600 lower 24 h] minute_clocks_range [OF assms that]
      by (simp add: hour_of_def mod_mod_cancel)
    then show ?thesis by (auto simp: clocks_def not_less split: if_splits)
  qed
  ultimately show ?thesis by simp
qed

lemma month_of_iff:
  assumes "1 \<le> m" "m \<le> 12" "1 \<le> d" "d \<le> 31"
  shows "month_of (day_number y m d) = m \<longleftrightarrow> valid_date y m d"
proof (cases "d \<le> days_in_month y m")
  case False
  have m: "m < 12" using month_cases [OF assms(1,2)] False assms(4) by (auto simp: days_in_month_def days_before_month_def)
  let ?d = "d - days_in_month y m"
  have "day_number y m d = day_number y (m + 1) ?d" by (simp add: day_number_def days_in_month_def)
  moreover have "valid_date y (m + 1) ?d"
    using False assms m days_before_month_bounds [of m "is_leap y"] days_before_month_bounds [of "m + 1" "is_leap y"]
    by (simp add: valid_date_def days_in_month_def)
  ultimately have "month_of (day_number y m d) = m + 1" using civil_of_day_number(2) by metis
  then show ?thesis using False by (simp add: valid_date_def)
qed (use assms civil_of_day_number(2) in \<open>simp add: valid_date_def\<close>)

lemma day_number_month_mono:
  assumes "valid_date y m d" "valid_date y m' d'" "m < m'"
  shows "day_number y m d < day_number y m' d'"
  using assms days_before_month_mono [of "m + 1" m' "is_leap y"] by (auto simp: valid_date_def day_number_def days_in_month_def)

lemma day_number_year_mono:
  assumes "valid_date y m d" "valid_date y' m' d'" "y < y'"
  shows "day_number y m d < day_number y' m' d'"
proof -
  have "day_number y m d < days_before_year (y + 1)"
    using year_of_bounds [of "day_number y m d"] civil_of_day_number(1) [OF assms(1)] by simp
  also have "\<dots> \<le> days_before_year y'" using assms(3) by (intro days_before_year_mono) simp
  also have "\<dots> \<le> day_number y' m' d'"
    using year_of_bounds [of "day_number y' m' d'"] civil_of_day_number(1) [OF assms(2)] by simp
  finally show ?thesis .
qed

text \<open>The matching times of one day that are not before the bound.\<close>

definition day_set :: "int list list \<Rightarrow> int \<Rightarrow> int \<Rightarrow> int \<Rightarrow> int \<Rightarrow> int set" where
  "day_set s lower y m d =
     {w. valid_date y m d \<and> weekday_of (day_number y m d) + 1 \<in> set (s ! 5) \<and> lower \<le> w \<and>
         date_of w = day_number y m d \<and> w mod 86400 \<in> clocks s}"

lemma date_of_less: "date_of v < date_of w \<Longrightarrow> v < w"
  unfolding date_of_def by (meson not_le zdiv_mono1 zero_less_numeral)

lemma day_set_order:
  "a \<in> day_set s lower y m d \<Longrightarrow> b \<in> day_set s lower y' m' d' \<Longrightarrow> day_number y m d < day_number y' m' d' \<Longrightarrow> a \<le> b"
  using date_of_less [of a b] by (simp add: day_set_def)

lemma date_split: "w = date_of w * 86400 + w mod 86400"
  by (simp add: date_of_def)

lemma date_join: "0 \<le> t \<Longrightarrow> t < 86400 \<Longrightarrow> date_of (n * 86400 + t) = n \<and> (n * 86400 + t) mod 86400 = t"
  by (simp add: date_of_def)

lemma day_hit_least:
  assumes s: "schedule_ok s" and m: "1 \<le> m" "m \<le> 12" and d: "1 \<le> d" "d \<le> 31"
  shows "is_least (day_set s lower y m d) (day_hit s lower y m d)"
proof -
  let ?n = "day_number y m d"
  define skip where "skip = (month_of ?n \<noteq> m \<or> weekday_of ?n + 1 \<notin> set (s ! 5) \<or> (?n + 1) * 86400 \<le> lower)"
  show ?thesis
  proof (cases skip)
    case True
    moreover have "day_set s lower y m d = {}" if "(?n + 1) * 86400 \<le> lower"
    proof -
      have "w < lower" if "date_of w = ?n" for w
      proof -
        have "w < (date_of w + 1) * 86400" unfolding date_of_def by presburger
        then show ?thesis using \<open>(?n + 1) * 86400 \<le> lower\<close> that by simp
      qed
      then show ?thesis by (auto simp: day_set_def not_le [symmetric])
    qed
    ultimately show ?thesis
      using month_of_iff [OF m d, of y] by (auto simp: skip_def day_hit_def Let_def day_set_def)
  next
    case False
    then have v: "valid_date y m d" and wd: "weekday_of ?n + 1 \<in> set (s ! 5)" and later: "lower < (?n + 1) * 86400"
      using month_of_iff [OF m d, of y] by (auto simp: skip_def)
    let ?same = "y = year_of (date_of lower) \<and> m = month_of (date_of lower) \<and> d = day_of (date_of lower)"
    have same: "?same \<longleftrightarrow> ?n = date_of lower"
      using civil_of_day_number [OF v] civil_valid [of "date_of lower"] by metis
    have le: "date_of lower \<le> ?n" using later by (simp add: date_of_def)
    have cmp: "(?same \<longrightarrow> lower mod 86400 \<le> t) \<longleftrightarrow> lower \<le> ?n * 86400 + t" if "t \<in> clocks s" for t
    proof (cases "?n = date_of lower")
      case True
      then show ?thesis using same date_split [of lower] by linarith
    next
      case False
      then have "date_of lower < date_of (?n * 86400 + t)" using le date_join clocks_range [OF s that] by simp
      then show ?thesis using False same date_of_less by fastforce
    qed
    have "(\<lambda>t. ?n * 86400 + t) ` {t \<in> clocks s. ?same \<longrightarrow> lower mod 86400 \<le> t} = day_set s lower y m d"
    proof (intro set_eqI iffI)
      fix w assume "w \<in> day_set s lower y m d"
      then have w: "w = ?n * 86400 + w mod 86400" "w mod 86400 \<in> clocks s" "lower \<le> w"
        using date_split [of w] by (auto simp: day_set_def)
      then show "w \<in> (\<lambda>t. ?n * 86400 + t) ` {t \<in> clocks s. ?same \<longrightarrow> lower mod 86400 \<le> t}"
        using cmp [OF w(2)] by (intro image_eqI [of _ _ "w mod 86400"]) auto
    next
      fix w assume "w \<in> (\<lambda>t. ?n * 86400 + t) ` {t \<in> clocks s. ?same \<longrightarrow> lower mod 86400 \<le> t}"
      then obtain t where t: "w = ?n * 86400 + t" "t \<in> clocks s" "?same \<longrightarrow> lower mod 86400 \<le> t" by blast
      then show "w \<in> day_set s lower y m d"
        using cmp [OF t(2)] v wd date_join clocks_range [OF s t(2)] by (simp add: day_set_def)
    qed
    then show ?thesis
      using is_least_shift [OF scan_hours_least [OF s, of ?same lower], of "?n * 86400"] False
      by (simp add: day_hit_def Let_def skip_def)
  qed
qed

definition month_hit :: "int list list \<Rightarrow> int \<Rightarrow> int \<Rightarrow> int \<Rightarrow> int option" where
  "month_hit s lower y m =
     (if y = year_of (date_of lower) \<and> m < month_of (date_of lower) then None
      else first_some (day_hit s lower y m) (s ! 3))"

definition year_hit :: "int list list \<Rightarrow> int \<Rightarrow> int \<Rightarrow> int option" where
  "year_hit s lower y =
     (if y < year_of (date_of lower) then None else first_some (month_hit s lower y) (s ! 4))"

lemma day_set_past:
  assumes "y < year_of (date_of lower) \<or> y = year_of (date_of lower) \<and> m < month_of (date_of lower)"
  shows "day_set s lower y m d = {}"
proof -
  have "day_number y m d < date_of lower" if "valid_date y m d"
    using assms civil_valid [of "date_of lower"] day_number_month_mono [OF that] day_number_year_mono [OF that] by metis
  then have "w \<notin> day_set s lower y m d" for w
    using date_of_less [of w lower] by (auto simp: day_set_def)
  then show ?thesis by blast
qed

lemma month_hit_least:
  assumes s: "schedule_ok s" and m: "1 \<le> m" "m \<le> 12"
  shows "is_least (\<Union>d \<in> set (s ! 3). day_set s lower y m d) (month_hit s lower y m)"
proof (cases "y = year_of (date_of lower) \<and> m < month_of (date_of lower)")
  case False
  have "is_least (\<Union>d \<in> set (s ! 3). day_set s lower y m d) (first_some (day_hit s lower y m) (s ! 3))"
  proof (rule first_some_least)
    show "sorted_wrt (<) (s ! 3)" using schedule_sorted [OF s, of 3] by simp
    show "is_least (day_set s lower y m d) (day_hit s lower y m d)" if "d \<in> set (s ! 3)" for d
      using day_hit_least [OF s m] schedule_range(4) [OF s that] by blast
    show "a \<le> b" if "d < e" "a \<in> day_set s lower y m d" "b \<in> day_set s lower y m e" for d e a b
      using that day_set_order [of a s lower y m d b y m e] by (simp add: day_number_def)
  qed
  then show ?thesis unfolding month_hit_def if_not_P [OF False] .
qed (auto simp: month_hit_def day_set_past)

lemma year_hit_least:
  assumes s: "schedule_ok s"
  shows "is_least (\<Union>m \<in> set (s ! 4). \<Union>d \<in> set (s ! 3). day_set s lower y m d) (year_hit s lower y)"
proof (cases "y < year_of (date_of lower)")
  case False
  have "is_least (\<Union>m \<in> set (s ! 4). \<Union>d \<in> set (s ! 3). day_set s lower y m d) (first_some (month_hit s lower y) (s ! 4))"
  proof (rule first_some_least)
    show "sorted_wrt (<) (s ! 4)" using schedule_sorted [OF s, of 4] by simp
    show "is_least (\<Union>d \<in> set (s ! 3). day_set s lower y m d) (month_hit s lower y m)" if "m \<in> set (s ! 4)" for m
      using month_hit_least [OF s] schedule_range(5) [OF s that] by blast
    fix m k a b
    assume mk: "m < k" "a \<in> (\<Union>d \<in> set (s ! 3). day_set s lower y m d)" "b \<in> (\<Union>d \<in> set (s ! 3). day_set s lower y k d)"
    then obtain d e where ab: "a \<in> day_set s lower y m d" "b \<in> day_set s lower y k e" by blast
    then have "valid_date y m d" "valid_date y k e" by (simp_all add: day_set_def)
    then show "a \<le> b" using day_set_order [OF ab] day_number_month_mono mk(1) by blast
  qed
  then show ?thesis unfolding year_hit_def if_not_P [OF False] .
qed (auto simp: year_hit_def day_set_past)

lemma matches_iff:
  assumes "schedule_ok s"
  shows "matches s w \<longleftrightarrow>
    second_of w \<in> set (s ! 0) \<and> minute_of w \<in> set (s ! 1) \<and> hour_of w \<in> set (s ! 2) \<and>
    day_of (date_of w) \<in> set (s ! 3) \<and> month_of (date_of w) \<in> set (s ! 4) \<and>
    weekday_of (date_of w) + 1 \<in> set (s ! 5) \<and> year_of (date_of w) \<in> set (s ! 6)"
proof -
  have b: "i < 7 \<Longrightarrow> BinarySearch (s ! i) v \<longleftrightarrow> v \<in> set (s ! i)" for i v
    by (rule BinarySearch_iff [OF schedule_sorted [OF assms]])
  have l: "[0..<7] = [0, 1, 2, 3, 4, 5, 6 :: nat]" by (simp add: upt_rec)
  show ?thesis unfolding matches_def l wall_values_def by (simp add: b)
qed

lemma clocks_iff:
  assumes "schedule_ok s"
  shows "w mod 86400 \<in> clocks s \<longleftrightarrow>
    second_of w \<in> set (s ! 0) \<and> minute_of w \<in> set (s ! 1) \<and> hour_of w \<in> set (s ! 2)"
proof
  assume "w mod 86400 \<in> clocks s"
  then obtain h m c where t: "w mod 86400 = h * 3600 + (m * 60 + c)"
      "h \<in> set (s ! 2)" "m \<in> set (s ! 1)" "c \<in> set (s ! 0)"
    by (auto simp: clocks_def minute_clocks_def)
  have r: "0 \<le> c" "c \<le> 59" "0 \<le> m" "m \<le> 59"
    using schedule_range(1) [OF assms t(4)] schedule_range(2) [OF assms t(3)] by auto
  have "hour_of w = h" unfolding hour_of_def t(1) using r by simp
  moreover have "w mod 3600 = m * 60 + c"
  proof -
    have "w mod 3600 = w mod 86400 mod 3600" by (simp add: mod_mod_cancel)
    then show ?thesis unfolding t(1) using r by simp
  qed
  moreover have "second_of w = c"
  proof -
    have "w mod 60 = w mod 86400 mod 60" by (simp add: mod_mod_cancel)
    also have "\<dots> = (c + (h * 60 + m) * 60) mod 60" unfolding t(1) by (simp add: algebra_simps)
    also have "\<dots> = c" unfolding mod_mult_self1 using r by simp
    finally show ?thesis by (simp add: second_of_def)
  qed
  ultimately show "second_of w \<in> set (s ! 0) \<and> minute_of w \<in> set (s ! 1) \<and> hour_of w \<in> set (s ! 2)"
    using t r by (simp add: minute_of_def)
next
  assume a: "second_of w \<in> set (s ! 0) \<and> minute_of w \<in> set (s ! 1) \<and> hour_of w \<in> set (s ! 2)"
  have "w mod 3600 = minute_of w * 60 + second_of w"
    using div_mult_mod_eq [of "w mod 3600" 60] by (simp add: minute_of_def second_of_def mod_mod_cancel)
  moreover have "w mod 86400 = hour_of w * 3600 + w mod 3600"
    using div_mult_mod_eq [of "w mod 86400" 3600] by (simp add: hour_of_def mod_mod_cancel)
  ultimately show "w mod 86400 \<in> clocks s" using a by (auto simp: clocks_def minute_clocks_def)
qed

lemma hits_union:
  assumes s: "schedule_ok s"
  shows "(\<Union>y \<in> set (s ! 6). \<Union>m \<in> set (s ! 4). \<Union>d \<in> set (s ! 3). day_set s lower y m d) =
    {w. lower \<le> w \<and> matches s w}"
proof (intro set_eqI iffI)
  fix w assume "w \<in> (\<Union>y \<in> set (s ! 6). \<Union>m \<in> set (s ! 4). \<Union>d \<in> set (s ! 3). day_set s lower y m d)"
  then obtain y m d where "y \<in> set (s ! 6)" "m \<in> set (s ! 4)" "d \<in> set (s ! 3)" "w \<in> day_set s lower y m d" by blast
  then show "w \<in> {w. lower \<le> w \<and> matches s w}"
    using civil_of_day_number [of y m d] clocks_iff [OF s] by (simp add: day_set_def matches_iff [OF s])
next
  fix w assume "w \<in> {w. lower \<le> w \<and> matches s w}"
  then have "w \<in> day_set s lower (year_of (date_of w)) (month_of (date_of w)) (day_of (date_of w))"
      "year_of (date_of w) \<in> set (s ! 6)" "month_of (date_of w) \<in> set (s ! 4)" "day_of (date_of w) \<in> set (s ! 3)"
    using civil_valid [of "date_of w"] clocks_iff [OF s] by (simp_all add: day_set_def matches_iff [OF s])
  then show "w \<in> (\<Union>y \<in> set (s ! 6). \<Union>m \<in> set (s ! 4). \<Union>d \<in> set (s ! 3). day_set s lower y m d)" by blast
qed

lemma nextWall_search:
  assumes s: "schedule_ok s"
  shows "\<exists>r. search (nextWall s lower) r \<and> is_least {w. lower \<le> w \<and> matches s w} r"
proof (intro exI conjI)
  have d: "search (scan_day s lower y m d) (day_hit s lower y m d)" for y m d
    by (auto simp: search_def scan_day_def ctx_Err_def split: option.splits)
  have m: "search (scan_month s lower y m) (month_hit s lower y m)" for y m
    using search_const [of None] search_ctx_first [of "s ! 3" "scan_day s lower y m", OF d]
    by (cases "y = year_of (date_of lower) \<and> m < month_of (date_of lower)")
       (auto simp: scan_month_def [abs_def] month_hit_def)
  have y: "search (scan_year s lower y) (year_hit s lower y)" for y
    using search_const [of None] search_ctx_first [of "s ! 4" "scan_month s lower y", OF m]
    by (cases "y < year_of (date_of lower)") (simp_all only: scan_year_def [abs_def] year_hit_def if_True if_False)
  show "search (nextWall s lower) (first_some (year_hit s lower) (s ! 6))"
    unfolding nextWall_def [abs_def] by (rule search_ctx_first [OF y])
  have "is_least (\<Union>y \<in> set (s ! 6). \<Union>m \<in> set (s ! 4). \<Union>d \<in> set (s ! 3). day_set s lower y m d)
      (first_some (year_hit s lower) (s ! 6))"
  proof (rule first_some_least)
    show "sorted_wrt (<) (s ! 6)" using schedule_sorted [OF s, of 6] by simp
    fix x y a b
    assume xy: "x < y" "a \<in> (\<Union>m \<in> set (s ! 4). \<Union>d \<in> set (s ! 3). day_set s lower x m d)"
      "b \<in> (\<Union>m \<in> set (s ! 4). \<Union>d \<in> set (s ! 3). day_set s lower y m d)"
    then obtain m d k e where ab: "a \<in> day_set s lower x m d" "b \<in> day_set s lower y k e" by blast
    then have "valid_date x m d" "valid_date y k e" by (simp_all add: day_set_def)
    then show "a \<le> b" using day_set_order [OF ab] day_number_year_mono xy(1) by blast
  qed (rule year_hit_least [OF s])
  then show "is_least {w. lower \<le> w \<and> matches s w} (first_some (year_hit s lower) (s ! 6))"
    by (simp only: hits_union [OF s])
qed

section \<open>The next instant of a schedule\<close>

text \<open>What the code relies on of a location: offsets within a day, and a constant offset from an instant to
  an end that lies after it.\<close>

locale civil_zone =
  fixes z :: zone
  assumes offset_bound: "- 86400 \<le> z_offset z t \<and> z_offset z t \<le> 86400"
    and interval: "z_end z t = Some e \<Longrightarrow> t \<le> u \<Longrightarrow> u < e \<Longrightarrow> z_offset z u = z_offset z t"
    and last_interval: "z_end z t = None \<Longrightarrow> t \<le> u \<Longrightarrow> z_offset z u = z_offset z t"
begin

definition due :: "int list list \<Rightarrow> int \<Rightarrow> bool" where
  "due s t \<longleftrightarrow> matches s (t + z_offset z t)"

lemma due_before_limit:
  assumes s: "schedule_ok s" and t: "due s t"
  shows "t < next_limit"
proof -
  let ?w = "t + z_offset z t"
  have "year_of (date_of ?w) \<le> 2100" using t schedule_range(6) [OF s] by (simp add: due_def matches_iff [OF s])
  then have "days_before_year (year_of (date_of ?w) + 1) \<le> days_before_year 2101" by (intro days_before_year_mono) simp
  then have "date_of ?w < days_before_year 2101" using year_of_bounds [of "date_of ?w"] by linarith
  then have "?w < days_before_year 2101 * 86400" unfolding date_of_def by linarith
  moreover have "next_limit = days_before_year 2101 * 86400 + 86400"
    by (simp add: next_limit_def day_number_def days_before_month_def)
  ultimately show ?thesis using offset_bound [of t] by linarith
qed

text \<open>A search that starts at the civil time of the cursor and finds an instant of the same interval
  has found the least one; otherwise the interval holds none.\<close>

lemma interval_least:
  assumes w: "is_least {w. cursor + z_offset z cursor \<le> w \<and> matches s w} r"
    and same: "\<And>u. cursor \<le> u \<Longrightarrow> in_interval u \<Longrightarrow> z_offset z u = z_offset z cursor"
    and down: "\<And>u v. in_interval v \<Longrightarrow> cursor \<le> u \<Longrightarrow> u \<le> v \<Longrightarrow> in_interval u"
  shows "r = Some v \<Longrightarrow> in_interval (v - z_offset z cursor) \<Longrightarrow>
      is_least {t. cursor \<le> t \<and> due s t} (Some (v - z_offset z cursor))"
    and "r = None \<or> (\<exists>v. r = Some v \<and> \<not> in_interval (v - z_offset z cursor)) \<Longrightarrow>
      cursor \<le> t \<Longrightarrow> in_interval t \<Longrightarrow> \<not> due s t"
proof -
  let ?o = "z_offset z cursor"
  have due: "due s t \<longleftrightarrow> matches s (t + ?o)" if "cursor \<le> t" "in_interval t" for t
    using same [OF that] by (simp add: due_def)
  {
    assume r: "r = Some v" "in_interval (v - ?o)"
    then have v: "cursor + ?o \<le> v" "matches s v" "\<And>u. cursor + ?o \<le> u \<Longrightarrow> matches s u \<Longrightarrow> v \<le> u" using w by auto
    have "v - ?o \<le> t" if t: "cursor \<le> t" "due s t" for t
    proof (rule ccontr)
      assume "\<not> v - ?o \<le> t"
      then have "matches s (t + ?o)" using due [OF t(1)] t down [OF r(2) t(1)] by simp
      then show False using v(3) [of "t + ?o"] t(1) \<open>\<not> v - ?o \<le> t\<close> by simp
    qed
    then show "is_least {t. cursor \<le> t \<and> due s t} (Some (v - ?o))" using v due [of "v - ?o"] r(2) by simp
  }
  {
    assume r: "r = None \<or> (\<exists>v. r = Some v \<and> \<not> in_interval (v - ?o))" and t: "cursor \<le> t" "in_interval t"
    show "\<not> due s t"
    proof
      assume "due s t"
      then have m: "matches s (t + ?o)" using due [OF t] by simp
      then obtain v where "r = Some v" "\<not> in_interval (v - ?o)" "v \<le> t + ?o" "cursor + ?o \<le> v"
        using w r t(1) by (cases r) auto
      then show False using down [OF t(2), of "v - ?o"] by simp
    qed
  }
qed

lemma is_least_later:
  assumes "is_least {t. e \<le> t \<and> due s t} r" "cursor \<le> e" "\<And>t. cursor \<le> t \<Longrightarrow> t < e \<Longrightarrow> \<not> due s t"
  shows "is_least {t. cursor \<le> t \<and> due s t} r"
proof -
  have "{t. cursor \<le> t \<and> due s t} = {t. e \<le> t \<and> due s t}" using assms(2,3) by force
  then show ?thesis using assms(1) by simp
qed

lemma next_loop_least:
  assumes s: "schedule_ok s"
  shows "\<exists>r. is_least {t. cursor \<le> t \<and> due s t} r \<and> next_loop z s cursor None = Inr r"
proof (induction "nat (next_limit - cursor)" arbitrary: cursor rule: less_induct)
  case less
  let ?o = "z_offset z cursor"
  obtain q where q: "nextWall s (cursor + ?o) None = (None, Inr q)" "is_least {w. cursor + ?o \<le> w \<and> matches s w} q"
    using nextWall_search [OF s, of "cursor + ?o"] by (auto simp: search_def)
  have o: "\<not> (?o < - 86400 \<or> 86400 < ?o)" using offset_bound [of cursor] by linarith
  note step = next_loop.simps [of z s cursor None]
  show ?case
  proof (cases "next_limit \<le> cursor")
    case True
    then have "{t. cursor \<le> t \<and> due s t} = {}" using due_before_limit [OF s] by force
    then show ?thesis using True by (simp add: step ctx_Err_def)
  next
    case lim: False
    show ?thesis
    proof (cases "z_end z cursor")
      case None
      then have "\<And>u. cursor \<le> u \<Longrightarrow> True \<Longrightarrow> z_offset z u = ?o" using last_interval by blast
      note il = interval_least [OF q(2), of "\<lambda>_. True", OF this]
      show ?thesis
      proof (cases q)
        case q': None
        then show ?thesis using lim o None q(1) il(2) by (auto simp: step ctx_Err_def)
      next
        case (Some v)
        then show ?thesis using lim o None q(1) il(1) [of v] by (simp add: step ctx_Err_def)
      qed
    next
      case (Some e)
      show ?thesis
      proof (cases "e \<le> cursor")
        case True
        show ?thesis
        proof (cases "matches s (cursor + ?o)")
          case m: True
          then have "next_loop z s cursor None = Inr (Some cursor)" using lim o Some True by (simp add: step ctx_Err_def)
          then show ?thesis using m by (auto simp: due_def)
        next
          case False
          then have n: "next_loop z s cursor None = next_loop z s (cursor + 1) None"
            using lim o Some True by (simp add: step ctx_Err_def)
          obtain r where "is_least {t. cursor + 1 \<le> t \<and> due s t} r" "next_loop z s (cursor + 1) None = Inr r"
            using less [of "cursor + 1"] lim by auto
          then show ?thesis using is_least_later [of "cursor + 1" s r cursor] False n by (auto simp: due_def)
        qed
      next
        case False
        then have "\<And>u. cursor \<le> u \<Longrightarrow> u < e \<Longrightarrow> z_offset z u = ?o" using interval [OF Some] by blast
        note il = interval_least [OF q(2), of "\<lambda>u. u < e", OF this]
        show ?thesis
        proof (cases "\<exists>v. q = Some v \<and> v - ?o < e")
          case True
          then obtain v where "q = Some v" "v - ?o < e" by blast
          then show ?thesis using lim o Some False q(1) il(1) [of v] by (simp add: step ctx_Err_def)
        next
          case none: False
          then have n: "next_loop z s cursor None = next_loop z s e None"
            using lim o Some False q(1) by (cases q) (simp_all add: step ctx_Err_def)
          obtain r where r: "is_least {t. e \<le> t \<and> due s t} r" "next_loop z s e None = Inr r"
            using less [of e] lim False by auto
          have "\<And>t. cursor \<le> t \<Longrightarrow> t < e \<Longrightarrow> \<not> due s t" using il(2) none by (cases q) auto
          then show ?thesis using is_least_later [OF r(1), of cursor] False n r(2) by auto
        qed
      qed
    qed
  qed
qed

end

text \<open>Locations given by a table of transitions, as the time zone database has them.\<close>

fun tz_offset :: "int \<Rightarrow> (int \<times> int) list \<Rightarrow> int \<Rightarrow> int" where
  "tz_offset base [] t = base"
| "tz_offset base ((start, offset) # txs) t = (if t < start then base else tz_offset offset txs t)"

fun tz_end :: "(int \<times> int) list \<Rightarrow> int \<Rightarrow> int option" where
  "tz_end [] t = None"
| "tz_end ((start, offset) # txs) t = (if t < start then Some start else tz_end txs t)"

definition table_zone :: "int \<Rightarrow> (int \<times> int) list \<Rightarrow> zone" where
  "table_zone base txs = \<lparr>z_offset = tz_offset base txs, z_end = tz_end txs\<rparr>"

lemma tz_offset_bound:
  "- 86400 \<le> base \<Longrightarrow> base \<le> 86400 \<Longrightarrow> list_all (\<lambda>(w, k). - 86400 \<le> k \<and> k \<le> 86400) txs \<Longrightarrow>
   - 86400 \<le> tz_offset base txs t \<and> tz_offset base txs t \<le> 86400"
  by (induction base txs t rule: tz_offset.induct) auto

lemma tz_interval: "tz_end txs t = Some e \<Longrightarrow> t \<le> u \<Longrightarrow> u < e \<Longrightarrow> tz_offset base txs u = tz_offset base txs t"
  by (induction base txs t rule: tz_offset.induct) (auto split: if_splits)

lemma tz_last_interval: "tz_end txs t = None \<Longrightarrow> t \<le> u \<Longrightarrow> tz_offset base txs u = tz_offset base txs t"
  by (induction base txs t rule: tz_offset.induct) (auto split: if_splits)

lemma table_zone_civil:
  assumes "- 86400 \<le> base" "base \<le> 86400" "list_all (\<lambda>(w, k). - 86400 \<le> k \<and> k \<le> 86400) txs"
  shows "civil_zone (table_zone base txs)"
proof
  fix t u e
  let ?z = "table_zone base txs"
  show "- 86400 \<le> z_offset ?z t \<and> z_offset ?z t \<le> 86400"
    using tz_offset_bound [OF assms] by (simp add: table_zone_def)
  show "z_end ?z t = Some e \<Longrightarrow> t \<le> u \<Longrightarrow> u < e \<Longrightarrow> z_offset ?z u = z_offset ?z t"
    using tz_interval [of txs t e u base] by (simp add: table_zone_def)
  show "z_end ?z t = None \<Longrightarrow> t \<le> u \<Longrightarrow> z_offset ?z u = z_offset ?z t"
    using tz_last_interval [of txs t u base] by (simp add: table_zone_def)
qed

text \<open>Central European time in 2026: summer time from the 29th of March to the 25th of October, 01:00 UTC.\<close>

definition berlin_2026 :: zone where
  "berlin_2026 = table_zone 3600
     [(day_number 2026 3 29 * 86400 + 3600, 7200), (day_number 2026 10 25 * 86400 + 3600, 3600)]"

interpretation berlin: civil_zone berlin_2026
  unfolding berlin_2026_def by (rule table_zone_civil) simp_all

text \<open>C32. In a location whose offsets are within a day, the search without a cancellation returns the
  first whole second strictly after the given time whose local civil time matches the schedule, also
  across gaps and repetitions of local time, and the zero time exactly when there is none.\<close>

theorem Next_least:
  assumes "civil_zone z" "schedule_ok s"
  shows "\<exists>r. Next z s after None = Inr r \<and>
    is_least {t. after < t * 1000000000 \<and> matches s (t + z_offset z t)} r"
proof -
  have "after div 1000000000 + 1 \<le> t \<longleftrightarrow> after < t * 1000000000" for t by linarith
  then show ?thesis
    using civil_zone.next_loop_least [OF assms, of "after div 1000000000 + 1"]
    by (auto simp: Next_def civil_zone.due_def [OF assms(1)])
qed

text \<open>The night of the repeated hour: both occurrences of 02:30 are slots.\<close>

definition fold_schedule :: "int list list" where
  "fold_schedule = [[0], [30], [2], [25], [10], [1..7], [2026]]"

lemma fold_schedule_ok: "schedule_ok fold_schedule"
  by (simp add: fold_schedule_def schedule_ok_def parseBoundsByField_def plain_bounds_def field_ok_def)

theorem Next_least_witness:
  "\<exists>r. Next berlin_2026 fold_schedule ((day_number 2026 10 25 * 86400 + 1800) * 1000000000) None = Inr r \<and>
    is_least {t. (day_number 2026 10 25 * 86400 + 1800) * 1000000000 < t * 1000000000 \<and>
      matches fold_schedule (t + z_offset berlin_2026 t)} r"
  by (rule Next_least [OF berlin.civil_zone_axioms fold_schedule_ok])

lemma next_loop_cancel:
  assumes s: "schedule_ok s"
  shows "next_loop z s cursor c = Inl Cancelled \<or> next_loop z s cursor c = next_loop z s cursor None"
proof (induction "nat (next_limit - cursor)" arbitrary: cursor c rule: less_induct)
  case less
  let ?o = "z_offset z cursor"
  obtain q where q: "search (nextWall s (cursor + ?o)) q" using nextWall_search [OF s] by blast
  note step = next_loop.simps [of z s cursor]
  show ?case
  proof (cases "next_limit \<le> cursor \<or> ctx_Err c = None \<or> ?o < - 86400 \<or> 86400 < ?o")
    case True
    then show ?thesis by (auto simp: step ctx_Err_def Let_def split: option.splits if_splits)
  next
    case False
    then obtain c1 where c1: "ctx_Err c = Some c1" and lim: "\<not> next_limit \<le> cursor" and o: "\<not> (?o < - 86400 \<or> 86400 < ?o)"
      by auto
    have qn: "nextWall s (cursor + ?o) None = (None, Inr q)" using q by (simp add: search_def)
    obtain c2 p where w: "nextWall s (cursor + ?o) c1 = (c2, p)" by (cases "nextWall s (cursor + ?o) c1")
    then have p: "p = Inl Cancelled \<or> p = Inr q" using q by (metis search_def snd_conv)
    have IH: "cursor < e \<Longrightarrow> next_loop z s e d = Inl Cancelled \<or> next_loop z s e d = next_loop z s e None" for e d
      using less [of e d] lim by simp
    have cN: "ctx_Err None = Some None" by (simp add: ctx_Err_def)
    show ?thesis
    proof (cases "z_end z cursor")
      case None
      then show ?thesis using p by (cases q) (auto simp: step c1 lim o cN w qn Let_def split: option.splits)
    next
      case (Some e)
      then show ?thesis
        using p IH [of "cursor + 1" c1] IH [of e c2]
        by (cases q; cases "e \<le> cursor") (auto simp: step c1 lim o cN w qn Let_def)
    qed
  qed
qed

text \<open>A cancelled context never changes the answer: the search either reports the cancellation or
  answers as it would have without it.\<close>

lemma Next_cancelled:
  assumes "schedule_ok s"
  shows "Next z s after c = Inl Cancelled \<or> Next z s after c = Next z s after None"
  unfolding Next_def by (rule next_loop_cancel [OF assms])

lemma Next_cancelled_example:
  "Next berlin_2026 fold_schedule 0 (Some 1) = Inl Cancelled \<or>
   Next berlin_2026 fold_schedule 0 (Some 1) = Next berlin_2026 fold_schedule 0 None"
  by (rule Next_cancelled [OF fold_schedule_ok])

end
