(* ===== verification/LinkedList.thy ===== *)
theory LinkedList
  imports Prelude "HOL-Library.Monad_Syntax"
begin

text \<open>
  The intrusive doubly linked list of \<^verbatim>\<open>internal/cache/cache.go\<close> on an explicit heap of list
  elements. An element is an address, the root of the list is address 0, a pointer is an optional
  address, and following a nil pointer is a panic: the result \<^term>\<open>None\<close>. The lemmas show that the
  pointer surgery of each operation is the corresponding operation on the list of addresses.
\<close>

section \<open>The heap and the operations\<close>

record elem =
  l_value :: "nat option"
  l_prev :: "nat option"
  l_next :: "nat option"

type_synonym heap = "nat \<Rightarrow> elem option"

record llist =
  l_heap :: heap
  l_len :: int

definition load :: "heap \<Rightarrow> nat option \<Rightarrow> elem option" where
  "load h p = Option.bind p h"

definition store_next :: "heap \<Rightarrow> nat option \<Rightarrow> nat option \<Rightarrow> heap option" where
  "store_next h p v = do { a \<leftarrow> p; e \<leftarrow> h a; Some (h(a \<mapsto> e\<lparr>l_next := v\<rparr>)) }"

definition store_prev :: "heap \<Rightarrow> nat option \<Rightarrow> nat option \<Rightarrow> heap option" where
  "store_prev h p v = do { a \<leftarrow> p; e \<leftarrow> h a; Some (h(a \<mapsto> e\<lparr>l_prev := v\<rparr>)) }"

definition newList :: llist where
  "newList = \<lparr>l_heap = (\<lambda>_. None)(0 \<mapsto> \<lparr>l_value = None, l_prev = Some 0, l_next = Some 0\<rparr>), l_len = 0\<rparr>"

definition Init :: "llist \<Rightarrow> llist option" where
  "Init l = do {
     h \<leftarrow> store_next (l_heap l) (Some 0) (Some 0);
     h \<leftarrow> store_prev h (Some 0) (Some 0);
     Some (l\<lparr>l_heap := h, l_len := 0\<rparr>) }"

definition Len :: "llist \<Rightarrow> int" where
  "Len l = l_len l"

text \<open>The new element gets the address \<^term>\<open>a\<close>, which the allocator promises to be unused.\<close>

definition PushFront :: "nat \<Rightarrow> nat \<Rightarrow> llist \<Rightarrow> llist option" where
  "PushFront a e l = do {
     root \<leftarrow> l_heap l 0;
     let h = (l_heap l)(a \<mapsto> \<lparr>l_value = Some e, l_prev = Some 0, l_next = l_next root\<rparr>);
     h \<leftarrow> store_prev h (l_next root) (Some a);
     h \<leftarrow> store_next h (Some 0) (Some a);
     Some (l\<lparr>l_heap := h, l_len := int64 (l_len l + 1)\<rparr>) }"

definition MoveToFront :: "nat \<Rightarrow> llist \<Rightarrow> llist option" where
  "MoveToFront a l = do {
     root \<leftarrow> l_heap l 0;
     if l_next root = Some a then Some l
     else do {
       le \<leftarrow> l_heap l a;
       h \<leftarrow> store_next (l_heap l) (l_prev le) (l_next le);
       le \<leftarrow> h a;
       h \<leftarrow> store_prev h (l_next le) (l_prev le);
       root \<leftarrow> h 0;
       h \<leftarrow> store_next h (Some a) (l_next root);
       h \<leftarrow> store_prev h (Some a) (Some 0);
       root \<leftarrow> h 0;
       h \<leftarrow> store_prev h (l_next root) (Some a);
       h \<leftarrow> store_next h (Some 0) (Some a);
       Some (l\<lparr>l_heap := h\<rparr>) } }"

definition Remove :: "nat \<Rightarrow> llist \<Rightarrow> llist option" where
  "Remove a l = do {
     le \<leftarrow> l_heap l a;
     h \<leftarrow> store_next (l_heap l) (l_prev le) (l_next le);
     le \<leftarrow> h a;
     h \<leftarrow> store_prev h (l_next le) (l_prev le);
     h \<leftarrow> store_next h (Some a) None;
     h \<leftarrow> store_prev h (Some a) None;
     Some (l\<lparr>l_heap := h, l_len := int64 (l_len l - 1)\<rparr>) }"

definition Back :: "llist \<Rightarrow> nat option" where
  "Back l = (if l_len l = 0 then None else Option.bind (l_heap l 0) l_prev)"

section \<open>Segments\<close>

text \<open>The pointers of a heap as functions, and the path they make through a list of addresses.\<close>

definition nxt :: "heap \<Rightarrow> nat \<Rightarrow> nat option" where
  "nxt h a = Option.bind (h a) l_next"

definition prv :: "heap \<Rightarrow> nat \<Rightarrow> nat option" where
  "prv h a = Option.bind (h a) l_prev"

fun seg :: "(nat \<Rightarrow> nat option) \<Rightarrow> (nat \<Rightarrow> nat option) \<Rightarrow> nat \<Rightarrow> nat list \<Rightarrow> nat \<Rightarrow> bool" where
  "seg N P a [] b \<longleftrightarrow> N a = Some b \<and> P b = Some a"
| "seg N P a (x # xs) b \<longleftrightarrow> N a = Some x \<and> P x = Some a \<and> seg N P x xs b"

lemma seg_append: "seg N P a (xs @ y # ys) b \<longleftrightarrow> seg N P a xs y \<and> seg N P y ys b"
  by (induction xs arbitrary: a) auto

lemma seg_frame:
  assumes "seg N P a xs b" "\<And>x. x \<in> set (a # xs) \<Longrightarrow> N' x = N x" "\<And>x. x \<in> set (xs @ [b]) \<Longrightarrow> P' x = P x"
  shows "seg N' P' a xs b"
  using assms
proof (induction xs arbitrary: a)
  case (Cons x xs)
  have "seg N' P' x xs b"
  proof (rule Cons.IH)
    show "seg N P x xs b" using Cons.prems(1) by simp
    show "N' y = N y" if "y \<in> set (x # xs)" for y using that by (intro Cons.prems(2)) auto
    show "P' y = P y" if "y \<in> set (xs @ [b])" for y using that by (intro Cons.prems(3)) auto
  qed
  moreover have "N' a = N a" "P' x = P x" by (intro Cons.prems; simp)+
  ultimately show ?case using Cons.prems(1) by simp
next
  case Nil
  have "N' a = N a" "P' b = P b" by (intro Nil.prems; simp)+
  then show ?case using Nil.prems(1) by simp
qed

lemma seg_last: "seg N P a xs b \<Longrightarrow> N (last (a # xs)) = Some b \<and> P b = Some (last (a # xs))"
  by (induction xs arbitrary: a) simp_all

lemma seg_first: "seg N P a xs b \<Longrightarrow> N a = Some (hd (xs @ [b])) \<and> P (hd (xs @ [b])) = Some a"
  by (cases xs) simp_all

lemma seg_ends:
  assumes "seg N P a xs b"
  shows "N (last (a # xs)) = Some b" "P (hd (xs @ [b])) = Some a" "N a = Some (hd (xs @ [b]))"
    "P b = Some (last (a # xs))"
  using seg_last [OF assms] seg_first [OF assms] by blast+

text \<open>Redirecting the end of a path.\<close>

lemma seg_redirect:
  assumes "seg N P a ys m" "distinct (a # ys)" "n \<notin> set ys"
  shows "seg (N(last (a # ys) := Some n)) (P(n := Some (last (a # ys)))) a ys n"
  using assms
proof (induction ys arbitrary: a)
  case (Cons y ys)
  then have "a \<noteq> last (y # ys)" by (metis distinct.simps(2) last_in_set list.discI)
  then show ?case using Cons by auto
qed simp

lemma seg_unlink:
  assumes s: "seg N P 0 (ys @ a # zs) 0" and d: "distinct (0 # ys @ a # zs)"
    and p: "p = last (0 # ys)" and n: "n = hd (zs @ [0])"
  shows "seg (N(p := Some n)) (P(n := Some p)) 0 (ys @ zs) 0"
proof -
  have l: "seg N P 0 ys a" "seg N P a zs 0" using s by (simp_all add: seg_append)
  have nn: "n \<notin> set ys" using d n by (cases zs) auto
  have left: "seg (N(p := Some n)) (P(n := Some p)) 0 ys n"
    unfolding p using d nn by (intro seg_redirect [OF l(1)]) auto
  show ?thesis
  proof (cases zs)
    case Nil
    then show ?thesis using left n by simp
  next
    case (Cons z zs')
    then have z: "n = z" "seg N P z zs' 0" using l(2) n by auto
    have "p \<in> set (0 # ys)" unfolding p by (rule last_in_set) simp
    then have "p \<notin> set (z # zs')" using d Cons by auto
    then have "seg (N(p := Some n)) (P(n := Some p)) z zs' 0"
      using d Cons z(1) by (intro seg_frame [OF z(2)]) auto
    then show ?thesis using left Cons z(1) by (simp add: seg_append)
  qed
qed

lemma seg_link:
  assumes s: "seg N P 0 xs 0" and d: "distinct (0 # a # xs)" and n: "n = hd (xs @ [0])"
  shows "seg (N(a := Some n, 0 := Some a)) (P(a := Some 0, n := Some a)) 0 (a # xs) 0"
proof (cases xs)
  case Nil
  then show ?thesis using d n by simp
next
  case (Cons x xs')
  then have x: "n = x" "seg N P x xs' 0" using s n by auto
  have "seg (N(a := Some n, 0 := Some a)) (P(a := Some 0, n := Some a)) x xs' 0"
    using d Cons x(1) by (intro seg_frame [OF x(2)]) auto
  then show ?thesis using d Cons x(1) by simp
qed

section \<open>The operations on the list of addresses\<close>

definition dll :: "llist \<Rightarrow> nat list \<Rightarrow> bool" where
  "dll l xs \<longleftrightarrow>
     distinct (0 # xs) \<and> seg (nxt (l_heap l)) (prv (l_heap l)) 0 xs 0 \<and> l_len l = int (length xs)"

lemma nxt_upd [simp]: "nxt (h(a \<mapsto> e)) = (nxt h)(a := l_next e)"
  by (auto simp: nxt_def)

lemma prv_upd [simp]: "prv (h(a \<mapsto> e)) = (prv h)(a := l_prev e)"
  by (auto simp: prv_def)

lemma nxt_SomeD: "nxt h a = Some b \<Longrightarrow> \<exists>e. h a = Some e \<and> l_next e = Some b"
  by (auto simp: nxt_def bind_eq_Some_conv)

lemma prv_SomeD: "prv h a = Some b \<Longrightarrow> \<exists>e. h a = Some e \<and> l_prev e = Some b"
  by (auto simp: prv_def bind_eq_Some_conv)

lemma nxt_Some [simp]: "h a = Some e \<Longrightarrow> nxt h a = l_next e"
  by (simp add: nxt_def)

lemma prv_Some [simp]: "h a = Some e \<Longrightarrow> prv h a = l_prev e"
  by (simp add: prv_def)

text \<open>A store through a valid pointer changes one field and no payload.\<close>

definition payload :: "heap \<Rightarrow> nat \<Rightarrow> nat option option" where
  "payload h a = map_option l_value (h a)"

lemma payload_upd [simp]: "payload (h(a \<mapsto> e)) = (payload h)(a := Some (l_value e))"
  by (auto simp: payload_def)

lemma store_next_ok:
  assumes "h a = Some e"
  shows "\<exists>h'. store_next h (Some a) v = Some h' \<and> nxt h' = (nxt h)(a := v) \<and> prv h' = prv h \<and>
    payload h' = payload h \<and> dom h' = dom h"
  using assms
  by (intro exI [of _ "h(a \<mapsto> e\<lparr>l_next := v\<rparr>)"]) (auto simp: store_next_def payload_def prv_def fun_eq_iff)

lemma store_prev_ok:
  assumes "h a = Some e"
  shows "\<exists>h'. store_prev h (Some a) v = Some h' \<and> prv h' = (prv h)(a := v) \<and> nxt h' = nxt h \<and>
    payload h' = payload h \<and> dom h' = dom h"
  using assms
  by (intro exI [of _ "h(a \<mapsto> e\<lparr>l_prev := v\<rparr>)"]) (auto simp: store_prev_def payload_def nxt_def fun_eq_iff)

lemma in_dom_nxt: "nxt h a = Some b \<Longrightarrow> a \<in> dom h"
  using nxt_SomeD by blast

lemma in_dom_prv: "prv h a = Some b \<Longrightarrow> a \<in> dom h"
  using prv_SomeD by blast

lemma newList_dll: "dll newList []"
  by (simp add: dll_def newList_def nxt_def prv_def)

lemma load_ptrs:
  assumes "nxt h a = Some n" "prv h a = Some p"
  shows "\<exists>e. h a = Some e \<and> l_next e = Some n \<and> l_prev e = Some p"
  using assms by (auto simp: nxt_def prv_def bind_eq_Some_conv)

lemma dll_dom: "dll l xs \<Longrightarrow> set (0 # xs) \<subseteq> dom (l_heap l)"
proof -
  have "seg (nxt h) (prv h) a ys b \<Longrightarrow> set (a # ys) \<subseteq> dom h" for h a ys b
    by (induction ys arbitrary: a) (auto dest: in_dom_nxt)
  from this [of "l_heap l" 0 xs 0] show "dll l xs \<Longrightarrow> ?thesis" by (simp add: dll_def)
qed

text \<open>The two stores that take an element out of the list.\<close>

lemma unlink_stores:
  assumes "dll l (ys @ a # zs)"
  defines "p \<equiv> last (0 # ys)" and "n \<equiv> hd (zs @ [0])"
  shows "\<exists>le h1 le1 h2.
    l_heap l a = Some le \<and> store_next (l_heap l) (l_prev le) (l_next le) = Some h1 \<and>
    h1 a = Some le1 \<and> store_prev h1 (l_next le1) (l_prev le1) = Some h2 \<and>
    nxt h2 = (nxt (l_heap l))(p := Some n) \<and> prv h2 = (prv (l_heap l))(n := Some p) \<and>
    payload h2 = payload (l_heap l) \<and> dom h2 = dom (l_heap l)"
proof -
  let ?h = "l_heap l"
  have d: "distinct (0 # ys @ a # zs)" and s: "seg (nxt ?h) (prv ?h) 0 ys a" "seg (nxt ?h) (prv ?h) a zs 0"
    using assms(1) by (auto simp: dll_def seg_append)
  have e: "nxt ?h a = Some n" "prv ?h a = Some p" "nxt ?h p = Some a" "prv ?h n = Some a"
    using seg_ends [OF s(1)] seg_ends [OF s(2)] by (simp_all add: p_def n_def)
  have "p \<in> set (0 # ys)" unfolding p_def by (rule last_in_set) simp
  then have pa: "p \<noteq> a" using d by auto
  obtain le where le: "?h a = Some le" "l_next le = Some n" "l_prev le = Some p" using load_ptrs [OF e(1,2)] by blast
  obtain h1 where h1: "store_next ?h (Some p) (Some n) = Some h1" "nxt h1 = (nxt ?h)(p := Some n)" "prv h1 = prv ?h"
      "payload h1 = payload ?h" "dom h1 = dom ?h"
    using store_next_ok nxt_SomeD [OF e(3)] by metis
  obtain le1 where le1: "h1 a = Some le1" "l_next le1 = Some n" "l_prev le1 = Some p"
    using load_ptrs [of h1 a n p] h1(2,3) e(1,2) pa by auto
  obtain h2 where h2: "store_prev h1 (Some n) (Some p) = Some h2" "prv h2 = (prv h1)(n := Some p)" "nxt h2 = nxt h1"
      "payload h2 = payload h1" "dom h2 = dom h1"
    using store_prev_ok [of h1 n] in_dom_prv [OF e(4)] h1(5) by blast
  show ?thesis
    by (rule exI [of _ le], rule exI [of _ h1], rule exI [of _ le1], rule exI [of _ h2]) (simp add: le h1 le1 h2)
qed

lemma unlink_seg:
  assumes "dll l (ys @ a # zs)"
  shows "seg ((nxt (l_heap l))(last (0 # ys) := Some (hd (zs @ [0])))) ((prv (l_heap l))(hd (zs @ [0]) := Some (last (0 # ys))))
    0 (ys @ zs) 0"
  using assms by (intro seg_unlink [OF _ _ refl refl]) (auto simp: dll_def)

lemma Remove_dll:
  assumes l: "dll l (ys @ a # zs)" and len: "length (ys @ a # zs) < 2 ^ 63"
  shows "\<exists>l'. Remove a l = Some l' \<and> dll l' (ys @ zs) \<and> payload (l_heap l') = payload (l_heap l) \<and>
    dom (l_heap l') = dom (l_heap l)"
proof -
  obtain le h1 le1 h2 where u: "l_heap l a = Some le" "store_next (l_heap l) (l_prev le) (l_next le) = Some h1"
      "h1 a = Some le1" "store_prev h1 (l_next le1) (l_prev le1) = Some h2"
      "nxt h2 = (nxt (l_heap l))(last (0 # ys) := Some (hd (zs @ [0])))"
      "prv h2 = (prv (l_heap l))(hd (zs @ [0]) := Some (last (0 # ys)))"
      "payload h2 = payload (l_heap l)" "dom h2 = dom (l_heap l)"
    using unlink_stores [OF l] by blast
  have a: "a \<in> dom h2" using u(1,8) by blast
  obtain h3 where h3: "store_next h2 (Some a) None = Some h3" "nxt h3 = (nxt h2)(a := None)" "prv h3 = prv h2"
      "payload h3 = payload h2" "dom h3 = dom h2"
    using store_next_ok [of h2 a] a by blast
  obtain h4 where h4: "store_prev h3 (Some a) None = Some h4" "prv h4 = (prv h3)(a := None)" "nxt h4 = nxt h3"
      "payload h4 = payload h3" "dom h4 = dom h3"
    using store_prev_ok [of h3 a] a h3(5) by blast
  have s: "seg (nxt h2) (prv h2) 0 (ys @ zs) 0" using unlink_seg [OF l] u(5,6) by simp
  have d: "distinct (0 # ys @ a # zs)" using l by (simp add: dll_def)
  have "seg (nxt h4) (prv h4) 0 (ys @ zs) 0"
    using d by (intro seg_frame [OF s]) (auto simp: h4 h3)
  moreover have "int64 (l_len l - 1) = int (length (ys @ zs))" using l len by (simp add: dll_def int64_id)
  ultimately show ?thesis using d by (simp add: Remove_def u h3 h4 dll_def)
qed

lemma PushFront_dll:
  assumes l: "dll l xs" and fresh: "a \<notin> dom (l_heap l)" and len: "length xs + 1 < 2 ^ 63"
  shows "\<exists>l'. PushFront a e l = Some l' \<and> dll l' (a # xs) \<and>
    payload (l_heap l') = (payload (l_heap l))(a := Some (Some e)) \<and> dom (l_heap l') = insert a (dom (l_heap l))"
proof -
  let ?h = "l_heap l" and ?n = "hd (xs @ [0])"
  have d: "distinct (0 # a # xs)" using l fresh dll_dom [OF l] by (auto simp: dll_def)
  have s: "seg (nxt ?h) (prv ?h) 0 xs 0" using l by (simp add: dll_def)
  obtain root where root: "?h 0 = Some root" "l_next root = Some ?n"
    using nxt_SomeD [OF seg_ends(3) [OF s]] by blast
  let ?h0 = "?h(a \<mapsto> \<lparr>l_value = Some e, l_prev = Some 0, l_next = Some ?n\<rparr>)"
  have n: "?n \<in> dom ?h0" using in_dom_prv [OF seg_ends(2) [OF s]] by simp
  obtain h1 where h1: "store_prev ?h0 (Some ?n) (Some a) = Some h1" "prv h1 = (prv ?h0)(?n := Some a)" "nxt h1 = nxt ?h0"
      "payload h1 = payload ?h0" "dom h1 = dom ?h0"
    using store_prev_ok [of ?h0 ?n] n by blast
  have "0 \<in> dom h1" using root(1) h1(5) by auto
  then obtain h2 where h2: "store_next h1 (Some 0) (Some a) = Some h2" "nxt h2 = (nxt h1)(0 := Some a)" "prv h2 = prv h1"
      "payload h2 = payload h1" "dom h2 = dom h1"
    using store_next_ok [of h1 0] by blast
  have "seg (nxt h2) (prv h2) 0 (a # xs) 0" using seg_link [OF s d refl] by (simp add: h2 h1 del: seg.simps)
  moreover have "int64 (l_len l + 1) = int (length (a # xs))" using l len by (simp add: dll_def int64_id)

  ultimately show ?thesis using d by (simp add: PushFront_def root h1 h2 dll_def del: seg.simps)
qed

lemma MoveToFront_dll:
  assumes l: "dll l (ys @ a # zs)"
  shows "\<exists>l'. MoveToFront a l = Some l' \<and> dll l' (a # ys @ zs) \<and> payload (l_heap l') = payload (l_heap l) \<and>
    dom (l_heap l') = dom (l_heap l)"
proof -
  let ?h = "l_heap l" and ?m = "hd (ys @ zs @ [0])"
  have s: "seg (nxt ?h) (prv ?h) 0 (ys @ a # zs) 0" and d: "distinct (0 # ys @ a # zs)"
    using l by (simp_all add: dll_def)
  obtain root where root: "?h 0 = Some root" "l_next root = Some (hd ((ys @ a # zs) @ [0]))"
    using nxt_SomeD [OF seg_ends(3) [OF s]] by blast
  show ?thesis
  proof (cases "ys = []")
    case True
    then show ?thesis using l root by (simp add: MoveToFront_def)
  next
    case False
    then have "l_next root \<noteq> Some a" using root(2) d by (cases ys) auto
    obtain le h1 le1 h2 where u: "?h a = Some le" "store_next ?h (l_prev le) (l_next le) = Some h1"
        "h1 a = Some le1" "store_prev h1 (l_next le1) (l_prev le1) = Some h2"
        "nxt h2 = (nxt ?h)(last (0 # ys) := Some (hd (zs @ [0])))"
        "prv h2 = (prv ?h)(hd (zs @ [0]) := Some (last (0 # ys)))"
        "payload h2 = payload ?h" "dom h2 = dom ?h"
      using unlink_stores [OF l] by blast
    have s2: "seg (nxt h2) (prv h2) 0 (ys @ zs) 0" using unlink_seg [OF l] u(5,6) by simp
    obtain root2 where r2: "h2 0 = Some root2" "l_next root2 = Some ?m"
      using nxt_SomeD [OF seg_ends(3) [OF s2]] by auto
    have a2: "a \<in> dom h2" using u(1,8) by blast
    obtain h3 where h3: "store_next h2 (Some a) (Some ?m) = Some h3" "nxt h3 = (nxt h2)(a := Some ?m)" "prv h3 = prv h2"
        "payload h3 = payload h2" "dom h3 = dom h2"
      using store_next_ok [of h2 a] a2 by blast
    obtain h4 where h4: "store_prev h3 (Some a) (Some 0) = Some h4" "prv h4 = (prv h3)(a := Some 0)" "nxt h4 = nxt h3"
        "payload h4 = payload h3" "dom h4 = dom h3"
      using store_prev_ok [of h3 a] a2 h3(5) by blast
    have "nxt h4 0 = Some ?m" using d r2 h3(2) h4(3) by auto
    then obtain root4 where r4: "h4 0 = Some root4" "l_next root4 = Some ?m" using nxt_SomeD by blast
    have "?m \<in> dom h4" using in_dom_prv [OF seg_ends(2) [OF s2]] h3(5) h4(5) by simp
    then obtain h5 where h5: "store_prev h4 (Some ?m) (Some a) = Some h5" "prv h5 = (prv h4)(?m := Some a)" "nxt h5 = nxt h4"
        "payload h5 = payload h4" "dom h5 = dom h4"
      using store_prev_ok [of h4 ?m] by blast
    have "0 \<in> dom h5" using r4 h5(5) by blast
    then obtain h6 where h6: "store_next h5 (Some 0) (Some a) = Some h6" "nxt h6 = (nxt h5)(0 := Some a)" "prv h6 = prv h5"
        "payload h6 = payload h5" "dom h6 = dom h5"
      using store_next_ok [of h5 0] by blast
    have d': "distinct (0 # a # ys @ zs)" using d by auto
    have "seg (nxt h6) (prv h6) 0 (a # ys @ zs) 0"
      using seg_link [OF s2 d' refl] by (simp add: h3 h4 h5 h6 del: seg.simps)
    then show ?thesis
      using l d' \<open>l_next root \<noteq> Some a\<close>
      by (simp add: MoveToFront_def root(1) u r2 h3 h4 r4 h5 h6 dll_def del: seg.simps)
  qed
qed

lemma Back_dll: "dll l xs \<Longrightarrow> Back l = (if xs = [] then None else Some (last xs))"
proof -
  assume l: "dll l xs"
  then have "prv (l_heap l) 0 = Some (last (0 # xs))" by (intro seg_ends(4) [of "nxt (l_heap l)"]) (simp add: dll_def)
  then show ?thesis using l by (simp add: Back_def prv_def dll_def)
qed

lemma Init_dll:
  assumes "dll l xs"
  shows "\<exists>l'. Init l = Some l' \<and> dll l' [] \<and> payload (l_heap l') = payload (l_heap l) \<and> dom (l_heap l') = dom (l_heap l)"
proof -
  have "0 \<in> dom (l_heap l)" using dll_dom [OF assms] by simp
  then obtain h1 where h1: "store_next (l_heap l) (Some 0) (Some 0) = Some h1" "nxt h1 = (nxt (l_heap l))(0 := Some 0)"
      "payload h1 = payload (l_heap l)" "dom h1 = dom (l_heap l)"
    using store_next_ok [of "l_heap l" 0] by blast
  moreover from this have "0 \<in> dom h1" using \<open>0 \<in> dom (l_heap l)\<close> by simp
  then obtain h2 where "store_prev h1 (Some 0) (Some 0) = Some h2" "prv h2 = (prv h1)(0 := Some 0)" "nxt h2 = nxt h1"
      "payload h2 = payload h1" "dom h2 = dom h1"
    using store_prev_ok [of h1 0] by blast
  ultimately show ?thesis by (simp add: Init_def dll_def)
qed

end
