(* ===== verification/Cache.thy ===== *)
theory Cache
  imports LinkedList
begin

text \<open>
  The sharded cache of \<^verbatim>\<open>internal/cache/cache.go\<close>. A shard keeps its entries in a heap of
  entries, a map from keys to entry addresses and the linked list of \<^verbatim>\<open>LinkedList\<close>; an entry and
  its list element are allocated together and get the same number in their two heaps. The body of each
  public method under the mutex of its shard is one definition, with the clock as argument and the
  counters it increments as result; a nil dereference or an index out of range is \<^term>\<open>None\<close>. The shard refines
  a list of key, value and expiry in the order of use.
\<close>

unbundle bit_operations_syntax

section \<open>Shards\<close>

record ('k, 'v) cache_entry =
  e_key :: 'k
  e_value :: 'v
  e_expires :: int
  e_elem :: nat

record ('k, 'v) shard =
  s_entries :: "'k \<Rightarrow> nat option"
  s_ents :: "nat \<Rightarrow> ('k, 'v) cache_entry option"
  s_list :: llist
  s_max :: int
  s_ttl :: int
  s_fresh :: nat

datatype metric = Hits | Misses | Evictions | Stores | Deletes

definition expired :: "int \<Rightarrow> ('k, 'v) cache_entry \<Rightarrow> bool" where
  "expired now e \<longleftrightarrow> 0 < e_expires e \<and> e_expires e < now"

definition newShard :: "int \<Rightarrow> int \<Rightarrow> ('k, 'v) shard" where
  "newShard maxEntries defaultTTL =
     \<lparr>s_entries = (\<lambda>_. None), s_ents = (\<lambda>_. None), s_list = newList, s_max = maxEntries, s_ttl = defaultTTL, s_fresh = 1\<rparr>"

definition expiry :: "int \<Rightarrow> int \<Rightarrow> ('k, 'v) shard \<Rightarrow> int" where
  "expiry now ttl s = int64 (now + (if ttl \<le> 0 then s_ttl s else ttl))"

definition shard_insert :: "int \<Rightarrow> 'k \<Rightarrow> 'v \<Rightarrow> int \<Rightarrow> ('k, 'v) shard \<Rightarrow> ('k, 'v) shard option" where
  "shard_insert now key value ttl s = do {
     let a = s_fresh s;
     l \<leftarrow> PushFront a a (s_list s);
     let e = \<lparr>e_key = key, e_value = value, e_expires = expiry now ttl s, e_elem = a\<rparr>;
     Some (s\<lparr>s_list := l, s_ents := (s_ents s)(a \<mapsto> e), s_entries := (s_entries s)(key \<mapsto> a), s_fresh := Suc a\<rparr>) }"

definition shard_delete :: "'k \<Rightarrow> ('k, 'v) shard \<Rightarrow> ('k, 'v) shard option" where
  "shard_delete key s =
     (case s_entries s key of
        None \<Rightarrow> Some s
      | Some r \<Rightarrow> do {
          ent \<leftarrow> s_ents s r;
          l \<leftarrow> Remove (e_elem ent) (s_list s);
          Some (s\<lparr>s_list := l, s_entries := (s_entries s)(key := None)\<rparr>) })"

definition removeElement :: "nat \<Rightarrow> ('k, 'v) shard \<Rightarrow> ('k, 'v) shard option" where
  "removeElement le s = do {
     el \<leftarrow> l_heap (s_list s) le;
     r \<leftarrow> l_value el;
     l \<leftarrow> Remove le (s_list s);
     e \<leftarrow> s_ents s r;
     Some (s\<lparr>s_list := l, s_entries := (s_entries s)(e_key e := None)\<rparr>) }"

definition shard_Get :: "int \<Rightarrow> 'k \<Rightarrow> ('k, 'v) shard \<Rightarrow> (('k, 'v) shard \<times> metric list \<times> 'v option) option" where
  "shard_Get now key s =
     (case s_entries s key of
        None \<Rightarrow> Some (s, [Misses], None)
      | Some r \<Rightarrow> do {
          ent \<leftarrow> s_ents s r;
          if expired now ent then do {
            s \<leftarrow> shard_delete key s;
            Some (s, [Misses, Evictions], None) }
          else do {
            l \<leftarrow> MoveToFront (e_elem ent) (s_list s);
            Some (s\<lparr>s_list := l\<rparr>, [Hits], Some (e_value ent)) } })"

definition shard_SetWithTTL ::
  "int \<Rightarrow> 'k \<Rightarrow> 'v \<Rightarrow> int \<Rightarrow> ('k, 'v) shard \<Rightarrow> (('k, 'v) shard \<times> metric list) option" where
  "shard_SetWithTTL now key value ttl s =
     (case s_entries s key of
        Some r \<Rightarrow> do {
          ent \<leftarrow> s_ents s r;
          let ent = ent\<lparr>e_value := value, e_expires := expiry now ttl s\<rparr>;
          l \<leftarrow> MoveToFront (e_elem ent) (s_list s);
          Some (s\<lparr>s_ents := (s_ents s)(r \<mapsto> ent), s_list := l\<rparr>, []) }
      | None \<Rightarrow> do {
          (s, evicted) \<leftarrow>
            (if s_max s \<le> Len (s_list s)
             then (case Back (s_list s) of
                     None \<Rightarrow> Some (s, [])
                   | Some back \<Rightarrow> do { s \<leftarrow> removeElement back s; Some (s, [Evictions]) })
             else Some (s, []));
          s \<leftarrow> shard_insert now key value ttl s;
          Some (s, evicted @ [Stores]) })"

definition shard_Delete :: "'k \<Rightarrow> ('k, 'v) shard \<Rightarrow> (('k, 'v) shard \<times> metric list \<times> bool) option" where
  "shard_Delete key s =
     (case s_entries s key of
        None \<Rightarrow> Some (s, [], False)
      | Some _ \<Rightarrow> do { s \<leftarrow> shard_delete key s; Some (s, [Deletes], True) })"

definition shard_Purge :: "('k, 'v) shard \<Rightarrow> ('k, 'v) shard option" where
  "shard_Purge s = do {
     l \<leftarrow> Init (s_list s);
     Some (s\<lparr>s_entries := (\<lambda>_. None), s_list := l\<rparr>) }"

section \<open>The order of use\<close>

text \<open>Key, value and expiry of the live entries, the most recently used first.\<close>

type_synonym ('k, 'v) lru = "('k \<times> 'v \<times> int) list"

definition lru_remove :: "'k \<Rightarrow> ('k, 'v) lru \<Rightarrow> ('k, 'v) lru" where
  "lru_remove k l = filter (\<lambda>e. fst e \<noteq> k) l"

definition lru_Get :: "int \<Rightarrow> 'k \<Rightarrow> ('k, 'v) lru \<Rightarrow> ('k, 'v) lru \<times> metric list \<times> 'v option" where
  "lru_Get now k l =
     (case map_of l k of
        None \<Rightarrow> (l, [Misses], None)
      | Some (v, e) \<Rightarrow>
          if 0 < e \<and> e < now then (lru_remove k l, [Misses, Evictions], None)
          else ((k, v, e) # lru_remove k l, [Hits], Some v))"

definition lru_Set :: "int \<Rightarrow> 'k \<Rightarrow> 'v \<Rightarrow> int \<Rightarrow> ('k, 'v) lru \<Rightarrow> ('k, 'v) lru \<times> metric list" where
  "lru_Set capacity k v e l =
     (if k \<in> fst ` set l then ((k, v, e) # lru_remove k l, [])
      else if capacity \<le> int (length l) then ((k, v, e) # butlast l, [Evictions, Stores])
      else ((k, v, e) # l, [Stores]))"

definition lru_Delete :: "'k \<Rightarrow> ('k, 'v) lru \<Rightarrow> ('k, 'v) lru \<times> metric list \<times> bool" where
  "lru_Delete k l = (if k \<in> fst ` set l then (lru_remove k l, [Deletes], True) else (l, [], False))"

section \<open>The representation of a shard\<close>

text \<open>The addresses of the entries beside what they hold.\<close>

definition rep :: "('k, 'v) shard \<Rightarrow> (nat \<times> 'k \<times> 'v \<times> int) list \<Rightarrow> bool" where
  "rep s ts \<longleftrightarrow>
     dll (s_list s) (map fst ts) \<and>
     (\<forall>(a, k, v, e) \<in> set ts. s_ents s a = Some \<lparr>e_key = k, e_value = v, e_expires = e, e_elem = a\<rparr> \<and>
        payload (l_heap (s_list s)) a = Some (Some a)) \<and>
     distinct (map (fst \<circ> snd) ts) \<and>
     s_entries s = map_of (map (\<lambda>t. (fst (snd t), fst t)) ts) \<and>
     dom (l_heap (s_list s)) \<subseteq> {..<s_fresh s} \<and>
     int (length ts) \<le> s_max s \<and> 1 \<le> s_max s \<and> s_max s < 2 ^ 63"

definition shard_rel :: "('k, 'v) shard \<Rightarrow> ('k, 'v) lru \<Rightarrow> bool" where
  "shard_rel s l \<longleftrightarrow> (\<exists>ts. rep s ts \<and> l = map snd ts)"

lemma rep_dll: "rep s ts \<Longrightarrow> dll (s_list s) (map fst ts)"
  and rep_distinct: "rep s ts \<Longrightarrow> distinct (map (fst \<circ> snd) ts)"
  and rep_entries: "rep s ts \<Longrightarrow> s_entries s = map_of (map (\<lambda>t. (fst (snd t), fst t)) ts)"
  and rep_fresh: "rep s ts \<Longrightarrow> dom (l_heap (s_list s)) \<subseteq> {..<s_fresh s}"
  and rep_max: "rep s ts \<Longrightarrow> int (length ts) \<le> s_max s \<and> 1 \<le> s_max s \<and> s_max s < 2 ^ 63"
  and rep_ent: "rep s ts \<Longrightarrow> (a, k, v, e) \<in> set ts \<Longrightarrow>
    s_ents s a = Some \<lparr>e_key = k, e_value = v, e_expires = e, e_elem = a\<rparr> \<and> payload (l_heap (s_list s)) a = Some (Some a)"
  unfolding rep_def by blast+

lemma repI:
  assumes "dll (s_list s) (map fst ts)" "distinct (map (fst \<circ> snd) ts)"
    and "\<And>a k v e. (a, k, v, e) \<in> set ts \<Longrightarrow>
      s_ents s a = Some \<lparr>e_key = k, e_value = v, e_expires = e, e_elem = a\<rparr> \<and> payload (l_heap (s_list s)) a = Some (Some a)"
    and "s_entries s = map_of (map (\<lambda>t. (fst (snd t), fst t)) ts)" "dom (l_heap (s_list s)) \<subseteq> {..<s_fresh s}"
    and "int (length ts) \<le> s_max s" "1 \<le> s_max s" "s_max s < 2 ^ 63"
  shows "rep s ts"
  using assms unfolding rep_def by blast

lemma rep_length: "rep s ts \<Longrightarrow> length ts < 2 ^ 63"
  using rep_max [of s ts] by simp

lemma rep_split:
  assumes "rep s ts" "s_entries s k = Some r"
  shows "\<exists>us v e ws. ts = us @ (r, k, v, e) # ws"
proof -
  have "(k, r) \<in> set (map (\<lambda>t. (fst (snd t), fst t)) ts)"
    using assms(2) unfolding rep_entries [OF assms(1)] by (rule map_of_SomeD)
  then obtain v e where "(r, k, v, e) \<in> set ts" by auto
  then show ?thesis by (metis split_list)
qed

lemma rep_keys:
  assumes "rep s (us @ (r, k, v, e) # ws)"
  shows "\<forall>t \<in> set (us @ ws). fst (snd t) \<noteq> k" "map_of (map snd (us @ (r, k, v, e) # ws)) k = Some (v, e)"
    "lru_remove k (map snd (us @ (r, k, v, e) # ws)) = map snd (us @ ws)"
proof -
  show n: "\<forall>t \<in> set (us @ ws). fst (snd t) \<noteq> k" using rep_distinct [OF assms] by auto
  then have "k \<notin> (\<lambda>t. fst (snd t)) ` set us" by auto
  then have f: "map_of (map snd us) k = None" by (simp add: map_of_eq_None_iff image_image)
  show "map_of (map snd (us @ (r, k, v, e) # ws)) k = Some (v, e)" by (simp add: map_add_def f)
  have "filter (\<lambda>e. fst e \<noteq> k) (map snd us) = map snd us" "filter (\<lambda>e. fst e \<noteq> k) (map snd ws) = map snd ws"
    using n by (simp_all add: filter_id_conv)
  then show "lru_remove k (map snd (us @ (r, k, v, e) # ws)) = map snd (us @ ws)" by (simp add: lru_remove_def)
qed

lemma rep_absent: "rep s ts \<Longrightarrow> s_entries s k = None \<longleftrightarrow> k \<notin> fst ` set (map snd ts)"
  by (auto simp: rep_entries map_of_eq_None_iff image_iff)

lemma rep_present:
  assumes "rep s (us @ (r, k, v, e) # ws)"
  shows "s_entries s k = Some r"
proof -
  have "map_of (map (\<lambda>t. (fst (snd t), fst t)) us) k = None"
    using rep_keys(1) [OF assms] unfolding map_of_eq_None_iff by fastforce
  then show ?thesis by (simp add: rep_entries [OF assms] map_add_def)
qed

lemma map_of_remove:
  assumes "\<forall>t \<in> set (us @ ws). fst (snd t) \<noteq> k"
  shows "map_of (map (\<lambda>t. (fst (snd t), fst t)) (us @ ws)) =
    (map_of (map (\<lambda>t. (fst (snd t), fst t)) (us @ (r, k, v, e) # ws)))(k := None)"
proof -
  have "map_of (map (\<lambda>t. (fst (snd t), fst t)) us) k = None" "map_of (map (\<lambda>t. (fst (snd t), fst t)) ws) k = None"
    using assms unfolding map_of_eq_None_iff by fastforce+
  then show ?thesis by (auto simp: fun_eq_iff map_add_def split: option.splits)
qed

lemma newShard_rep: "1 \<le> m \<Longrightarrow> m < 2 ^ 63 \<Longrightarrow> rep (newShard m t) []"
  using newList_dll by (intro repI) (auto simp: newShard_def newList_def split: if_splits)

section \<open>Each operation on the representation\<close>

lemma remove_rep:
  assumes rep: "rep s (us @ (r, k, v, e) # ws)"
  shows "\<exists>l. Remove r (s_list s) = Some l \<and> rep (s\<lparr>s_list := l, s_entries := (s_entries s)(k := None)\<rparr>) (us @ ws)"
proof -
  have "dll (s_list s) (map fst us @ r # map fst ws)" using rep_dll [OF rep] by simp
  then obtain l where l: "Remove r (s_list s) = Some l" "dll l (map fst us @ map fst ws)"
      "payload (l_heap l) = payload (l_heap (s_list s))" "dom (l_heap l) = dom (l_heap (s_list s))"
    using Remove_dll rep_length [OF rep] by fastforce
  have "rep (s\<lparr>s_list := l, s_entries := (s_entries s)(k := None)\<rparr>) (us @ ws)"
  proof (rule repI)
    show "distinct (map (fst \<circ> snd) (us @ ws))" using rep_distinct [OF rep] by auto
    show "s_entries (s\<lparr>s_list := l, s_entries := (s_entries s)(k := None)\<rparr>) =
        map_of (map (\<lambda>t. (fst (snd t), fst t)) (us @ ws))"
      using map_of_remove [OF rep_keys(1) [OF rep]] rep_entries [OF rep] by simp
    fix a k' v' e' assume "(a, k', v', e') \<in> set (us @ ws)"
    then have "(a, k', v', e') \<in> set (us @ (r, k, v, e) # ws)" by auto
    from rep_ent [OF rep this]
    show "s_ents (s\<lparr>s_list := l, s_entries := (s_entries s)(k := None)\<rparr>) a =
        Some \<lparr>e_key = k', e_value = v', e_expires = e', e_elem = a\<rparr> \<and>
      payload (l_heap (s_list (s\<lparr>s_list := l, s_entries := (s_entries s)(k := None)\<rparr>))) a = Some (Some a)"
      using l(3) by simp
  qed (use l(2,4) rep_fresh [OF rep] rep_max [OF rep] in simp_all)
  then show ?thesis using l(1) by blast
qed

lemma move_rep:
  assumes rep: "rep s (us @ (r, k, v, e) # ws)"
  shows "\<exists>l. MoveToFront r (s_list s) = Some l \<and>
    rep (s\<lparr>s_ents := (s_ents s)(r \<mapsto> \<lparr>e_key = k, e_value = v', e_expires = e', e_elem = r\<rparr>), s_list := l\<rparr>)
      ((r, k, v', e') # us @ ws)"
proof -
  have d: "dll (s_list s) (map fst us @ r # map fst ws)" using rep_dll [OF rep] by simp
  then obtain l where l: "MoveToFront r (s_list s) = Some l" "dll l (r # map fst us @ map fst ws)"
      "payload (l_heap l) = payload (l_heap (s_list s))" "dom (l_heap l) = dom (l_heap (s_list s))"
    using MoveToFront_dll by blast
  let ?s = "s\<lparr>s_ents := (s_ents s)(r \<mapsto> \<lparr>e_key = k, e_value = v', e_expires = e', e_elem = r\<rparr>), s_list := l\<rparr>"
  have "rep ?s ((r, k, v', e') # us @ ws)"
  proof (rule repI)
    show "distinct (map (fst \<circ> snd) ((r, k, v', e') # us @ ws))" using rep_distinct [OF rep] by auto
    show "s_entries ?s = map_of (map (\<lambda>t. (fst (snd t), fst t)) ((r, k, v', e') # us @ ws))"
      using map_of_remove [OF rep_keys(1) [OF rep], of r v e] rep_present [OF rep] rep_entries [OF rep]
      by (auto simp: fun_eq_iff)
    fix a k2 v2 e2 assume t: "(a, k2, v2, e2) \<in> set ((r, k, v', e') # us @ ws)"
    show "s_ents ?s a = Some \<lparr>e_key = k2, e_value = v2, e_expires = e2, e_elem = a\<rparr> \<and>
        payload (l_heap (s_list ?s)) a = Some (Some a)"
    proof (cases "(a, k2, v2, e2) \<in> set (us @ ws)")
      case True
      then have "a \<noteq> r" using d by (auto simp: dll_def image_iff)
      moreover have "(a, k2, v2, e2) \<in> set (us @ (r, k, v, e) # ws)" using True by auto
      ultimately show ?thesis using rep_ent [OF rep, of a k2 v2 e2] l(3) by simp
    next
      case False
      then have "a = r" "k2 = k" "v2 = v'" "e2 = e'" using t by auto
      then show ?thesis using rep_ent [OF rep, of r k v e] l(3) by simp
    qed
  qed (use l(2,4) rep_fresh [OF rep] rep_max [OF rep] in simp_all)
  then show ?thesis using l(1) by blast
qed

lemma insert_rep:
  assumes rep: "rep s ts" and new: "k \<notin> fst ` set (map snd ts)" and room: "int (length ts) < s_max s"
  shows "\<exists>s'. shard_insert now k v ttl s = Some s' \<and> rep s' ((s_fresh s, k, v, expiry now ttl s) # ts) \<and>
    s_max s' = s_max s \<and> s_ttl s' = s_ttl s"
proof -
  let ?a = "s_fresh s"
  have fresh: "?a \<notin> dom (l_heap (s_list s))" using rep_fresh [OF rep] by auto
  moreover have "length (map fst ts) + 1 < 2 ^ 63" using rep_max [OF rep] room by simp
  ultimately obtain l where l: "PushFront ?a ?a (s_list s) = Some l" "dll l (?a # map fst ts)"
      "payload (l_heap l) = (payload (l_heap (s_list s)))(?a := Some (Some ?a))"
      "dom (l_heap l) = insert ?a (dom (l_heap (s_list s)))"
    using PushFront_dll [OF rep_dll [OF rep]] by blast
  let ?s = "s\<lparr>s_list := l,
      s_ents := (s_ents s)(?a \<mapsto> \<lparr>e_key = k, e_value = v, e_expires = expiry now ttl s, e_elem = ?a\<rparr>),
      s_entries := (s_entries s)(k \<mapsto> ?a), s_fresh := Suc ?a\<rparr>"
  have "rep ?s ((?a, k, v, expiry now ttl s) # ts)"
  proof (rule repI)
    show "distinct (map (fst \<circ> snd) ((?a, k, v, expiry now ttl s) # ts))" using rep_distinct [OF rep] new by auto
    show "s_entries ?s = map_of (map (\<lambda>t. (fst (snd t), fst t)) ((?a, k, v, expiry now ttl s) # ts))"
      using rep_entries [OF rep] by simp
    show "dom (l_heap (s_list ?s)) \<subseteq> {..<s_fresh ?s}" using rep_fresh [OF rep] l(4) by auto
    fix a k2 v2 e2 assume t: "(a, k2, v2, e2) \<in> set ((?a, k, v, expiry now ttl s) # ts)"
    show "s_ents ?s a = Some \<lparr>e_key = k2, e_value = v2, e_expires = e2, e_elem = a\<rparr> \<and>
        payload (l_heap (s_list ?s)) a = Some (Some a)"
    proof (cases "(a, k2, v2, e2) \<in> set ts")
      case True
      then have "a \<in> set (map fst ts)" by force
      then have "a \<noteq> ?a" using dll_dom [OF rep_dll [OF rep]] fresh by auto
      then show ?thesis using rep_ent [OF rep True] l(3) by simp
    next
      case False
      then show ?thesis using t l(3) by auto
    qed
  qed (use l(2) rep_max [OF rep] room in simp_all)
  then show ?thesis using l(1) by (simp add: shard_insert_def Let_def)
qed
section \<open>A shard refines the order of use\<close>

lemma Get_refines:
  assumes "shard_rel s l"
  shows "\<exists>s'. shard_Get now k s = Some (s', snd (lru_Get now k l)) \<and> shard_rel s' (fst (lru_Get now k l)) \<and>
    s_max s' = s_max s \<and> s_ttl s' = s_ttl s"
proof -
  obtain ts where rep: "rep s ts" and l: "l = map snd ts" using assms by (auto simp: shard_rel_def)
  show ?thesis
  proof (cases "s_entries s k")
    case None
    then have "map_of l k = None" using rep_absent [OF rep, of k] l unfolding map_of_eq_None_iff by simp
    then show ?thesis using None assms by (simp add: shard_Get_def lru_Get_def)
  next
    case (Some r)
    obtain us v e ws where ts: "ts = us @ (r, k, v, e) # ws" using rep_split [OF rep Some] by blast
    note rep = rep [unfolded ts]
    have ent: "s_ents s r = Some \<lparr>e_key = k, e_value = v, e_expires = e, e_elem = r\<rparr>"
      using rep_ent [OF rep] by simp
    note keys = rep_keys(2,3) [OF rep, folded ts, folded l]
    show ?thesis
    proof (cases "0 < e \<and> e < now")
      case True
      obtain l' where "Remove r (s_list s) = Some l'"
          "rep (s\<lparr>s_list := l', s_entries := (s_entries s)(k := None)\<rparr>) (us @ ws)"
        using remove_rep [OF rep] by blast
      then show ?thesis
        using True Some ent keys by (auto simp: shard_Get_def lru_Get_def expired_def shard_delete_def shard_rel_def)
    next
      case False
      obtain l' where m: "MoveToFront r (s_list s) = Some l'"
          "rep (s\<lparr>s_ents := (s_ents s)(r \<mapsto> \<lparr>e_key = k, e_value = v, e_expires = e, e_elem = r\<rparr>), s_list := l'\<rparr>)
            ((r, k, v, e) # us @ ws)"
        using move_rep [OF rep] by blast
      have "s\<lparr>s_ents := (s_ents s)(r \<mapsto> \<lparr>e_key = k, e_value = v, e_expires = e, e_elem = r\<rparr>), s_list := l'\<rparr> = s\<lparr>s_list := l'\<rparr>"
        using ent by (simp add: fun_upd_idem)
      then have "shard_rel (s\<lparr>s_list := l'\<rparr>) ((k, v, e) # map snd (us @ ws))"
        unfolding shard_rel_def by (intro exI [of _ "(r, k, v, e) # us @ ws"]) (use m(2) in simp)
      then show ?thesis using False Some ent keys m(1) by (auto simp: shard_Get_def lru_Get_def expired_def)
    qed
  qed
qed

lemma Set_refines:
  assumes "shard_rel s l"
  shows "\<exists>s'. shard_SetWithTTL now k v ttl s = Some (s', snd (lru_Set (s_max s) k v (expiry now ttl s) l)) \<and>
    shard_rel s' (fst (lru_Set (s_max s) k v (expiry now ttl s) l)) \<and> s_max s' = s_max s \<and> s_ttl s' = s_ttl s"
proof -
  obtain ts where rep: "rep s ts" and l: "l = map snd ts" using assms by (auto simp: shard_rel_def)
  let ?e = "expiry now ttl s"
  have len: "Len (s_list s) = int (length l)" using rep_dll [OF rep] l by (simp add: Len_def dll_def)
  show ?thesis
  proof (cases "s_entries s k")
    case (Some r)
    obtain us v0 e ws where ts: "ts = us @ (r, k, v0, e) # ws" using rep_split [OF rep Some] by blast
    note rep = rep [unfolded ts]
    have ent: "s_ents s r = Some \<lparr>e_key = k, e_value = v0, e_expires = e, e_elem = r\<rparr>"
      using rep_ent [OF rep] by simp
    obtain l' where m: "MoveToFront r (s_list s) = Some l'"
        "rep (s\<lparr>s_ents := (s_ents s)(r \<mapsto> \<lparr>e_key = k, e_value = v, e_expires = ?e, e_elem = r\<rparr>), s_list := l'\<rparr>)
          ((r, k, v, ?e) # us @ ws)"
      using move_rep [OF rep] by blast
    have "k \<in> fst ` set l" using l ts by simp
    moreover have "shard_rel (s\<lparr>s_ents := (s_ents s)(r \<mapsto> \<lparr>e_key = k, e_value = v, e_expires = ?e, e_elem = r\<rparr>), s_list := l'\<rparr>)
        ((k, v, ?e) # lru_remove k l)"
      unfolding shard_rel_def
      by (intro exI [of _ "(r, k, v, ?e) # us @ ws"]) (use m(2) rep_keys(3) [OF rep] l ts in simp)
    ultimately show ?thesis using Some ent m(1) by (simp add: shard_SetWithTTL_def lru_Set_def Let_def)
  next
    case None
    then have new: "k \<notin> fst ` set l" using rep_absent [OF rep, of k] l by simp
    show ?thesis
    proof (cases "s_max s \<le> int (length l)")
      case full: True
      then have "ts \<noteq> []" using rep_max [OF rep] l by auto
      then obtain us r k0 v0 e0 where ts: "ts = us @ [(r, k0, v0, e0)]" by (metis rev_exhaust surj_pair)
      note rep = rep [unfolded ts]
      have bk: "Back (s_list s) = Some r" using Back_dll [OF rep_dll [OF rep]] by simp
      have ent: "s_ents s r = Some \<lparr>e_key = k0, e_value = v0, e_expires = e0, e_elem = r\<rparr>"
          "payload (l_heap (s_list s)) r = Some (Some r)"
        using rep_ent [OF rep, of r k0 v0 e0] by simp_all
      obtain el where el: "l_heap (s_list s) r = Some el" "l_value el = Some r"
        using ent(2) by (auto simp: payload_def)
      obtain l' where rem: "Remove r (s_list s) = Some l'"
          "rep (s\<lparr>s_list := l', s_entries := (s_entries s)(k0 := None)\<rparr>) (us @ [])"
        using remove_rep [OF rep] by blast
      let ?s = "s\<lparr>s_list := l', s_entries := (s_entries s)(k0 := None)\<rparr>"
      have e: "expiry now ttl ?s = ?e" by (simp add: expiry_def)
      have "k \<notin> fst ` set (map snd us)" "int (length us) < s_max ?s"
        using new l ts rep_max [OF rep] by auto
      then obtain s' where s': "shard_insert now k v ttl ?s = Some s'"
          "rep s' ((s_fresh ?s, k, v, ?e) # us)" "s_max s' = s_max s" "s_ttl s' = s_ttl s"
        using insert_rep [of ?s us k now v ttl] rem(2) e by auto
      have "shard_rel s' ((k, v, ?e) # butlast l)"
        unfolding shard_rel_def by (intro exI [of _ "(s_fresh ?s, k, v, ?e) # us"]) (use s'(2) l ts in simp)
      then show ?thesis
        using None new full len bk el rem(1) ent(1) s' by (simp add: shard_SetWithTTL_def lru_Set_def removeElement_def)
    next
      case False
      then obtain s' where s': "shard_insert now k v ttl s = Some s'"
          "rep s' ((s_fresh s, k, v, ?e) # ts)" "s_max s' = s_max s" "s_ttl s' = s_ttl s"
        using insert_rep [OF rep] new l by fastforce
      have "shard_rel s' ((k, v, ?e) # l)"
        unfolding shard_rel_def by (intro exI [of _ "(s_fresh s, k, v, ?e) # ts"]) (use s'(2) l in simp)
      then show ?thesis using None new False len s' by (simp add: shard_SetWithTTL_def lru_Set_def)
    qed
  qed
qed

lemma Delete_refines:
  assumes "shard_rel s l"
  shows "\<exists>s'. shard_Delete k s = Some (s', snd (lru_Delete k l)) \<and> shard_rel s' (fst (lru_Delete k l)) \<and>
    s_max s' = s_max s \<and> s_ttl s' = s_ttl s"
proof -
  obtain ts where rep: "rep s ts" and l: "l = map snd ts" using assms by (auto simp: shard_rel_def)
  show ?thesis
  proof (cases "s_entries s k")
    case None
    then show ?thesis using rep_absent [OF rep, of k] l assms by (simp add: shard_Delete_def lru_Delete_def)
  next
    case (Some r)
    obtain us v e ws where ts: "ts = us @ (r, k, v, e) # ws" using rep_split [OF rep Some] by blast
    note rep = rep [unfolded ts]
    obtain l' where "Remove r (s_list s) = Some l'"
        "rep (s\<lparr>s_list := l', s_entries := (s_entries s)(k := None)\<rparr>) (us @ ws)"
      using remove_rep [OF rep] by blast
    moreover have "s_ents s r = Some \<lparr>e_key = k, e_value = v, e_expires = e, e_elem = r\<rparr>"
      using rep_ent [OF rep] by simp
    moreover have "k \<in> fst ` set l" using l ts by simp
    ultimately show ?thesis
      using Some rep_keys(3) [OF rep, folded ts, folded l]
      by (auto simp: shard_Delete_def lru_Delete_def shard_delete_def shard_rel_def)
  qed
qed

lemma Purge_refines:
  assumes "shard_rel s l"
  shows "\<exists>s'. shard_Purge s = Some s' \<and> shard_rel s' [] \<and> s_max s' = s_max s \<and> s_ttl s' = s_ttl s"
proof -
  obtain ts where rep: "rep s ts" using assms by (auto simp: shard_rel_def)
  obtain l where l: "Init (s_list s) = Some l" "dll l []" "dom (l_heap l) = dom (l_heap (s_list s))"
    using Init_dll [OF rep_dll [OF rep]] by blast
  have "rep (s\<lparr>s_entries := (\<lambda>_. None), s_list := l\<rparr>) []"
    using l rep_fresh [OF rep] rep_max [OF rep] by (intro repI) auto
  then show ?thesis using l by (auto simp: shard_Purge_def shard_rel_def)
qed

end
