(* ===== verification/ShardedCache.thy ===== *)
theory ShardedCache
  imports Cache
begin

text \<open>
  The public methods of \<^verbatim>\<open>internal/cache/cache.go\<close>: the choice of the number of shards, the hash
  of a key, and the methods over the shards of \<^verbatim>\<open>Cache\<close>. The methods of a running cache are a trace of
  operations with the time of each; a trace runs on the pointers and on the lists they represent, and
  both give the same answers.
\<close>

section \<open>Hashing\<close>

definition fnv1a :: "string \<Rightarrow> 64 word" where
  "fnv1a s = foldl (\<lambda>h c. (h XOR of_nat (byte_of c)) * 1099511628211) 14695981039346656037 s"

text \<open>The types of keys that the code distinguishes; \<^verbatim>\<open>fmt.Sprintf\<close> of any other key is an argument.\<close>

datatype gokey = KString string | KInt int | KInt64 int | KUint64 "64 word" | KUint32 "32 word" | KBytes32 "8 word list" | KOther nat

definition hashKey :: "(nat \<Rightarrow> string) \<Rightarrow> gokey \<Rightarrow> 64 word" where
  "hashKey sprint key =
     (case key of
        KString k \<Rightarrow> fnv1a k
      | KInt k \<Rightarrow> word_of_int k
      | KInt64 k \<Rightarrow> word_of_int k
      | KUint64 k \<Rightarrow> k
      | KUint32 k \<Rightarrow> ucast k
      | KBytes32 k \<Rightarrow>
          ucast (k ! 0) OR push_bit 8 (ucast (k ! 1)) OR push_bit 16 (ucast (k ! 2)) OR push_bit 24 (ucast (k ! 3)) OR
          push_bit 32 (ucast (k ! 4)) OR push_bit 40 (ucast (k ! 5)) OR push_bit 48 (ucast (k ! 6)) OR push_bit 56 (ucast (k ! 7))
      | KOther k \<Rightarrow> fnv1a (sprint k))"

section \<open>Construction\<close>

record cache_config =
  MaxEntries :: int
  DefaultTTL :: int
  ShardCount :: int

record 'v cache =
  c_shards :: "(gokey, 'v) shard list"
  c_mask :: "64 word"
  c_metrics :: "metric \<Rightarrow> int"

definition smear :: "64 word \<Rightarrow> 64 word" where
  "smear n =
     (let n = n OR drop_bit 1 n;
          n = n OR drop_bit 2 n;
          n = n OR drop_bit 4 n;
          n = n OR drop_bit 8 n;
          n = n OR drop_bit 16 n
      in n)"

definition round_up :: "int \<Rightarrow> int" where
  "round_up shardCount =
     (if shardCount AND (shardCount - 1) \<noteq> 0 then sint (smear (word_of_int shardCount - 1) + 1) else shardCount)"

function halve_shards :: "int \<Rightarrow> int \<Rightarrow> int" where
  "halve_shards maxEntries shardCount =
     (if 1 < shardCount \<and> maxEntries div shardCount < 1 then halve_shards maxEntries (shardCount div 2) else shardCount)"
  by pat_completeness auto
termination by (relation "measure (\<lambda>(m, n). nat n)") auto

declare halve_shards.simps [simp del]

definition effective_max :: "cache_config \<Rightarrow> int" where
  "effective_max cfg = (if MaxEntries cfg \<le> 0 then 1024 else MaxEntries cfg)"

definition shard_count :: "cache_config \<Rightarrow> int" where
  "shard_count cfg =
     (let maxEntries = effective_max cfg;
          n = halve_shards maxEntries (round_up (if ShardCount cfg \<le> 0 then 16 else ShardCount cfg))
      in if maxEntries < 16 then 1 else n)"

definition per_shard :: "cache_config \<Rightarrow> int" where
  "per_shard cfg = (let n = effective_max cfg div shard_count cfg in if n < 1 then 1 else n)"

definition default_ttl :: "cache_config \<Rightarrow> int" where
  "default_ttl cfg = (if DefaultTTL cfg \<le> 0 then 300000000000 else DefaultTTL cfg)"

text \<open>Dividing by a count of zero and allocating a negative number of shards panic.\<close>

definition New :: "cache_config \<Rightarrow> 'v cache option" where
  "New cfg =
     (let n = shard_count cfg
      in if n \<le> 0 then None
         else Some \<lparr>c_shards = replicate (nat n) (newShard (per_shard cfg) (default_ttl cfg)),
                c_mask = word_of_int (n - 1), c_metrics = (\<lambda>_. 0)\<rparr>)"

section \<open>Methods\<close>

definition shard_index :: "(nat \<Rightarrow> string) \<Rightarrow> 64 word \<Rightarrow> gokey \<Rightarrow> nat" where
  "shard_index sprint shardMask key = unat (hashKey sprint key AND shardMask)"

definition c_shard :: "(nat \<Rightarrow> string) \<Rightarrow> gokey \<Rightarrow> 'v cache \<Rightarrow> (gokey, 'v) shard option" where
  "c_shard sprint key c =
     (let i = shard_index sprint (c_mask c) key
      in if i < length (c_shards c) then Some (c_shards c ! i) else None)"

definition add_metrics :: "metric list \<Rightarrow> (metric \<Rightarrow> int) \<Rightarrow> (metric \<Rightarrow> int)" where
  "add_metrics ms m = foldl (\<lambda>m x. m(x := int64 (m x + 1))) m ms"

definition put_shard :: "(nat \<Rightarrow> string) \<Rightarrow> gokey \<Rightarrow> (gokey, 'v) shard \<Rightarrow> metric list \<Rightarrow> 'v cache \<Rightarrow> 'v cache" where
  "put_shard sprint key s ms c =
     c\<lparr>c_shards := (c_shards c)[shard_index sprint (c_mask c) key := s], c_metrics := add_metrics ms (c_metrics c)\<rparr>"

definition Get :: "(nat \<Rightarrow> string) \<Rightarrow> int \<Rightarrow> gokey \<Rightarrow> 'v cache \<Rightarrow> ('v cache \<times> 'v option) option" where
  "Get sprint now key c = do {
     s \<leftarrow> c_shard sprint key c;
     (s, ms, r) \<leftarrow> shard_Get now key s;
     Some (put_shard sprint key s ms c, r) }"

definition SetWithTTL :: "(nat \<Rightarrow> string) \<Rightarrow> int \<Rightarrow> gokey \<Rightarrow> 'v \<Rightarrow> int \<Rightarrow> 'v cache \<Rightarrow> 'v cache option" where
  "SetWithTTL sprint now key value ttl c = do {
     s \<leftarrow> c_shard sprint key c;
     (s, ms) \<leftarrow> shard_SetWithTTL now key value ttl s;
     Some (put_shard sprint key s ms c) }"

definition Set :: "(nat \<Rightarrow> string) \<Rightarrow> int \<Rightarrow> gokey \<Rightarrow> 'v \<Rightarrow> 'v cache \<Rightarrow> 'v cache option" where
  "Set sprint now key value c = SetWithTTL sprint now key value 0 c"

definition Delete :: "(nat \<Rightarrow> string) \<Rightarrow> gokey \<Rightarrow> 'v cache \<Rightarrow> ('v cache \<times> bool) option" where
  "Delete sprint key c = do {
     s \<leftarrow> c_shard sprint key c;
     (s, ms, r) \<leftarrow> shard_Delete key s;
     Some (put_shard sprint key s ms c, r) }"

fun purge_shards :: "(gokey, 'v) shard list \<Rightarrow> (gokey, 'v) shard list option" where
  "purge_shards [] = Some []"
| "purge_shards (s # ss) = do { s \<leftarrow> shard_Purge s; ss \<leftarrow> purge_shards ss; Some (s # ss) }"

definition Purge :: "'v cache \<Rightarrow> 'v cache option" where
  "Purge c = do { ss \<leftarrow> purge_shards (c_shards c); Some (c\<lparr>c_shards := ss\<rparr>) }"

definition Size :: "'v cache \<Rightarrow> int" where
  "Size c = foldl (\<lambda>n s. int64 (n + Len (s_list s))) 0 (c_shards c)"

definition Snapshot :: "'v cache \<Rightarrow> int \<times> int \<times> int \<times> int \<times> int" where
  "Snapshot c =
     (c_metrics c Hits, c_metrics c Misses, c_metrics c Evictions, c_metrics c Stores, c_metrics c Deletes)"

section \<open>Traces\<close>

datatype 'v cache_op = OpGet gokey | OpSet gokey 'v | OpSetTTL gokey 'v int | OpDelete gokey | OpPurge | OpSize | OpSnapshot

datatype 'v cache_result = RGet "'v option" | RUnit | RDelete bool | RSize int | RSnapshot "int \<times> int \<times> int \<times> int \<times> int"

fun cache_step :: "(nat \<Rightarrow> string) \<Rightarrow> int \<Rightarrow> 'v cache_op \<Rightarrow> 'v cache \<Rightarrow> ('v cache \<times> 'v cache_result) option" where
  "cache_step sp now (OpGet k) c = map_option (\<lambda>(c, r). (c, RGet r)) (Get sp now k c)"
| "cache_step sp now (OpSet k v) c = map_option (\<lambda>c. (c, RUnit)) (Set sp now k v c)"
| "cache_step sp now (OpSetTTL k v ttl) c = map_option (\<lambda>c. (c, RUnit)) (SetWithTTL sp now k v ttl c)"
| "cache_step sp now (OpDelete k) c = map_option (\<lambda>(c, r). (c, RDelete r)) (Delete sp k c)"
| "cache_step sp now OpPurge c = map_option (\<lambda>c. (c, RUnit)) (Purge c)"
| "cache_step sp now OpSize c = Some (c, RSize (Size c))"
| "cache_step sp now OpSnapshot c = Some (c, RSnapshot (Snapshot c))"

fun cache_run :: "(nat \<Rightarrow> string) \<Rightarrow> (int \<times> 'v cache_op) list \<Rightarrow> 'v cache \<Rightarrow> ('v cache \<times> 'v cache_result list) option" where
  "cache_run sp [] c = Some (c, [])"
| "cache_run sp ((now, op) # tr) c = do {
     (c, r) \<leftarrow> cache_step sp now op c;
     (c, rs) \<leftarrow> cache_run sp tr c;
     Some (c, r # rs) }"

text \<open>The same over lists in the order of use.\<close>

record 'v lru_cache =
  a_shards :: "(gokey, 'v) lru list"
  a_cap :: int
  a_ttl :: int
  a_mask :: "64 word"
  a_metrics :: "metric \<Rightarrow> int"

definition lru_new :: "cache_config \<Rightarrow> 'v lru_cache" where
  "lru_new cfg = \<lparr>a_shards = replicate (nat (shard_count cfg)) [], a_cap = per_shard cfg, a_ttl = default_ttl cfg,
     a_mask = word_of_int (shard_count cfg - 1), a_metrics = (\<lambda>_. 0)\<rparr>"

definition lru_put :: "nat \<Rightarrow> (gokey, 'v) lru \<Rightarrow> metric list \<Rightarrow> 'v lru_cache \<Rightarrow> 'v lru_cache" where
  "lru_put i l ms a = a\<lparr>a_shards := (a_shards a)[i := l], a_metrics := add_metrics ms (a_metrics a)\<rparr>"

definition lru_expiry :: "int \<Rightarrow> int \<Rightarrow> int \<Rightarrow> int" where
  "lru_expiry defaultTTL now ttl = int64 (now + (if ttl \<le> 0 then defaultTTL else ttl))"

fun lru_step :: "(nat \<Rightarrow> string) \<Rightarrow> int \<Rightarrow> 'v cache_op \<Rightarrow> 'v lru_cache \<Rightarrow> 'v lru_cache \<times> 'v cache_result" where
  "lru_step sp now (OpGet k) a =
     (let i = shard_index sp (a_mask a) k; (l, ms, r) = lru_Get now k (a_shards a ! i) in (lru_put i l ms a, RGet r))"
| "lru_step sp now (OpSet k v) a =
     (let i = shard_index sp (a_mask a) k; (l, ms) = lru_Set (a_cap a) k v (lru_expiry (a_ttl a) now 0) (a_shards a ! i)
      in (lru_put i l ms a, RUnit))"
| "lru_step sp now (OpSetTTL k v ttl) a =
     (let i = shard_index sp (a_mask a) k; (l, ms) = lru_Set (a_cap a) k v (lru_expiry (a_ttl a) now ttl) (a_shards a ! i)
      in (lru_put i l ms a, RUnit))"
| "lru_step sp now (OpDelete k) a =
     (let i = shard_index sp (a_mask a) k; (l, ms, r) = lru_Delete k (a_shards a ! i) in (lru_put i l ms a, RDelete r))"
| "lru_step sp now OpPurge a = (a\<lparr>a_shards := map (\<lambda>_. []) (a_shards a)\<rparr>, RUnit)"
| "lru_step sp now OpSize a = (a, RSize (int (sum_list (map length (a_shards a)))))"
| "lru_step sp now OpSnapshot a =
     (a, RSnapshot (a_metrics a Hits, a_metrics a Misses, a_metrics a Evictions, a_metrics a Stores, a_metrics a Deletes))"

fun lru_run :: "(nat \<Rightarrow> string) \<Rightarrow> (int \<times> 'v cache_op) list \<Rightarrow> 'v lru_cache \<Rightarrow> 'v lru_cache \<times> 'v cache_result list" where
  "lru_run sp [] a = (a, [])"
| "lru_run sp ((now, op) # tr) a =
     (let (a, r) = lru_step sp now op a; (a, rs) = lru_run sp tr a in (a, r # rs))"

section \<open>The number of shards\<close>

lemma round_up_small: "0 < n \<Longrightarrow> n AND (n - 1) = 0 \<Longrightarrow> round_up n = n"
  by (simp add: round_up_def)

lemma halve_shards_pos: "1 \<le> m \<Longrightarrow> 0 < n \<Longrightarrow> 1 \<le> halve_shards m n \<and> 1 \<le> m div halve_shards m n"
proof (induction m n rule: halve_shards.induct)
  case (1 m n)
  show ?case
  proof (cases "1 < n \<and> m div n < 1")
    case True
    then have "halve_shards m n = halve_shards m (n div 2)" by (subst halve_shards.simps) simp
    moreover have "0 < n div 2" using True by linarith
    ultimately show ?thesis using 1(1) [OF True 1(2)] by simp
  next
    case False
    then have h: "halve_shards m n = n" unfolding halve_shards.simps [of m n] by (rule if_not_P)
    show ?thesis using False h 1(2,3) by (cases "n = 1") auto
  qed
qed

lemma halve_shards_neg: "n \<le> 0 \<Longrightarrow> halve_shards m n = n"
  by (subst halve_shards.simps) simp

lemma shard_capacity:
  assumes "0 < shard_count cfg"
  shows "1 \<le> per_shard cfg" "per_shard cfg * shard_count cfg \<le> effective_max cfg" "per_shard cfg \<le> effective_max cfg"
proof -
  let ?m = "effective_max cfg" and ?n = "shard_count cfg"
  have m: "1 \<le> ?m" by (simp add: effective_max_def)
  have "1 \<le> ?m div ?n"
  proof (cases "?m < 16")
    case False
    then have n: "?n = halve_shards ?m (round_up (if ShardCount cfg \<le> 0 then 16 else ShardCount cfg))"
      by (simp add: shard_count_def Let_def)
    then have "0 < round_up (if ShardCount cfg \<le> 0 then 16 else ShardCount cfg)"
      using halve_shards_neg assms by (metis not_le)
    then show ?thesis unfolding n using halve_shards_pos [OF m] by blast
  qed (use m in \<open>simp add: shard_count_def Let_def\<close>)
  then have p: "per_shard cfg = ?m div ?n" by (simp add: per_shard_def Let_def)
  then show "1 \<le> per_shard cfg" using \<open>1 \<le> ?m div ?n\<close> by simp
  show le: "per_shard cfg * ?n \<le> ?m" unfolding p using assms
    by (metis div_mult_mod_eq le_add_same_cancel1 pos_mod_sign)
  have "per_shard cfg * 1 \<le> per_shard cfg * ?n" using \<open>1 \<le> per_shard cfg\<close> assms by (intro mult_left_mono) auto
  then show "per_shard cfg \<le> ?m" using le by simp
qed

section \<open>Refinement\<close>

definition cache_rel :: "'v cache \<Rightarrow> 'v lru_cache \<Rightarrow> bool" where
  "cache_rel c a \<longleftrightarrow>
     list_all2 (\<lambda>s l. shard_rel s l \<and> s_max s = a_cap a \<and> s_ttl s = a_ttl a) (c_shards c) (a_shards a) \<and>
     c_mask c = a_mask a \<and> c_metrics c = a_metrics a \<and> unat (a_mask a) < length (a_shards a) \<and>
     a_cap a * int (length (a_shards a)) < 2 ^ 63"

lemma shard_index_less: "cache_rel c a \<Longrightarrow> shard_index sp (a_mask a) k < length (a_shards a)"
proof -
  assume r: "cache_rel c a"
  have "hashKey sp k AND a_mask a \<le> a_mask a" by (rule word_and_le1)
  then have "unat (hashKey sp k AND a_mask a) \<le> unat (a_mask a)" by (rule word_le_nat_alt [THEN iffD1])
  then show ?thesis using r by (simp add: cache_rel_def shard_index_def)
qed

lemma cache_rel_shard:
  fixes sp :: "nat \<Rightarrow> string" and k :: gokey
  assumes "cache_rel c a"
  defines "i \<equiv> shard_index sp (a_mask a) k"
  shows "c_shard sp k c = Some (c_shards c ! i)" "shard_rel (c_shards c ! i) (a_shards a ! i)"
    "s_max (c_shards c ! i) = a_cap a" "s_ttl (c_shards c ! i) = a_ttl a"
  using assms shard_index_less [OF assms(1), of sp k]
  by (auto simp: c_shard_def cache_rel_def list_all2_conv_all_nth Let_def)

lemma cache_rel_put:
  assumes "cache_rel c a" "shard_rel s l" "s_max s = a_cap a" "s_ttl s = a_ttl a"
  shows "cache_rel (put_shard sp k s ms c) (lru_put (shard_index sp (a_mask a) k) l ms a)"
  using assms unfolding cache_rel_def put_shard_def lru_put_def by (simp add: list_all2_update_cong)

lemma Set_step:
  fixes sp :: "nat \<Rightarrow> string" and k :: gokey
  assumes r: "cache_rel c a"
  defines "i \<equiv> shard_index sp (a_mask a) k"
  shows "\<exists>c'. SetWithTTL sp now k v ttl c = Some c' \<and>
    cache_rel c' (case lru_Set (a_cap a) k v (lru_expiry (a_ttl a) now ttl) (a_shards a ! i) of (l, ms) \<Rightarrow> lru_put i l ms a)"
proof -
  let ?s = "c_shards c ! i" and ?x = "lru_Set (a_cap a) k v (lru_expiry (a_ttl a) now ttl) (a_shards a ! i)"
  note s = cache_rel_shard [OF r, of sp k, folded i_def]
  have e: "expiry now ttl ?s = lru_expiry (a_ttl a) now ttl" using s(4) by (simp add: expiry_def lru_expiry_def)
  obtain s' where "shard_SetWithTTL now k v ttl ?s = Some (s', snd ?x)" "shard_rel s' (fst ?x)" "s_max s' = a_cap a" "s_ttl s' = a_ttl a"
    using Set_refines [OF s(2), of now k v ttl] e s(3,4) by auto
  then show ?thesis using s(1) cache_rel_put [OF r, of s' "fst ?x" sp k "snd ?x"] by (auto simp: SetWithTTL_def i_def split: prod.splits)
qed

lemma purge_shards_rel:
  "list_all2 (\<lambda>s l. shard_rel s l \<and> s_max s = m \<and> s_ttl s = t) ss ls \<Longrightarrow>
   \<exists>ss'. purge_shards ss = Some ss' \<and> list_all2 (\<lambda>s l. shard_rel s l \<and> s_max s = m \<and> s_ttl s = t) ss' (map (\<lambda>_. []) ls)"
proof (induction rule: list_all2_induct)
  case (Cons s ss l ls)
  then show ?case using Purge_refines [of s l] by auto
qed simp

lemma shard_rel_len: "shard_rel s l \<Longrightarrow> Len (s_list s) = int (length l) \<and> int (length l) \<le> s_max s"
  by (auto simp: shard_rel_def Len_def dll_def dest: rep_dll rep_max)

lemma cap_bound:
  assumes "list_all2 (\<lambda>s l. shard_rel s l \<and> s_max s = m \<and> s_ttl s = t) ss ls"
  shows "int (sum_list (map length ls)) \<le> m * int (length ls)"
  using assms
proof (induction rule: list_all2_induct)
  case (Cons s ss l ls)
  then show ?case using shard_rel_len [of s l] by (simp add: algebra_simps)
qed simp

lemma Size_sum:
  assumes "list_all2 (\<lambda>s l. shard_rel s l \<and> s_max s = m \<and> s_ttl s = t) ss ls"
    and "0 \<le> n" "n + int (sum_list (map length ls)) < 2 ^ 63"
  shows "foldl (\<lambda>n s. int64 (n + Len (s_list s))) n ss = n + int (sum_list (map length ls))"
  using assms
proof (induction arbitrary: n rule: list_all2_induct)
  case (Cons s ss l ls)
  then show ?case using shard_rel_len [of s l] by (simp add: int64_id)
qed simp

lemma Size_rel: "cache_rel c a \<Longrightarrow> Size c = int (sum_list (map length (a_shards a)))"
  unfolding Size_def using cap_bound [of "a_cap a" "a_ttl a" "c_shards c" "a_shards a"]
    Size_sum [of "a_cap a" "a_ttl a" "c_shards c" "a_shards a" 0]
  by (simp add: cache_rel_def)

lemma cache_step_refines:
  assumes r: "cache_rel c a"
  shows "\<exists>c'. cache_step sp now op c = Some (c', snd (lru_step sp now op a)) \<and> cache_rel c' (fst (lru_step sp now op a))"
proof (cases op)
  case (OpGet k)
  note s = cache_rel_shard [OF r, of sp k]
  show ?thesis
    using OpGet Get_refines [OF s(2), of now k] s cache_rel_put [OF r, of _ _ sp k]
    by (auto simp: Get_def Let_def split: prod.splits)
next
  case (OpSet k v)
  then show ?thesis using Set_step [OF r, of sp now k v 0] by (auto simp: Set_def Let_def split: prod.splits)
next
  case (OpSetTTL k v ttl)
  then show ?thesis using Set_step [OF r, of sp now k v ttl] by (auto simp: Let_def split: prod.splits)
next
  case (OpDelete k)
  note s = cache_rel_shard [OF r, of sp k]
  show ?thesis
    using OpDelete Delete_refines [OF s(2), of k] s cache_rel_put [OF r, of _ _ sp k]
    by (auto simp: Delete_def Let_def split: prod.splits)
next
  case OpPurge
  then show ?thesis using r purge_shards_rel [of "a_cap a" "a_ttl a" "c_shards c" "a_shards a"] by (auto simp: Purge_def cache_rel_def)
next
  case OpSize
  then show ?thesis using r Size_rel by simp
next
  case OpSnapshot
  then show ?thesis using r by (simp add: Snapshot_def cache_rel_def)
qed

lemma cache_run_refines:
  "cache_rel c a \<Longrightarrow> \<exists>c'. cache_run sp tr c = Some (c', snd (lru_run sp tr a)) \<and> cache_rel c' (fst (lru_run sp tr a))"
proof (induction sp tr a arbitrary: c rule: lru_run.induct)
  case (2 sp now op tr a)
  obtain c1 where c1: "cache_step sp now op c = Some (c1, snd (lru_step sp now op a))" "cache_rel c1 (fst (lru_step sp now op a))"
    using cache_step_refines [OF 2(2)] by blast
  obtain a1 x where x: "lru_step sp now op a = (a1, x)" by (cases "lru_step sp now op a")
  then show ?case using 2(1) [OF x [symmetric] refl, of c1] c1 by (auto split: prod.splits)
qed simp

lemma unat_word_of_int: "0 \<le> x \<Longrightarrow> x < 2 ^ 64 \<Longrightarrow> unat (word_of_int x :: 64 word) = nat x"
  by (simp add: unat_eq_nat_uint uint_word_of_int_eq take_bit_int_eq_self)

lemma New_rel:
  assumes "New cfg = Some c" "MaxEntries cfg < 2 ^ 63"
  shows "cache_rel c (lru_new cfg)"
proof -
  let ?n = "shard_count cfg"
  have n: "0 < ?n" and c: "c = \<lparr>c_shards = replicate (nat ?n) (newShard (per_shard cfg) (default_ttl cfg)),
      c_mask = word_of_int (?n - 1), c_metrics = (\<lambda>_. 0)\<rparr>"
    using assms(1) by (auto simp: New_def Let_def split: if_splits)
  note cap = shard_capacity [OF n]
  have m: "effective_max cfg < 2 ^ 63" using assms(2) by (simp add: effective_max_def)
  have "shard_rel (newShard (per_shard cfg) (default_ttl cfg) :: (gokey, 'a) shard) []"
    unfolding shard_rel_def using newShard_rep [of "per_shard cfg"] cap m by fastforce
  moreover have "?n \<le> per_shard cfg * ?n" using cap(1) n by (simp add: mult_le_cancel_right1)
  then have "?n < 2 ^ 63" using cap(2) m by linarith
  then have "unat (word_of_int (?n - 1) :: 64 word) = nat (?n - 1)"
    using n by (intro unat_word_of_int) auto
  moreover have "per_shard cfg * ?n < 2 ^ 63" using cap(2) m by simp
  moreover have "s_max (newShard (per_shard cfg) (default_ttl cfg) :: (gokey, 'a) shard) = per_shard cfg"
      "s_ttl (newShard (per_shard cfg) (default_ttl cfg) :: (gokey, 'a) shard) = default_ttl cfg"
    by (simp_all add: newShard_def)
  ultimately show ?thesis
    using n unfolding c lru_new_def cache_rel_def by (simp add: list_all2_conv_all_nth)
qed

text \<open>C35. From its construction on, a cache answers every sequence of calls, without a nil dereference
  or an index out of range, exactly as the sharded lists in the order of use do, its counters included.\<close>

theorem cache_refines_lru:
  assumes "New cfg = Some c" "MaxEntries cfg < 2 ^ 63"
  shows "\<exists>c'. cache_run sp tr c = Some (c', snd (lru_run sp tr (lru_new cfg))) \<and> cache_rel c' (fst (lru_run sp tr (lru_new cfg)))"
  by (rule cache_run_refines [OF New_rel [OF assms]])

definition demo_config :: cache_config where
  "demo_config = \<lparr>MaxEntries = 2, DefaultTTL = 1000, ShardCount = 1\<rparr>"

definition demo_cache :: "nat cache" where
  "demo_cache = \<lparr>c_shards = [newShard 2 1000], c_mask = 0, c_metrics = (\<lambda>_. 0)\<rparr>"

lemma demo_cache_New: "New demo_config = Some demo_cache"
  by (simp add: New_def demo_config_def demo_cache_def shard_count_def per_shard_def effective_max_def default_ttl_def)

theorem cache_refines_lru_witness:
  "\<exists>c'. cache_run (\<lambda>_. '''') [(1, OpSet (KInt 1) 10), (2, OpGet (KInt 1))] demo_cache =
      Some (c', snd (lru_run (\<lambda>_. '''') [(1, OpSet (KInt 1) 10), (2, OpGet (KInt 1))] (lru_new demo_config))) \<and>
    cache_rel c' (fst (lru_run (\<lambda>_. '''') [(1, OpSet (KInt 1) 10), (2, OpGet (KInt 1))] (lru_new demo_config)))"
  by (rule cache_refines_lru [OF demo_cache_New]) (simp add: demo_config_def)

section \<open>Powers of two\<close>

lemma smear_step:
  assumes "\<And>i. bit (x :: 64 word) i \<longleftrightarrow> (\<exists>j < k. bit m (i + j))"
  shows "bit (x OR drop_bit k x) i \<longleftrightarrow> (\<exists>j < k + k. bit m (i + j))"
proof -
  have "bit (x OR drop_bit k x) i \<longleftrightarrow> (\<exists>j < k. bit m (i + j)) \<or> (\<exists>j < k. bit m (k + i + j))"
    by (simp add: bit_or_iff bit_drop_bit_eq assms)
  also have "\<dots> \<longleftrightarrow> (\<exists>j < k + k. bit m (i + j))"
  proof
    assume "(\<exists>j < k. bit m (i + j)) \<or> (\<exists>j < k. bit m (k + i + j))"
    then show "\<exists>j < k + k. bit m (i + j)"
    proof
      assume "\<exists>j < k. bit m (k + i + j)"
      then obtain j where "j < k" "bit m (k + i + j)" by blast
      then show ?thesis by (intro exI [of _ "k + j"]) (simp add: ac_simps)
    qed (use trans_less_add1 in blast)
  next
    assume "\<exists>j < k + k. bit m (i + j)"
    then obtain j where j: "j < k + k" "bit m (i + j)" by blast
    show "(\<exists>j < k. bit m (i + j)) \<or> (\<exists>j < k. bit m (k + i + j))"
    proof (cases "j < k")
      case False
      then have "j - k < k \<and> bit m (k + i + (j - k))" using j by (simp add: ac_simps)
      then show ?thesis by blast
    qed (use j in blast)
  qed
  finally show ?thesis .
qed

lemma bit_smear: "bit (smear m) i \<longleftrightarrow> (\<exists>j < 32. bit m (i + j))"
proof -
  define x1 where "x1 = m OR drop_bit 1 m"
  define x2 where "x2 = x1 OR drop_bit 2 x1"
  define x4 where "x4 = x2 OR drop_bit 4 x2"
  define x8 where "x8 = x4 OR drop_bit 8 x4"
  have "bit x1 i \<longleftrightarrow> (\<exists>j < 2. bit m (i + j))" for i using smear_step [of m 1 m] by (simp add: x1_def numeral_2_eq_2)
  then have "bit x2 i \<longleftrightarrow> (\<exists>j < 4. bit m (i + j))" for i using smear_step [of x1 2 m] by (simp add: x2_def)
  then have "bit x4 i \<longleftrightarrow> (\<exists>j < 8. bit m (i + j))" for i using smear_step [of x2 4 m] by (simp add: x4_def)
  then have "bit x8 i \<longleftrightarrow> (\<exists>j < 16. bit m (i + j))" for i using smear_step [of x4 8 m] by (simp add: x8_def)
  then show ?thesis using smear_step [of x8 16 m] by (simp add: smear_def x1_def x2_def x4_def x8_def Let_def)
qed

lemma top_bit:
  assumes "(m :: 64 word) \<noteq> 0"
  shows "\<exists>t. bit m t \<and> (\<forall>i > t. \<not> bit m i)"
proof -
  let ?B = "{i. bit m i}"
  have fin: "finite ?B" by (rule finite_subset [of _ "{..<64}"]) (auto dest: bit_imp_le_length)
  have "?B \<noteq> {}" using assms by (auto simp: bit_eq_iff)
  then have "bit m (Max ?B)" using Max_in [OF fin] by simp
  moreover have "\<not> bit m i" if "Max ?B < i" for i
    using that Max_ge [OF fin, of i] by (meson leD mem_Collect_eq)
  ultimately show ?thesis by blast
qed

lemma smear_mask:
  assumes "bit m t" "\<forall>i > t. \<not> bit m i" "t < 32"
  shows "smear m = mask (t + 1)"
proof (rule bit_word_eqI)
  fix i :: nat
  have "(\<exists>j < 32. bit m (i + j)) \<longleftrightarrow> i \<le> t"
  proof
    assume "i \<le> t"
    then show "\<exists>j < 32. bit m (i + j)" using assms(1,3) by (intro exI [of _ "t - i"]) simp
  next
    assume "\<exists>j < 32. bit m (i + j)"
    then show "i \<le> t" using assms(2) by (meson le_add1 not_le order.trans)
  qed
  then show "i < LENGTH(64) \<Longrightarrow> bit (smear m) i = bit (mask (t + 1) :: 64 word) i"
    by (auto simp: bit_smear bit_mask_iff)
qed

lemma sint_pow: "k < 63 \<Longrightarrow> sint (2 ^ k :: 64 word) = 2 ^ k"
proof -
  assume k: "k < 63"
  have "(2 ^ k :: 64 word) = word_of_int (2 ^ k)" by simp
  moreover have "(2 :: int) ^ k < 2 ^ 63" using k by (intro power_strict_increasing) simp_all
  moreover have "- (2 ^ 63) \<le> (2 :: int) ^ k" by (rule order.trans [of _ 0]) simp_all
  ultimately have "signed_take_bit 63 ((2 :: int) ^ k) = 2 ^ k" by (intro signed_take_bit_int_eq_self)
  moreover have "sint (word_of_int (2 ^ k) :: 64 word) = signed_take_bit 63 (2 ^ k)" by (simp only: sint_sbintrunc') simp
  ultimately show ?thesis by simp
qed

lemma pow_ivl: "1 \<le> (x :: nat) \<Longrightarrow> \<exists>t. 2 ^ t \<le> x \<and> x < 2 ^ Suc t"
proof (induction x rule: less_induct)
  case (less x)
  show ?case
  proof (cases "x = 1")
    case False
    then have "1 \<le> x div 2" "x div 2 < x" using less(2) by auto
    then obtain t where "2 ^ t \<le> x div 2" "x div 2 < 2 ^ Suc t" using less(1) by blast
    then show ?thesis by (intro exI [of _ "Suc t"]) auto
  qed (auto intro: exI [of _ 0])
qed

lemma and_pred_pow:
  assumes "0 < (n :: int)" "n AND (n - 1) = 0"
  shows "\<exists>t. n = 2 ^ t"
proof -
  have "1 \<le> nat n" using assms(1) by simp
  then obtain t where "2 ^ t \<le> nat n" "nat n < 2 ^ Suc t" using pow_ivl by blast
  then have t: "2 ^ t \<le> n" "n < 2 * 2 ^ t" using assms(1) by (simp_all add: le_nat_iff nat_less_iff)
  have b: "bit x t" if "2 ^ t \<le> x" "x < 2 * 2 ^ t" for x :: int
  proof -
    have "x div 2 ^ t = 1" using that by (intro int_div_pos_eq [of _ _ _ "x - 2 ^ t"]) auto
    then show ?thesis by (simp add: bit_iff_odd)
  qed
  have "n = 2 ^ t"
  proof (rule ccontr)
    assume "n \<noteq> 2 ^ t"
    then have "bit (n AND (n - 1)) t" using b [of n] b [of "n - 1"] t by (simp add: bit_and_iff)
    then show False using assms(2) by simp
  qed
  then show ?thesis ..
qed

lemma round_up_pow:
  assumes "0 < n" "n \<le> 2 ^ 32"
  shows "\<exists>k. round_up n = 2 ^ k"
proof (cases "n AND (n - 1) = 0")
  case True
  then show ?thesis using and_pred_pow [OF assms(1) True] by (simp add: round_up_def)
next
  case False
  then have "n \<noteq> 1" by auto
  let ?m = "word_of_int n - 1 :: 64 word"
  have m: "?m = word_of_int (n - 1)" by simp
  have "n - 1 < 2 ^ 32" using assms(2) by simp
  then have "take_bit 32 (n - 1) = n - 1" using assms(1) by (intro take_bit_int_eq_self) auto
  then have low: "bit ?m i \<Longrightarrow> i < 32" for i
    unfolding m by (metis bit_take_bit_iff bit_word_of_int_iff)
  have "unat ?m = nat (n - 1)" unfolding m using assms by (intro unat_word_of_int) auto
  then have "?m \<noteq> 0" using assms(1) \<open>n \<noteq> 1\<close> by auto
  then obtain t where t: "bit ?m t" "\<forall>i > t. \<not> bit ?m i" using top_bit by blast
  have "smear ?m + 1 = 2 ^ (t + 1)"
    using smear_mask [OF t low [OF t(1)]] by (simp add: mask_eq_exp_minus_1)
  then have "round_up n = 2 ^ (t + 1)"
    using False sint_pow [of "t + 1"] low [OF t(1)] by (simp add: round_up_def)
  then show ?thesis ..
qed

lemma halve_shards_pow: "n = 2 ^ k \<Longrightarrow> \<exists>j. halve_shards m n = 2 ^ j"
proof (induction m n arbitrary: k rule: halve_shards.induct)
  case (1 m n)
  show ?case
  proof (cases "1 < n \<and> m div n < 1")
    case True
    then obtain i where "k = Suc i" using 1(2) by (cases k) auto
    then have "n div 2 = 2 ^ i" using 1(2) by simp
    moreover have "halve_shards m n = halve_shards m (n div 2)" using True by (subst halve_shards.simps) simp
    ultimately show ?thesis using 1(1) [OF True, of i] by simp
  next
    case False
    then have "halve_shards m n = n" unfolding halve_shards.simps [of m n] by (rule if_not_P)
    then show ?thesis using 1(2) by blast
  qed
qed

text \<open>With a requested count of at most \<open>2 ^ 32\<close> the construction succeeds, the number of shards is a
  power of two, every shard has room for an entry, and together they hold no more than the configured
  maximum.\<close>

lemma cache_shard_layout:
  assumes "ShardCount cfg \<le> 2 ^ 32"
  shows "\<exists>k c. New cfg = Some (c :: 'v cache) \<and> length (c_shards c) = 2 ^ k \<and>
    1 \<le> per_shard cfg \<and> per_shard cfg * 2 ^ k \<le> effective_max cfg"
proof -
  let ?r = "if ShardCount cfg \<le> 0 then 16 else ShardCount cfg"
  have "0 < ?r" "?r \<le> 2 ^ 32" using assms by simp_all
  then obtain j where "round_up ?r = 2 ^ j" using round_up_pow by blast
  then obtain k where k: "shard_count cfg = 2 ^ k"
    using halve_shards_pow [of "round_up ?r" j "effective_max cfg"]
    by (cases "effective_max cfg < 16") (auto simp: shard_count_def Let_def intro: that [of 0])
  then have "0 < shard_count cfg" by simp
  then show ?thesis
    using shard_capacity [of cfg] k
    by (intro exI [of _ k]) (simp add: New_def Let_def nat_power_eq)
qed

lemma cache_shard_layout_example:
  "\<exists>k c. New demo_config = Some (c :: nat cache) \<and> length (c_shards c) = 2 ^ k \<and>
    1 \<le> per_shard demo_config \<and> per_shard demo_config * 2 ^ k \<le> effective_max demo_config"
  by (rule cache_shard_layout) (simp add: demo_config_def)

section \<open>What a cache returns\<close>

text \<open>The last value stored under a key with its expiry, if nothing removed it since.\<close>

fun note_op :: "int \<Rightarrow> int \<Rightarrow> 'v cache_op \<Rightarrow> (gokey \<Rightarrow> ('v \<times> int) option) \<Rightarrow> (gokey \<Rightarrow> ('v \<times> int) option)" where
  "note_op d now (OpSet k v) L = L(k \<mapsto> (v, lru_expiry d now 0))"
| "note_op d now (OpSetTTL k v ttl) L = L(k \<mapsto> (v, lru_expiry d now ttl))"
| "note_op d now (OpDelete k) L = L(k := None)"
| "note_op d now OpPurge L = (\<lambda>_. None)"
| "note_op d now _ L = L"

definition history :: "int \<Rightarrow> (int \<times> 'v cache_op) list \<Rightarrow> gokey \<Rightarrow> ('v \<times> int) option" where
  "history d tr = fold (\<lambda>(now, op) L. note_op d now op L) tr (\<lambda>_. None)"

text \<open>Every entry is in the shard of its key and holds the last value.\<close>

definition coherent :: "(nat \<Rightarrow> string) \<Rightarrow> 'v lru_cache \<Rightarrow> (gokey \<Rightarrow> ('v \<times> int) option) \<Rightarrow> bool" where
  "coherent sp a L \<longleftrightarrow>
     (\<forall>j < length (a_shards a). \<forall>(k, v, e) \<in> set (a_shards a ! j). shard_index sp (a_mask a) k = j \<and> L k = Some (v, e))"

lemma coherentD:
  "coherent sp a L \<Longrightarrow> j < length (a_shards a) \<Longrightarrow> (k, v, e) \<in> set (a_shards a ! j) \<Longrightarrow>
   shard_index sp (a_mask a) k = j \<and> L k = Some (v, e)"
  unfolding coherent_def by blast

text \<open>Replacing the shard of a key by one that holds at most the last value of that key.\<close>

lemma coherent_put:
  assumes co: "coherent sp a L" and i: "i = shard_index sp (a_mask a) k" "i < length (a_shards a)"
    and old: "\<And>x v e. (x, v, e) \<in> set l \<Longrightarrow> x \<noteq> k \<Longrightarrow> (x, v, e) \<in> set (a_shards a ! i)"
    and new: "\<And>v e. (k, v, e) \<in> set l \<Longrightarrow> L' k = Some (v, e)" and same: "\<And>x. x \<noteq> k \<Longrightarrow> L' x = L x"
  shows "coherent sp (lru_put i l ms a) L'"
proof -
  have "shard_index sp (a_mask a) x = j \<and> L' x = Some (v, e)"
    if j: "j < length (a_shards a)" "(x, v, e) \<in> set ((a_shards a)[i := l] ! j)" for j x v e
  proof (cases "j = i")
    case True
    then have x: "(x, v, e) \<in> set l" using j i(2) by simp
    show ?thesis
    proof (cases "x = k")
      case False
      then show ?thesis using coherentD [OF co i(2) old [OF x False]] same [OF False] True by simp
    qed (use x new i(1) True in simp)
  next
    case False
    then have x: "shard_index sp (a_mask a) x = j \<and> L x = Some (v, e)" using coherentD [OF co j(1)] j(2) by simp
    then have "x \<noteq> k" using False i(1) by blast
    then show ?thesis using x same by simp
  qed
  then show ?thesis unfolding coherent_def lru_put_def by fastforce
qed

lemma set_lru_remove: "(x, v, e) \<in> set (lru_remove k l) \<longleftrightarrow> x \<noteq> k \<and> (x, v, e) \<in> set l"
  by (auto simp: lru_remove_def)

lemma lru_Set_entries:
  assumes "(x, w, f) \<in> set (fst (lru_Set cap k v e l))"
  shows "x \<noteq> k \<longrightarrow> (x, w, f) \<in> set l" "x = k \<longrightarrow> w = v \<and> f = e"
proof -
  have "set (butlast l) \<subseteq> set l" by (meson in_set_butlastD subsetI)
  then show "x \<noteq> k \<longrightarrow> (x, w, f) \<in> set l" "x = k \<longrightarrow> w = v \<and> f = e"
    using assms
    by (auto simp: lru_Set_def set_lru_remove split: if_splits) (force dest: in_set_butlastD)+
qed

lemma lru_Get_entries: "(x, w, f) \<in> set (fst (lru_Get now k l)) \<Longrightarrow> (x, w, f) \<in> set l"
  by (auto simp: lru_Get_def set_lru_remove map_of_SomeD split: option.splits if_splits)

lemma lru_step_coherent:
  assumes co: "coherent sp a L" and i: "\<And>k. shard_index sp (a_mask a) k < length (a_shards a)"
  shows "coherent sp (fst (lru_step sp now op a)) (note_op (a_ttl a) now op L)"
proof (cases op)
  case (OpGet k)
  let ?i = "shard_index sp (a_mask a) k"
  have "coherent sp (lru_put ?i (fst (lru_Get now k (a_shards a ! ?i))) ms a) L" for ms
  proof (rule coherent_put [OF co refl i])
    show "L k = Some (v, e)" if "(k, v, e) \<in> set (fst (lru_Get now k (a_shards a ! ?i)))" for v e
      using coherentD [OF co i lru_Get_entries [OF that]] by blast
  qed (erule lru_Get_entries, rule refl)
  then show ?thesis using OpGet by (auto simp: Let_def split: prod.splits)
next
  case (OpDelete k)
  let ?i = "shard_index sp (a_mask a) k"
  have "coherent sp (lru_put ?i (fst (lru_Delete k (a_shards a ! ?i))) ms a) (L(k := None))" for ms
    by (rule coherent_put [OF co refl i]) (force simp: lru_Delete_def set_lru_remove split: if_splits)+
  then show ?thesis using OpDelete by (auto simp: Let_def split: prod.splits)
next
  case (OpSet k v)
  let ?i = "shard_index sp (a_mask a) k" and ?e = "lru_expiry (a_ttl a) now 0"
  have "coherent sp (lru_put ?i (fst (lru_Set (a_cap a) k v ?e (a_shards a ! ?i))) ms a) (L(k \<mapsto> (v, ?e)))" for ms
    using i lru_Set_entries by (intro coherent_put [OF co refl]) (fastforce | simp)+
  then show ?thesis using OpSet by (auto simp: Let_def split: prod.splits)
next
  case (OpSetTTL k v ttl)
  let ?i = "shard_index sp (a_mask a) k" and ?e = "lru_expiry (a_ttl a) now ttl"
  have "coherent sp (lru_put ?i (fst (lru_Set (a_cap a) k v ?e (a_shards a ! ?i))) ms a) (L(k \<mapsto> (v, ?e)))" for ms
    using i lru_Set_entries by (intro coherent_put [OF co refl]) (fastforce | simp)+
  then show ?thesis using OpSetTTL by (auto simp: Let_def split: prod.splits)
qed (use co in \<open>auto simp: coherent_def\<close>)

text \<open>The shape of a cache does not change.\<close>

lemma lru_step_shape:
  "a_mask (fst (lru_step sp now op a)) = a_mask a \<and> a_ttl (fst (lru_step sp now op a)) = a_ttl a \<and>
   a_cap (fst (lru_step sp now op a)) = a_cap a \<and>
   length (a_shards (fst (lru_step sp now op a))) = length (a_shards a)"
  by (cases op) (auto simp: Let_def lru_put_def split: prod.splits)

lemma lru_run_Cons: "fst (lru_run sp ((now, op) # tr) a) = fst (lru_run sp tr (fst (lru_step sp now op a)))"
  by (simp split: prod.splits)

lemma lru_run_shape:
  "a_mask (fst (lru_run sp tr a)) = a_mask a \<and> a_ttl (fst (lru_run sp tr a)) = a_ttl a \<and>
   a_cap (fst (lru_run sp tr a)) = a_cap a \<and> length (a_shards (fst (lru_run sp tr a))) = length (a_shards a)"
proof (induction tr arbitrary: a)
  case (Cons x tr)
  then show ?case by (cases x) (simp add: lru_run_Cons lru_step_shape del: lru_run.simps)
qed simp

lemma lru_run_coherent:
  assumes "coherent sp a L" "\<And>k. shard_index sp (a_mask a) k < length (a_shards a)"
  shows "coherent sp (fst (lru_run sp tr a)) (fold (\<lambda>(now, op) L. note_op (a_ttl a) now op L) tr L)"
  using assms
proof (induction tr arbitrary: a L)
  case (Cons x tr)
  obtain now op where x: "x = (now, op)" by (cases x)
  let ?a = "fst (lru_step sp now op a)"
  have "coherent sp (fst (lru_run sp tr ?a)) (fold (\<lambda>(now, op) L. note_op (a_ttl ?a) now op L) tr (note_op (a_ttl a) now op L))"
    using lru_step_coherent [OF Cons.prems] Cons.prems(2) lru_step_shape [of sp now op a] by (intro Cons.IH) auto
  then show ?case using lru_step_shape [of sp now op a] by (simp add: x lru_run_Cons del: lru_run.simps)
qed simp

text \<open>A hit returns the value that was stored last under the key, and not after its expiry: neither
  an overwritten, deleted or purged value nor one of another key.\<close>

lemma cache_coherent:
  assumes "New cfg = Some c" "MaxEntries cfg < 2 ^ 63"
    and "cache_run sp tr c = Some (c1, rs)" "Get sp now k c1 = Some (c2, Some v)"
  shows "\<exists>e. history (default_ttl cfg) tr k = Some (v, e) \<and> (0 < e \<longrightarrow> now \<le> e)"
proof -
  let ?init = "lru_new cfg :: 'a lru_cache" and ?fin = "fst (lru_run sp tr (lru_new cfg :: 'a lru_cache))"
  have r0: "cache_rel c ?init" by (rule New_rel [OF assms(1,2)])
  have r: "cache_rel c1 ?fin" using cache_run_refines [OF r0, of sp tr] assms(3) by auto
  have "coherent sp ?init (\<lambda>_. None)" by (simp add: coherent_def lru_new_def)
  then have co: "coherent sp ?fin (history (default_ttl cfg) tr)"
    using lru_run_coherent [of sp ?init "\<lambda>_. None" tr] shard_index_less [OF r0, of sp]
    by (simp add: history_def lru_new_def)
  let ?i = "shard_index sp (a_mask ?fin) k"
  have "snd (snd (lru_Get now k (a_shards ?fin ! ?i))) = Some v"
    using Get_refines [OF cache_rel_shard(2) [OF r, of sp k], of now k] cache_rel_shard(1) [OF r, of sp k] assms(4)
    by (auto simp: Get_def split: prod.splits)
  then obtain e where "map_of (a_shards ?fin ! ?i) k = Some (v, e)" "\<not> (0 < e \<and> e < now)"
    by (auto simp: lru_Get_def split: option.splits if_splits)
  then show ?thesis using coherentD [OF co shard_index_less [OF r]] by (metis map_of_SomeD not_le)
qed

text \<open>C36. However it is used, a cache never holds more entries than it was configured for.\<close>

theorem cache_bounded:
  assumes "New cfg = Some c" "MaxEntries cfg < 2 ^ 63" "cache_run sp tr c = Some (c', rs)"
  shows "0 \<le> Size c' \<and> Size c' \<le> effective_max cfg"
proof -
  let ?init = "lru_new cfg :: 'a lru_cache" and ?fin = "fst (lru_run sp tr (lru_new cfg :: 'a lru_cache))"
  have r0: "cache_rel c ?init" by (rule New_rel [OF assms(1,2)])
  have r: "cache_rel c' ?fin" using cache_run_refines [OF r0, of sp tr] assms(3) by auto
  have n: "0 < shard_count cfg" using assms(1) by (auto simp: New_def Let_def split: if_splits)
  have "int (sum_list (map length (a_shards ?fin))) \<le> a_cap ?fin * int (length (a_shards ?fin))"
    using r cap_bound [of "a_cap ?fin" "a_ttl ?fin"] by (auto simp: cache_rel_def)
  also have "\<dots> = per_shard cfg * shard_count cfg"
    using lru_run_shape [of sp tr ?init] n by (simp add: lru_new_def)
  also have "\<dots> \<le> effective_max cfg" by (rule shard_capacity(2) [OF n])
  finally show ?thesis using Size_rel [OF r] by simp
qed

definition demo_trace :: "(int \<times> nat cache_op) list" where
  "demo_trace = [(1, OpSet (KInt 1) 10), (2, OpSet (KInt 2) 20), (3, OpGet (KInt 1)), (4, OpSet (KInt 3) 30)]"

lemma demo_run:
  "case cache_run (\<lambda>_. '''') demo_trace demo_cache of
     None \<Rightarrow> False
   | Some (c1, rs) \<Rightarrow> (case Get (\<lambda>_. '''') 5 (KInt 1) c1 of None \<Rightarrow> False | Some (c2, r) \<Rightarrow> r = Some 10)"
  by code_simp

lemma cache_coherent_example:
  "\<exists>e. history (default_ttl demo_config) demo_trace (KInt 1) = Some (10, e) \<and> (e \<le> 0 \<or> 5 \<le> e)"
proof -
  obtain c1 rs c2 where r: "cache_run (\<lambda>_. '''') demo_trace demo_cache = Some (c1, rs)" "Get (\<lambda>_. '''') 5 (KInt 1) c1 = Some (c2, Some 10)"
    using demo_run by (auto split: option.splits prod.splits)
  have "MaxEntries demo_config < 2 ^ 63" by (simp add: demo_config_def)
  from cache_coherent [OF demo_cache_New this r] show ?thesis by (auto simp: not_less)
qed

theorem cache_bounded_witness: "\<exists>c' rs. cache_run (\<lambda>_. '''') demo_trace demo_cache = Some (c', rs) \<and> 0 \<le> Size c' \<and> Size c' \<le> effective_max demo_config"
proof -
  obtain c1 rs where r: "cache_run (\<lambda>_. '''') demo_trace demo_cache = Some (c1, rs)"
    using demo_run by (auto split: option.splits prod.splits)
  have "MaxEntries demo_config < 2 ^ 63" by (simp add: demo_config_def)
  from cache_bounded [OF demo_cache_New this r] r show ?thesis by blast
qed

end
