(* ===== verification/DPoPStore.thy ===== *)
theory DPoPStore
  imports Encoding SingleUse
begin

text \<open>
  The nonces and replay records of \<^verbatim>\<open>internal/dpop/store.go\<close>: the two tables, the committed
  statements with their bounded cleanup, the operations with every way a replicated statement or a
  query can fail and with what other nodes commit in between, and the machine of committed statements.
\<close>

section \<open>Tables\<close>

record nonce_row =
  n_digest :: string
  n_client :: string
  n_jkt :: string
  n_expires :: millis
  n_consumed :: "string option"
  n_created :: millis

record replay_row =
  p_digest :: string
  p_expires :: millis
  p_attempt :: string
  p_created :: millis

record dpop_db =
  nonces :: "nonce_row list"
  replays :: "replay_row list"

definition dpop_ok :: "dpop_db \<Rightarrow> bool" where
  "dpop_ok db \<longleftrightarrow> sql_unique n_digest (nonces db) \<and> sql_unique p_digest (replays db)"

definition DefaultNonceTTL :: millis where
  "DefaultNonceTTL = 300000"

section \<open>Statements\<close>

text \<open>A deletion of the oldest 128 rows that are expired at a cutoff.\<close>

definition drop_expired :: "('r \<Rightarrow> string) \<Rightarrow> ('r \<Rightarrow> millis) \<Rightarrow> millis \<Rightarrow> 'r list \<Rightarrow> 'r list" where
  "drop_expired key expires cutoff t =
     sql_delete (\<lambda>r. key r \<in> set (map key (sql_oldest 128 expires (\<lambda>r. expires r \<le> cutoff) t))) t"

definition expiredCleanup :: "millis \<Rightarrow> dpop_db \<Rightarrow> dpop_db" where
  "expiredCleanup now db =
     db\<lparr>nonces := drop_expired n_digest n_expires now (nonces db),
        replays := drop_expired p_digest p_expires now (replays db)\<rparr>"

text \<open>The primary key rejects a second row, and with it the cleanup of the same transaction.\<close>

definition nonce_insert :: "nonce_row \<Rightarrow> millis \<Rightarrow> dpop_db mutation" where
  "nonce_insert row now db =
     (let db1 = expiredCleanup now db
      in if sql_exists (\<lambda>r. n_digest r = n_digest row) (nonces db1) then None
         else Some (db1\<lparr>nonces := nonces db1 @ [row]\<rparr>, 1))"

definition consumable :: "string \<Rightarrow> string \<Rightarrow> string \<Rightarrow> millis \<Rightarrow> nonce_row \<Rightarrow> bool" where
  "consumable d client jkt now r \<longleftrightarrow>
     n_digest r = d \<and> n_client r = client \<and> n_jkt r = jkt \<and> now < n_expires r \<and> n_consumed r = None"

definition nonce_consume :: "string \<Rightarrow> string \<Rightarrow> string \<Rightarrow> string \<Rightarrow> millis \<Rightarrow> dpop_db mutation" where
  "nonce_consume attempt d client jkt now db =
     (let db1 = expiredCleanup now db; p = consumable d client jkt now
      in Some (db1\<lparr>nonces := sql_update p (\<lambda>r. r\<lparr>n_consumed := Some attempt\<rparr>) (nonces db1)\<rparr>, sql_count p (nonces db1)))"

definition replay_upsert :: "replay_row \<Rightarrow> millis \<Rightarrow> dpop_db mutation" where
  "replay_upsert row now db =
     (let db1 = expiredCleanup now db
      in if sql_exists (\<lambda>r. p_digest r = p_digest row) (replays db1)
         then Some (db1\<lparr>replays := sql_update (\<lambda>r. p_digest r = p_digest row \<and> p_expires r \<le> now)
                          (\<lambda>r. r\<lparr>p_expires := p_expires row, p_attempt := p_attempt row, p_created := p_created row\<rparr>)
                          (replays db1)\<rparr>,
                    sql_count (\<lambda>r. p_digest r = p_digest row \<and> p_expires r \<le> now) (replays db1))
         else Some (db1\<lparr>replays := replays db1 @ [row]\<rparr>, 1))"

section \<open>Operations\<close>

datatype dpop_err = DInvalid | DReplay | DCollision | DRand | DExec exec_err | DQuery

text \<open>How the calls of an operation to the database go: the outcome of its statement, what others commit
  before its first and its second query, and whether these fail.\<close>

record dpop_env =
  d_rand :: "string option"
  d_exec :: exec_fault
  d_other :: "dpop_db \<Rightarrow> dpop_db"
  d_query_fails :: bool
  d_other2 :: "dpop_db \<Rightarrow> dpop_db"
  d_query2_fails :: bool

definition valueDigest :: "prims \<Rightarrow> string \<Rightarrow> string" where
  "valueDigest P v = digest P v"

definition replay_input :: "string \<Rightarrow> string \<Rightarrow> string" where
  "replay_input jkt jti = len_prefixed jkt @ len_prefixed jti"

definition replayDigest :: "prims \<Rightarrow> string \<Rightarrow> string \<Rightarrow> string" where
  "replayDigest P jkt jti = valueDigest P (replay_input jkt jti)"

definition mutationID :: "prims \<Rightarrow> string \<Rightarrow> string list \<Rightarrow> string" where
  "mutationID P prefix values = prefix @ ''/'' @ take 32 (valueDigest P (concat (map len_prefixed values)))"

definition randomValue :: "string option \<Rightarrow> string option" where
  "randomValue entropy = map_option b64_encode entropy"

definition randomAttempt :: "prims \<Rightarrow> string \<Rightarrow> string \<Rightarrow> string option \<Rightarrow> string option" where
  "randomAttempt P prefix v entropy = map_option (\<lambda>e. mutationID P prefix [v, e]) (randomValue entropy)"

definition reconcileNonceIssue :: "string \<Rightarrow> string \<Rightarrow> string \<Rightarrow> millis \<Rightarrow> dpop_db \<Rightarrow> bool \<times> bool" where
  "reconcileNonceIssue d client jkt expires db =
     (case sql_select (\<lambda>r. n_digest r = d) (nonces db) of
        [] \<Rightarrow> (False, False)
      | [r] \<Rightarrow> (n_client r = client \<and> n_jkt r = jkt \<and> n_expires r = expires, True)
      | _ \<Rightarrow> (False, True))"

definition nonceConsumedBy :: "string \<Rightarrow> string \<Rightarrow> string \<Rightarrow> string \<Rightarrow> millis \<Rightarrow> bool \<Rightarrow> dpop_db \<Rightarrow> bool" where
  "nonceConsumedBy d client jkt attempt now query_fails db =
     (\<not> query_fails \<and>
      (case sql_select (\<lambda>r. n_digest r = d) (nonces db) of
         [r] \<Rightarrow> n_client r = client \<and> n_jkt r = jkt \<and> n_consumed r = Some attempt \<and> now < n_expires r
       | _ \<Rightarrow> False))"

definition nonceFailure :: "string \<Rightarrow> string \<Rightarrow> string \<Rightarrow> millis \<Rightarrow> bool \<Rightarrow> dpop_db \<Rightarrow> dpop_err" where
  "nonceFailure d client jkt now query_fails db =
     (if query_fails then DInvalid
      else case sql_select (\<lambda>r. n_digest r = d) (nonces db) of
             [r] \<Rightarrow> if n_client r \<noteq> client \<or> n_jkt r \<noteq> jkt \<or> n_expires r \<le> now then DInvalid else DReplay
           | _ \<Rightarrow> DInvalid)"

definition reconcileReplay :: "string \<Rightarrow> millis \<Rightarrow> string \<Rightarrow> dpop_db \<Rightarrow> bool \<times> bool" where
  "reconcileReplay d expires attempt db =
     (case sql_select (\<lambda>r. p_digest r = d) (replays db) of
        [] \<Rightarrow> (False, False)
      | [r] \<Rightarrow> (p_expires r = expires \<and> p_attempt r = attempt, True)
      | _ \<Rightarrow> (False, True))"

fun issue_loop ::
  "prims \<Rightarrow> string \<Rightarrow> string \<Rightarrow> millis \<Rightarrow> (nat \<Rightarrow> dpop_env) \<Rightarrow> nat \<Rightarrow> nat \<Rightarrow> dpop_db \<Rightarrow> dpop_db \<times> (dpop_err + string)" where
  "issue_loop P client jkt now env i 0 db = (db, Inl DCollision)"
| "issue_loop P client jkt now env i (Suc left) db =
     (let e = env i in
      case randomValue (d_rand e) of None \<Rightarrow> (db, Inl DRand) | Some nonce \<Rightarrow>
      (let d = valueDigest P nonce;
           expires = now + DefaultNonceTTL;
           row = \<lparr>n_digest = d, n_client = client, n_jkt = jkt, n_expires = expires, n_consumed = None, n_created = now\<rparr>
       in case run_execute (d_exec e) (nonce_insert row now) db of (db1, response) \<Rightarrow>
          (let db2 = d_other e db1;
               (recovered, collision) = reconcileNonceIssue d client jkt expires db2
           in case response of
                Inr _ \<Rightarrow>
                  if d_query_fails e then (db2, Inl DQuery)
                  else if recovered then (db2, Inr nonce) else (db2, Inl DInvalid)
              | Inl x \<Rightarrow>
                  if d_query_fails e then (db2, Inl (DExec x))
                  else if recovered then (db2, Inr nonce)
                  else if \<not> collision then (db2, Inl (DExec x))
                  else issue_loop P client jkt now env (Suc i) left db2)))"

definition IssueNonce ::
  "prims \<Rightarrow> string \<Rightarrow> string \<Rightarrow> millis \<Rightarrow> (nat \<Rightarrow> dpop_env) \<Rightarrow> dpop_db \<Rightarrow> dpop_db \<times> (dpop_err + string)" where
  "IssueNonce P client jkt now env db =
     (if client = '''' \<or> jkt = '''' then (db, Inl DInvalid) else issue_loop P client jkt now env 0 4 db)"

definition ConsumeNonce ::
  "prims \<Rightarrow> string \<Rightarrow> string \<Rightarrow> string \<Rightarrow> millis \<Rightarrow> dpop_env \<Rightarrow> dpop_db \<Rightarrow> dpop_db \<times> (dpop_err + unit)" where
  "ConsumeNonce P nonce client jkt now e db =
     (if nonce = '''' \<or> client = '''' \<or> jkt = '''' then (db, Inl DInvalid)
      else let d = valueDigest P nonce in
        case randomAttempt P ''dpop-nonce-consume'' d (d_rand e) of None \<Rightarrow> (db, Inl DRand) | Some attempt \<Rightarrow>
        (case run_execute (d_exec e) (nonce_consume attempt d client jkt now) db of (db1, response) \<Rightarrow>
           (let db2 = d_other e db1 in
            if nonceConsumedBy d client jkt attempt now (d_query_fails e) db2 then (db2, Inr ())
            else case response of
                   Inl x \<Rightarrow> (db2, Inl (DExec x))
                 | Inr _ \<Rightarrow>
                     (let db3 = d_other2 e db2 in (db3, Inl (nonceFailure d client jkt now (d_query2_fails e) db3))))))"

definition MarkReplay ::
  "prims \<Rightarrow> string \<Rightarrow> string \<Rightarrow> millis \<Rightarrow> millis \<Rightarrow> dpop_env \<Rightarrow> dpop_db \<Rightarrow> dpop_db \<times> (dpop_err + unit)" where
  "MarkReplay P jkt jti now expiresAt e db =
     (if jkt = '''' \<or> jti = '''' \<or> expiresAt \<le> now then (db, Inl DInvalid)
      else let d = replayDigest P jkt jti in
        case randomAttempt P ''dpop-replay'' d (d_rand e) of None \<Rightarrow> (db, Inl DRand) | Some attempt \<Rightarrow>
        (let row = \<lparr>p_digest = d, p_expires = expiresAt, p_attempt = attempt, p_created = now\<rparr>
         in case run_execute (d_exec e) (replay_upsert row now) db of (db1, response) \<Rightarrow>
           (let db2 = d_other e db1;
                (applied, present) = reconcileReplay d expiresAt attempt db2;
                failure = (case response of Inl x \<Rightarrow> DExec x | Inr _ \<Rightarrow> if d_query_fails e then DQuery else DInvalid)
            in if d_query_fails e then (db2, Inl failure)
               else if applied then (db2, Inr ())
               else if present then (db2, Inl DReplay)
               else (db2, Inl failure))))"

section \<open>The machine of committed statements\<close>

datatype dpop_event =
    EvIssue nonce_row millis
  | EvUse string string string string millis
  | EvMark replay_row millis

fun dpop_event_stmt :: "dpop_event \<Rightarrow> dpop_db mutation" where
  "dpop_event_stmt (EvIssue row now) = nonce_insert row now"
| "dpop_event_stmt (EvUse attempt d client jkt now) = nonce_consume attempt d client jkt now"
| "dpop_event_stmt (EvMark row now) = replay_upsert row now"

definition dpop_apply :: "dpop_event \<Rightarrow> dpop_db \<Rightarrow> dpop_db" where
  "dpop_apply ev db = (case dpop_event_stmt ev db of None \<Rightarrow> db | Some (db', _) \<Rightarrow> db')"

section \<open>The tables as maps\<close>

abbreviation nonce_at :: "dpop_db \<Rightarrow> string \<Rightarrow> nonce_row option" where
  "nonce_at db d \<equiv> sql_lookup n_digest (nonces db) d"

abbreviation replay_at :: "dpop_db \<Rightarrow> string \<Rightarrow> replay_row option" where
  "replay_at db d \<equiv> sql_lookup p_digest (replays db) d"

text \<open>The cleanup removes no row that is alive at its cutoff and adds none.\<close>

lemma drop_expired_lookup:
  assumes "sql_unique key t"
  shows "sql_lookup key (drop_expired key ex c t) k = sql_lookup key t k \<or>
    sql_lookup key (drop_expired key ex c t) k = None \<and> (\<exists>r. sql_lookup key t k = Some r \<and> ex r \<le> c)"
proof (cases "sql_lookup key t k")
  case (Some r)
  let ?old = "map key (sql_oldest 128 ex (\<lambda>r. ex r \<le> c) t)"
  have r: "r \<in> set t" "key r = k" using sql_lookup_SomeD [OF Some] by auto
  have "ex r \<le> c" if old: "key r \<in> set ?old"
  proof -
    obtain x where "x \<in> set t" "ex x \<le> c" "key x = key r"
      using old set_sql_oldest_subset [of 128 ex "\<lambda>r. ex r \<le> c" t] by auto
    then show ?thesis using sql_unique_eq [OF assms _ r(1)] by blast
  qed
  then show ?thesis using Some by (auto simp: drop_expired_def sql_lookup_delete [OF assms])
qed (simp add: drop_expired_def sql_lookup_delete [OF assms])

lemma drop_expired_unique: "sql_unique key t \<Longrightarrow> sql_unique key (drop_expired key ex c t)"
  unfolding drop_expired_def by blast

lemma cleanup_ok: "dpop_ok db \<Longrightarrow> dpop_ok (expiredCleanup now db)"
  by (simp add: dpop_ok_def expiredCleanup_def drop_expired_unique)

lemma cleanup_nonce:
  assumes "dpop_ok db"
  shows "nonce_at (expiredCleanup now db) d = nonce_at db d \<or>
    nonce_at (expiredCleanup now db) d = None \<and> (\<exists>r. nonce_at db d = Some r \<and> n_expires r \<le> now)"
  using drop_expired_lookup [of n_digest "nonces db" n_expires now d] assms by (simp add: dpop_ok_def expiredCleanup_def)

lemma cleanup_replay:
  assumes "dpop_ok db"
  shows "replay_at (expiredCleanup now db) d = replay_at db d \<or>
    replay_at (expiredCleanup now db) d = None \<and> (\<exists>r. replay_at db d = Some r \<and> p_expires r \<le> now)"
  using drop_expired_lookup [of p_digest "replays db" p_expires now d] assms by (simp add: dpop_ok_def expiredCleanup_def)

section \<open>Effects of the statements\<close>

lemma dpop_apply_ok:
  assumes "dpop_ok db"
  shows "dpop_ok (dpop_apply ev db)"
proof -
  have c: "dpop_ok (expiredCleanup now db)" for now using cleanup_ok [OF assms] .
  then have u: "sql_unique n_digest (nonces (expiredCleanup now db))" "sql_unique p_digest (replays (expiredCleanup now db))" for now
    by (simp_all add: dpop_ok_def)
  show ?thesis
    using assms u
    by (cases ev)
       (auto simp: dpop_apply_def nonce_insert_def nonce_consume_def replay_upsert_def Let_def dpop_ok_def
         sql_unique_insert sql_exists_iff)
qed

lemma nonce_insert_at:
  "nonce_insert row now db = Some (db', n) \<Longrightarrow>
   nonce_at db' d = (if d = n_digest row then Some row else nonce_at (expiredCleanup now db) d)"
  by (auto simp: nonce_insert_def Let_def sql_lookup_append sql_exists_key_only split: if_splits option.splits)

lemma nonce_consume_at:
  "nonce_consume a d' client jkt now db = Some (db', n) \<Longrightarrow>
   nonce_at db' d =
     map_option (\<lambda>r. if consumable d' client jkt now r then r\<lparr>n_consumed := Some a\<rparr> else r) (nonce_at (expiredCleanup now db) d)"
  by (auto simp: nonce_consume_def Let_def sql_lookup_update)

lemma replay_upsert_at:
  "replay_upsert row now db = Some (db', n) \<Longrightarrow> d \<noteq> p_digest row \<Longrightarrow> replay_at db' d = replay_at (expiredCleanup now db) d"
  "replay_upsert row now db = Some (db', n) \<Longrightarrow>
   replay_at db' (p_digest row) =
     (case replay_at (expiredCleanup now db) (p_digest row) of
        None \<Rightarrow> Some row
      | Some r \<Rightarrow> if p_expires r \<le> now then Some (r\<lparr>p_expires := p_expires row, p_attempt := p_attempt row, p_created := p_created row\<rparr>)
                else Some r)"
proof -
  assume u: "replay_upsert row now db = Some (db', n)"
  let ?t = "replays (expiredCleanup now db)"
  let ?f = "\<lambda>r. r\<lparr>p_expires := p_expires row, p_attempt := p_attempt row, p_created := p_created row\<rparr>"
  let ?p = "\<lambda>r. p_digest r = p_digest row \<and> p_expires r \<le> now"
  have t: "replays db' = (if replay_at (expiredCleanup now db) (p_digest row) \<noteq> None then sql_update ?p ?f ?t else ?t @ [row])"
    using u by (auto simp: replay_upsert_def Let_def sql_exists_key_only split: if_splits)
  have at: "sql_lookup p_digest (sql_update ?p ?f ?t) k = map_option (\<lambda>r. if ?p r then ?f r else r) (sql_lookup p_digest ?t k)" for k
    by (rule sql_lookup_update) simp
  show "d \<noteq> p_digest row \<Longrightarrow> replay_at db' d = replay_at (expiredCleanup now db) d"
    using t by (cases "sql_lookup p_digest ?t d") (auto simp: at sql_lookup_append dest: sql_lookup_SomeD)
  show "replay_at db' (p_digest row) =
     (case replay_at (expiredCleanup now db) (p_digest row) of
        None \<Rightarrow> Some row
      | Some r \<Rightarrow> if p_expires r \<le> now then Some (?f r) else Some r)"
    using t by (cases "sql_lookup p_digest ?t (p_digest row)") (auto simp: at sql_lookup_append dest: sql_lookup_SomeD)
qed

lemma nonce_other_at:
  "replay_upsert row now db = Some (db', n) \<Longrightarrow> nonce_at db' d = nonce_at (expiredCleanup now db) d"
  by (auto simp: replay_upsert_def Let_def split: if_splits)

lemma replay_other_at:
  "nonce_insert nrow now db = Some (db', n) \<Longrightarrow> replay_at db' d = replay_at (expiredCleanup now db) d"
  "nonce_consume a d' client jkt now db = Some (db', n) \<Longrightarrow> replay_at db' d = replay_at (expiredCleanup now db) d"
  by (auto simp: nonce_insert_def nonce_consume_def Let_def split: if_splits)

section \<open>A nonce is used at most once\<close>

fun event_now :: "dpop_event \<Rightarrow> millis" where
  "event_now (EvIssue row now) = now"
| "event_now (EvUse a d client jkt now) = now"
| "event_now (EvMark row now) = now"

text \<open>Events of nodes whose clocks are before the horizon \<open>X\<close>, in which a nonce of digest \<open>d\<close> lives at
  least until \<open>X\<close>.\<close>

fun nonce_timely :: "string \<Rightarrow> millis \<Rightarrow> dpop_event \<Rightarrow> bool" where
  "nonce_timely d X (EvIssue row now) \<longleftrightarrow> now < X \<and> (n_digest row = d \<longrightarrow> X \<le> n_expires row)"
| "nonce_timely d X ev \<longleftrightarrow> event_now ev < X"

definition nonce_inv :: "string \<Rightarrow> millis \<Rightarrow> dpop_db \<Rightarrow> bool" where
  "nonce_inv d X db \<longleftrightarrow> dpop_ok db \<and> (\<forall>r. nonce_at db d = Some r \<longrightarrow> X \<le> n_expires r)"

fun uses :: "string \<Rightarrow> dpop_event \<Rightarrow> dpop_db \<Rightarrow> bool" where
  "uses d (EvUse a d' client jkt now) db \<longleftrightarrow>
     d' = d \<and> sql_exists (consumable d client jkt now) (nonces (expiredCleanup now db))"
| "uses d _ db \<longleftrightarrow> False"

definition used :: "string \<Rightarrow> dpop_db \<Rightarrow> bool" where
  "used d db \<longleftrightarrow> (\<exists>r. nonce_at db d = Some r \<and> n_consumed r \<noteq> None)"

lemma nonce_kept:
  assumes "nonce_inv d X db" "now < X"
  shows "nonce_at (expiredCleanup now db) d = nonce_at db d"
  using cleanup_nonce [of db now d] assms by (auto simp: nonce_inv_def)

lemma event_now_less: "nonce_timely d X ev \<Longrightarrow> event_now ev < X"
  by (cases ev) auto

lemma replay_upsert_commits: "\<exists>db' n. replay_upsert row now db = Some (db', n)"
  by (cases "sql_exists (\<lambda>r. p_digest r = p_digest row) (replays (expiredCleanup now db))")
     (simp_all add: replay_upsert_def Let_def)

lemma nonce_after:
  assumes "nonce_inv d X db" "nonce_timely d X ev"
  shows "nonce_at (dpop_apply ev db) d = nonce_at db d \<and>
      (\<forall>a client jkt now r. ev = EvUse a d client jkt now \<and> nonce_at db d = Some r \<longrightarrow> \<not> consumable d client jkt now r) \<or>
    (\<exists>row now. ev = EvIssue row now \<and> n_digest row = d \<and> nonce_at db d = None \<and> nonce_at (dpop_apply ev db) d = Some row) \<or>
    (\<exists>a client jkt now r. ev = EvUse a d client jkt now \<and> nonce_at db d = Some r \<and> consumable d client jkt now r \<and>
      nonce_at (dpop_apply ev db) d = Some (r\<lparr>n_consumed := Some a\<rparr>))"
proof (cases ev)
  case (EvIssue row now)
  have keep: "nonce_at (expiredCleanup now db) d = nonce_at db d" using assms EvIssue by (intro nonce_kept) auto
  show ?thesis
  proof (cases "nonce_insert row now db")
    case (Some x)
    then obtain db' n where i: "nonce_insert row now db = Some (db', n)" by (cases x) auto
    have "n_digest row = d \<Longrightarrow> nonce_at db d = None"
      using i keep by (auto simp: nonce_insert_def Let_def sql_exists_key_only split: if_splits)
    then show ?thesis using EvIssue i nonce_insert_at [OF i, of d] keep by (auto simp: dpop_apply_def)
  qed (use EvIssue in \<open>simp add: dpop_apply_def\<close>)
next
  case (EvUse a d' client jkt now)
  have keep: "nonce_at (expiredCleanup now db) d = nonce_at db d" using assms EvUse by (intro nonce_kept) auto
  obtain db' n where i: "nonce_consume a d' client jkt now db = Some (db', n)" by (simp add: nonce_consume_def Let_def)
  have a: "dpop_apply ev db = db'" using EvUse i by (simp add: dpop_apply_def)
  note at = nonce_consume_at [OF i, of d, unfolded keep]
  show ?thesis
  proof (cases "\<exists>r. nonce_at db d = Some r \<and> consumable d' client jkt now r")
    case True
    then obtain r where r: "nonce_at db d = Some r" "consumable d' client jkt now r" by blast
    have "d' = d" using sql_lookup_SomeD [OF r(1)] r(2) by (simp add: consumable_def)
    then show ?thesis using r at a EvUse by simp
  next
    case False
    then have "nonce_at db' d = nonce_at db d" using at by (cases "nonce_at db d") auto
    then show ?thesis using False a EvUse by auto
  qed
next
  case (EvMark row now)
  have keep: "nonce_at (expiredCleanup now db) d = nonce_at db d" using assms EvMark by (intro nonce_kept) auto
  obtain db' n where i: "replay_upsert row now db = Some (db', n)" using replay_upsert_commits by blast
  then show ?thesis using EvMark nonce_other_at [OF i, of d] keep by (auto simp: dpop_apply_def)
qed

lemma uses_iff:
  assumes "nonce_inv d X db" "nonce_timely d X ev"
  shows "uses d ev db \<longleftrightarrow>
    (\<exists>a client jkt now r. ev = EvUse a d client jkt now \<and> nonce_at db d = Some r \<and> consumable d client jkt now r)"
proof (cases ev)
  case (EvUse a d' client jkt now)
  have keep: "nonce_at (expiredCleanup now db) d = nonce_at db d" using assms EvUse by (intro nonce_kept) auto
  have u: "sql_unique n_digest (nonces (expiredCleanup now db))"
    using assms(1) cleanup_ok by (simp add: nonce_inv_def dpop_ok_def)
  have "sql_exists (consumable d client jkt now) (nonces (expiredCleanup now db)) \<longleftrightarrow>
      (case nonce_at db d of Some r \<Rightarrow> consumable d client jkt now r | None \<Rightarrow> False)"
    using sql_exists_key [OF u, of d "consumable d client jkt now"] keep
    by (auto simp: sql_exists_iff consumable_def sql_lookup_Some_iff [OF u] split: option.splits)
  then show ?thesis using EvUse by (auto split: option.splits)
qed auto

interpretation nonce: single_use dpop_apply "uses d" "used d" "nonce_inv d X" "nonce_timely d X" for d X
proof unfold_locales
  fix s e
  assume s: "nonce_inv d X s" and e: "nonce_timely d X e"
  note after = nonce_after [OF s e] and use = uses_iff [OF s e]
  have ok: "dpop_ok (dpop_apply e s)" using s dpop_apply_ok by (simp add: nonce_inv_def)
  have "X \<le> n_expires r" if "nonce_at (dpop_apply e s) d = Some r" for r
    using after s e that by (auto simp: nonce_inv_def)
  then show "nonce_inv d X (dpop_apply e s)" using ok by (simp add: nonce_inv_def)
  show "used d (dpop_apply e s)" if "uses d e s" using after use [THEN iffD1, OF that] by (auto simp: used_def)
  show "used d (dpop_apply e s)" if "used d s" using after that by (auto simp: used_def consumable_def)
  show "\<not> uses d e s" if "used d s" using use that by (auto simp: used_def consumable_def)
qed

fun nonce_uses :: "string \<Rightarrow> dpop_event list \<Rightarrow> dpop_db \<Rightarrow> nat" where
  "nonce_uses d [] db = 0"
| "nonce_uses d (ev # evs) db = (if uses d ev db then 1 else 0) + nonce_uses d evs (dpop_apply ev db)"

lemma nonce_uses_eq: "nonce_uses d evs db = nonce.winners d evs db"
  by (induction evs arbitrary: db) (simp_all add: nonce.winners.simps)

section \<open>A proof is accepted at most once\<close>

fun replay_timely :: "string \<Rightarrow> millis \<Rightarrow> dpop_event \<Rightarrow> bool" where
  "replay_timely d X (EvMark row now) \<longleftrightarrow> now < X \<and> (p_digest row = d \<longrightarrow> X \<le> p_expires row)"
| "replay_timely d X ev \<longleftrightarrow> event_now ev < X"

definition replay_inv :: "string \<Rightarrow> millis \<Rightarrow> dpop_db \<Rightarrow> bool" where
  "replay_inv d X db \<longleftrightarrow> dpop_ok db \<and> (\<forall>r. replay_at db d = Some r \<longrightarrow> X \<le> p_expires r)"

text \<open>The upsert inserted the record or replaced an expired one.\<close>

fun records :: "string \<Rightarrow> dpop_event \<Rightarrow> dpop_db \<Rightarrow> bool" where
  "records d (EvMark row now) db \<longleftrightarrow>
     p_digest row = d \<and>
     (case replay_at (expiredCleanup now db) d of None \<Rightarrow> True | Some r \<Rightarrow> p_expires r \<le> now)"
| "records d _ db \<longleftrightarrow> False"

definition recorded :: "string \<Rightarrow> dpop_db \<Rightarrow> bool" where
  "recorded d db \<longleftrightarrow> replay_at db d \<noteq> None"

lemma replay_kept:
  assumes "replay_inv d X db" "now < X"
  shows "replay_at (expiredCleanup now db) d = replay_at db d"
  using cleanup_replay [of db now d] assms by (auto simp: replay_inv_def)

lemma replay_after:
  assumes "replay_inv d X db" "replay_timely d X ev"
  shows "replay_at (dpop_apply ev db) d = replay_at db d \<and> \<not> (records d ev db) \<or>
    (\<exists>row now. ev = EvMark row now \<and> p_digest row = d \<and> replay_at db d = None \<and> replay_at (dpop_apply ev db) d = Some row)"
proof (cases ev)
  case (EvIssue row now)
  have keep: "replay_at (expiredCleanup now db) d = replay_at db d" using assms EvIssue by (intro replay_kept) auto
  show ?thesis
    using EvIssue replay_other_at(1) [of row now db _ _ d] keep by (auto simp: dpop_apply_def split: option.splits)
next
  case (EvUse a d' client jkt now)
  have keep: "replay_at (expiredCleanup now db) d = replay_at db d" using assms EvUse by (intro replay_kept) auto
  obtain db' n where i: "nonce_consume a d' client jkt now db = Some (db', n)" by (simp add: nonce_consume_def Let_def)
  then show ?thesis using EvUse replay_other_at(2) [OF i, of d] keep by (auto simp: dpop_apply_def)
next
  case (EvMark row now)
  then have now: "now < X" using assms(2) by simp
  have keep: "replay_at (expiredCleanup now db) d = replay_at db d" by (rule replay_kept [OF assms(1) now])
  obtain db' n where i: "replay_upsert row now db = Some (db', n)" using replay_upsert_commits by blast
  have a: "dpop_apply ev db = db'" using EvMark i by (simp add: dpop_apply_def)
  show ?thesis
  proof (cases "p_digest row = d")
    case True
    have "X \<le> p_expires r" if "replay_at db d = Some r" for r using assms(1) that by (simp add: replay_inv_def)
    then show ?thesis
      using replay_upsert_at(2) [OF i] True keep a EvMark now by (cases "replay_at db d") fastforce+
  next
    case False
    then show ?thesis using replay_upsert_at(1) [OF i] keep a EvMark by simp
  qed
qed

interpretation replay: single_use dpop_apply "records d" "recorded d" "replay_inv d X" "replay_timely d X" for d X
proof unfold_locales
  fix s e
  assume s: "replay_inv d X s" and e: "replay_timely d X e"
  note after = replay_after [OF s e]
  have ok: "dpop_ok (dpop_apply e s)" using s dpop_apply_ok by (simp add: replay_inv_def)
  have "X \<le> p_expires r" if "replay_at (dpop_apply e s) d = Some r" for r
    using after s e that by (auto simp: replay_inv_def)
  then show "replay_inv d X (dpop_apply e s)" using ok by (simp add: replay_inv_def)
  show "recorded d (dpop_apply e s)" if "records d e s" using after that by (auto simp: recorded_def)
  show "recorded d (dpop_apply e s)" if "recorded d s" using after that by (auto simp: recorded_def)
  show "\<not> records d e s" if "recorded d s" using after that by (auto simp: recorded_def)
qed

fun replay_records :: "string \<Rightarrow> dpop_event list \<Rightarrow> dpop_db \<Rightarrow> nat" where
  "replay_records d [] db = 0"
| "replay_records d (ev # evs) db = (if records d ev db then 1 else 0) + replay_records d evs (dpop_apply ev db)"

lemma replay_records_eq: "replay_records d evs db = replay.winners d evs db"
  by (induction evs arbitrary: db) (simp_all add: replay.winners.simps)

section \<open>What the operations answer\<close>

text \<open>C37. A nonce is consumed at most once: in any sequence of committed statements of nodes whose clocks
  have not reached the expiry of the nonce, at most one consuming statement takes effect.\<close>

theorem dpop_nonce_single_use:
  assumes "nonce_inv d X db" "list_all (nonce_timely d X) evs"
  shows "nonce_uses d evs db \<le> 1"
  unfolding nonce_uses_eq using assms by (intro nonce.at_most_one_winner) (auto simp: list_all_iff)

definition demo_nonce :: nonce_row where
  "demo_nonce = \<lparr>n_digest = ''d'', n_client = ''c'', n_jkt = ''j'', n_expires = 300000, n_consumed = None, n_created = 0\<rparr>"

definition empty_dpop :: dpop_db where
  "empty_dpop = \<lparr>nonces = [], replays = []\<rparr>"

definition demo_uses :: "dpop_event list" where
  "demo_uses = [EvIssue demo_nonce 0, EvUse ''a1'' ''d'' ''c'' ''j'' 1000, EvUse ''a2'' ''d'' ''c'' ''j'' 1001]"

theorem dpop_nonce_single_use_witness: "nonce_uses ''d'' demo_uses empty_dpop = 1"
proof -
  have "nonce_uses ''d'' demo_uses empty_dpop \<le> 1"
    by (rule dpop_nonce_single_use [of _ 300000])
       (simp_all add: nonce_inv_def dpop_ok_def empty_dpop_def demo_uses_def demo_nonce_def)
  moreover have "0 < nonce_uses ''d'' demo_uses empty_dpop"
    by (simp add: demo_uses_def empty_dpop_def demo_nonce_def dpop_apply_def nonce_insert_def expiredCleanup_def
        drop_expired_def sql_delete_def sql_oldest_def sql_exists_def consumable_def Let_def)
  ultimately show ?thesis by simp
qed

text \<open>The identity of a proof is recorded at most once while it lives: in any sequence of committed
  statements of nodes whose clocks have not reached its expiry, at most one recording takes effect, so
  at most one request with that proof is accepted.\<close>

lemma dpop_replay_single_use:
  assumes "replay_inv d X db" "list_all (replay_timely d X) evs"
  shows "replay_records d evs db \<le> 1"
  unfolding replay_records_eq using assms by (intro replay.at_most_one_winner) (auto simp: list_all_iff)

definition demo_mark :: "string \<Rightarrow> dpop_event" where
  "demo_mark a = EvMark \<lparr>p_digest = ''d'', p_expires = 60000, p_attempt = a, p_created = 0\<rparr> 0"

lemma dpop_replay_single_use_example: "replay_records ''d'' [demo_mark ''a1'', demo_mark ''a2''] empty_dpop = 1"
proof -
  have "replay_records ''d'' [demo_mark ''a1'', demo_mark ''a2''] empty_dpop \<le> 1"
    by (rule dpop_replay_single_use [of _ 60000]) (simp_all add: replay_inv_def dpop_ok_def empty_dpop_def demo_mark_def)
  moreover have "0 < replay_records ''d'' [demo_mark ''a1'', demo_mark ''a2''] empty_dpop"
    by (simp add: empty_dpop_def demo_mark_def expiredCleanup_def drop_expired_def sql_delete_def)
  ultimately show ?thesis by linarith
qed

lemma replay_input_inj: "replay_input jkt jti = replay_input jkt' jti' \<longleftrightarrow> jkt = jkt' \<and> jti = jti'"
proof
  assume e: "replay_input jkt jti = replay_input jkt' jti'"
  then have j: "jkt = jkt' \<and> len_prefixed jti = len_prefixed jti'" unfolding replay_input_def by (rule len_prefixed_inj)
  then show "jkt = jkt' \<and> jti = jti'" using len_prefixed_inj [of jti "''''" jti' "''''"] by simp
qed simp

lemma nonceConsumedBy_at:
  "dpop_ok db \<Longrightarrow> nonceConsumedBy d client jkt a now False db \<longleftrightarrow>
   (\<exists>r. nonce_at db d = Some r \<and> n_client r = client \<and> n_jkt r = jkt \<and> n_consumed r = Some a \<and> now < n_expires r)"
  unfolding dpop_ok_def by (cases "nonce_at db d") (auto simp: nonceConsumedBy_def sql_select_key)

lemma nonceFailure_at:
  "dpop_ok db \<Longrightarrow> nonceFailure d client jkt now False db =
   (if \<exists>r. nonce_at db d = Some r \<and> n_client r = client \<and> n_jkt r = jkt \<and> now < n_expires r then DReplay else DInvalid)"
  unfolding dpop_ok_def by (cases "nonce_at db d") (auto simp: nonceFailure_def sql_select_key)

lemma reconcileNonceIssue_at:
  "dpop_ok db \<Longrightarrow> reconcileNonceIssue d client jkt x db =
   (case nonce_at db d of None \<Rightarrow> (False, False) | Some r \<Rightarrow> (n_client r = client \<and> n_jkt r = jkt \<and> n_expires r = x, True))"
  unfolding dpop_ok_def by (cases "nonce_at db d") (auto simp: reconcileNonceIssue_def sql_select_key)

text \<open>A row that is alive survives the cleanup, and what the cleanup removes was not alive.\<close>

lemma cleanup_alive:
  assumes "dpop_ok db" "now < n_expires r"
  shows "nonce_at (expiredCleanup now db) d = Some r \<longleftrightarrow> nonce_at db d = Some r"
  using cleanup_nonce [OF assms(1), of now d] assms(2) by auto

definition quiet :: "dpop_env \<Rightarrow> bool" where
  "quiet e \<longleftrightarrow> d_exec e = Exec_Ok \<and> d_other e = id \<and> \<not> d_query_fails e \<and> d_other2 e = id \<and> \<not> d_query2_fails e"

text \<open>The identifier of the attempt of a call.\<close>

definition attempt_of :: "prims \<Rightarrow> string \<Rightarrow> string \<Rightarrow> string" where
  "attempt_of P nonce x = mutationID P ''dpop-nonce-consume'' [valueDigest P nonce, b64_encode x]"

lemma ConsumeNonce_quiet:
  assumes ok: "dpop_ok db" and q: "quiet e" "d_rand e = Some x"
    and args: "nonce \<noteq> ''''" "client \<noteq> ''''" "jkt \<noteq> ''''"
    and fresh: "\<And>r. nonce_at db (valueDigest P nonce) = Some r \<Longrightarrow> n_consumed r \<noteq> Some (attempt_of P nonce x)"
  defines "d \<equiv> valueDigest P nonce"
  shows "ConsumeNonce P nonce client jkt now e db =
    (fst (the (nonce_consume (attempt_of P nonce x) d client jkt now db)),
     if \<exists>r. nonce_at db d = Some r \<and> consumable d client jkt now r then Inr ()
     else if \<exists>r. nonce_at db d = Some r \<and> n_client r = client \<and> n_jkt r = jkt \<and> now < n_expires r then Inl DReplay
     else Inl DInvalid)"
proof -
  let ?a = "attempt_of P nonce x"
  obtain db' n where c: "nonce_consume ?a d client jkt now db = Some (db', n)" by (simp add: nonce_consume_def Let_def)
  have ok': "dpop_ok db'" using dpop_apply_ok [OF ok, of "EvUse ?a d client jkt now"] c by (simp add: dpop_apply_def)
  have at: "nonce_at db' d = map_option (\<lambda>r. if consumable d client jkt now r then r\<lparr>n_consumed := Some ?a\<rparr> else r)
      (nonce_at (expiredCleanup now db) d)" by (rule nonce_consume_at [OF c])
  have alive: "(\<exists>r'. nonce_at db' d = Some r' \<and> n_client r' = client \<and> n_jkt r' = jkt \<and> now < n_expires r') \<longleftrightarrow>
      (\<exists>r. nonce_at db d = Some r \<and> n_client r = client \<and> n_jkt r = jkt \<and> now < n_expires r)"
  proof (cases "nonce_at (expiredCleanup now db) d")
    case None
    then show ?thesis using at cleanup_nonce [OF ok, of now d] by auto
  next
    case (Some r)
    then have "nonce_at db d = Some r" using cleanup_nonce [OF ok, of now d] by auto
    then show ?thesis using at Some by (cases "consumable d client jkt now r") auto
  qed
  have win: "(\<exists>r'. nonce_at db' d = Some r' \<and> n_client r' = client \<and> n_jkt r' = jkt \<and> n_consumed r' = Some ?a \<and> now < n_expires r') \<longleftrightarrow>
      (\<exists>r. nonce_at db d = Some r \<and> consumable d client jkt now r)"
  proof (cases "nonce_at (expiredCleanup now db) d")
    case None
    then show ?thesis using at cleanup_nonce [OF ok, of now d] by (auto simp: consumable_def)
  next
    case (Some r)
    then have r: "nonce_at db d = Some r" using cleanup_nonce [OF ok, of now d] by auto
    then have "n_consumed r \<noteq> Some ?a" using fresh d_def by blast
    then show ?thesis using at Some r sql_lookup_SomeD [OF r] by (auto simp: consumable_def)
  qed
  have E: "ConsumeNonce P nonce client jkt now e db =
      (db', if nonceConsumedBy d client jkt ?a now False db' then Inr () else Inl (nonceFailure d client jkt now False db'))"
    using q args c by (simp add: ConsumeNonce_def quiet_def randomAttempt_def randomValue_def attempt_of_def d_def run_execute_def Let_def)
  show ?thesis unfolding E nonceConsumedBy_at [OF ok'] nonceFailure_at [OF ok'] win alive c by auto
qed

text \<open>On a database that answers, a consumption succeeds exactly when the nonce is stored for this client
  and key, alive and unused; it is reported as a replay exactly when it is stored and alive but used, and
  as invalid otherwise. It marks that one row with the attempt and removes nothing that is alive.\<close>

lemma dpop_consume_exact:
  assumes "dpop_ok db" "quiet e" "d_rand e = Some x" "nonce \<noteq> ''''" "client \<noteq> ''''" "jkt \<noteq> ''''"
    and "\<And>r. nonce_at db (valueDigest P nonce) = Some r \<Longrightarrow> n_consumed r \<noteq> Some (attempt_of P nonce x)"
  defines "d \<equiv> valueDigest P nonce"
  shows "snd (ConsumeNonce P nonce client jkt now e db) =
      (if \<exists>r. nonce_at db d = Some r \<and> consumable d client jkt now r then Inr ()
       else if \<exists>r. nonce_at db d = Some r \<and> n_client r = client \<and> n_jkt r = jkt \<and> now < n_expires r then Inl DReplay
       else Inl DInvalid) \<and>
    (\<forall>k r. nonce_at db k = Some r \<and> now < n_expires r \<longrightarrow>
      nonce_at (fst (ConsumeNonce P nonce client jkt now e db)) k =
        Some (if consumable d client jkt now r then r\<lparr>n_consumed := Some (attempt_of P nonce x)\<rparr> else r))"
proof (intro conjI allI impI)
  obtain db' n where c: "nonce_consume (attempt_of P nonce x) d client jkt now db = Some (db', n)"
    by (simp add: nonce_consume_def Let_def)
  have q: "ConsumeNonce P nonce client jkt now e db =
    (db', if \<exists>r. nonce_at db d = Some r \<and> consumable d client jkt now r then Inr ()
     else if \<exists>r. nonce_at db d = Some r \<and> n_client r = client \<and> n_jkt r = jkt \<and> now < n_expires r then Inl DReplay
     else Inl DInvalid)"
    using ConsumeNonce_quiet [OF assms(1-7), of now] c unfolding d_def by simp
  show "snd (ConsumeNonce P nonce client jkt now e db) =
      (if \<exists>r. nonce_at db d = Some r \<and> consumable d client jkt now r then Inr ()
       else if \<exists>r. nonce_at db d = Some r \<and> n_client r = client \<and> n_jkt r = jkt \<and> now < n_expires r then Inl DReplay
       else Inl DInvalid)" unfolding q by (rule snd_conv)
  fix k r assume r: "nonce_at db k = Some r \<and> now < n_expires r"
  then show "nonce_at (fst (ConsumeNonce P nonce client jkt now e db)) k =
        Some (if consumable d client jkt now r then r\<lparr>n_consumed := Some (attempt_of P nonce x)\<rparr> else r)"
    using nonce_consume_at [OF c, of k] cleanup_alive [OF assms(1), of now r k] unfolding q by simp
qed

definition demo_env :: dpop_env where
  "demo_env = \<lparr>d_rand = Some ''xyz'', d_exec = Exec_Ok, d_other = id, d_query_fails = False, d_other2 = id, d_query2_fails = False\<rparr>"

definition demo_dpop :: dpop_db where
  "demo_dpop = \<lparr>nonces = [demo_nonce\<lparr>n_digest := valueDigest demo_prims ''n''\<rparr>], replays = []\<rparr>"

lemma dpop_consume_exact_example:
  "snd (ConsumeNonce demo_prims ''n'' ''c'' ''j'' 1000 demo_env demo_dpop) = Inr () \<and>
   snd (ConsumeNonce demo_prims ''n'' ''c'' ''k'' 1000 demo_env demo_dpop) = Inl DInvalid"
proof -
  have p: "dpop_ok demo_dpop" "quiet demo_env" "d_rand demo_env = Some ''xyz''"
      "\<And>r. nonce_at demo_dpop (valueDigest demo_prims ''n'') = Some r \<Longrightarrow> n_consumed r \<noteq> Some (attempt_of demo_prims ''n'' ''xyz'')"
    by (auto simp: demo_dpop_def dpop_ok_def sql_unique_def quiet_def demo_env_def demo_nonce_def sql_lookup_Cons split: if_splits)
  have a: "''n'' \<noteq> ''''" "''c'' \<noteq> ''''" "''j'' \<noteq> ''''" "''k'' \<noteq> ''''" by simp_all
  show ?thesis
    using dpop_consume_exact [OF p(1,2,3) a(1,2,3) p(4), of 1000] dpop_consume_exact [OF p(1,2,3) a(1,2,4) p(4), of 1000]
    by (auto simp: demo_dpop_def demo_nonce_def consumable_def sql_lookup_Cons)
qed

section \<open>Issuing and consuming\<close>

lemma issue_loop_Inr:
  assumes ok: "dpop_ok db" and others: "\<And>i. d_other (env i) = id"
    and r: "issue_loop P client jkt now env i left db = (db', Inr nonce)" and fresh: "nonce_at db (valueDigest P nonce) = None"
  shows "dpop_ok db' \<and> nonce_at db' (valueDigest P nonce) =
    Some \<lparr>n_digest = valueDigest P nonce, n_client = client, n_jkt = jkt, n_expires = now + DefaultNonceTTL, n_consumed = None, n_created = now\<rparr>"
  using r
proof (induction left arbitrary: i)
  case (Suc left)
  let ?e = "env i"
  obtain m where m: "randomValue (d_rand ?e) = Some m"
    using Suc.prems by (cases "randomValue (d_rand ?e)") (simp_all add: Let_def)
  define row where "row = \<lparr>n_digest = valueDigest P m, n_client = client, n_jkt = jkt, n_expires = now + DefaultNonceTTL,
      n_consumed = None, n_created = now\<rparr>"
  obtain db1 resp where x: "run_execute (d_exec ?e) (nonce_insert row now) db = (db1, resp)"
    by (cases "run_execute (d_exec ?e) (nonce_insert row now) db")
  have "db1 = db \<and> (\<exists>err. resp = Inl err) \<or> (\<exists>n. nonce_insert row now db = Some (db1, n))"
    using x by (cases "d_exec ?e"; cases "nonce_insert row now db") (auto simp: run_execute_def)
  then have ok1: "dpop_ok db1" and at1: "db1 = db \<and> (\<exists>err. resp = Inl err) \<or> nonce_at db1 (valueDigest P m) = Some row"
    using ok dpop_apply_ok [OF ok, of "EvIssue row now"] nonce_insert_at [of row now db db1 _ "valueDigest P m"]
    by (auto simp: dpop_apply_def row_def)
  have step: "issue_loop P client jkt now env i (Suc left) db =
      (case nonce_at db1 (valueDigest P m) of
         Some r \<Rightarrow>
           if d_query_fails ?e then (db1, Inl (case resp of Inr _ \<Rightarrow> DQuery | Inl y \<Rightarrow> DExec y))
           else if n_client r = client \<and> n_jkt r = jkt \<and> n_expires r = now + DefaultNonceTTL then (db1, Inr m)
           else (case resp of Inr _ \<Rightarrow> (db1, Inl DInvalid) | Inl y \<Rightarrow> issue_loop P client jkt now env (Suc i) left db1)
       | None \<Rightarrow> (db1, Inl (case resp of Inr _ \<Rightarrow> if d_query_fails ?e then DQuery else DInvalid | Inl y \<Rightarrow> DExec y)))"
    using m x others [of i]
    by (auto simp: row_def Let_def reconcileNonceIssue_at [OF ok1] split: option.splits sum.splits)
  show ?case
  proof (cases "nonce_at db1 (valueDigest P m) = Some row")
    case True
    then have "db' = db1 \<and> nonce = m" using Suc.prems unfolding step by (auto simp: row_def split: if_splits)
    then show ?thesis using True ok1 by (simp add: row_def)
  next
    case False
    then have same: "db1 = db" using at1 by blast
    have "nonce \<noteq> m \<or> nonce_at db1 (valueDigest P m) = None" using fresh same by auto
    then have "issue_loop P client jkt now env (Suc i) left db = (db', Inr nonce)"
      using Suc.prems unfolding step same by (auto split: option.splits if_splits sum.splits)
    then show ?thesis by (rule Suc.IH)
  qed
qed simp

text \<open>C38. A nonce that was issued, whatever was lost on the way, can be consumed once by its client with its
  key until it expires, and the next attempt is a replay.\<close>

theorem dpop_issue_consume:
  assumes "dpop_ok db" "\<And>i. d_other (env i) = id" "IssueNonce P client jkt now env db = (db1, Inr nonce)"
    and "nonce_at db (valueDigest P nonce) = None" "nonce \<noteq> ''''"
    and "quiet e1" "d_rand e1 = Some x" "quiet e2" "d_rand e2 = Some y" "attempt_of P nonce x \<noteq> attempt_of P nonce y"
    and "t1 < now + DefaultNonceTTL" "t2 < now + DefaultNonceTTL"
    and "ConsumeNonce P nonce client jkt t1 e1 db1 = (db2, r1)" "ConsumeNonce P nonce client jkt t2 e2 db2 = (db3, r2)"
  shows "r1 = Inr () \<and> r2 = Inl DReplay"
proof -
  let ?d = "valueDigest P nonce"
  have args: "client \<noteq> ''''" "jkt \<noteq> ''''" and loop: "issue_loop P client jkt now env 0 4 db = (db1, Inr nonce)"
    using assms(3) by (auto simp: IssueNonce_def split: if_splits)
  obtain row where ok1: "dpop_ok db1" and at1: "nonce_at db1 ?d = Some row" "n_client row = client" "n_jkt row = jkt"
      "n_expires row = now + DefaultNonceTTL" "n_consumed row = None" "n_digest row = ?d"
    using issue_loop_Inr [OF assms(1,2) loop assms(4)] by auto
  have q1: "ConsumeNonce P nonce client jkt t1 e1 db1 = (fst (the (nonce_consume (attempt_of P nonce x) ?d client jkt t1 db1)), Inr ())"
    using ConsumeNonce_quiet [OF ok1 assms(6,7,5) args, of P t1] at1 assms(11) by (simp add: consumable_def)
  obtain n where c: "nonce_consume (attempt_of P nonce x) ?d client jkt t1 db1 = Some (db2, n)"
    using q1 assms(13) by (auto simp: nonce_consume_def Let_def)
  have ok2: "dpop_ok db2" using dpop_apply_ok [OF ok1, of "EvUse (attempt_of P nonce x) ?d client jkt t1"] c by (simp add: dpop_apply_def)
  have at2: "nonce_at db2 ?d = Some (row\<lparr>n_consumed := Some (attempt_of P nonce x)\<rparr>)"
    using nonce_consume_at [OF c, of ?d] cleanup_alive [OF ok1, of t1 row ?d] at1 assms(11) by (simp add: consumable_def)
  have "snd (ConsumeNonce P nonce client jkt t2 e2 db2) = Inl DReplay"
    using ConsumeNonce_quiet [OF ok2 assms(8,9,5) args, of P t2] at2 at1 assms(10,12) by (simp add: consumable_def)
  then show ?thesis using q1 assms(13,14) by simp
qed

definition demo_issue :: "dpop_db \<times> (dpop_err + string)" where
  "demo_issue = IssueNonce demo_prims ''c'' ''j'' 0 (\<lambda>_. demo_env) empty_dpop"

theorem dpop_issue_consume_witness:
  "case ConsumeNonce demo_prims (b64_encode ''xyz'') ''c'' ''j'' 1000 demo_env (fst demo_issue) of
     (db2, r1) \<Rightarrow> r1 = Inr () \<and>
       snd (ConsumeNonce demo_prims (b64_encode ''xyz'') ''c'' ''j'' 2000 (demo_env\<lparr>d_rand := Some ''abc''\<rparr>) db2) = Inl DReplay"
proof -
  let ?n = "b64_encode ''xyz''" and ?e2 = "demo_env\<lparr>d_rand := Some ''abc''\<rparr>"
  have i: "IssueNonce demo_prims ''c'' ''j'' 0 (\<lambda>_. demo_env) empty_dpop = (fst demo_issue, Inr ?n)"
  proof -
    have "snd demo_issue = Inr ?n" by code_simp
    then show ?thesis unfolding demo_issue_def by (metis prod.collapse)
  qed
  have q: "quiet demo_env" "quiet ?e2" "d_rand demo_env = Some ''xyz''" "d_rand ?e2 = Some ''abc''" "\<And>i :: nat. d_other demo_env = id"
    by (simp_all add: quiet_def demo_env_def)
  have ok: "dpop_ok empty_dpop" "nonce_at empty_dpop (valueDigest demo_prims ?n) = None" by (simp_all add: dpop_ok_def empty_dpop_def)
  have n: "?n \<noteq> ''''" "attempt_of demo_prims ?n ''xyz'' \<noteq> attempt_of demo_prims ?n ''abc''" by code_simp+
  have t: "1000 < 0 + DefaultNonceTTL" "2000 < 0 + DefaultNonceTTL" by (simp_all add: DefaultNonceTTL_def)
  obtain db2 r1 where c1: "ConsumeNonce demo_prims ?n ''c'' ''j'' 1000 demo_env (fst demo_issue) = (db2, r1)" by (meson surj_pair)
  obtain db3 r2 where c2: "ConsumeNonce demo_prims ?n ''c'' ''j'' 2000 ?e2 db2 = (db3, r2)" by (meson surj_pair)
  show ?thesis
    using dpop_issue_consume [OF ok(1) q(5) i ok(2) n(1) q(1,3,2,4) n(2) t c1 c2] c1 c2 by simp
qed

end
