(* ===== verification/KeyRetirement.thy ===== *)
theory KeyRetirement
  imports Encoding
begin

text \<open>
  The retirement of a master key, \<^verbatim>\<open>internal/storage/master_key_retirement.go\<close>, and the fence on sealed
  writes, \<^verbatim>\<open>internal/storage/envelope.go\<close>: the barrier with its members and generations, every committed
  statement with its constraints, and the machine of committed transactions with its invariant. A key goes
  through the states prepared, fenced and ready, or is aborted; a completed generation bans its old key from
  sealing for good.
\<close>

section \<open>Tables\<close>

datatype ret_state = Prepared | Fenced | Ready | Aborted

record ret_barrier =
  b_epoch :: int
  b_old :: string
  b_replacement :: string
  b_digest :: string
  b_state :: ret_state
  b_prepared :: millis
  b_fenced :: "millis option"
  b_ready :: "millis option"
  b_aborted :: "millis option"

record ret_status =
  st_old :: int
  st_non_active :: int
  st_legacy :: int
  st_tamper :: int
  st_oidc :: int
  st_dcr :: int
  st_upstream :: int
  st_passkey_enabled :: bool
  st_passkey :: int

record ret_member =
  mb_epoch :: int
  mb_node :: string
  mb_attested :: bool
  mb_sequence :: int
  mb_boot :: string
  mb_active :: string
  mb_at :: "millis option"
  mb_status :: ret_status

record ret_generation =
  gn_epoch :: int
  gn_old :: string
  gn_replacement :: string
  gn_ready :: "millis option"
  gn_removed :: "millis option"

text \<open>An API key joined with its access rights, each a group and a right.\<close>

record api_key =
  ak_name :: string
  ak_digest :: string
  ak_expires :: "millis option"
  ak_access :: "(string \<times> string) list"

record audit_row =
  ad_id :: string
  ad_type :: string
  ad_at :: millis

text \<open>The tables the retirement works on; a component with further tables extends the record.\<close>

record ret_db =
  barrier :: "ret_barrier option"
  members :: "ret_member list"
  generations :: "ret_generation list"
  api_keys :: "api_key list"
  audit_events :: "audit_row list"

section \<open>Constraints\<close>

definition glob_text :: "nat \<Rightarrow> string \<Rightarrow> string \<Rightarrow> bool" where
  "glob_text n extra v \<longleftrightarrow> length v \<le> n \<and> list_all (\<lambda>c. alnum_rune (byte_of c) \<or> c \<in> set extra) v"

definition barrier_check :: "ret_barrier \<Rightarrow> bool" where
  "barrier_check b \<longleftrightarrow>
     0 < b_epoch b \<and>
     b_old b \<noteq> '''' \<and> glob_text 64 ''._-'' (b_old b) \<and>
     b_replacement b \<noteq> '''' \<and> glob_text 64 ''._-'' (b_replacement b) \<and> b_replacement b \<noteq> b_old b \<and>
     length (b_digest b) = 43 \<and> glob_text 43 ''_-'' (b_digest b) \<and>
     0 \<le> b_prepared b \<and>
     (case b_fenced b of None \<Rightarrow> True | Some f \<Rightarrow> b_prepared b \<le> f) \<and>
     (case b_ready b of None \<Rightarrow> True | Some r \<Rightarrow> (case b_fenced b of None \<Rightarrow> False | Some f \<Rightarrow> f \<le> r)) \<and>
     (case b_aborted b of None \<Rightarrow> True | Some a \<Rightarrow> b_prepared b \<le> a) \<and>
     (case b_state b of
        Prepared \<Rightarrow> b_fenced b = None \<and> b_ready b = None \<and> b_aborted b = None
      | Fenced \<Rightarrow> b_fenced b \<noteq> None \<and> b_ready b = None \<and> b_aborted b = None
      | Ready \<Rightarrow> b_fenced b \<noteq> None \<and> b_ready b \<noteq> None \<and> b_aborted b = None
      | Aborted \<Rightarrow> b_aborted b \<noteq> None \<and> b_ready b = None)"

definition status_nonneg :: "ret_status \<Rightarrow> bool" where
  "status_nonneg s \<longleftrightarrow>
     0 \<le> st_old s \<and> 0 \<le> st_non_active s \<and> 0 \<le> st_legacy s \<and> 0 \<le> st_tamper s \<and>
     0 \<le> st_oidc s \<and> 0 \<le> st_dcr s \<and> 0 \<le> st_upstream s \<and> 0 \<le> st_passkey s"

definition no_references :: "ret_status \<Rightarrow> bool" where
  "no_references s \<longleftrightarrow>
     st_old s = 0 \<and> st_non_active s = 0 \<and> st_legacy s = 0 \<and> st_tamper s = 0 \<and>
     st_oidc s = 0 \<and> st_dcr s = 0 \<and> st_upstream s = 0 \<and> st_passkey s = 0"

definition member_check :: "ret_member \<Rightarrow> bool" where
  "member_check m \<longleftrightarrow>
     mb_node m \<noteq> '''' \<and> glob_text 128 ''._:-'' (mb_node m) \<and> 0 \<le> mb_sequence m \<and>
     glob_text 128 ''._:-'' (mb_boot m) \<and> glob_text 64 ''._-'' (mb_active m) \<and>
     (case mb_at m of None \<Rightarrow> True | Some t \<Rightarrow> 0 \<le> t) \<and> status_nonneg (mb_status m) \<and>
     (if mb_attested m then 0 < mb_sequence m \<and> mb_boot m \<noteq> '''' \<and> mb_active m \<noteq> '''' \<and> mb_at m \<noteq> None
      else mb_sequence m = 0 \<and> mb_boot m = '''' \<and> mb_active m = '''' \<and> mb_at m = None)"

definition attested_boot :: "ret_member \<Rightarrow> (int \<times> string) option" where
  "attested_boot m = (if mb_attested m then Some (mb_epoch m, mb_boot m) else None)"

section \<open>Authorization\<close>

record ret_authorization =
  au_name :: string
  au_digest :: string
  au_group :: string
  au_right :: string
  au_at :: millis

definition retirementAuthorizationPredicate :: "ret_authorization \<Rightarrow> millis \<Rightarrow> 'a ret_db_scheme \<Rightarrow> bool" where
  "retirementAuthorizationPredicate a at db =
     sql_exists (\<lambda>k. ak_name k = au_name a \<and> ak_digest k = au_digest a \<and>
       (case ak_expires k of None \<Rightarrow> True | Some e \<Rightarrow> at \<le> e) \<and> (au_group a, au_right a) \<in> set (ak_access k)) (api_keys db)"

text \<open>The condition that \<^verbatim>\<open>retirementGuardedSQLAt\<close> appends for a guarded call.\<close>

definition guarded :: "ret_authorization option \<Rightarrow> millis \<Rightarrow> 'a ret_db_scheme \<Rightarrow> bool" where
  "guarded auth at db = (case auth of None \<Rightarrow> True | Some a \<Rightarrow> retirementAuthorizationPredicate a at db)"

definition audit_insert :: "string \<Rightarrow> string \<Rightarrow> millis \<Rightarrow> ('a ret_db_scheme \<Rightarrow> bool) \<Rightarrow> 'a ret_db_scheme mutation" where
  "audit_insert i typ at condition db =
     (if \<not> condition db then Some (db, 0)
      else if sql_exists (\<lambda>r. ad_id r = i) (audit_events db) then None
      else Some (db\<lparr>audit_events := audit_events db @ [\<lparr>ad_id = i, ad_type = typ, ad_at = at\<rparr>]\<rparr>, 1))"

text \<open>The audit statement of a guarded call; an unguarded one has none.\<close>

definition retirementAuditStatement ::
  "ret_authorization option \<Rightarrow> string \<Rightarrow> string \<Rightarrow> millis \<Rightarrow> ('a ret_db_scheme \<Rightarrow> bool) \<Rightarrow> 'a ret_db_scheme mutation list" where
  "retirementAuditStatement auth i typ at condition =
     (case auth of
        None \<Rightarrow> []
      | Some a \<Rightarrow> [audit_insert i typ at (\<lambda>db. condition db \<and> retirementAuthorizationPredicate a at db)])"

section \<open>Transitions of the barrier\<close>

definition set_barrier :: "ret_barrier \<Rightarrow> 'a ret_db_scheme mutation" where
  "set_barrier b db = (if barrier_check b then Some (db\<lparr>barrier := Some b\<rparr>, 1) else None)"

definition update_barrier :: "(ret_barrier \<Rightarrow> bool) \<Rightarrow> (ret_barrier \<Rightarrow> ret_barrier) \<Rightarrow> 'a ret_db_scheme mutation" where
  "update_barrier p f db =
     (case barrier db of None \<Rightarrow> Some (db, 0) | Some b \<Rightarrow> if p b then set_barrier (f b) db else Some (db, 0))"

record ret_prepare =
  pr_epoch :: int
  pr_old :: string
  pr_replacement :: string
  pr_at :: millis

definition retired_or_fenced :: "string \<Rightarrow> 'a ret_db_scheme \<Rightarrow> bool" where
  "retired_or_fenced k db = sql_exists (\<lambda>g. gn_old g = k) (generations db)"

definition succeeds :: "ret_prepare \<Rightarrow> ret_barrier \<Rightarrow> bool" where
  "succeeds req b \<longleftrightarrow>
     b_epoch b < pr_epoch req \<and>
     (b_state b = Aborted \<and> b_old b = pr_old req \<or> b_state b = Ready \<and> b_replacement b = pr_old req)"

definition prepared_barrier :: "ret_prepare \<Rightarrow> string \<Rightarrow> ret_barrier" where
  "prepared_barrier req d =
     \<lparr>b_epoch = pr_epoch req, b_old = pr_old req, b_replacement = pr_replacement req, b_digest = d, b_state = Prepared,
      b_prepared = pr_at req, b_fenced = None, b_ready = None, b_aborted = None\<rparr>"

text \<open>The constraints are checked on the inserted row before the conflict clause decides.\<close>

definition prepare_upsert :: "ret_authorization option \<Rightarrow> ret_prepare \<Rightarrow> string \<Rightarrow> 'a ret_db_scheme mutation" where
  "prepare_upsert auth req d db =
     (if \<not> guarded auth (pr_at req) db then Some (db, 0)
      else if \<not> barrier_check (prepared_barrier req d) then None
      else case barrier db of
             None \<Rightarrow> set_barrier (prepared_barrier req d) db
           | Some b \<Rightarrow>
               if succeeds req b \<and> \<not> retired_or_fenced (pr_replacement req) db then set_barrier (prepared_barrier req d) db
               else Some (db, 0))"

definition retirementPreparedBarrierGuard :: "ret_prepare \<Rightarrow> string \<Rightarrow> 'a ret_db_scheme \<Rightarrow> bool" where
  "retirementPreparedBarrierGuard req d db =
     (case barrier db of
        None \<Rightarrow> False
      | Some b \<Rightarrow> b_epoch b = pr_epoch req \<and> b_old b = pr_old req \<and> b_replacement b = pr_replacement req \<and>
          b_digest b = d \<and> b_state b = Prepared)"

definition no_status :: ret_status where
  "no_status = \<lparr>st_old = 0, st_non_active = 0, st_legacy = 0, st_tamper = 0, st_oidc = 0, st_dcr = 0, st_upstream = 0,
     st_passkey_enabled = False, st_passkey = 0\<rparr>"

definition pending_member :: "int \<Rightarrow> string \<Rightarrow> ret_member" where
  "pending_member epoch node = \<lparr>mb_epoch = epoch, mb_node = node, mb_attested = False, mb_sequence = 0, mb_boot = '''',
     mb_active = '''', mb_at = None, mb_status = no_status\<rparr>"

definition prepare_member :: "ret_authorization option \<Rightarrow> ret_prepare \<Rightarrow> string \<Rightarrow> string \<Rightarrow> 'a ret_db_scheme mutation" where
  "prepare_member auth req d node db =
     (if \<not> (retirementPreparedBarrierGuard req d db \<and> guarded auth (pr_at req) db) then Some (db, 0)
      else if sql_exists (\<lambda>m. mb_epoch m = pr_epoch req \<and> mb_node m = node) (members db) \<or>
           \<not> member_check (pending_member (pr_epoch req) node) then None
      else Some (db\<lparr>members := members db @ [pending_member (pr_epoch req) node]\<rparr>, 1))"

text \<open>\<open>found\<close> is whether the caller has read a barrier before.\<close>

definition prepare_condition :: "bool \<Rightarrow> ret_prepare \<Rightarrow> 'a ret_db_scheme \<Rightarrow> bool" where
  "prepare_condition found req db \<longleftrightarrow>
     (case barrier db of None \<Rightarrow> \<not> found | Some b \<Rightarrow> found \<and> succeeds req b) \<and> \<not> retired_or_fenced (pr_replacement req) db"

definition prepare_tx ::
  "string \<Rightarrow> bool \<Rightarrow> ret_authorization option \<Rightarrow> ret_prepare \<Rightarrow> string \<Rightarrow> string list \<Rightarrow> 'a ret_db_scheme mutation" where
  "prepare_tx i found auth req d nodes =
     run_tx (retirementAuditStatement auth i ''master_key_retirement.prepared'' (pr_at req) (prepare_condition found req) @
       prepare_upsert auth req d # map (prepare_member auth req d) nodes)"

definition at_epoch :: "int \<Rightarrow> ret_state set \<Rightarrow> 'a ret_db_scheme \<Rightarrow> bool" where
  "at_epoch epoch states db = (case barrier db of None \<Rightarrow> False | Some b \<Rightarrow> b_epoch b = epoch \<and> b_state b \<in> states)"

definition fence_update :: "ret_authorization option \<Rightarrow> int \<Rightarrow> millis \<Rightarrow> 'a ret_db_scheme mutation" where
  "fence_update auth epoch now db =
     update_barrier (\<lambda>b. b_epoch b = epoch \<and> b_state b = Prepared \<and> guarded auth now db)
       (\<lambda>b. b\<lparr>b_state := Fenced, b_fenced := Some now\<rparr>) db"

definition retirementFencedGenerationSQL :: "int \<Rightarrow> 'a ret_db_scheme mutation" where
  "retirementFencedGenerationSQL epoch db =
     (case barrier db of
        None \<Rightarrow> Some (db, 0)
      | Some b \<Rightarrow>
          if b_epoch b = epoch \<and> b_state b = Fenced \<and> \<not> sql_exists (\<lambda>g. gn_epoch g = epoch) (generations db)
          then Some (db\<lparr>generations := generations db @ [\<lparr>gn_epoch = epoch, gn_old = b_old b,
                 gn_replacement = b_replacement b, gn_ready = None, gn_removed = None\<rparr>]\<rparr>, 1)
          else Some (db, 0))"

definition fence_tx :: "string \<Rightarrow> ret_authorization option \<Rightarrow> int \<Rightarrow> millis \<Rightarrow> 'a ret_db_scheme mutation" where
  "fence_tx i auth epoch now =
     run_tx (retirementAuditStatement auth i ''master_key_retirement.fenced'' now (at_epoch epoch {Prepared}) @
       [fence_update auth epoch now, retirementFencedGenerationSQL epoch])"

record ret_attest =
  at_epoch_no :: int
  at_node :: string
  at_boot :: string
  at_active :: string
  at_sequence :: int
  at_time :: millis
  at_status :: ret_status

definition attest_tx :: "ret_authorization option \<Rightarrow> ret_attest \<Rightarrow> 'a ret_db_scheme mutation" where
  "attest_tx auth req db =
     (let p = (\<lambda>m. mb_epoch m = at_epoch_no req \<and> mb_node m = at_node req \<and> mb_sequence m < at_sequence req \<and>
                 at_epoch (at_epoch_no req) {Fenced} db \<and> guarded auth (at_time req) db);
          f = (\<lambda>m. m\<lparr>mb_attested := True, mb_sequence := at_sequence req, mb_boot := at_boot req,
                 mb_active := at_active req, mb_at := Some (at_time req), mb_status := at_status req\<rparr>);
          ms = sql_update p f (members db)
      in if list_all member_check (map f (sql_select p (members db))) \<and> sql_unique_some attested_boot ms
         then Some (db\<lparr>members := ms\<rparr>, sql_count p (members db)) else None)"

text \<open>The evidence the ready statement asks for; a comparison with a missing time does not hold.\<close>

definition member_blocks :: "ret_barrier \<Rightarrow> millis \<Rightarrow> ret_member \<Rightarrow> bool" where
  "member_blocks b now m \<longleftrightarrow>
     mb_active m \<noteq> b_replacement b \<or> \<not> no_references (mb_status m) \<or>
     (case (mb_at m, b_fenced b) of (Some t, Some f) \<Rightarrow> t < f | _ \<Rightarrow> False) \<or>
     (case mb_at m of Some t \<Rightarrow> now < t | None \<Rightarrow> False)"

definition ready_predicate :: "int \<Rightarrow> millis \<Rightarrow> 'a ret_db_scheme \<Rightarrow> bool" where
  "ready_predicate epoch now db =
     (case barrier db of
        None \<Rightarrow> False
      | Some b \<Rightarrow>
          let ms = sql_select (\<lambda>m. mb_epoch m = epoch) (members db)
          in b_epoch b = epoch \<and> b_state b = Fenced \<and>
             sql_count mb_attested ms = int (length ms) \<and>
             length (remdups (map mb_boot (sql_select mb_attested ms))) = length ms \<and>
             \<not> sql_exists (member_blocks b now) ms)"

definition ready_update :: "ret_authorization option \<Rightarrow> int \<Rightarrow> millis \<Rightarrow> 'a ret_db_scheme mutation" where
  "ready_update auth epoch now db =
     update_barrier (\<lambda>b. ready_predicate epoch now db \<and> guarded auth now db)
       (\<lambda>b. b\<lparr>b_state := Ready, b_ready := Some now\<rparr>) db"

definition retirementReadyGenerationSQL :: "int \<Rightarrow> 'a ret_db_scheme mutation" where
  "retirementReadyGenerationSQL epoch db =
     (case barrier db of
        None \<Rightarrow> Some (db, 0)
      | Some b \<Rightarrow>
          if \<not> (b_epoch b = epoch \<and> b_state b = Ready) then Some (db, 0)
          else if sql_exists (\<lambda>g. gn_epoch g = epoch) (generations db)
          then let p = (\<lambda>g. gn_epoch g = epoch \<and> gn_ready g = None)
               in Some (db\<lparr>generations := sql_update p (\<lambda>g. g\<lparr>gn_ready := b_ready b\<rparr>) (generations db)\<rparr>,
                        sql_count p (generations db))
          else Some (db\<lparr>generations := generations db @ [\<lparr>gn_epoch = epoch, gn_old = b_old b,
                 gn_replacement = b_replacement b, gn_ready = b_ready b, gn_removed = None\<rparr>]\<rparr>, 1))"

definition ready_tx :: "string \<Rightarrow> ret_authorization option \<Rightarrow> int \<Rightarrow> millis \<Rightarrow> 'a ret_db_scheme mutation" where
  "ready_tx i auth epoch now =
     run_tx (retirementAuditStatement auth i ''master_key_retirement.ready'' now (ready_predicate epoch now) @
       [ready_update auth epoch now, retirementReadyGenerationSQL epoch])"

definition abort_update :: "ret_authorization option \<Rightarrow> int \<Rightarrow> millis \<Rightarrow> 'a ret_db_scheme mutation" where
  "abort_update auth epoch now db =
     update_barrier (\<lambda>b. b_epoch b = epoch \<and> b_state b \<in> {Prepared, Fenced} \<and> guarded auth now db)
       (\<lambda>b. b\<lparr>b_state := Aborted, b_aborted := Some now\<rparr>) db"

definition abort_tx :: "string \<Rightarrow> ret_authorization option \<Rightarrow> int \<Rightarrow> millis \<Rightarrow> 'a ret_db_scheme mutation" where
  "abort_tx i auth epoch now =
     run_tx (retirementAuditStatement auth i ''master_key_retirement.aborted'' now (at_epoch epoch {Prepared, Fenced}) @
       [abort_update auth epoch now])"

section \<open>Generations\<close>

definition completed :: "ret_generation \<Rightarrow> bool" where
  "completed g \<longleftrightarrow> gn_ready g \<noteq> None"

text \<open>The inert write expects exactly one row and is rejected otherwise.\<close>

definition archive_stmt :: "int \<Rightarrow> 'a ret_db_scheme mutation" where
  "archive_stmt epoch db =
     (let p = (\<lambda>g. gn_epoch g = epoch \<and> completed g)
      in if sql_count p (generations db) = 1
         then Some (db\<lparr>generations := sql_update p (\<lambda>g. g\<lparr>gn_ready := gn_ready g\<rparr>) (generations db)\<rparr>, 1) else None)"

definition generation_check :: "ret_generation \<Rightarrow> bool" where
  "generation_check g \<longleftrightarrow>
     (case gn_removed g of None \<Rightarrow> True | Some t \<Rightarrow> (case gn_ready g of None \<Rightarrow> False | Some r \<Rightarrow> r \<le> t))"

definition removed_stmt :: "int \<Rightarrow> millis \<Rightarrow> 'a ret_db_scheme mutation" where
  "removed_stmt epoch now db =
     (let p = (\<lambda>g. gn_epoch g = epoch \<and> completed g \<and> gn_removed g = None);
          f = (\<lambda>g. g\<lparr>gn_removed := Some now\<rparr>)
      in if list_all (generation_check \<circ> f) (sql_select p (generations db))
         then Some (db\<lparr>generations := sql_update p f (generations db)\<rparr>, sql_count p (generations db)) else None)"

section \<open>The fence on sealed writes\<close>

definition validRetirementKeyID :: "string \<Rightarrow> bool" where
  "validRetirementKeyID v \<longleftrightarrow>
     length v \<noteq> 0 \<and> length v \<le> 64 \<and> trimmed v \<and> list_all (\<lambda>c. alnum_rune c \<or> c \<in> set (map byte_of ''._-'')) (runes v)"

definition envelopeWriterRejectedPredicate :: "string \<Rightarrow> 'a ret_db_scheme \<Rightarrow> bool" where
  "envelopeWriterRejectedPredicate w db =
     (case barrier db of
        None \<Rightarrow> False
      | Some b \<Rightarrow> b_state b \<in> {Fenced, Ready} \<and> b_replacement b \<noteq> w \<or>
          sql_exists (\<lambda>g. gn_old g = w \<and> completed g) (generations db))"

text \<open>A rejected writer sets the epoch of the barrier to a value that its constraint forbids.\<close>

definition fence_stmt :: "string \<Rightarrow> 'a ret_db_scheme mutation" where
  "fence_stmt w db = update_barrier (\<lambda>b. envelopeWriterRejectedPredicate w db) (\<lambda>b. b\<lparr>b_epoch := - 1\<rparr>) db"

datatype envelope_err = Env_Writer | Env_Exec exec_err

definition ExecuteEnvelope ::
  "exec_fault \<Rightarrow> string \<Rightarrow> 'a ret_db_scheme mutation list \<Rightarrow> 'a ret_db_scheme \<Rightarrow> 'a ret_db_scheme \<times> (envelope_err + int)" where
  "ExecuteEnvelope f w ms db =
     (if \<not> validRetirementKeyID w then (db, Inl Env_Writer)
      else case run_execute f (run_tx (ms @ [fence_stmt w])) db of
             (db', Inl e) \<Rightarrow> (db', Inl (Env_Exec e))
           | (db', Inr n) \<Rightarrow> (db', Inr n))"

definition CheckEnvelopeWriterAllowed :: "bool \<Rightarrow> string \<Rightarrow> 'a ret_db_scheme \<Rightarrow> bool" where
  "CheckEnvelopeWriterAllowed query_fails w db \<longleftrightarrow>
     validRetirementKeyID w \<and> \<not> query_fails \<and> \<not> envelopeWriterRejectedPredicate w db"

end
