(* ===== verification/RetirementMachine.thy ===== *)
theory RetirementMachine
  imports KeyRetirement
begin

text \<open>
  The machine of committed retirement transactions: a step relation over the tables, the invariant that ties
  the barrier to the generations, and the properties of the protocol over every interleaving: a retired key
  never seals again, some key always may, and a key is retired only on the evidence of every member.
\<close>

section \<open>Steps\<close>

text \<open>A committed transaction of the retirement, or one of another component, which leaves these tables alone.\<close>

inductive ret_step :: "'a ret_db_scheme \<Rightarrow> 'a ret_db_scheme \<Rightarrow> bool" where
  Prepare: "prepare_tx i found auth req d nodes db = Some (db', n) \<Longrightarrow> ret_step db db'"
| Fence: "fence_tx i auth epoch now db = Some (db', n) \<Longrightarrow> ret_step db db'"
| Attest: "attest_tx auth areq db = Some (db', n) \<Longrightarrow> ret_step db db'"
| Ready: "ready_tx i auth epoch now db = Some (db', n) \<Longrightarrow> ret_step db db'"
| Abort: "abort_tx i auth epoch now db = Some (db', n) \<Longrightarrow> ret_step db db'"
| Archive: "archive_stmt epoch db = Some (db', n) \<Longrightarrow> ret_step db db'"
| Removed: "removed_stmt epoch now db = Some (db', n) \<Longrightarrow> ret_step db db'"
| Other: "barrier db' = barrier db \<Longrightarrow> members db' = members db \<Longrightarrow> generations db' = generations db \<Longrightarrow> ret_step db db'"

definition no_retirement :: "'a ret_db_scheme \<Rightarrow> bool" where
  "no_retirement db \<longleftrightarrow> barrier db = None \<and> members db = [] \<and> generations db = []"

definition ret_reachable :: "'a ret_db_scheme \<Rightarrow> bool" where
  "ret_reachable db \<longleftrightarrow> (\<exists>db0. no_retirement db0 \<and> ret_step\<^sup>*\<^sup>* db0 db)"

section \<open>What single statements change\<close>

lemma audit_insert_frame:
  assumes "audit_insert i typ at c db = Some (db', n)"
  shows "barrier db' = barrier db" "members db' = members db" "generations db' = generations db" "api_keys db' = api_keys db"
  using assms by (auto simp: audit_insert_def split: if_splits)

text \<open>A transaction that starts with the audit statement: its other statements run on the same tables.\<close>

lemma audited_txE:
  assumes "run_tx (retirementAuditStatement auth i typ at c @ ms) db = Some (db', n)"
  obtains db1 n1 where "run_tx ms db1 = Some (db', n1)" "barrier db1 = barrier db" "members db1 = members db"
    "generations db1 = generations db" "api_keys db1 = api_keys db"
proof (cases auth)
  case None
  then show ?thesis using assms that by (simp add: retirementAuditStatement_def)
next
  case (Some a)
  then obtain db1 k where "audit_insert i typ at (\<lambda>db. c db \<and> retirementAuthorizationPredicate a at db) db = Some (db1, k)"
      "\<exists>j. run_tx ms db1 = Some (db', j)"
    using assms by (auto simp: retirementAuditStatement_def split: option.splits)
  then show ?thesis using that audit_insert_frame by metis
qed

lemma guarded_cong: "api_keys db' = api_keys db \<Longrightarrow> guarded auth at db' = guarded auth at db"
  by (cases auth) (simp_all add: guarded_def retirementAuthorizationPredicate_def)

lemma set_barrier_Some: "set_barrier b db = Some (db', n) \<longleftrightarrow> barrier_check b \<and> db' = db\<lparr>barrier := Some b\<rparr> \<and> n = 1"
  by (auto simp: set_barrier_def)

lemma update_barrierE:
  assumes "update_barrier p f db = Some (db', n)"
  obtains (unchanged) "db' = db" "n = 0" "\<And>b. barrier db = Some b \<Longrightarrow> \<not> p b"
        | (changed) b where "barrier db = Some b" "p b" "barrier_check (f b)" "db' = db\<lparr>barrier := Some (f b)\<rparr>" "n = 1"
  using assms by (auto simp: update_barrier_def set_barrier_Some split: option.splits if_splits)

section \<open>The invariant\<close>

definition generation_ok :: "ret_barrier \<Rightarrow> ret_generation \<Rightarrow> bool" where
  "generation_ok b g \<longleftrightarrow>
     gn_epoch g \<le> b_epoch b \<and> gn_old g \<noteq> b_replacement b \<and>
     (gn_epoch g = b_epoch b \<longrightarrow> gn_old g = b_old b) \<and>
     (b_state b \<noteq> Ready \<and> completed g \<longrightarrow> gn_epoch g \<noteq> b_epoch b \<and> gn_old g \<noteq> b_old b)"

definition ret_inv :: "'a ret_db_scheme \<Rightarrow> bool" where
  "ret_inv db \<longleftrightarrow>
     (case barrier db of
        None \<Rightarrow> generations db = []
      | Some b \<Rightarrow> barrier_check b \<and> list_all (generation_ok b) (generations db) \<and>
          (b_state b = Ready \<longrightarrow> list_ex (\<lambda>g. gn_epoch g = b_epoch b \<and> completed g) (generations db)))"

lemma ret_invI:
  assumes "barrier db = Some b" "barrier_check b" "\<And>g. g \<in> set (generations db) \<Longrightarrow> generation_ok b g"
    "b_state b = Ready \<Longrightarrow> \<exists>g \<in> set (generations db). gn_epoch g = b_epoch b \<and> completed g"
  shows "ret_inv db"
  using assms by (auto simp: ret_inv_def list_all_iff list_ex_iff)

lemma ret_invD:
  assumes "ret_inv db" "barrier db = Some b"
  shows "barrier_check b" "g \<in> set (generations db) \<Longrightarrow> generation_ok b g"
    "b_state b = Ready \<Longrightarrow> \<exists>g \<in> set (generations db). gn_epoch g = b_epoch b \<and> completed g"
  using assms by (auto simp: ret_inv_def list_all_iff list_ex_iff)

lemma ret_inv_cong: "barrier db' = barrier db \<Longrightarrow> generations db' = generations db \<Longrightarrow> ret_inv db' = ret_inv db"
  by (cases "barrier db") (simp_all add: ret_inv_def)

lemma barrier_check_keys: "barrier_check b \<Longrightarrow> b_replacement b \<noteq> b_old b"
  by (simp add: barrier_check_def)

lemma prepare_upsertE:
  assumes "prepare_upsert auth req d db = Some (db', n)"
  obtains (unchanged) "db' = db" "n = 0"
        | (first) "barrier db = None" "guarded auth (pr_at req) db" "barrier_check (prepared_barrier req d)"
            "db' = db\<lparr>barrier := Some (prepared_barrier req d)\<rparr>" "n = 1"
        | (chained) b where "barrier db = Some b" "guarded auth (pr_at req) db" "barrier_check (prepared_barrier req d)"
            "succeeds req b" "\<not> retired_or_fenced (pr_replacement req) db"
            "db' = db\<lparr>barrier := Some (prepared_barrier req d)\<rparr>" "n = 1"
proof (cases "guarded auth (pr_at req) db \<and> barrier_check (prepared_barrier req d)")
  case False
  then have "db' = db" "n = 0" using assms by (simp_all add: prepare_upsert_def split: if_splits)
  then show ?thesis by (rule unchanged)
next
  case True
  show ?thesis
  proof (cases "barrier db")
    case None
    then have "db' = db\<lparr>barrier := Some (prepared_barrier req d)\<rparr>" "n = 1"
      using True assms by (simp_all add: prepare_upsert_def set_barrier_def)
    then show ?thesis using True None by (intro first) simp_all
  next
    case (Some b)
    show ?thesis
    proof (cases "succeeds req b \<and> \<not> retired_or_fenced (pr_replacement req) db")
      case follows: True
      then have "db' = db\<lparr>barrier := Some (prepared_barrier req d)\<rparr>" "n = 1"
        using True Some assms by (simp_all add: prepare_upsert_def set_barrier_def)
      then show ?thesis using True Some follows by (intro chained [of b]) blast+
    next
      case False
      then have "db' = db" "n = 0" using True Some assms by (auto simp: prepare_upsert_def split: if_splits)
      then show ?thesis by (rule unchanged)
    qed
  qed
qed

lemma prepare_upsert_inv:
  assumes "ret_inv db" "prepare_upsert auth req d db = Some (db', n)"
  shows "ret_inv db'"
  using assms(2)
proof (cases rule: prepare_upsertE)
  case first
  then show ?thesis using assms(1) by (intro ret_invI [of _ "prepared_barrier req d"]) (auto simp: ret_inv_def prepared_barrier_def)
next
  case (chained b)
  have g: "generation_ok (prepared_barrier req d) g" if "g \<in> set (generations db)" for g
    using ret_invD(2) [OF assms(1) chained(1) that] chained(4,5) that
    by (auto simp: generation_ok_def succeeds_def prepared_barrier_def retired_or_fenced_def sql_exists_iff)
  show ?thesis using chained g by (intro ret_invI [of _ "prepared_barrier req d"]) (auto simp: prepared_barrier_def)
qed (use assms(1) in simp)

lemma prepare_member_frame:
  assumes "prepare_member auth req d node db = Some (db', n)"
  shows "barrier db' = barrier db" "generations db' = generations db" "api_keys db' = api_keys db"
    "set (members db) \<subseteq> set (members db')"
  using assms by (auto simp: prepare_member_def split: if_splits)

lemma prepare_members_frame:
  assumes "run_tx (map (prepare_member auth req d) nodes) db = Some (db', n)"
  shows "barrier db' = barrier db" "generations db' = generations db" "api_keys db' = api_keys db"
    "set (members db) \<subseteq> set (members db')"
proof -
  let ?I = "\<lambda>d'. barrier d' = barrier db \<and> generations d' = generations db \<and> api_keys d' = api_keys db \<and>
    set (members db) \<subseteq> set (members d')"
  have "?I db'"
    by (rule run_tx_invariant [OF assms, where I = ?I]) (auto simp: prepare_member_frame(1-3) dest: prepare_member_frame(4))
  then show "barrier db' = barrier db" "generations db' = generations db" "api_keys db' = api_keys db"
    "set (members db) \<subseteq> set (members db')" by simp_all
qed

lemma prepare_txE:
  assumes "prepare_tx i found auth req d nodes db = Some (db', n)"
  obtains db1 db2 k j where "barrier db1 = barrier db" "members db1 = members db" "generations db1 = generations db"
    "api_keys db1 = api_keys db" "prepare_upsert auth req d db1 = Some (db2, k)"
    "run_tx (map (prepare_member auth req d) nodes) db2 = Some (db', j)"
  using assms unfolding prepare_tx_def by (elim audited_txE run_tx_ConsE) blast

lemma prepare_inv:
  assumes "ret_inv db" "prepare_tx i found auth req d nodes db = Some (db', n)"
  shows "ret_inv db'"
  using assms(2)
proof (rule prepare_txE)
  fix db1 db2 k j
  assume db1: "barrier db1 = barrier db" "generations db1 = generations db"
    and up: "prepare_upsert auth req d db1 = Some (db2, k)"
    and ms: "run_tx (map (prepare_member auth req d) nodes) db2 = Some (db', j)"
  have "ret_inv db2" using prepare_upsert_inv [OF _ up] assms(1) db1 by (simp add: ret_inv_cong [of db1 db])
  then show ?thesis using prepare_members_frame [OF ms] by (simp add: ret_inv_cong [of db' db2])
qed

lemma fenced_generation_inv:
  assumes "ret_inv db" "retirementFencedGenerationSQL epoch db = Some (db', n)"
  shows "ret_inv db'"
proof (cases "db' = db")
  case False
  then obtain b where b: "barrier db = Some b" "b_epoch b = epoch" "b_state b = Fenced"
      "db' = db\<lparr>generations := generations db @ [\<lparr>gn_epoch = epoch, gn_old = b_old b, gn_replacement = b_replacement b,
         gn_ready = None, gn_removed = None\<rparr>]\<rparr>"
    using assms(2) by (auto simp: retirementFencedGenerationSQL_def split: option.splits if_splits)
  have "generation_ok b g" if "g \<in> set (generations db')" for g
    using that b ret_invD(2) [OF assms(1) b(1)] barrier_check_keys [OF ret_invD(1) [OF assms(1) b(1)]]
    by (auto simp: generation_ok_def completed_def)
  then show ?thesis using b ret_invD(1) [OF assms(1) b(1)] by (intro ret_invI [of _ b]) simp_all
qed (use assms(1) in simp)

lemma fence_inv:
  assumes "ret_inv db" "fence_tx i auth epoch now db = Some (db', n)"
  shows "ret_inv db'"
  using assms(2) unfolding fence_tx_def
proof (elim audited_txE run_tx_ConsE)
  fix db1 db2 db3 k j i
  assume db1: "barrier db1 = barrier db" "generations db1 = generations db"
    and up: "fence_update auth epoch now db1 = Some (db2, k)"
    and g: "retirementFencedGenerationSQL epoch db2 = Some (db3, j)" and last: "run_tx [] db3 = Some (db', i)"
  have inv: "ret_inv db1" using assms(1) db1 by (simp add: ret_inv_cong [of db1 db])
  from up have "ret_inv db2" unfolding fence_update_def
  proof (cases rule: update_barrierE)
    case (changed b)
    have "generation_ok (b\<lparr>b_state := Fenced, b_fenced := Some now\<rparr>) g" if "g \<in> set (generations db1)" for g
      using ret_invD(2) [OF inv changed(1) that] changed(2) by (simp add: generation_ok_def)
    then show ?thesis using changed by (intro ret_invI) auto
  qed (use inv in simp)
  then show ?thesis using fenced_generation_inv [OF _ g] last by simp
qed

lemma abort_inv:
  assumes "ret_inv db" "abort_tx i auth epoch now db = Some (db', n)"
  shows "ret_inv db'"
  using assms(2) unfolding abort_tx_def
proof (elim audited_txE run_tx_ConsE)
  fix db1 db2 k j
  assume db1: "barrier db1 = barrier db" "generations db1 = generations db"
    and up: "abort_update auth epoch now db1 = Some (db2, k)" and last: "run_tx [] db2 = Some (db', j)"
  have inv: "ret_inv db1" using assms(1) db1 by (simp add: ret_inv_cong [of db1 db])
  from up have "ret_inv db2" unfolding abort_update_def
  proof (cases rule: update_barrierE)
    case (changed b)
    have "generation_ok (b\<lparr>b_state := Aborted, b_aborted := Some now\<rparr>) g" if "g \<in> set (generations db1)" for g
      using ret_invD(2) [OF inv changed(1) that] changed(2) by (auto simp: generation_ok_def)
    then show ?thesis using changed by (intro ret_invI) auto
  qed (use inv in simp)
  then show ?thesis using last by simp
qed

text \<open>The ready statement and its generation together: in between, the barrier is ready and the generation
  is not completed yet.\<close>

lemma ready_generation_completes:
  assumes inv: "ret_inv db" and b: "barrier db = Some b" "b_epoch b = epoch" "b_state b = Fenced"
    and b': "b' = b\<lparr>b_state := Ready, b_ready := Some now\<rparr>" "barrier_check b'"
    and g: "retirementReadyGenerationSQL epoch (db\<lparr>barrier := Some b'\<rparr>) = Some (db', n)"
  shows "ret_inv db'" "barrier db' = Some b'" "members db' = members db"
    "\<exists>g \<in> set (generations db'). gn_epoch g = epoch \<and> gn_old g = b_old b \<and> completed g"
proof -
  have keys: "b_replacement b \<noteq> b_old b" using barrier_check_keys ret_invD(1) [OF inv b(1)] by simp
  have ok: "generation_ok b' g" if "g \<in> set (generations db)" for g
    using ret_invD(2) [OF inv b(1) that] b' by (simp add: generation_ok_def)
  have db': "db' = db\<lparr>barrier := Some b', generations := generations db'\<rparr>"
    and gens: "\<forall>g \<in> set (generations db'). generation_ok b' g"
    and ex: "\<exists>g \<in> set (generations db'). gn_epoch g = epoch \<and> gn_old g = b_old b \<and> completed g"
  proof -
    show "db' = db\<lparr>barrier := Some b', generations := generations db'\<rparr>"
      using g by (auto simp: retirementReadyGenerationSQL_def Let_def split: if_splits)
    show "\<forall>g \<in> set (generations db'). generation_ok b' g"
      using g ok b b' keys
      by (auto simp: retirementReadyGenerationSQL_def Let_def set_sql_update generation_ok_def completed_def split: if_splits)
    show "\<exists>g \<in> set (generations db'). gn_epoch g = epoch \<and> gn_old g = b_old b \<and> completed g"
    proof (cases "sql_exists (\<lambda>g. gn_epoch g = epoch) (generations db)")
      case True
      then obtain e where e: "e \<in> set (generations db)" "gn_epoch e = epoch" by (auto simp: sql_exists_iff)
      have "gn_ready e = None" "gn_old e = b_old b"
        using ret_invD(2) [OF inv b(1) e(1)] e(2) b by (auto simp: generation_ok_def completed_def)
      then have "e\<lparr>gn_ready := Some now\<rparr> \<in> set (generations db')"
        using True g b b' e by (force simp: retirementReadyGenerationSQL_def Let_def set_sql_update)
      then show ?thesis using e \<open>gn_old e = b_old b\<close> by (intro bexI [of _ "e\<lparr>gn_ready := Some now\<rparr>"]) (simp_all add: completed_def)
    next
      case False
      then show ?thesis using g b b' by (auto simp: retirementReadyGenerationSQL_def completed_def)
    qed
  qed
  show "barrier db' = Some b'" "members db' = members db" by (subst db', simp)+
  moreover have "b_epoch b' = epoch" using b b' by simp
  ultimately show "ret_inv db'" using gens ex b'(2) by (intro ret_invI [of _ b']) auto
  show "\<exists>g \<in> set (generations db'). gn_epoch g = epoch \<and> gn_old g = b_old b \<and> completed g" by (rule ex)
qed

lemma ready_generation_frame:
  assumes "retirementReadyGenerationSQL epoch db = Some (db', n)"
  shows "barrier db' = barrier db" "members db' = members db"
  using assms by (auto simp: retirementReadyGenerationSQL_def Let_def split: option.splits if_splits)

lemma ready_generation_inv:
  assumes inv: "ret_inv db" and g: "retirementReadyGenerationSQL epoch db = Some (db', n)"
  shows "ret_inv db'"
proof (cases "\<exists>b. barrier db = Some b \<and> b_epoch b = epoch \<and> b_state b = Ready")
  case True
  then obtain b where b: "barrier db = Some b" "b_epoch b = epoch" "b_state b = Ready" by blast
  obtain e where e: "e \<in> set (generations db)" "gn_epoch e = epoch" "completed e"
    using ret_invD(3) [OF inv b(1,3)] b(2) by blast
  have ready: "b_ready b \<noteq> None" using ret_invD(1) [OF inv b(1)] b(3) by (simp add: barrier_check_def)
  have db': "generations db' = sql_update (\<lambda>g. gn_epoch g = epoch \<and> gn_ready g = None) (\<lambda>g. g\<lparr>gn_ready := b_ready b\<rparr>) (generations db)"
    using g b e by (auto simp: retirementReadyGenerationSQL_def sql_exists_iff Let_def split: if_splits)
  have "generation_ok b g" if "g \<in> set (generations db')" for g
    using that ret_invD(2) [OF inv b(1)] b(3) unfolding db' set_sql_update by (auto simp: generation_ok_def)
  moreover have "e \<in> set (generations db')" using e unfolding db' set_sql_update by (auto simp: completed_def)
  ultimately show ?thesis using ret_invD(1) [OF inv b(1)] b e ready_generation_frame(1) [OF g] by (intro ret_invI [of _ b]) auto
next
  case False
  then have "db' = db" using g by (auto simp: retirementReadyGenerationSQL_def split: option.splits)
  then show ?thesis using inv by simp
qed

lemma ready_txE:
  assumes "ret_inv db" "ready_tx i auth epoch now db = Some (db', n)"
  obtains (unchanged) "barrier db' = barrier db" "members db' = members db" "ret_inv db'"
        | (retired) b b' where "barrier db = Some b" "b_state b = Fenced" "ready_predicate epoch now db" "guarded auth now db"
            "b' = b\<lparr>b_state := Ready, b_ready := Some now\<rparr>" "barrier_check b'" "ret_inv db'" "barrier db' = Some b'"
            "members db' = members db" "\<exists>g \<in> set (generations db'). gn_epoch g = epoch \<and> gn_old g = b_old b \<and> completed g"
  using assms(2) unfolding ready_tx_def
proof (elim audited_txE run_tx_ConsE)
  fix db1 db2 db3 k j m
  assume db1: "barrier db1 = barrier db" "members db1 = members db" "generations db1 = generations db" "api_keys db1 = api_keys db"
    and up: "ready_update auth epoch now db1 = Some (db2, k)"
    and g: "retirementReadyGenerationSQL epoch db2 = Some (db3, j)" and last: "run_tx [] db3 = Some (db', m)"
  have inv: "ret_inv db1" using assms(1) db1 by (simp add: ret_inv_cong [of db1 db])
  have d: "db3 = db'" using last by simp
  have pred: "ready_predicate epoch now db1 = ready_predicate epoch now db"
    unfolding ready_predicate_def db1(1,2) by (rule refl)
  from up show ?thesis unfolding ready_update_def
  proof (cases rule: update_barrierE)
    case unchanged
    then show ?thesis using ready_generation_inv [OF _ g] ready_generation_frame [OF g] inv db1 d by (intro that(1)) auto
  next
    case (changed b)
    have "b_epoch b = epoch" "b_state b = Fenced"
      using changed(1,2) by (simp_all add: ready_predicate_def Let_def)
    note r = ready_generation_completes [OF inv changed(1) this refl changed(3) g [unfolded changed(4)]]
    show ?thesis using changed(1,2) r d db1 \<open>b_state b = Fenced\<close> guarded_cong [OF db1(4)] pred changed(3)
      by (intro retired [of b]) auto
  qed
qed

lemma attest_frame:
  assumes "attest_tx auth areq db = Some (db', n)"
  shows "barrier db' = barrier db" "generations db' = generations db"
    "map (\<lambda>m. (mb_epoch m, mb_node m)) (members db') = map (\<lambda>m. (mb_epoch m, mb_node m)) (members db)"
  using assms by (auto simp: attest_tx_def Let_def sql_update_def split: if_splits)

lemma archive_frame:
  assumes "archive_stmt epoch db = Some (db', n)"
  shows "barrier db' = barrier db" "members db' = members db" "generations db' = generations db"
  using assms by (simp_all add: archive_stmt_def Let_def sql_update_def split: if_splits)

lemma removed_frame:
  assumes "removed_stmt epoch now db = Some (db', n)"
  shows "barrier db' = barrier db" "members db' = members db"
    "generations db' = sql_update (\<lambda>g. gn_epoch g = epoch \<and> completed g \<and> gn_removed g = None) (\<lambda>g. g\<lparr>gn_removed := Some now\<rparr>) (generations db)"
  using assms by (auto simp: removed_stmt_def Let_def split: if_splits)

lemma removed_inv:
  assumes "ret_inv db" "removed_stmt epoch now db = Some (db', n)"
  shows "ret_inv db'"
proof (cases "barrier db")
  case None
  then show ?thesis using assms(1) removed_frame [OF assms(2)] by (simp add: ret_inv_def sql_update_def)
next
  case (Some b)
  let ?f = "\<lambda>g. if gn_epoch g = epoch \<and> completed g \<and> gn_removed g = None then g\<lparr>gn_removed := Some now\<rparr> else g"
  have ok: "generation_ok b (?f g) = generation_ok b g" "completed (?f g) = completed g" "gn_epoch (?f g) = gn_epoch g" for g
    by (simp_all add: generation_ok_def completed_def)
  have g: "set (generations db') = ?f ` set (generations db)" using removed_frame(3) [OF assms(2)] by (simp add: sql_update_def)
  show ?thesis
  proof (rule ret_invI [of _ b])
    show "generation_ok b x" if "x \<in> set (generations db')" for x
      using that ret_invD(2) [OF assms(1) Some] ok(1) unfolding g by blast
    show "\<exists>x \<in> set (generations db'). gn_epoch x = b_epoch b \<and> completed x" if r: "b_state b = Ready"
    proof -
      obtain e where "e \<in> set (generations db)" "gn_epoch e = b_epoch b" "completed e"
        using ret_invD(3) [OF assms(1) Some r] by blast
      then show ?thesis using ok(2,3) [of e] unfolding g by (intro bexI [of _ "?f e"]) auto
    qed
  qed (use removed_frame(1) [OF assms(2)] ret_invD(1) [OF assms(1) Some] Some in auto)
qed

lemma ret_step_inv: "ret_step db db' \<Longrightarrow> ret_inv db \<Longrightarrow> ret_inv db'"
proof (induction rule: ret_step.induct)
  case (Ready i auth epoch now db db' n)
  show ?case using Ready(2,1) by (cases rule: ready_txE) simp_all
next
  case (Attest auth areq db db' n)
  then show ?case using ret_inv_cong [of db' db] attest_frame(1,2) by blast
next
  case (Archive epoch db db' n)
  then show ?case using ret_inv_cong [of db' db] archive_frame by blast
next
  case (Other db' db)
  then show ?case using ret_inv_cong [of db' db] by blast
qed (blast intro: prepare_inv fence_inv abort_inv removed_inv)+

lemma ret_steps_inv: "ret_step\<^sup>*\<^sup>* db db' \<Longrightarrow> ret_inv db \<Longrightarrow> ret_inv db'"
  by (induction rule: rtranclp_induct) (auto intro: ret_step_inv)

lemma reachable_inv: "ret_reachable db \<Longrightarrow> ret_inv db"
  by (auto simp: ret_reachable_def no_retirement_def ret_inv_def intro: ret_steps_inv [unfolded ret_inv_def])

lemma reachable_steps: "ret_reachable db \<Longrightarrow> ret_step\<^sup>*\<^sup>* db db' \<Longrightarrow> ret_reachable db'"
  unfolding ret_reachable_def by (meson rtranclp_trans)

section \<open>What a step keeps\<close>

text \<open>The old key of a completed generation stays the old key of one, and a member stays a member.\<close>

definition retired :: "string \<Rightarrow> 'a ret_db_scheme \<Rightarrow> bool" where
  "retired k db \<longleftrightarrow> (\<exists>g \<in> set (generations db). gn_old g = k \<and> completed g)"

definition is_member :: "int \<Rightarrow> string \<Rightarrow> 'a ret_db_scheme \<Rightarrow> bool" where
  "is_member e v db \<longleftrightarrow> (e, v) \<in> set (map (\<lambda>m. (mb_epoch m, mb_node m)) (members db))"

lemma retired_cong: "generations db' = generations db \<Longrightarrow> retired k db' = retired k db"
  by (simp add: retired_def)

lemma retired_update:
  assumes "generations db' = sql_update p f (generations db)" "\<And>g. gn_old (f g) = gn_old g" "\<And>g. completed g \<Longrightarrow> completed (f g)"
    "retired k db"
  shows "retired k db'"
proof -
  obtain g where g: "g \<in> set (generations db)" "gn_old g = k" "completed g" using assms(4) by (auto simp: retired_def)
  have "(if p g then f g else g) \<in> set (generations db')" using g(1) assms(1) by (auto simp: sql_update_def)
  then show ?thesis unfolding retired_def using g assms(2,3) by (intro bexI [of _ "if p g then f g else g"]) auto
qed

lemma update_barrier_frame:
  assumes "update_barrier p f db = Some (db', n)"
  shows "members db' = members db" "generations db' = generations db" "api_keys db' = api_keys db"
  using assms by (auto elim!: update_barrierE)

lemma prepare_frame:
  assumes "prepare_tx i found auth req d nodes db = Some (db', n)"
  shows "generations db' = generations db" "set (members db) \<subseteq> set (members db')"
proof -
  obtain db1 db2 k j where db1: "members db1 = members db" "generations db1 = generations db"
    and up: "prepare_upsert auth req d db1 = Some (db2, k)"
    and ms: "run_tx (map (prepare_member auth req d) nodes) db2 = Some (db', j)"
    using assms by (rule prepare_txE)
  have "generations db2 = generations db1" "members db2 = members db1" using up by (auto elim: prepare_upsertE)
  then show "generations db' = generations db" "set (members db) \<subseteq> set (members db')"
    using prepare_members_frame(2,4) [OF ms] db1 by simp_all
qed

lemma fenced_generation_frame:
  assumes "retirementFencedGenerationSQL epoch db = Some (db', n)"
  shows "members db' = members db" "set (generations db) \<subseteq> set (generations db')"
  using assms by (auto simp: retirementFencedGenerationSQL_def split: option.splits if_splits)

lemma fence_frame:
  assumes "fence_tx i auth epoch now db = Some (db', n)"
  shows "members db' = members db \<and> set (generations db) \<subseteq> set (generations db')"
  using assms unfolding fence_tx_def
proof (elim audited_txE run_tx_ConsE)
  fix db1 db2 db3 k j m
  assume db1: "members db1 = members db" "generations db1 = generations db"
    and up: "fence_update auth epoch now db1 = Some (db2, k)"
    and g: "retirementFencedGenerationSQL epoch db2 = Some (db3, j)" and last: "run_tx [] db3 = Some (db', m)"
  show ?thesis
    using update_barrier_frame [OF up [unfolded fence_update_def]] fenced_generation_frame [OF g] db1 last by simp
qed

lemma abort_frame:
  assumes "abort_tx i auth epoch now db = Some (db', n)"
  shows "members db' = members db \<and> generations db' = generations db"
  using assms unfolding abort_tx_def abort_update_def
  by (elim audited_txE run_tx_ConsE) (auto simp: update_barrier_frame)

lemma ready_generation_retired:
  assumes "retirementReadyGenerationSQL epoch db = Some (db', n)" "retired k db"
  shows "retired k db'"
proof (cases "barrier db")
  case None
  then show ?thesis using assms by (simp add: retirementReadyGenerationSQL_def)
next
  case (Some b)
  have upd: "retired k (db\<lparr>generations := sql_update (\<lambda>g. gn_epoch g = epoch \<and> gn_ready g = None) (\<lambda>g. g\<lparr>gn_ready := b_ready b\<rparr>) (generations db)\<rparr>)"
  proof -
    obtain g where g: "g \<in> set (generations db)" "gn_old g = k" "completed g" using assms(2) by (auto simp: retired_def)
    then show ?thesis unfolding retired_def set_sql_update ret_db.simps by (intro bexI [of _ g]) (auto simp: completed_def set_sql_update)
  qed
  show ?thesis using Some assms upd by (auto simp: retirementReadyGenerationSQL_def Let_def retired_def split: if_splits)
qed

lemma ready_frame:
  assumes "ready_tx i auth epoch now db = Some (db', n)"
  shows "members db' = members db \<and> (retired k db \<longrightarrow> retired k db')"
  using assms unfolding ready_tx_def
proof (elim audited_txE run_tx_ConsE)
  fix db1 db2 db3 n1 j m
  assume db1: "members db1 = members db" "generations db1 = generations db"
    and up: "ready_update auth epoch now db1 = Some (db2, n1)"
    and g: "retirementReadyGenerationSQL epoch db2 = Some (db3, j)" and last: "run_tx [] db3 = Some (db', m)"
  note f = update_barrier_frame [OF up [unfolded ready_update_def]]
  have "retired k db2 = retired k db" using retired_cong f(2) db1(2) by metis
  then show ?thesis using f ready_generation_frame(2) [OF g] ready_generation_retired [OF g, of k] db1 last by simp
qed

lemma step_keeps:
  assumes "ret_step db db'"
  shows "retired k db \<Longrightarrow> retired k db'" "is_member e v db \<Longrightarrow> is_member e v db'"
  using assms
proof (induction rule: ret_step.induct)
  case (Prepare i found auth req d nodes db db' n)
  { case 1 then show ?case using prepare_frame(1) [OF Prepare] by (simp add: retired_def) next
    case 2 then show ?case using prepare_frame(2) [OF Prepare] by (auto simp: is_member_def) }
next
  case (Fence i auth epoch now db db' n)
  { case 1 then show ?case using fence_frame [OF Fence] by (auto simp: retired_def) next
    case 2 then show ?case using fence_frame [OF Fence] by (simp add: is_member_def) }
next
  case (Attest auth areq db db' n)
  { case 1 then show ?case using attest_frame(2) [OF Attest] by (simp add: retired_def) next
    case 2 then show ?case using attest_frame(3) [OF Attest] by (simp only: is_member_def) }
next
  case (Ready i auth epoch now db db' n)
  { case 1 then show ?case using ready_frame [OF Ready] by simp next
    case 2 then show ?case using ready_frame [OF Ready] by (simp add: is_member_def) }
next
  case (Abort i auth epoch now db db' n)
  { case 1 then show ?case using abort_frame [OF Abort] by (simp add: retired_def) next
    case 2 then show ?case using abort_frame [OF Abort] by (simp add: is_member_def) }
next
  case (Archive epoch db db' n)
  { case 1 then show ?case using archive_frame [OF Archive] by (simp add: retired_def) next
    case 2 then show ?case using archive_frame [OF Archive] by (simp add: is_member_def) }
next
  case (Removed epoch now db db' n)
  { case 1 then show ?case by (rule retired_update [OF removed_frame(3) [OF Removed], rotated -1]) (simp_all add: completed_def) next
    case 2 then show ?case using removed_frame(2) [OF Removed] by (simp add: is_member_def) }
qed (simp_all add: retired_def is_member_def)

lemma steps_keep:
  "ret_step\<^sup>*\<^sup>* db db' \<Longrightarrow> retired k db \<Longrightarrow> retired k db'"
  "ret_step\<^sup>*\<^sup>* db db' \<Longrightarrow> is_member e v db \<Longrightarrow> is_member e v db'"
  by (induction rule: rtranclp_induct) (auto intro: step_keeps)

section \<open>Sealed writes\<close>

definition leaves_retirement :: "'a ret_db_scheme mutation list \<Rightarrow> bool" where
  "leaves_retirement ms \<longleftrightarrow>
     (\<forall>m \<in> set ms. \<forall>db db' n. m db = Some (db', n) \<longrightarrow> barrier db' = barrier db \<and> generations db' = generations db)"

text \<open>The contract between the fence and a component that seals data: its statements leave the retirement
  tables alone, and then a rejected writer changes nothing and an admitted one commits exactly its statements.\<close>

locale envelope_client =
  fixes stmts :: "'a ret_db_scheme mutation list"
  assumes leaves: "leaves_retirement stmts"
begin

lemma stmts_frame:
  assumes "run_tx stmts db = Some (db', n)"
  shows "barrier db' = barrier db \<and> generations db' = generations db"
proof (rule run_tx_invariant [OF assms])
  fix m db1 db2 n
  assume "m \<in> set stmts" "barrier db1 = barrier db \<and> generations db1 = generations db" "m db1 = Some (db2, n)"
  moreover from this have "barrier db2 = barrier db1 \<and> generations db2 = generations db1"
    using leaves unfolding leaves_retirement_def by blast
  ultimately show "barrier db2 = barrier db \<and> generations db2 = generations db" by simp
qed simp

lemma rejected_after:
  assumes "run_tx stmts db = Some (db', n)"
  shows "envelopeWriterRejectedPredicate w db' = envelopeWriterRejectedPredicate w db"
  using stmts_frame [OF assms] by (cases "barrier db") (simp_all add: envelopeWriterRejectedPredicate_def)

lemma fenced_tx:
  "run_tx (stmts @ [fence_stmt w]) db = (if envelopeWriterRejectedPredicate w db then None else run_tx stmts db)"
proof (cases "run_tx stmts db")
  case None
  then show ?thesis by (simp add: run_tx_append)
next
  case (Some r)
  obtain db' n where r: "r = (db', n)" by fastforce
  have "fence_stmt w db' = (if envelopeWriterRejectedPredicate w db then None else Some (db', 0))"
    using rejected_after [OF Some [unfolded r]]
    by (auto simp: fence_stmt_def update_barrier_def set_barrier_def barrier_check_def envelopeWriterRejectedPredicate_def
        split: option.splits)
  then show ?thesis using Some r by (simp add: run_tx_append)
qed

lemma rejected_writer:
  assumes "envelopeWriterRejectedPredicate w db"
  shows "\<exists>e. ExecuteEnvelope f w stmts db = (db, Inl e)"
proof -
  have "run_tx (stmts @ [fence_stmt w]) db = None" using fenced_tx assms by simp
  then show ?thesis by (cases f) (simp_all add: ExecuteEnvelope_def run_execute_def)
qed

lemma admitted_writer:
  assumes "\<not> envelopeWriterRejectedPredicate w db" "validRetirementKeyID w"
  shows "ExecuteEnvelope f w stmts db = (fst (run_execute f (run_tx stmts) db), map_sum Env_Exec id (snd (run_execute f (run_tx stmts) db)))"
proof -
  have "run_tx (stmts @ [fence_stmt w]) db = run_tx stmts db" using fenced_tx assms(1) by simp
  then have "run_execute f (run_tx (stmts @ [fence_stmt w])) db = run_execute f (run_tx stmts) db"
    by (cases f) (simp_all add: run_execute_def)
  then show ?thesis using assms(2) by (cases "run_execute f (run_tx stmts) db") (simp add: ExecuteEnvelope_def split: sum.splits)
qed

end

lemma retired_rejected:
  assumes "ret_inv db" "retired k db"
  shows "envelopeWriterRejectedPredicate k db"
  using assms by (auto simp: ret_inv_def retired_def envelopeWriterRejectedPredicate_def sql_exists_iff split: option.splits)

text \<open>C13. Once a generation is completed, its old key never seals again, whatever retirements are prepared,
  fenced, completed or aborted afterwards: the admission check refuses it, and a transaction that it sealed
  changes nothing.\<close>

theorem retirement_key_never_seals:
  assumes "ret_reachable db" "retired k db" "ret_step\<^sup>*\<^sup>* db db'" "leaves_retirement ms"
  shows "\<not> CheckEnvelopeWriterAllowed q k db' \<and> (\<exists>e. ExecuteEnvelope f k ms db' = (db', Inl e))"
proof -
  have rej: "envelopeWriterRejectedPredicate k db'"
    using reachable_inv [OF reachable_steps [OF assms(1,3)]] steps_keep(1) [OF assms(3,2)] by (rule retired_rejected)
  have "envelope_client ms" using assms(4) by unfold_locales
  from envelope_client.rejected_writer [OF this rej] show ?thesis using rej by (simp add: CheckEnvelopeWriterAllowed_def)
qed

text \<open>The key that may always seal: the replacement once the barrier is fenced, the old key before.\<close>

definition current_writer :: "ret_barrier \<Rightarrow> string" where
  "current_writer b = (if b_state b \<in> {Fenced, Ready} then b_replacement b else b_old b)"

lemma glob_key_valid:
  assumes "v \<noteq> ''''" "glob_text 64 ''._-'' v"
  shows "validRetirementKeyID v"
proof -
  let ?p = "\<lambda>c. alnum_rune c \<or> c \<in> set (map byte_of ''._-'')"
  have p: "list_all (?p \<circ> byte_of) v" using assms(2) by (auto simp: glob_text_def list_all_iff)
  have "byte_of c < 128" if "?p (byte_of c)" for c using that by (auto simp: alnum_rune_def byte_of_def)
  then have ascii: "list_all is_ascii v" using p by (auto simp: list_all_iff is_ascii_def)
  have "\<not> is_space (byte_of c)" if "?p (byte_of c)" for c
    using that by (auto simp: alnum_rune_def is_space_def byte_of_def)
  then have "trimmed v" using p assms(1) runes_ascii [OF ascii]
    by (simp add: trimmed_def Let_def list_all_iff hd_map last_map)
  then show ?thesis using assms p runes_ascii [OF ascii] by (simp add: validRetirementKeyID_def glob_text_def list_all_iff)
qed

text \<open>C15. The fence never locks every writer out: in every reachable state the current writer, the old key until
  the barrier is fenced and the replacement from then on, is admitted, and a transaction it seals commits as if
  there were no fence; while a retirement is prepared, its replacement is admitted too.\<close>

theorem retirement_writer_available:
  assumes "ret_reachable db" "barrier db = Some b" "leaves_retirement ms"
  shows "CheckEnvelopeWriterAllowed False (current_writer b) db \<and>
    (b_state b = Prepared \<longrightarrow> CheckEnvelopeWriterAllowed False (b_replacement b) db) \<and>
    ExecuteEnvelope f (current_writer b) ms db =
      (fst (run_execute f (run_tx ms) db), map_sum Env_Exec id (snd (run_execute f (run_tx ms) db)))"
proof -
  note inv = ret_invD [OF reachable_inv [OF assms(1)] assms(2)]
  have valid: "validRetirementKeyID (b_old b)" "validRetirementKeyID (b_replacement b)"
    using inv(1) by (simp_all add: barrier_check_def glob_key_valid)
  have free: "\<not> envelopeWriterRejectedPredicate (b_replacement b) db"
    using inv(2) assms(2) by (auto simp: envelopeWriterRejectedPredicate_def sql_exists_iff generation_ok_def)
  have old: "\<not> envelopeWriterRejectedPredicate (b_old b) db" if "b_state b \<notin> {Fenced, Ready}"
    using that inv(2) assms(2) by (auto simp: envelopeWriterRejectedPredicate_def sql_exists_iff generation_ok_def)
  have adm: "\<not> envelopeWriterRejectedPredicate (current_writer b) db" "validRetirementKeyID (current_writer b)"
    using free old valid by (auto simp: current_writer_def)
  have "envelope_client ms" using assms(3) by unfold_locales
  from envelope_client.admitted_writer [OF this adm] show ?thesis
    using adm free valid by (simp add: CheckEnvelopeWriterAllowed_def)
qed

section \<open>Evidence\<close>

text \<open>Within one epoch the barrier keeps its keys, and epochs only grow.\<close>

definition epoch_le :: "ret_barrier option \<Rightarrow> ret_barrier option \<Rightarrow> bool" where
  "epoch_le x y \<longleftrightarrow>
     (case x of None \<Rightarrow> True
      | Some b \<Rightarrow> (case y of None \<Rightarrow> False
          | Some c \<Rightarrow> b_epoch b < b_epoch c \<or> b_epoch b = b_epoch c \<and> b_old b = b_old c \<and> b_replacement b = b_replacement c))"

lemma epoch_le_refl [simp]: "epoch_le x x"
  by (simp add: epoch_le_def split: option.splits)

lemma epoch_le_trans: "epoch_le x y \<Longrightarrow> epoch_le y z \<Longrightarrow> epoch_le x z"
  by (auto simp: epoch_le_def split: option.splits)

lemma update_barrier_epoch:
  assumes "update_barrier p f db = Some (db', n)" "\<And>b. b_epoch (f b) = b_epoch b \<and> b_old (f b) = b_old b \<and> b_replacement (f b) = b_replacement b"
  shows "epoch_le (barrier db) (barrier db')"
  using assms(1) by (cases rule: update_barrierE) (auto simp: epoch_le_def assms(2) split: option.splits)

lemma prepare_upsert_epoch: "prepare_upsert auth req d db = Some (db', n) \<Longrightarrow> epoch_le (barrier db) (barrier db')"
  by (erule prepare_upsertE) (auto simp: epoch_le_def prepared_barrier_def succeeds_def)

lemma generation_barrier:
  "retirementFencedGenerationSQL epoch db = Some (db', n) \<Longrightarrow> barrier db' = barrier db"
  by (auto simp: retirementFencedGenerationSQL_def split: option.splits if_splits)

lemma step_epoch: "ret_step db db' \<Longrightarrow> epoch_le (barrier db) (barrier db')"
proof (induction rule: ret_step.induct)
  case (Prepare i found auth req d nodes db db' n)
  then show ?case
  proof (rule prepare_txE)
    fix db1 db2 k j
    assume db1: "barrier db1 = barrier db" and up: "prepare_upsert auth req d db1 = Some (db2, k)"
      and ms: "run_tx (map (prepare_member auth req d) nodes) db2 = Some (db', j)"
    show ?thesis using prepare_upsert_epoch [OF up] prepare_members_frame(1) [OF ms] db1 by simp
  qed
next
  case (Fence i auth epoch now db db' n)
  then show ?case unfolding fence_tx_def
  proof (elim audited_txE run_tx_ConsE)
    fix db1 db2 db3 k j m
    assume db1: "barrier db1 = barrier db" and up: "fence_update auth epoch now db1 = Some (db2, k)"
      and g: "retirementFencedGenerationSQL epoch db2 = Some (db3, j)" and last: "run_tx [] db3 = Some (db', m)"
    show ?thesis using update_barrier_epoch [OF up [unfolded fence_update_def]] generation_barrier [OF g] db1 last by simp
  qed
next
  case (Ready i auth epoch now db db' n)
  then show ?case unfolding ready_tx_def
  proof (elim audited_txE run_tx_ConsE)
    fix db1 db2 db3 k j m
    assume db1: "barrier db1 = barrier db" and up: "ready_update auth epoch now db1 = Some (db2, k)"
      and g: "retirementReadyGenerationSQL epoch db2 = Some (db3, j)" and last: "run_tx [] db3 = Some (db', m)"
    show ?thesis using update_barrier_epoch [OF up [unfolded ready_update_def]] ready_generation_frame(1) [OF g] db1 last by simp
  qed
next
  case (Abort i auth epoch now db db' n)
  then show ?case unfolding abort_tx_def
  proof (elim audited_txE run_tx_ConsE)
    fix db1 db2 k j
    assume db1: "barrier db1 = barrier db" and up: "abort_update auth epoch now db1 = Some (db2, k)" and last: "run_tx [] db2 = Some (db', j)"
    show ?thesis using update_barrier_epoch [OF up [unfolded abort_update_def]] db1 last by simp
  qed
qed (simp_all add: attest_frame(1) archive_frame(1) removed_frame(1))

lemma steps_epoch: "ret_step\<^sup>*\<^sup>* db db' \<Longrightarrow> epoch_le (barrier db) (barrier db')"
  by (induction rule: rtranclp_induct) (auto intro: step_epoch epoch_le_trans)

definition dated :: "'a ret_db_scheme \<Rightarrow> bool" where
  "dated db \<longleftrightarrow> (\<forall>m \<in> set (members db). mb_attested m \<longrightarrow> mb_at m \<noteq> None)"

lemma dated_cong: "members db' = members db \<Longrightarrow> dated db' = dated db"
  by (simp add: dated_def)

lemma prepare_member_dated: "prepare_member auth req d node db = Some (db', n) \<Longrightarrow> dated db \<Longrightarrow> dated db'"
  by (auto simp: prepare_member_def dated_def pending_member_def split: if_splits)

lemma step_dated: "ret_step db db' \<Longrightarrow> dated db \<Longrightarrow> dated db'"
proof (induction rule: ret_step.induct)
  case (Prepare i found auth req d nodes db db' n)
  then show ?case
  proof (elim prepare_txE)
    fix db1 db2 k j
    assume db1: "members db1 = members db" and up: "prepare_upsert auth req d db1 = Some (db2, k)" and "dated db"
      and ms: "run_tx (map (prepare_member auth req d) nodes) db2 = Some (db', j)"
    have "members db2 = members db1" using up by (auto elim: prepare_upsertE)
    then have "dated db2" using db1 \<open>dated db\<close> by (simp add: dated_def)
    with ms show ?thesis by (rule run_tx_invariant) (auto intro: prepare_member_dated)
  qed
next
  case (Attest auth areq db db' n)
  then show ?case by (auto simp: attest_tx_def Let_def dated_def set_sql_update split: if_splits)
next
  case (Ready i auth epoch now db db' n)
  then show ?case using ready_frame dated_cong by blast
qed (auto simp: dated_def dest!: fence_frame abort_frame archive_frame(2) removed_frame(2))

lemma reachable_dated: "ret_reachable db \<Longrightarrow> dated db"
proof -
  have "dated db'" if "ret_step\<^sup>*\<^sup>* db db'" "dated db" for db db' :: "'a ret_db_scheme"
    using that by (induction rule: rtranclp_induct) (auto intro: step_dated)
  then show "ret_reachable db \<Longrightarrow> dated db" by (auto simp: ret_reachable_def no_retirement_def dated_def)
qed

text \<open>A preparation that moved the barrier has entered all its members.\<close>

lemma prepare_enters_members:
  assumes "prepare_tx i found auth req d nodes db = Some (db', n)" "barrier db' \<noteq> barrier db" "v \<in> set nodes"
  shows "barrier db' = Some (prepared_barrier req d) \<and> is_member (pr_epoch req) v db'"
  using assms(1)
proof (rule prepare_txE)
  fix db1 db2 k j
  assume db1: "barrier db1 = barrier db" and up: "prepare_upsert auth req d db1 = Some (db2, k)"
    and ms: "run_tx (map (prepare_member auth req d) nodes) db2 = Some (db', j)"
  have b: "barrier db2 = Some (prepared_barrier req d)" "guarded auth (pr_at req) db2"
    using up assms(2) db1 prepare_members_frame(1) [OF ms] guarded_cong [of db2 db1 auth "pr_at req"] by (auto elim!: prepare_upsertE)
  obtain xs ys where nodes: "nodes = xs @ v # ys" using assms(3) by (meson split_list)
  obtain db3 n3 db4 n4 n5 where x: "run_tx (map (prepare_member auth req d) xs) db2 = Some (db3, n3)"
      and v: "prepare_member auth req d v db3 = Some (db4, n4)"
      and y: "run_tx (map (prepare_member auth req d) ys) db4 = Some (db', n5)"
    using ms nodes by (auto simp: run_tx_append split: option.splits)
  note fx = prepare_members_frame [OF x]
  have "is_member (pr_epoch req) v db4"
    using v b fx guarded_cong [OF fx(3), of auth "pr_at req"]
    by (auto simp: prepare_member_def retirementPreparedBarrierGuard_def prepared_barrier_def is_member_def pending_member_def split: if_splits)
  then have "is_member (pr_epoch req) v db'" using prepare_members_frame(4) [OF y] by (auto simp: is_member_def)
  then show ?thesis using b(1) prepare_members_frame(1) [OF ms] by simp
qed

lemma ready_predicateD:
  assumes "ready_predicate epoch now db" "dated db" "barrier db = Some b" "barrier_check b" "m \<in> set (members db)" "mb_epoch m = epoch"
  shows "\<exists>f t. b_fenced b = Some f \<and> mb_attested m \<and> mb_active m = b_replacement b \<and> no_references (mb_status m) \<and>
    mb_at m = Some t \<and> f \<le> t \<and> t \<le> now"
proof -
  let ?ms = "sql_select (\<lambda>m. mb_epoch m = epoch) (members db)"
  have m: "m \<in> set ?ms" using assms(5,6) by (simp add: set_sql_select)
  have "int (length (filter mb_attested ?ms)) = int (length ?ms)"
    using assms(1,3) by (simp add: ready_predicate_def Let_def sql_count_def)
  then have att: "mb_attested m" using m by (metis (no_types, lifting) filter_id_conv length_filter_less nat_neq_iff of_nat_eq_iff)
  then obtain t where t: "mb_at m = Some t" using assms(2,5) by (auto simp: dated_def)
  have "b_state b = Fenced" "\<not> member_blocks b now m"
    using assms(1,3) m by (auto simp: ready_predicate_def Let_def sql_exists_iff)
  moreover from this obtain f where "b_fenced b = Some f" using assms(4) by (auto simp: barrier_check_def)
  ultimately show ?thesis using att t by (auto simp: member_blocks_def)
qed


section \<open>A concrete retirement\<close>

text \<open>Key A is retired in favour of B on the evidence of one node, then the retirement of B is prepared.\<close>

definition demo_digest :: string where
  "demo_digest = replicate 43 (CHR ''d'')"

definition demo_start :: ret_db where
  "demo_start = \<lparr>barrier = None, members = [], generations = [], api_keys = [], audit_events = []\<rparr>"

definition demo_prepare :: "int \<Rightarrow> string \<Rightarrow> string \<Rightarrow> ret_prepare" where
  "demo_prepare e old new = \<lparr>pr_epoch = e, pr_old = old, pr_replacement = new, pr_at = 100 * e\<rparr>"

definition demo_prepared :: ret_db where
  "demo_prepared = demo_start\<lparr>barrier := Some (prepared_barrier (demo_prepare 1 ''A'' ''B'') demo_digest), members := [pending_member 1 ''n'']\<rparr>"

definition demo_barrier :: ret_barrier where
  "demo_barrier = (prepared_barrier (demo_prepare 1 ''A'' ''B'') demo_digest)\<lparr>b_state := Fenced, b_fenced := Some 110\<rparr>"

definition demo_generation :: ret_generation where
  "demo_generation = \<lparr>gn_epoch = 1, gn_old = ''A'', gn_replacement = ''B'', gn_ready = None, gn_removed = None\<rparr>"

definition demo_member :: ret_member where
  "demo_member = \<lparr>mb_epoch = 1, mb_node = ''n'', mb_attested = True, mb_sequence = 1, mb_boot = ''b'', mb_active = ''B'',
     mb_at = Some 120, mb_status = no_status\<rparr>"

definition demo_attested :: ret_db where
  "demo_attested = demo_start\<lparr>barrier := Some demo_barrier, members := [demo_member], generations := [demo_generation]\<rparr>"

definition demo_ready :: ret_db where
  "demo_ready = demo_attested\<lparr>barrier := Some (demo_barrier\<lparr>b_state := Ready, b_ready := Some 130\<rparr>),
     generations := [demo_generation\<lparr>gn_ready := Some 130\<rparr>]\<rparr>"

definition demo_next :: ret_db where
  "demo_next = demo_ready\<lparr>barrier := Some (prepared_barrier (demo_prepare 2 ''B'' ''C'') demo_digest),
     members := [demo_member, pending_member 2 ''n'']\<rparr>"

lemma demo_steps:
  "prepare_tx ''r1'' False None (demo_prepare 1 ''A'' ''B'') demo_digest [''n''] demo_start = Some (demo_prepared, 2)"
  "run_tx [fence_tx ''r2'' None 1 110, attest_tx None \<lparr>at_epoch_no = 1, at_node = ''n'', at_boot = ''b'', at_active = ''B'',
     at_sequence = 1, at_time = 120, at_status = no_status\<rparr>] demo_prepared = Some (demo_attested, 3)"
  "ready_tx ''r3'' None 1 130 demo_attested = Some (demo_ready, 2)"
  "prepare_tx ''r4'' True None (demo_prepare 2 ''B'' ''C'') demo_digest [''n''] demo_ready = Some (demo_next, 2)"
  by code_simp+

lemma demo_reach: "ret_reachable demo_start" "ret_step\<^sup>*\<^sup>* demo_prepared demo_attested" "ret_step\<^sup>*\<^sup>* demo_attested demo_ready"
  "ret_step\<^sup>*\<^sup>* demo_ready demo_next" "ret_step\<^sup>*\<^sup>* demo_start demo_prepared"
proof -
  show "ret_reachable demo_start" unfolding ret_reachable_def by (intro exI [of _ demo_start]) (simp add: no_retirement_def demo_start_def)
  show "ret_step\<^sup>*\<^sup>* demo_prepared demo_attested"
    using demo_steps(2) by (elim run_tx_ConsE) (auto intro: converse_rtranclp_into_rtranclp ret_step.Fence ret_step.Attest)
qed (use demo_steps in \<open>blast intro: ret_step.Prepare ret_step.Ready\<close>)+

lemma demo_ready_reachable: "ret_reachable demo_ready"
  using demo_reach reachable_steps by blast

theorem retirement_key_never_seals_witness:
  "\<not> CheckEnvelopeWriterAllowed False ''A'' demo_next \<and> (\<exists>e. ExecuteEnvelope Exec_Ok ''A'' [] demo_next = (demo_next, Inl e))"
proof -
  have "retired ''A'' demo_ready" by (simp add: retired_def demo_ready_def demo_generation_def completed_def)
  from retirement_key_never_seals [OF demo_ready_reachable this demo_reach(4), of "[]"] show ?thesis
    by (simp add: leaves_retirement_def)
qed

theorem retirement_writer_available_witness:
  "CheckEnvelopeWriterAllowed False ''B'' demo_ready \<and> ExecuteEnvelope Exec_Ok ''B'' [] demo_ready = (demo_ready, Inr 0)"
  using retirement_writer_available [OF demo_ready_reachable, of "demo_barrier\<lparr>b_state := Ready, b_ready := Some 130\<rparr>" "[]" Exec_Ok]
  by (simp add: demo_ready_def leaves_retirement_def current_writer_def demo_barrier_def prepared_barrier_def demo_prepare_def
      run_execute_def)


end
