(* ===== verification/RetirementCalls.thy ===== *)
theory RetirementCalls
  imports RetirementMachine
begin

text \<open>
  The calls of \<^verbatim>\<open>internal/storage/master_key_retirement.go\<close> over the statements of \<open>KeyRetirement\<close>: validation of
  the arguments, the decoded view of the barrier and its members, replays, the committed transaction with every
  way it can end, and the reading back. Other nodes commit between any two database calls. The calls are shown to
  be sequences of steps of the machine, so that its properties hold of them.
\<close>

section \<open>Validation\<close>

definition validRetirementID :: "string \<Rightarrow> bool" where
  "validRetirementID v \<longleftrightarrow>
     length v \<noteq> 0 \<and> length v \<le> 128 \<and> trimmed v \<and> list_all (\<lambda>c. alnum_rune c \<or> c \<in> set (map byte_of ''._:-'')) (runes v)"

definition validRetirementDigest :: "string \<Rightarrow> bool" where
  "validRetirementDigest v = (case b64_decode v of None \<Rightarrow> False | Some d \<Rightarrow> length d = 32 \<and> b64_encode d = v)"

definition validRetirementMemberCount :: "nat \<Rightarrow> bool" where
  "validRetirementMemberCount n \<longleftrightarrow> n = 1 \<or> n = 3"

definition normalizeMemberIDs :: "string list \<Rightarrow> string list \<Rightarrow> string list option" where
  "normalizeMemberIDs ids expected =
     (if ids \<noteq> [] \<and> expected \<noteq> [] \<and> ids \<noteq> expected then None
      else let ids = (if ids = [] then expected else ids); sorted = sort ids
           in if validRetirementMemberCount (length ids) \<and> list_all validRetirementID sorted \<and> distinct sorted
              then Some sorted else None)"

definition validRetirementTime :: "millis \<Rightarrow> bool" where
  "validRetirementTime t \<longleftrightarrow> 0 \<le> t"

definition validateRetirementStatus :: "ret_status \<Rightarrow> bool" where
  "validateRetirementStatus s \<longleftrightarrow> status_nonneg s \<and> (st_passkey_enabled s \<or> st_passkey s = 0) \<and> no_references s"

definition validateRetirementAuthorization :: "ret_authorization option \<Rightarrow> string \<Rightarrow> bool" where
  "validateRetirementAuthorization auth right =
     (case auth of
        None \<Rightarrow> True
      | Some a \<Rightarrow> validRetirementID (au_name a) \<and> validRetirementDigest (au_digest a) \<and> au_group a = ''Secrets'' \<and> au_right a = right)"

section \<open>Reading\<close>

datatype ret_err = R_Invalid | R_NotPrepared | R_Conflict | R_Corrupt | R_Query | R_Rand | R_Exec exec_err

record ret_view =
  v_barrier :: ret_barrier
  v_membership :: "string list"
  v_attestations :: "ret_member list"

primrec nul_join :: "string list \<Rightarrow> string" where
  "nul_join [] = []"
| "nul_join (x # xs) = (if xs = [] then x else x @ [CHR 0x00] @ nul_join xs)"

definition retirementMembershipDigest :: "prims \<Rightarrow> string list \<Rightarrow> string" where
  "retirementMembershipDigest P nodes = digest P (nul_join nodes)"

definition retirementTime :: "bool \<Rightarrow> millis option \<Rightarrow> bool" where
  "retirementTime required t = (case t of None \<Rightarrow> \<not> required | Some ms \<Rightarrow> 0 \<le> ms)"

definition decodeRetirementBarrier :: "ret_barrier \<Rightarrow> bool" where
  "decodeRetirementBarrier b \<longleftrightarrow>
     validRetirementKeyID (b_old b) \<and> validRetirementKeyID (b_replacement b) \<and> b_replacement b \<noteq> b_old b \<and>
     validRetirementDigest (b_digest b) \<and> retirementTime True (Some (b_prepared b)) \<and>
     retirementTime False (b_fenced b) \<and> retirementTime False (b_ready b) \<and> retirementTime False (b_aborted b)"

definition decodeRetirementMember :: "ret_member \<Rightarrow> bool" where
  "decodeRetirementMember m \<longleftrightarrow>
     validRetirementID (mb_node m) \<and> 0 \<le> mb_sequence m \<and>
     (if mb_attested m
      then 0 < mb_sequence m \<and> validRetirementID (mb_boot m) \<and> validRetirementKeyID (mb_active m) \<and>
           retirementTime True (mb_at m) \<and> status_nonneg (mb_status m)
      else mb_sequence m = 0 \<and> mb_boot m = '''' \<and> mb_active m = '''' \<and> mb_at m = None \<and>
           no_references (mb_status m) \<and> \<not> st_passkey_enabled (mb_status m))"

definition assembleRetirementMembers :: "prims \<Rightarrow> ret_barrier \<Rightarrow> ret_member list \<Rightarrow> ret_err + ret_view" where
  "assembleRetirementMembers P b rows =
     (let nodes = map mb_node rows
      in if validRetirementMemberCount (length rows) \<and> list_all decodeRetirementMember rows \<and> distinct nodes \<and>
            retirementMembershipDigest P nodes = b_digest b
         then Inr \<lparr>v_barrier = b, v_membership = nodes, v_attestations = filter mb_attested rows\<rparr> else Inl R_Corrupt)"

text \<open>How the two queries of a load go, and what others commit between them.\<close>

record 'db load_env =
  l_fails :: bool
  l_other :: "'db \<Rightarrow> 'db"
  l_fails2 :: bool

definition LoadMasterKeyRetirement ::
  "prims \<Rightarrow> 'a ret_db_scheme load_env \<Rightarrow> 'a ret_db_scheme \<Rightarrow> 'a ret_db_scheme \<times> (ret_err + ret_view)" where
  "LoadMasterKeyRetirement P e db =
     (if l_fails e then (db, Inl R_Query)
      else case barrier db of
             None \<Rightarrow> (db, Inl R_NotPrepared)
           | Some b \<Rightarrow>
               if \<not> decodeRetirementBarrier b then (db, Inl R_Corrupt)
               else let db = l_other e db
                    in if l_fails2 e then (db, Inl R_Query)
                       else (db, assembleRetirementMembers P b
                              (sort_key mb_node (sql_select (\<lambda>m. mb_epoch m = b_epoch b) (members db)))))"

definition LoadMasterKeyRetirementGuarded ::
  "prims \<Rightarrow> bool \<Rightarrow> ret_authorization \<Rightarrow> 'a ret_db_scheme \<Rightarrow> ret_err + ret_view" where
  "LoadMasterKeyRetirementGuarded P query_fails a db =
     (if \<not> validateRetirementAuthorization (Some a) ''read'' \<or> \<not> validRetirementTime (au_at a) then Inl R_Invalid
      else if query_fails then Inl R_Query
      else case barrier db of
             None \<Rightarrow> Inl R_NotPrepared
           | Some b \<Rightarrow>
               if \<not> retirementAuthorizationPredicate a (au_at a) db then Inl R_NotPrepared
               else if \<not> decodeRetirementBarrier b then Inl R_Corrupt
               else assembleRetirementMembers P b (sort_key mb_node (sql_select (\<lambda>m. mb_epoch m = b_epoch b) (members db))))"

definition decodeRetirementGeneration :: "ret_generation \<Rightarrow> bool" where
  "decodeRetirementGeneration g \<longleftrightarrow>
     0 < gn_epoch g \<and> validRetirementKeyID (gn_old g) \<and> validRetirementKeyID (gn_replacement g) \<and>
     gn_replacement g \<noteq> gn_old g \<and> retirementTime True (gn_ready g)"

definition LoadMasterKeyRetirementGenerations :: "bool \<Rightarrow> 'a ret_db_scheme \<Rightarrow> ret_err + ret_generation list" where
  "LoadMasterKeyRetirementGenerations query_fails db =
     (let rows = sort_key gn_epoch (sql_select completed (generations db))
      in if query_fails then Inl R_Query
         else if list_all decodeRetirementGeneration rows then Inr rows else Inl R_Corrupt)"

definition MasterKeyRetirementProhibitsWriter :: "bool \<Rightarrow> string \<Rightarrow> 'a ret_db_scheme \<Rightarrow> ret_err + bool" where
  "MasterKeyRetirementProhibitsWriter query_fails k db =
     (if \<not> validRetirementKeyID k then Inl R_Invalid
      else if query_fails then Inl R_Query
      else Inr (sql_exists (\<lambda>g. gn_old g = k \<and> completed g) (generations db)))"

definition loadRetirementGeneration :: "bool \<Rightarrow> int \<Rightarrow> 'a ret_db_scheme \<Rightarrow> ret_err + ret_generation" where
  "loadRetirementGeneration query_fails epoch db =
     (if query_fails then Inl R_Query
      else case sql_select (\<lambda>g. gn_epoch g = epoch \<and> completed g) (generations db) of
             [] \<Rightarrow> Inl R_Conflict
           | [g] \<Rightarrow> if decodeRetirementGeneration g then Inr g else Inl R_Corrupt
           | _ \<Rightarrow> Inl R_Corrupt)"

section \<open>Request identifiers\<close>

definition retirementRequestID :: "prims \<Rightarrow> string \<Rightarrow> string list \<Rightarrow> string" where
  "retirementRequestID P operation values =
     ''master-key-retirement/'' @ operation @ ''/'' @
     b64_encode (take 16 (sha256 P (operation @ concat (map (\<lambda>v. CHR 0x00 # v) values))))"

definition EventID :: "prims \<Rightarrow> string \<Rightarrow> string" where
  "EventID P requestID = digest P (''goauthy/audit-event-id/v1'' @ [CHR 0x00] @ requestID)"

definition transition_id :: "prims \<Rightarrow> string \<Rightarrow> ret_barrier \<Rightarrow> millis \<Rightarrow> string" where
  "transition_id P operation b now =
     EventID P (retirementRequestID P operation [itoa (b_epoch b), b_old b, b_replacement b, b_digest b, itoa now])"

section \<open>Calls\<close>

text \<open>How the database calls of an operation go: its authorization query, its first load, the replayed
  authorization, its transaction and its second load, with what others commit in between.\<close>

record 'db ret_env =
  r_auth_fails :: bool
  r_other1 :: "'db \<Rightarrow> 'db"
  r_load :: "'db load_env"
  r_other2 :: "'db \<Rightarrow> 'db"
  r_replay_fails :: bool
  r_exec :: exec_fault
  r_other3 :: "'db \<Rightarrow> 'db"
  r_load2 :: "'db load_env"
  r_other4 :: "'db \<Rightarrow> 'db"
  r_replay2_fails :: bool

definition retirementReplayAuthorization ::
  "ret_authorization option \<Rightarrow> string \<Rightarrow> millis \<Rightarrow> bool \<Rightarrow> 'a ret_db_scheme \<Rightarrow> ret_err option" where
  "retirementReplayAuthorization auth right at query_fails db =
     (case auth of
        None \<Rightarrow> None
      | Some a \<Rightarrow>
          if \<not> validateRetirementAuthorization auth right then Some R_Invalid
          else if query_fails then Some R_Query
          else if retirementAuthorizationPredicate a at db then None else Some R_Conflict)"

definition retirementMutationApplied :: "int \<Rightarrow> int \<Rightarrow> bool" where
  "retirementMutationApplied rows least \<longleftrightarrow> 0 < least \<and> least \<le> rows"

definition samePreparation :: "ret_view \<Rightarrow> ret_prepare \<Rightarrow> string list \<Rightarrow> string \<Rightarrow> bool" where
  "samePreparation v req nodes d \<longleftrightarrow>
     b_epoch (v_barrier v) = pr_epoch req \<and> b_old (v_barrier v) = pr_old req \<and>
     b_replacement (v_barrier v) = pr_replacement req \<and> b_digest (v_barrier v) = d \<and> v_membership v = nodes"

text \<open>The common course of a call after its validation: replay, refuse, or commit and read back.\<close>

datatype verdict = Replay | Refuse | Proceed

definition finish_call ::
  "prims \<Rightarrow> 'a ret_db_scheme ret_env \<Rightarrow> ret_authorization option \<Rightarrow> 'a ret_db_scheme mutation \<Rightarrow> int \<Rightarrow> (ret_view \<Rightarrow> bool) \<Rightarrow>
   'a ret_db_scheme \<Rightarrow> 'a ret_db_scheme \<times> (ret_err + ret_view)" where
  "finish_call P e auth tx least accept db =
     (let (db, res) = run_execute (r_exec e) tx (r_other2 e db)
      in case res of
           Inl err \<Rightarrow> (db, Inl (R_Exec err))
         | Inr n \<Rightarrow>
             if auth \<noteq> None \<and> \<not> retirementMutationApplied n least then (db, Inl R_Conflict)
             else let (db, loaded) = LoadMasterKeyRetirement P (r_load2 e) (r_other3 e db)
                  in case loaded of
                       Inl err \<Rightarrow> (db, Inl err)
                     | Inr v \<Rightarrow> if accept v then (db, Inr v) else (db, Inl R_Conflict))"

definition replay_call ::
  "'a ret_db_scheme ret_env \<Rightarrow> ret_authorization option \<Rightarrow> string \<Rightarrow> millis \<Rightarrow> ret_view \<Rightarrow> 'a ret_db_scheme \<Rightarrow>
   'a ret_db_scheme \<times> (ret_err + ret_view)" where
  "replay_call e auth right at v db =
     (let db = r_other2 e db
      in case retirementReplayAuthorization auth right at (r_replay_fails e) db of Some err \<Rightarrow> (db, Inl err) | None \<Rightarrow> (db, Inr v))"

definition prepare_verdict :: "ret_prepare \<Rightarrow> string list \<Rightarrow> string \<Rightarrow> ret_view \<Rightarrow> verdict" where
  "prepare_verdict req nodes d v =
     (if b_state (v_barrier v) = Prepared \<and> samePreparation v req nodes d then Replay
      else if succeeds req (v_barrier v) then Proceed else Refuse)"

definition prepareMasterKeyRetirement ::
  "prims \<Rightarrow> 'a ret_db_scheme ret_env \<Rightarrow> ret_authorization option \<Rightarrow> ret_prepare \<Rightarrow> string list \<Rightarrow> string list \<Rightarrow>
   'a ret_db_scheme \<Rightarrow> 'a ret_db_scheme \<times> (ret_err + ret_view)" where
  "prepareMasterKeyRetirement P e auth req ids expected db =
     (case normalizeMemberIDs ids expected of
        None \<Rightarrow> (db, Inl R_Invalid)
      | Some nodes \<Rightarrow>
          if \<not> validateRetirementAuthorization auth ''create'' \<or> pr_epoch req \<le> 0 \<or> \<not> validRetirementKeyID (pr_old req) \<or>
             \<not> validRetirementKeyID (pr_replacement req) \<or> pr_old req = pr_replacement req \<or> \<not> validRetirementTime (pr_at req)
          then (db, Inl R_Invalid)
          else case retirementReplayAuthorization auth ''create'' (pr_at req) (r_auth_fails e) db of
                 Some err \<Rightarrow> (db, Inl err)
               | None \<Rightarrow>
                   let d = retirementMembershipDigest P nodes;
                       (db, current) = LoadMasterKeyRetirement P (r_load e) (r_other1 e db);
                       i = EventID P (retirementRequestID P ''prepare''
                             [itoa (pr_epoch req), pr_old req, pr_replacement req, d, itoa (pr_at req)]);
                       commit = (\<lambda>found. finish_call P e auth (prepare_tx i found auth req d nodes) (int (length nodes) + 2)
                             (\<lambda>v. samePreparation v req nodes d \<and> b_state (v_barrier v) = Prepared) db)
                   in case current of
                        Inl R_NotPrepared \<Rightarrow> commit False
                      | Inl err \<Rightarrow> (db, Inl err)
                      | Inr v \<Rightarrow>
                          (case prepare_verdict req nodes d v of
                             Replay \<Rightarrow> replay_call e auth ''create'' (pr_at req) v db
                           | Refuse \<Rightarrow> (db, Inl R_Conflict)
                           | Proceed \<Rightarrow> commit True))"

definition transition_call ::
  "prims \<Rightarrow> 'a ret_db_scheme ret_env \<Rightarrow> ret_authorization option \<Rightarrow> string \<Rightarrow> int \<Rightarrow> millis \<Rightarrow> (ret_view \<Rightarrow> verdict) \<Rightarrow>
   (ret_view \<Rightarrow> 'a ret_db_scheme mutation) \<Rightarrow> (ret_view \<Rightarrow> bool) \<Rightarrow> 'a ret_db_scheme \<Rightarrow> 'a ret_db_scheme \<times> (ret_err + ret_view)" where
  "transition_call P e auth right epoch now judge tx accept db =
     (if epoch \<le> 0 \<or> \<not> validRetirementTime now then (db, Inl R_Invalid)
      else case retirementReplayAuthorization auth right now (r_auth_fails e) db of
             Some err \<Rightarrow> (db, Inl err)
           | None \<Rightarrow>
               let (db, current) = LoadMasterKeyRetirement P (r_load e) (r_other1 e db)
               in case current of
                    Inl err \<Rightarrow> (db, Inl err)
                  | Inr v \<Rightarrow>
                      if b_epoch (v_barrier v) \<noteq> epoch then (db, Inl R_Conflict)
                      else case judge v of
                             Replay \<Rightarrow> replay_call e auth right now v db
                           | Refuse \<Rightarrow> (db, Inl R_Conflict)
                           | Proceed \<Rightarrow> finish_call P e auth (tx v) 2 accept db)"

definition fence_verdict :: "millis \<Rightarrow> ret_view \<Rightarrow> verdict" where
  "fence_verdict now v =
     (if b_state (v_barrier v) \<in> {Fenced, Ready} then Replay
      else if b_state (v_barrier v) \<noteq> Prepared \<or> now < b_prepared (v_barrier v) then Refuse else Proceed)"

definition fenceMasterKeyRetirement ::
  "prims \<Rightarrow> 'a ret_db_scheme ret_env \<Rightarrow> ret_authorization option \<Rightarrow> int \<Rightarrow> millis \<Rightarrow> 'a ret_db_scheme \<Rightarrow>
   'a ret_db_scheme \<times> (ret_err + ret_view)" where
  "fenceMasterKeyRetirement P e auth epoch now =
     transition_call P e auth ''update'' epoch now (fence_verdict now)
       (\<lambda>v. fence_tx (transition_id P ''fence'' (v_barrier v) now) auth epoch now)
       (\<lambda>v. b_epoch (v_barrier v) = epoch \<and> b_state (v_barrier v) \<in> {Fenced, Ready})"

text \<open>A missing time is Go's zero time, which is before every time of a row.\<close>

definition before_opt :: "millis \<Rightarrow> millis option \<Rightarrow> bool" where
  "before_opt t limit = (case limit of None \<Rightarrow> False | Some l \<Rightarrow> t < l)"

definition readyAttestations :: "ret_view \<Rightarrow> millis \<Rightarrow> bool" where
  "readyAttestations v now \<longleftrightarrow>
     validRetirementMemberCount (length (v_membership v)) \<and> length (v_attestations v) = length (v_membership v) \<and>
     distinct (map mb_boot (v_attestations v)) \<and>
     list_all (\<lambda>m. mb_boot m \<noteq> '''' \<and> mb_active m = b_replacement (v_barrier v) \<and> no_references (mb_status m) \<and>
       (case mb_at m of None \<Rightarrow> False | Some t \<Rightarrow> \<not> before_opt t (b_fenced (v_barrier v)) \<and> t \<le> now)) (v_attestations v)"

definition ready_verdict :: "millis \<Rightarrow> ret_view \<Rightarrow> verdict" where
  "ready_verdict now v =
     (if b_state (v_barrier v) = Ready then Replay
      else if b_state (v_barrier v) \<noteq> Fenced \<or> before_opt now (b_fenced (v_barrier v)) \<or> \<not> readyAttestations v now then Refuse
      else Proceed)"

definition readyMasterKeyRetirement ::
  "prims \<Rightarrow> 'a ret_db_scheme ret_env \<Rightarrow> ret_authorization option \<Rightarrow> int \<Rightarrow> millis \<Rightarrow> 'a ret_db_scheme \<Rightarrow>
   'a ret_db_scheme \<times> (ret_err + ret_view)" where
  "readyMasterKeyRetirement P e auth epoch now =
     transition_call P e auth ''update'' epoch now (ready_verdict now)
       (\<lambda>v. ready_tx (transition_id P ''ready'' (v_barrier v) now) auth epoch now)
       (\<lambda>v. b_state (v_barrier v) = Ready)"

definition abort_verdict :: "millis \<Rightarrow> ret_view \<Rightarrow> verdict" where
  "abort_verdict now v =
     (if b_state (v_barrier v) = Aborted then Replay
      else if b_state (v_barrier v) = Ready \<or> now < b_prepared (v_barrier v) then Refuse else Proceed)"

definition abortMasterKeyRetirement ::
  "prims \<Rightarrow> 'a ret_db_scheme ret_env \<Rightarrow> ret_authorization option \<Rightarrow> int \<Rightarrow> millis \<Rightarrow> 'a ret_db_scheme \<Rightarrow>
   'a ret_db_scheme \<times> (ret_err + ret_view)" where
  "abortMasterKeyRetirement P e auth epoch now =
     transition_call P e auth ''delete'' epoch now (abort_verdict now)
       (\<lambda>v. abort_tx (transition_id P ''abort'' (v_barrier v) now) auth epoch now)
       (\<lambda>v. b_state (v_barrier v) = Aborted)"

definition sameAttestation :: "ret_member \<Rightarrow> ret_attest \<Rightarrow> bool" where
  "sameAttestation m req \<longleftrightarrow>
     mb_node m = at_node req \<and> mb_boot m = at_boot req \<and> mb_active m = at_active req \<and>
     mb_sequence m = at_sequence req \<and> mb_at m = Some (at_time req) \<and> mb_status m = at_status req"

definition attestationMatches :: "ret_view \<Rightarrow> ret_attest \<Rightarrow> bool" where
  "attestationMatches v req =
     (case List.find (\<lambda>m. mb_node m = at_node req) (v_attestations v) of None \<Rightarrow> False | Some m \<Rightarrow> sameAttestation m req)"

text \<open>The loop over the stored attestations: an error, a replay, or nothing that stops the call.\<close>

fun attest_scan :: "ret_attest \<Rightarrow> ret_member list \<Rightarrow> (ret_err + unit) option" where
  "attest_scan req [] = None"
| "attest_scan req (m # ms) =
     (if mb_node m \<noteq> at_node req \<and> mb_boot m = at_boot req then Some (Inl R_Invalid)
      else if mb_node m = at_node req \<and>
              (at_sequence req < mb_sequence m \<or> at_sequence req = mb_sequence m \<and> \<not> sameAttestation m req)
      then Some (Inl R_Invalid)
      else if mb_node m = at_node req \<and> at_sequence req = mb_sequence m then Some (Inr ())
      else attest_scan req ms)"

text \<open>The transaction of an attestation and reading its row back, also after an error.\<close>

definition attest_commit ::
  "prims \<Rightarrow> 'a ret_db_scheme ret_env \<Rightarrow> ret_authorization option \<Rightarrow> ret_attest \<Rightarrow> 'a ret_db_scheme \<Rightarrow>
   'a ret_db_scheme \<times> (ret_err + ret_view)" where
  "attest_commit P e auth req db =
     (let (db, res) = run_execute (r_exec e) (attest_tx auth req) (r_other2 e db)
      in case res of
           Inl err \<Rightarrow>
             let (db, loaded) = LoadMasterKeyRetirement P (r_load2 e) (r_other3 e db)
             in (case loaded of
                   Inl _ \<Rightarrow> (db, Inl (R_Exec err))
                 | Inr w \<Rightarrow>
                     if b_state (v_barrier w) = Fenced \<and> attestationMatches w req
                     then let db = r_other4 e db
                          in if retirementReplayAuthorization auth ''update'' (at_time req) (r_replay2_fails e) db = None
                             then (db, Inr w) else (db, Inl (R_Exec err))
                     else (db, Inl (R_Exec err)))
         | Inr n \<Rightarrow>
             if auth \<noteq> None \<and> \<not> retirementMutationApplied n 1 then (db, Inl R_Conflict)
             else let (db, loaded) = LoadMasterKeyRetirement P (r_load2 e) (r_other3 e db)
                  in case loaded of
                       Inl err \<Rightarrow> (db, Inl err)
                     | Inr w \<Rightarrow> if b_state (v_barrier w) = Fenced \<and> attestationMatches w req
                              then (db, Inr w) else (db, Inl R_Conflict))"

definition attestMasterKeyRetirement ::
  "prims \<Rightarrow> 'a ret_db_scheme ret_env \<Rightarrow> ret_authorization option \<Rightarrow> ret_attest \<Rightarrow> 'a ret_db_scheme \<Rightarrow>
   'a ret_db_scheme \<times> (ret_err + ret_view)" where
  "attestMasterKeyRetirement P e auth req db =
     (if at_epoch_no req \<le> 0 \<or> at_sequence req \<le> 0 \<or> \<not> validRetirementID (at_node req) \<or> \<not> validRetirementID (at_boot req) \<or>
         \<not> validRetirementKeyID (at_active req) \<or> \<not> validRetirementTime (at_time req) \<or>
         \<not> validateRetirementAuthorization auth ''update'' \<or> \<not> validateRetirementStatus (at_status req)
      then (db, Inl R_Invalid)
      else
        let (db, current) = LoadMasterKeyRetirement P (r_load e) db
        in case current of
             Inl err \<Rightarrow> (db, Inl err)
           | Inr v \<Rightarrow>
               if b_epoch (v_barrier v) \<noteq> at_epoch_no req \<or> b_state (v_barrier v) \<noteq> Fenced \<or>
                  at_active req \<noteq> b_replacement (v_barrier v) \<or> before_opt (at_time req) (b_fenced (v_barrier v))
               then (db, Inl R_Conflict)
               else if at_node req \<notin> set (v_membership v) then (db, Inl R_Invalid)
               else case attest_scan req (v_attestations v) of
                      Some (Inl err) \<Rightarrow> (db, Inl err)
                    | Some (Inr _) \<Rightarrow> replay_call e auth ''update'' (at_time req) v db
                    | None \<Rightarrow> attest_commit P e auth req db)"

definition AcknowledgeMasterKeyRetirementArchival ::
  "'a ret_db_scheme ret_env \<Rightarrow> string option \<Rightarrow> int \<Rightarrow> 'a ret_db_scheme \<Rightarrow> 'a ret_db_scheme \<times> (ret_err + unit)" where
  "AcknowledgeMasterKeyRetirementArchival e entropy epoch db =
     (if epoch \<le> 0 then (db, Inl R_Invalid)
      else case loadRetirementGeneration (r_auth_fails e) epoch db of
             Inl err \<Rightarrow> (db, Inl err)
           | Inr _ \<Rightarrow>
               (case entropy of
                  None \<Rightarrow> (db, Inl R_Rand)
                | Some _ \<Rightarrow>
                    let (db, res) = run_execute (r_exec e) (archive_stmt epoch) (r_other1 e db)
                    in case res of
                         Inl err \<Rightarrow> (db, Inl (R_Exec err))
                       | Inr n \<Rightarrow> if n \<noteq> 1 then (db, Inl R_Conflict) else (db, Inr ())))"

definition MarkMasterKeyRetirementGenerationRemoved ::
  "exec_fault \<Rightarrow> int \<Rightarrow> millis \<Rightarrow> 'a ret_db_scheme \<Rightarrow> 'a ret_db_scheme \<times> (ret_err + unit)" where
  "MarkMasterKeyRetirementGenerationRemoved f epoch now db =
     (if epoch \<le> 0 \<or> \<not> validRetirementTime now then (db, Inl R_Invalid)
      else let (db, res) = run_execute f (removed_stmt epoch now) db
           in case res of Inl err \<Rightarrow> (db, Inl (R_Exec err)) | Inr _ \<Rightarrow> (db, Inr ()))"

section \<open>Calls are sequences of steps\<close>

text \<open>Others commit only retirement transactions and transactions that leave these tables alone.\<close>

definition orderly :: "('a ret_db_scheme \<Rightarrow> 'a ret_db_scheme) \<Rightarrow> bool" where
  "orderly f \<longleftrightarrow> (\<forall>db. ret_step\<^sup>*\<^sup>* db (f db))"

definition orderly_env :: "'a ret_db_scheme ret_env \<Rightarrow> bool" where
  "orderly_env e \<longleftrightarrow>
     orderly (r_other1 e) \<and> orderly (r_other2 e) \<and> orderly (r_other3 e) \<and> orderly (r_other4 e) \<and>
     orderly (l_other (r_load e)) \<and> orderly (l_other (r_load2 e))"

lemma load_steps: "orderly (l_other l) \<Longrightarrow> ret_step\<^sup>*\<^sup>* db (fst (LoadMasterKeyRetirement P l db))"
  by (auto simp: LoadMasterKeyRetirement_def orderly_def Let_def split: option.splits)

lemma load_view:
  assumes "snd (LoadMasterKeyRetirement P l db) = Inr v"
  shows "barrier db = Some (v_barrier v)"
  using assms by (auto simp: LoadMasterKeyRetirement_def assembleRetirementMembers_def Let_def split: option.splits if_splits)

lemma execute_steps:
  assumes "\<And>db db' n. tx db = Some (db', n) \<Longrightarrow> ret_step db db'"
  shows "ret_step\<^sup>*\<^sup>* db (fst (run_execute f tx db))"
  by (cases rule: run_execute_cases [of f tx db]) (auto intro: assms)

text \<open>What a call promises: its whole effect is a sequence of steps, and a view that it returns satisfies the
  condition and was the barrier at some point during the call.\<close>

definition call_ok :: "(ret_view \<Rightarrow> bool) \<Rightarrow> 'a ret_db_scheme \<Rightarrow> 'a ret_db_scheme \<times> (ret_err + ret_view) \<Rightarrow> bool" where
  "call_ok post db r \<longleftrightarrow>
     ret_step\<^sup>*\<^sup>* db (fst r) \<and>
     (\<forall>v. snd r = Inr v \<longrightarrow> post v \<and> (\<exists>seen. ret_step\<^sup>*\<^sup>* db seen \<and> ret_step\<^sup>*\<^sup>* seen (fst r) \<and> barrier seen = Some (v_barrier v)))"

lemma call_ok_error: "ret_step\<^sup>*\<^sup>* db db' \<Longrightarrow> call_ok post db (db', Inl e)"
  by (simp add: call_ok_def)

lemma call_ok_if: "call_ok post db r \<Longrightarrow> call_ok post db (if c then (db, Inl e) else r)"
  by (simp add: call_ok_def)

lemma call_ok_view: "ret_step\<^sup>*\<^sup>* db seen \<Longrightarrow> ret_step\<^sup>*\<^sup>* seen db' \<Longrightarrow> barrier seen = Some (v_barrier v) \<Longrightarrow> post v \<Longrightarrow> call_ok post db (db', Inr v)"
  by (auto simp: call_ok_def)

lemma call_ok_prefix: "ret_step\<^sup>*\<^sup>* db db1 \<Longrightarrow> call_ok post db1 r \<Longrightarrow> call_ok post db r"
  unfolding call_ok_def by (meson rtranclp_trans)

lemma orderlyD: "orderly f \<Longrightarrow> ret_step\<^sup>*\<^sup>* db db1 \<Longrightarrow> ret_step\<^sup>*\<^sup>* db (f db1)"
  unfolding orderly_def by (meson rtranclp_trans)

lemma orderly_envD:
  assumes "orderly_env e"
  shows "orderly (r_other1 e)" "orderly (r_other2 e)" "orderly (r_other3 e)" "orderly (r_other4 e)"
    "orderly (l_other (r_load e))" "orderly (l_other (r_load2 e))"
  using assms by (simp_all add: orderly_env_def)

text \<open>Reading back: the loaded view is the barrier at the time of the first query.\<close>

lemma load_call_ok:
  assumes "orderly (l_other l)" "ret_step\<^sup>*\<^sup>* db0 db"
    and "\<And>db' err. ret_step\<^sup>*\<^sup>* db0 db' \<Longrightarrow> call_ok post db0 (bad db' err)"
    and "\<And>db' (v :: ret_view). ret_step\<^sup>*\<^sup>* db db' \<Longrightarrow> barrier db = Some (v_barrier v) \<Longrightarrow> call_ok post db0 (good db' v)"
  shows "call_ok post db0 (let (db', r) = LoadMasterKeyRetirement P l db in case r of Inl err \<Rightarrow> bad db' err | Inr v \<Rightarrow> good db' v)"
proof -
  have "ret_step\<^sup>*\<^sup>* db (fst (LoadMasterKeyRetirement P l db))" using assms(1) by (rule load_steps)
  moreover from this have "ret_step\<^sup>*\<^sup>* db0 (fst (LoadMasterKeyRetirement P l db))" using assms(2) by (meson rtranclp_trans)
  ultimately show ?thesis
    using assms(3,4) load_view [of P l db]
    by (cases "snd (LoadMasterKeyRetirement P l db)") (simp_all add: split_def Let_def)
qed

lemma finish_call_ok:
  assumes e: "orderly_env e" and tx: "\<And>db db' n. tx db = Some (db', n) \<Longrightarrow> ret_step db db'"
  shows "call_ok accept db (finish_call P e auth tx least accept db)"
proof -
  have s: "ret_step\<^sup>*\<^sup>* db (fst (run_execute (r_exec e) tx (r_other2 e db)))"
    using orderlyD [OF orderly_envD(2) [OF e] rtranclp.rtrancl_refl] execute_steps [of tx, OF tx] by (meson rtranclp_trans)
  have "call_ok accept db (let (db', r) = LoadMasterKeyRetirement P (r_load2 e) (r_other3 e (fst (run_execute (r_exec e) tx (r_other2 e db))))
      in case r of Inl err \<Rightarrow> (db', Inl err) | Inr v \<Rightarrow> if accept v then (db', Inr v) else (db', Inl R_Conflict))"
    using orderly_envD(6) [OF e] orderlyD [OF orderly_envD(3) [OF e] s]
  proof (rule load_call_ok)
    fix db' and v :: ret_view
    assume "ret_step\<^sup>*\<^sup>* (r_other3 e (fst (run_execute (r_exec e) tx (r_other2 e db)))) db'"
      "barrier (r_other3 e (fst (run_execute (r_exec e) tx (r_other2 e db)))) = Some (v_barrier v)"
    then show "call_ok accept db (if accept v then (db', Inr v) else (db', Inl R_Conflict))"
      using orderlyD [OF orderly_envD(3) [OF e] s] by (auto intro: call_ok_view call_ok_error rtranclp_trans)
  qed (rule call_ok_error)
  then show ?thesis
    using s by (auto simp: finish_call_def split_def Let_def intro: call_ok_error split: sum.splits)
qed

lemma replay_call_ok:
  assumes "orderly_env e" "ret_step\<^sup>*\<^sup>* db0 db" "ret_step\<^sup>*\<^sup>* db db1" "barrier db = Some (v_barrier v)" "post v"
  shows "call_ok post db0 (replay_call e auth right at v db1)"
proof -
  have "ret_step\<^sup>*\<^sup>* db (r_other2 e db1)" using orderlyD [OF orderly_envD(2) [OF assms(1)] assms(3)] .
  then show ?thesis
    using assms by (auto simp: replay_call_def Let_def intro: call_ok_view call_ok_error rtranclp_trans split: option.splits)
qed

lemma transition_call_ok:
  assumes e: "orderly_env e" and tx: "\<And>v db db' n. tx v db = Some (db', n) \<Longrightarrow> ret_step db db'"
    and replay: "\<And>v. b_epoch (v_barrier v) = epoch \<Longrightarrow> judge v = Replay \<Longrightarrow> accept v"
  shows "call_ok accept db (transition_call P e auth right epoch now judge tx accept db)"
proof -
  have s: "ret_step\<^sup>*\<^sup>* db (r_other1 e db)" using orderlyD [OF orderly_envD(1) [OF e]] by simp
  have "call_ok accept db (let (db', r) = LoadMasterKeyRetirement P (r_load e) (r_other1 e db)
      in case r of Inl err \<Rightarrow> (db', Inl err)
           | Inr v \<Rightarrow> if b_epoch (v_barrier v) \<noteq> epoch then (db', Inl R_Conflict)
                     else case judge v of
                             Replay \<Rightarrow> replay_call e auth right now v db'
                           | Refuse \<Rightarrow> (db', Inl R_Conflict)
                           | Proceed \<Rightarrow> finish_call P e auth (tx v) 2 accept db')"
    using orderly_envD(5) [OF e] s
  proof (rule load_call_ok)
    fix db' and v :: ret_view assume a: "ret_step\<^sup>*\<^sup>* (r_other1 e db) db'" "barrier (r_other1 e db) = Some (v_barrier v)"
    have s': "ret_step\<^sup>*\<^sup>* db db'" using s a(1) by (rule rtranclp_trans)
    have f: "call_ok accept db (finish_call P e auth (tx v) 2 accept db')"
      by (rule call_ok_prefix [OF s' finish_call_ok [OF e]]) (rule tx)
    show "call_ok accept db (if b_epoch (v_barrier v) \<noteq> epoch then (db', Inl R_Conflict)
        else case judge v of Replay \<Rightarrow> replay_call e auth right now v db' | Refuse \<Rightarrow> (db', Inl R_Conflict)
          | Proceed \<Rightarrow> finish_call P e auth (tx v) 2 accept db')"
      using f s' replay_call_ok [OF e s a] replay by (auto intro: call_ok_error split: verdict.splits)
  qed (rule call_ok_error)
  then show ?thesis by (simp add: transition_call_def call_ok_error split: option.splits)
qed

lemma prepare_call_ok:
  assumes e: "orderly_env e"
  shows "call_ok (\<lambda>v. b_epoch (v_barrier v) = pr_epoch req \<and> b_old (v_barrier v) = pr_old req \<and>
      b_replacement (v_barrier v) = pr_replacement req \<and> b_state (v_barrier v) = Prepared \<and>
      normalizeMemberIDs ids expected = Some (v_membership v)) db
    (prepareMasterKeyRetirement P e auth req ids expected db)"
    (is "call_ok ?post _ _")
proof (cases "normalizeMemberIDs ids expected")
  case None
  then show ?thesis by (simp add: prepareMasterKeyRetirement_def call_ok_error)
next
  case (Some nodes)
  define d where "d = retirementMembershipDigest P nodes"
  define i where "i = EventID P (retirementRequestID P ''prepare'' [itoa (pr_epoch req), pr_old req, pr_replacement req, d, itoa (pr_at req)])"
  let ?accept = "\<lambda>v. samePreparation v req nodes d \<and> b_state (v_barrier v) = Prepared"
  let ?commit = "\<lambda>found db. finish_call P e auth (prepare_tx i found auth req d nodes) (int (length nodes) + 2) ?accept db"
  have weaken: "call_ok ?post db0 r" if "call_ok ?accept db0 r" for db0 r
    using that Some by (simp add: call_ok_def samePreparation_def)
  have s: "ret_step\<^sup>*\<^sup>* db (r_other1 e db)" using orderlyD [OF orderly_envD(1) [OF e]] by simp
  have c: "call_ok ?post db (?commit found db')" if "ret_step\<^sup>*\<^sup>* db db'" for found db'
    using that by (rule call_ok_prefix) (rule weaken, rule finish_call_ok [OF e], rule ret_step.Prepare)
  have "call_ok ?post db (let (db', r) = LoadMasterKeyRetirement P (r_load e) (r_other1 e db)
      in case r of Inl err \<Rightarrow> (case err of R_NotPrepared \<Rightarrow> ?commit False db' | _ \<Rightarrow> (db', Inl err))
           | Inr v \<Rightarrow> (case prepare_verdict req nodes d v of
                  Replay \<Rightarrow> replay_call e auth ''create'' (pr_at req) v db'
                | Refuse \<Rightarrow> (db', Inl R_Conflict) | Proceed \<Rightarrow> ?commit True db'))"
    using orderly_envD(5) [OF e] s
  proof (rule load_call_ok)
    fix db' and v :: ret_view assume a: "ret_step\<^sup>*\<^sup>* (r_other1 e db) db'" "barrier (r_other1 e db) = Some (v_barrier v)"
    have s': "ret_step\<^sup>*\<^sup>* db db'" using s a(1) by (rule rtranclp_trans)
    have r: "call_ok ?post db (replay_call e auth ''create'' (pr_at req) v db')" if "prepare_verdict req nodes d v = Replay"
      using that Some by (intro replay_call_ok [OF e s a]) (auto simp: prepare_verdict_def samePreparation_def split: if_splits)
    show "call_ok ?post db (case prepare_verdict req nodes d v of
                  Replay \<Rightarrow> replay_call e auth ''create'' (pr_at req) v db'
                | Refuse \<Rightarrow> (db', Inl R_Conflict) | Proceed \<Rightarrow> ?commit True db')"
      using r c [OF s'] call_ok_error [OF s'] by (simp split: verdict.splits)
  qed (use c in \<open>auto intro: call_ok_error split: ret_err.splits\<close>)
  moreover have "prepareMasterKeyRetirement P e auth req ids expected db =
    (if \<not> validateRetirementAuthorization auth ''create'' \<or> pr_epoch req \<le> 0 \<or> \<not> validRetirementKeyID (pr_old req) \<or>
        \<not> validRetirementKeyID (pr_replacement req) \<or> pr_old req = pr_replacement req \<or> \<not> validRetirementTime (pr_at req)
     then (db, Inl R_Invalid)
     else case retirementReplayAuthorization auth ''create'' (pr_at req) (r_auth_fails e) db of
       Some err \<Rightarrow> (db, Inl err)
     | None \<Rightarrow> (let (db', r) = LoadMasterKeyRetirement P (r_load e) (r_other1 e db)
      in case r of Inl err \<Rightarrow> (case err of R_NotPrepared \<Rightarrow> ?commit False db' | _ \<Rightarrow> (db', Inl err))
           | Inr v \<Rightarrow> (case prepare_verdict req nodes d v of
                  Replay \<Rightarrow> replay_call e auth ''create'' (pr_at req) v db'
                | Refuse \<Rightarrow> (db', Inl R_Conflict) | Proceed \<Rightarrow> ?commit True db')))"
    unfolding prepareMasterKeyRetirement_def Some d_def i_def
    by (simp add: split_def Let_def split: option.splits sum.splits ret_err.splits)
  ultimately show ?thesis by (simp add: call_ok_error split: option.splits)
qed

lemma attest_scan_replay: "attest_scan req ms = Some (Inr u) \<Longrightarrow> \<exists>m \<in> set ms. sameAttestation m req"
  by (induction req ms rule: attest_scan.induct) (auto split: if_splits)

lemma attestationMatches_stored: "attestationMatches v req \<Longrightarrow> \<exists>m \<in> set (v_attestations v). sameAttestation m req"
  by (auto simp: attestationMatches_def find_Some_iff split: option.splits)

definition attested_view :: "ret_attest \<Rightarrow> ret_view \<Rightarrow> bool" where
  "attested_view req v \<longleftrightarrow> b_state (v_barrier v) = Fenced \<and> (\<exists>m \<in> set (v_attestations v). sameAttestation m req)"

text \<open>The two ways an attestation reads its row back, after an error of the transaction and after a receipt.\<close>

lemma attest_recover_ok:
  assumes e: "orderly_env e" and s: "ret_step\<^sup>*\<^sup>* db0 db"
  shows "call_ok (attested_view req) db0
    (let (db, loaded) = LoadMasterKeyRetirement P (r_load2 e) (r_other3 e db)
     in case loaded of Inl _ \<Rightarrow> (db, Inl (R_Exec err))
        | Inr w \<Rightarrow> if b_state (v_barrier w) = Fenced \<and> attestationMatches w req
            then let db = r_other4 e db
                 in if retirementReplayAuthorization auth ''update'' (at_time req) (r_replay2_fails e) db = None
                    then (db, Inr w) else (db, Inl (R_Exec err))
            else (db, Inl (R_Exec err)))"
  using orderly_envD(6) [OF e] orderlyD [OF orderly_envD(3) [OF e] s]
proof (rule load_call_ok)
  fix db' and w :: ret_view assume a: "ret_step\<^sup>*\<^sup>* (r_other3 e db) db'" "barrier (r_other3 e db) = Some (v_barrier w)"
  note s3 = orderlyD [OF orderly_envD(3) [OF e] s]
  have s4: "ret_step\<^sup>*\<^sup>* (r_other3 e db) (r_other4 e db')" using orderlyD [OF orderly_envD(4) [OF e] a(1)] .
  show "call_ok (attested_view req) db0 (if b_state (v_barrier w) = Fenced \<and> attestationMatches w req
            then let db = r_other4 e db'
                 in if retirementReplayAuthorization auth ''update'' (at_time req) (r_replay2_fails e) db = None
                    then (db, Inr w) else (db, Inl (R_Exec err))
            else (db', Inl (R_Exec err)))"
    using call_ok_view [OF s3 s4 a(2)] call_ok_error [OF rtranclp_trans [OF s3 s4]] call_ok_error [OF rtranclp_trans [OF s3 a(1)]]
      attestationMatches_stored [of w req] by (simp add: Let_def attested_view_def)
qed (rule call_ok_error)

lemma attest_confirm_ok:
  assumes e: "orderly_env e" and s: "ret_step\<^sup>*\<^sup>* db0 db"
  shows "call_ok (attested_view req) db0
    (let (db, loaded) = LoadMasterKeyRetirement P (r_load2 e) (r_other3 e db)
     in case loaded of Inl err \<Rightarrow> (db, Inl err)
        | Inr w \<Rightarrow> if b_state (v_barrier w) = Fenced \<and> attestationMatches w req then (db, Inr w) else (db, Inl R_Conflict))"
  using orderly_envD(6) [OF e] orderlyD [OF orderly_envD(3) [OF e] s]
proof (rule load_call_ok)
  fix db' and w :: ret_view assume a: "ret_step\<^sup>*\<^sup>* (r_other3 e db) db'" "barrier (r_other3 e db) = Some (v_barrier w)"
  note s3 = orderlyD [OF orderly_envD(3) [OF e] s]
  show "call_ok (attested_view req) db0 (if b_state (v_barrier w) = Fenced \<and> attestationMatches w req then (db', Inr w) else (db', Inl R_Conflict))"
    using call_ok_view [OF s3 a] call_ok_error [OF rtranclp_trans [OF s3 a(1)]] attestationMatches_stored [of w req]
    by (simp add: attested_view_def)
qed (rule call_ok_error)

lemma attest_commit_ok:
  assumes e: "orderly_env e"
  shows "call_ok (attested_view req) db (attest_commit P e auth req db)"
proof -
  let ?r = "run_execute (r_exec e) (attest_tx auth req) (r_other2 e db)"
  have s: "ret_step\<^sup>*\<^sup>* db (fst ?r)"
    using orderlyD [OF orderly_envD(2) [OF e] rtranclp.rtrancl_refl] execute_steps [of "attest_tx auth req", OF ret_step.Attest]
    by (meson rtranclp_trans)
  show ?thesis
  proof (cases "snd ?r")
    case (Inl err)
    then show ?thesis using attest_recover_ok [OF e s, of req P err auth] by (simp add: attest_commit_def split_def)
  next
    case (Inr n)
    then show ?thesis using attest_confirm_ok [OF e s, of req P] call_ok_error [OF s] by (simp add: attest_commit_def split_def Let_def)
  qed
qed

lemma attest_call_ok:
  assumes e: "orderly_env e"
  shows "call_ok (attested_view req) db (attestMasterKeyRetirement P e auth req db)"
proof -
  let ?rest = "\<lambda>db v. if b_epoch (v_barrier v) \<noteq> at_epoch_no req \<or> b_state (v_barrier v) \<noteq> Fenced \<or>
                  at_active req \<noteq> b_replacement (v_barrier v) \<or> before_opt (at_time req) (b_fenced (v_barrier v))
               then (db, Inl R_Conflict)
               else if at_node req \<notin> set (v_membership v) then (db, Inl R_Invalid)
               else case attest_scan req (v_attestations v) of
                      Some (Inl err) \<Rightarrow> (db, Inl err)
                    | Some (Inr _) \<Rightarrow> replay_call e auth ''update'' (at_time req) v db
                    | None \<Rightarrow> attest_commit P e auth req db"
  have "call_ok (attested_view req) db (let (db', r) = LoadMasterKeyRetirement P (r_load e) db
      in case r of Inl err \<Rightarrow> (db', Inl err) | Inr v \<Rightarrow> ?rest db' v)"
    using orderly_envD(5) [OF e] rtranclp.rtrancl_refl
  proof (rule load_call_ok)
    fix db' and v :: ret_view assume a: "ret_step\<^sup>*\<^sup>* db db'" "barrier db = Some (v_barrier v)"
    have r: "call_ok (attested_view req) db (replay_call e auth ''update'' (at_time req) v db')"
      if "attest_scan req (v_attestations v) = Some (Inr u)" "b_state (v_barrier v) = Fenced" for u
      using that attest_scan_replay [OF that(1)]
      by (intro replay_call_ok [OF e rtranclp.rtrancl_refl a]) (simp add: attested_view_def)
    show "call_ok (attested_view req) db (?rest db' v)"
      using r call_ok_error [OF a(1)] call_ok_prefix [OF a(1) attest_commit_ok [OF e]] by (simp split: option.splits sum.splits)
  qed (rule call_ok_error)
  then show ?thesis unfolding attestMasterKeyRetirement_def by (rule call_ok_if)
qed


text \<open>A call without interference or faults that retires nothing yet: fencing the prepared key A.\<close>

definition quiet_load :: "ret_db load_env" where
  "quiet_load = \<lparr>l_fails = False, l_other = (\<lambda>db. db), l_fails2 = False\<rparr>"

definition quiet_env :: "ret_db ret_env" where
  "quiet_env = \<lparr>r_auth_fails = False, r_other1 = (\<lambda>db. db), r_load = quiet_load, r_other2 = (\<lambda>db. db), r_replay_fails = False,
     r_exec = Exec_Ok, r_other3 = (\<lambda>db. db), r_load2 = quiet_load, r_other4 = (\<lambda>db. db), r_replay2_fails = False\<rparr>"


end
