(* ===== verification/Envelope.thy ===== *)
theory Envelope
  imports Encoding
begin

text \<open>
  The key ring and the sealed envelopes of \<^verbatim>\<open>internal/oidc/keys.go\<close>: identifiers of master keys, the
  binary header with its parser, the authenticated data, sealing, opening and rewrapping of purpose and
  signing-key envelopes, the removal of a master key, and the sections under the lock of the key ring
  that guard the cached signing key. AES-GCM is a pair of functions with the laws \<open>gcm_laws\<close>; a byte
  string is a \<^typ>\<open>string\<close>.
\<close>

section \<open>Identifiers\<close>

definition maxKeyIDLength :: nat where
  "maxKeyIDLength = 64"

definition validKeyID :: "string \<Rightarrow> bool" where
  "validKeyID v \<longleftrightarrow>
     length v \<noteq> 0 \<and> length v \<le> maxKeyIDLength \<and> list_all (\<lambda>c. alnum_rune c \<or> c \<in> set (map byte_of ''._-'')) (runes v)"

definition validEnvelopePurpose :: "string \<Rightarrow> bool" where
  "validEnvelopePurpose v \<longleftrightarrow>
     v \<noteq> '''' \<and> length v \<le> 64 \<and> list_all (\<lambda>c. alnum_rune c \<or> c \<in> set (map byte_of ''._/-'')) (runes v)"

section \<open>Headers\<close>

definition envelopeMagic :: string where
  "envelopeMagic = ''GAOK''"

definition purposeEnvelopeMagic :: string where
  "purposeEnvelopeMagic = ''GAOP''"

definition envelopeVersion :: nat where
  "envelopeVersion = 1"

definition purposeEnvelopeVersion :: nat where
  "purposeEnvelopeVersion = 1"

definition makeEnvelopeHeader :: "string \<Rightarrow> string \<Rightarrow> string" where
  "makeEnvelopeHeader masterID nonce =
     envelopeMagic @ [char_of envelopeVersion, char_of (length masterID)] @ masterID @ nonce"

definition makePurposeEnvelopeHeader :: "string \<Rightarrow> string \<Rightarrow> string" where
  "makePurposeEnvelopeHeader masterID nonce =
     purposeEnvelopeMagic @ [char_of purposeEnvelopeVersion, char_of (length masterID)] @ masterID @ nonce"

definition parseEnvelopeHeader :: "string \<Rightarrow> string \<Rightarrow> nat \<Rightarrow> (string \<times> nat) option" where
  "parseEnvelopeHeader envelope magic version =
     (let n = length magic; least = n + 2 + 1 + 12 + 16
      in if length envelope < least \<or> take n envelope \<noteq> magic \<or> byte_of (envelope ! n) \<noteq> version then None
         else
           let keyIDLength = byte_of (envelope ! (n + 1));
               headerLength = n + 2 + keyIDLength + 12
           in if keyIDLength = 0 \<or> maxKeyIDLength < keyIDLength \<or> length envelope < headerLength + 16 then None
              else
                let masterID = take keyIDLength (drop (n + 2) envelope)
                in if validKeyID masterID then Some (masterID, headerLength) else None)"

definition purposeEnvelopeAAD :: "string \<Rightarrow> string \<Rightarrow> string" where
  "purposeEnvelopeAAD purpose header = ''goauthy/purpose-envelope/v1'' @ [nul] @ purpose @ [nul] @ header"

definition envelopeAAD :: "string \<Rightarrow> string \<Rightarrow> string \<Rightarrow> string" where
  "envelopeAAD issuer kid header =
     ''goauthy/oidc-signing-key-envelope/v1'' @ [nul] @ issuer @ [nul] @ kid @ [nul] @ ''Ed25519'' @ [nul] @ header"

section \<open>The key ring\<close>

text \<open>A JSON web key as far as the code looks at it, with the bytes of an Ed25519 public key, and a signing key.\<close>

record jwk =
  jw_public :: bool
  jw_ed25519 :: "string option"
  jw_kid :: string
  jw_alg :: string
  jw_use :: string

record signing_key =
  sg_private :: string
  sg_jwk :: jwk
  sg_created :: millis

text \<open>The cached signing key with the row it was loaded from.\<close>

record signing_material =
  m_issuer :: string
  m_kid :: string
  m_publicJWK :: string
  m_envelope :: string
  m_masterKeyID :: string
  m_createdAt :: millis
  m_key :: signing_key

record keyring =
  kr_active :: string
  kr_keys :: "string \<Rightarrow> string option"
  kr_directory :: string
  kr_signing :: "signing_material option"
  kr_generation :: "64 word"

datatype keyring_err = KeyUnavailable | KeyInvalidID | KeyActive | KeyDisk | EnvConfig | EnvInvalid | EnvUnknownKey | EnvAuth

definition ActiveMasterKeyID :: "keyring \<Rightarrow> keyring_err + string" where
  "ActiveMasterKeyID kr =
     (if \<not> validKeyID (kr_active kr) \<or> kr_keys kr (kr_active kr) = None then Inl KeyUnavailable else Inr (kr_active kr))"

definition HasKey :: "string \<Rightarrow> keyring \<Rightarrow> bool" where
  "HasKey i kr \<longleftrightarrow> validKeyID i \<and> kr_keys kr i \<noteq> None"

definition clearSigningMaterialLocked :: "keyring \<Rightarrow> keyring" where
  "clearSigningMaterialLocked kr = kr\<lparr>kr_generation := kr_generation kr + 1, kr_signing := None\<rparr>"

definition clear_if_sealed_by :: "string \<Rightarrow> keyring \<Rightarrow> keyring" where
  "clear_if_sealed_by i kr =
     (case kr_signing kr of
        Some m \<Rightarrow> if m_masterKeyID m = i then clearSigningMaterialLocked kr else kr
      | None \<Rightarrow> kr)"

text \<open>\<open>removed\<close> is whether the file is gone after \<^verbatim>\<open>os.Remove\<close>, either removed or already absent.\<close>

definition RemoveKey :: "bool \<Rightarrow> string \<Rightarrow> keyring \<Rightarrow> keyring \<times> (keyring_err + unit)" where
  "RemoveKey removed i kr =
     (if \<not> validKeyID i then (kr, Inl KeyInvalidID)
      else if i = kr_active kr then (kr, Inl KeyActive)
      else if kr_keys kr i = None then (clear_if_sealed_by i kr, Inr ())
      else if kr_directory kr \<noteq> '''' \<and> \<not> removed then (kr, Inl KeyDisk)
      else let kr = clear_if_sealed_by i kr in (kr\<lparr>kr_keys := (kr_keys kr)(i := None)\<rparr>, Inr ()))"

definition same_row :: "string \<Rightarrow> string \<Rightarrow> string \<Rightarrow> string \<Rightarrow> millis \<Rightarrow> signing_material \<Rightarrow> bool" where
  "same_row issuer kid publicJWK envelope createdAt m \<longleftrightarrow>
     m_issuer m = issuer \<and> m_kid m = kid \<and> m_publicJWK m = publicJWK \<and> m_envelope m = envelope \<and> m_createdAt m = createdAt"

text \<open>The result is the key ring, the generation of the load and the key on a hit.\<close>

definition cachedSigningMaterial ::
  "64 word \<Rightarrow> string \<Rightarrow> string \<Rightarrow> string \<Rightarrow> string \<Rightarrow> millis \<Rightarrow> keyring \<Rightarrow> keyring \<times> 64 word \<times> signing_key option" where
  "cachedSigningMaterial generation issuer kid publicJWK envelope createdAt kr =
     (if generation \<noteq> kr_generation kr then (kr, generation, None)
      else case kr_signing kr of
             None \<Rightarrow> (kr, generation, None)
           | Some m \<Rightarrow>
               if \<not> same_row issuer kid publicJWK envelope createdAt m \<or> kr_keys kr (m_masterKeyID m) = None
               then let kr = clearSigningMaterialLocked kr in (kr, kr_generation kr, None)
               else (kr, generation, Some (m_key m)))"

definition cacheSigningMaterial :: "64 word \<Rightarrow> signing_material \<Rightarrow> keyring \<Rightarrow> keyring \<times> bool" where
  "cacheSigningMaterial generation m kr =
     (if kr_keys kr (m_masterKeyID m) = None then (kr, False)
      else if generation \<noteq> kr_generation kr then (kr, True)
      else ((clearSigningMaterialLocked kr)\<lparr>kr_signing := Some m\<rparr>, True))"

definition clearSigningMaterial :: "64 word \<Rightarrow> keyring \<Rightarrow> keyring" where
  "clearSigningMaterial generation kr = (if generation = kr_generation kr then clearSigningMaterialLocked kr else kr)"

section \<open>Sealing and opening\<close>

record gcm =
  g_seal :: "string \<Rightarrow> string \<Rightarrow> string \<Rightarrow> string \<Rightarrow> string"
  g_open :: "string \<Rightarrow> string \<Rightarrow> string \<Rightarrow> string \<Rightarrow> string option"

text \<open>Opening inverts sealing under the same key, nonce and authenticated data, accepts only what was sealed
  so, and a ciphertext is sixteen bytes longer than its plaintext.\<close>

definition gcm_laws :: "gcm \<Rightarrow> bool" where
  "gcm_laws G \<longleftrightarrow>
     (\<forall>k n p a. g_open G k n (g_seal G k n p a) a = Some p \<and> length (g_seal G k n p a) = length p + 16) \<and>
     (\<forall>k n c a p. g_open G k n c a = Some p \<longrightarrow> c = g_seal G k n p a)"

definition SealEnvelope :: "gcm \<Rightarrow> string \<Rightarrow> keyring \<Rightarrow> string \<Rightarrow> string \<Rightarrow> keyring_err + string" where
  "SealEnvelope G nonce kr purpose plaintext =
     (if \<not> validEnvelopePurpose purpose then Inl EnvConfig
      else case kr_keys kr (kr_active kr) of
             None \<Rightarrow> Inl KeyUnavailable
           | Some key \<Rightarrow>
               let header = makePurposeEnvelopeHeader (kr_active kr) nonce
               in Inr (header @ g_seal G key nonce plaintext (purposeEnvelopeAAD purpose header)))"

definition OpenEnvelope :: "gcm \<Rightarrow> keyring \<Rightarrow> string \<Rightarrow> string \<Rightarrow> keyring_err + string" where
  "OpenEnvelope G kr purpose envelope =
     (if \<not> validEnvelopePurpose purpose then Inl EnvConfig
      else case parseEnvelopeHeader envelope purposeEnvelopeMagic purposeEnvelopeVersion of
             None \<Rightarrow> Inl EnvInvalid
           | Some (masterID, headerLength) \<Rightarrow>
               (case kr_keys kr masterID of
                  None \<Rightarrow> Inl EnvUnknownKey
                | Some key \<Rightarrow>
                    let nonce = take 12 (drop (headerLength - 12) envelope)
                    in case g_open G key nonce (drop headerLength envelope) (purposeEnvelopeAAD purpose (take headerLength envelope)) of
                         None \<Rightarrow> Inl EnvAuth
                       | Some plaintext \<Rightarrow> Inr plaintext))"

definition PurposeEnvelopeKeyID :: "gcm \<Rightarrow> keyring \<Rightarrow> string \<Rightarrow> string \<Rightarrow> keyring_err + string" where
  "PurposeEnvelopeKeyID G kr purpose envelope =
     (if \<not> validEnvelopePurpose purpose then Inl EnvConfig
      else case parseEnvelopeHeader envelope purposeEnvelopeMagic purposeEnvelopeVersion of
             None \<Rightarrow> Inl EnvInvalid
           | Some (masterID, _) \<Rightarrow>
               (case OpenEnvelope G kr purpose envelope of Inl e \<Rightarrow> Inl e | Inr _ \<Rightarrow> Inr masterID))"

definition RewrapEnvelope :: "gcm \<Rightarrow> string \<Rightarrow> keyring \<Rightarrow> string \<Rightarrow> string \<Rightarrow> keyring_err + string" where
  "RewrapEnvelope G nonce kr purpose envelope =
     (case OpenEnvelope G kr purpose envelope of Inl e \<Rightarrow> Inl e | Inr plaintext \<Rightarrow> SealEnvelope G nonce kr purpose plaintext)"

definition sealEnvelopeWithKeyID ::
  "gcm \<Rightarrow> string \<Rightarrow> keyring \<Rightarrow> string \<Rightarrow> string \<Rightarrow> string \<Rightarrow> string \<Rightarrow> keyring_err + string" where
  "sealEnvelopeWithKeyID G nonce kr masterID issuer kid seed =
     (if \<not> validKeyID masterID then Inl KeyUnavailable
      else case kr_keys kr masterID of
             None \<Rightarrow> Inl KeyUnavailable
           | Some key \<Rightarrow>
               let header = makeEnvelopeHeader masterID nonce
               in Inr (header @ g_seal G key nonce seed (envelopeAAD issuer kid header)))"

definition sealEnvelope :: "gcm \<Rightarrow> string \<Rightarrow> keyring \<Rightarrow> string \<Rightarrow> string \<Rightarrow> string \<Rightarrow> keyring_err + string" where
  "sealEnvelope G nonce kr issuer kid seed =
     (case ActiveMasterKeyID kr of Inl e \<Rightarrow> Inl e | Inr i \<Rightarrow> sealEnvelopeWithKeyID G nonce kr i issuer kid seed)"

definition openEnvelope :: "gcm \<Rightarrow> keyring \<Rightarrow> string \<Rightarrow> string \<Rightarrow> string \<Rightarrow> keyring_err + string" where
  "openEnvelope G kr issuer kid envelope =
     (case parseEnvelopeHeader envelope envelopeMagic envelopeVersion of
        None \<Rightarrow> Inl EnvInvalid
      | Some (masterID, headerLength) \<Rightarrow>
          (case kr_keys kr masterID of
             None \<Rightarrow> Inl EnvUnknownKey
           | Some key \<Rightarrow>
               let nonce = take 12 (drop (headerLength - 12) envelope)
               in case g_open G key nonce (drop headerLength envelope) (envelopeAAD issuer kid (take headerLength envelope)) of
                    None \<Rightarrow> Inl EnvAuth
                  | Some seed \<Rightarrow> if length seed \<noteq> 32 then Inl EnvAuth else Inr seed))"

definition SigningKeyEnvelopeKeyID :: "gcm \<Rightarrow> keyring \<Rightarrow> string \<Rightarrow> string \<Rightarrow> string \<Rightarrow> keyring_err + string" where
  "SigningKeyEnvelopeKeyID G kr issuer kid envelope =
     (case parseEnvelopeHeader envelope envelopeMagic envelopeVersion of
        None \<Rightarrow> Inl EnvInvalid
      | Some (masterID, _) \<Rightarrow> (case openEnvelope G kr issuer kid envelope of Inl e \<Rightarrow> Inl e | Inr _ \<Rightarrow> Inr masterID))"

definition RewrapSigningKeyEnvelope :: "gcm \<Rightarrow> string \<Rightarrow> keyring \<Rightarrow> string \<Rightarrow> string \<Rightarrow> string \<Rightarrow> keyring_err + string" where
  "RewrapSigningKeyEnvelope G nonce kr issuer kid envelope =
     (case openEnvelope G kr issuer kid envelope of
        Inl e \<Rightarrow> Inl e
      | Inr seed \<Rightarrow>
          (case ActiveMasterKeyID kr of Inl e \<Rightarrow> Inl e | Inr i \<Rightarrow> sealEnvelopeWithKeyID G nonce kr i issuer kid seed))"

section \<open>Headers parse back\<close>

lemma parse_header:
  assumes "validKeyID i" "length nonce = 12" "16 \<le> length c" "length magic = 4" "version < 256"
  shows "parseEnvelopeHeader (magic @ [char_of version, char_of (length i)] @ i @ nonce @ c) magic version =
    Some (i, 18 + length i)"
proof -
  let ?env = "magic @ [char_of version, char_of (length i)] @ i @ nonce @ c"
  have l: "0 < length i" "length i \<le> 64" using assms(1) by (auto simp: validKeyID_def maxKeyIDLength_def)
  have b: "byte_of (?env ! 4) = version" "byte_of (?env ! 5) = length i"
    using assms(4,5) l(2) by (simp_all add: nth_append byte_of_def)
  have t: "take 4 ?env = magic" "drop 6 ?env = i @ nonce @ c" using assms(4) by simp_all
  have n: "\<not> length i + length c < 17" using l(1) assms(3) by linarith
  show ?thesis using assms l b t by (simp add: parseEnvelopeHeader_def Let_def maxKeyIDLength_def n)
qed

lemma parse_header_shape:
  assumes "parseEnvelopeHeader env magic version = Some (i, h)" "length magic = 4"
  shows "validKeyID i" "h = 18 + length i" "h + 16 \<le> length env"
    "take h env = magic @ [char_of version, char_of (length i)] @ i @ take 12 (drop (h - 12) env)"
proof -
  have c: "take 4 env = magic" "byte_of (env ! 4) = version" "35 \<le> length env"
    and i: "i = take (byte_of (env ! 5)) (drop 6 env)" "h = 6 + byte_of (env ! 5) + 12" "h + 16 \<le> length env" "validKeyID i"
    using assms by (auto simp: parseEnvelopeHeader_def Let_def split: if_splits)
  have len: "length i = byte_of (env ! 5)" using i(1,2,3) by simp
  show "validKeyID i" "h = 18 + length i" "h + 16 \<le> length env" using i len by simp_all
  have "drop 4 env = env ! 4 # env ! 5 # drop 6 env"
    using c(3) Cons_nth_drop_Suc [of 4 env] Cons_nth_drop_Suc [of 5 env] by simp
  then have env: "env = magic @ [char_of version, char_of (length i)] @ drop 6 env"
    using c(1,2) len append_take_drop_id [of 4 env] by (metis append_Cons append_Nil char_of_byte_of)
  have "take h env = magic @ [char_of version, char_of (length i)] @ take (length i + 12) (drop 6 env)"
    using assms(2) \<open>h = 18 + length i\<close> by (subst env) (simp add: take_Cons' add.commute)
  also have "take (length i + 12) (drop 6 env) = take (length i) (drop 6 env) @ take 12 (drop (length i) (drop 6 env))"
    by (rule take_add)
  also have "take (length i) (drop 6 env) = i" using i(1) len by simp
  also have "drop (length i) (drop 6 env) = drop (h - 12) env" using \<open>h = 18 + length i\<close> by (simp add: add.commute)
  finally show "take h env = magic @ [char_of version, char_of (length i)] @ i @ take 12 (drop (h - 12) env)" .
qed

section \<open>Authenticated data\<close>

lemma runes_valid_ascii:
  assumes "list_all p (runes s)" "\<And>c. 128 \<le> c \<Longrightarrow> \<not> p c"
  shows "list_all (p \<circ> byte_of) s"
proof -
  have ascii: "\<forall>b \<in> set bs. b < 128" if "list_all p (runes_fuel f bs)" "length bs \<le> f" for f bs
    using that
  proof (induction f arbitrary: bs)
    case (Suc f)
    show ?case
    proof (cases bs)
      case (Cons b cs)
      have "b < 128"
      proof (rule ccontr)
        assume "\<not> b < 128"
        then have "128 \<le> hd (runes_fuel (Suc f) bs)"
          using Cons by (auto simp: rune_width_def rune_value_def cont_def Let_def split: list.splits if_splits)
        moreover have "p (hd (runes_fuel (Suc f) bs))" using Suc.prems(1) Cons by (auto simp: Let_def split: if_splits)
        ultimately show False using assms(2) by blast
      qed
      moreover have "list_all p (runes_fuel f cs)" using Suc.prems(1) Cons \<open>b < 128\<close> by (simp add: rune_width_def Let_def)
      ultimately show ?thesis using Suc.IH [of cs] Suc.prems(2) Cons by simp
    qed simp
  qed simp
  have "list_all is_ascii s"
    using ascii [of "length s" "map byte_of s"] assms(1) by (auto simp: runes_def list_all_iff is_ascii_def)
  then show ?thesis using assms(1) runes_ascii [of s] by (simp add: list_all_iff)
qed

lemma purpose_no_nul: "validEnvelopePurpose v \<Longrightarrow> nul \<notin> set v"
proof -
  let ?p = "\<lambda>c. alnum_rune c \<or> c \<in> set (map byte_of ''._/-'')"
  assume "validEnvelopePurpose v"
  then have "list_all (?p \<circ> byte_of) v"
    by (intro runes_valid_ascii) (auto simp: validEnvelopePurpose_def alnum_rune_def byte_of_def)
  moreover have "\<not> ?p (byte_of nul)" by (simp add: alnum_rune_def byte_of_def nul_def)
  ultimately show "nul \<notin> set v" by (auto simp: list_all_iff)
qed

lemma nul_split:
  assumes "a @ [nul] @ x = b @ [nul] @ y" "nul \<notin> set a" "nul \<notin> set b"
  shows "a = b \<and> x = y"
proof -
  have tw: "takeWhile (\<lambda>c. c \<noteq> nul) (c @ [nul] @ z) = c" if "nul \<notin> set c" for c z
    using that by (auto simp: takeWhile_append)
  have "a = b" using tw [OF assms(2), of x] tw [OF assms(3), of y] unfolding assms(1) by simp
  then show ?thesis using assms(1) by simp
qed

text \<open>The authenticated data of two purposes differ, whatever the headers are.\<close>

lemma purposeEnvelopeAAD_inj:
  assumes "purposeEnvelopeAAD p h = purposeEnvelopeAAD q g" "validEnvelopePurpose p" "validEnvelopePurpose q"
  shows "p = q \<and> h = g"
  using assms nul_split [of p h q g] purpose_no_nul by (simp add: purposeEnvelopeAAD_def)

section \<open>Round trips\<close>

lemma gcm_lawsD:
  assumes "gcm_laws G"
  shows "g_open G k n (g_seal G k n p a) a = Some p" "length (g_seal G k n p a) = length p + 16"
    "g_open G k n c a = Some p \<Longrightarrow> c = g_seal G k n p a"
  using assms by (auto simp: gcm_laws_def)

lemma open_purpose_header:
  assumes "gcm_laws G" "validEnvelopePurpose purpose" "validKeyID i" "length nonce = 12" "kr_keys kr i = Some key"
  defines "header \<equiv> makePurposeEnvelopeHeader i nonce"
  shows "OpenEnvelope G kr purpose (header @ g_seal G key nonce p (purposeEnvelopeAAD purpose header)) = Inr p"
    and "parseEnvelopeHeader (header @ g_seal G key nonce p (purposeEnvelopeAAD purpose header))
      purposeEnvelopeMagic purposeEnvelopeVersion = Some (i, length header)"
proof -
  let ?c = "g_seal G key nonce p (purposeEnvelopeAAD purpose header)"
  have h: "header @ x = purposeEnvelopeMagic @ [char_of purposeEnvelopeVersion, char_of (length i)] @ i @ nonce @ x" for x
    by (simp add: header_def makePurposeEnvelopeHeader_def)
  have l: "length header = 18 + length i" using assms(4) by (simp add: header_def makePurposeEnvelopeHeader_def purposeEnvelopeMagic_def)
  have p: "parseEnvelopeHeader (header @ ?c) purposeEnvelopeMagic purposeEnvelopeVersion = Some (i, length header)"
    unfolding l h using assms(3,4) gcm_lawsD(2) [OF assms(1)]
    by (intro parse_header) (simp_all add: purposeEnvelopeMagic_def purposeEnvelopeVersion_def)
  then show "parseEnvelopeHeader (header @ ?c) purposeEnvelopeMagic purposeEnvelopeVersion = Some (i, length header)" .
  define pre where "pre = purposeEnvelopeMagic @ [char_of purposeEnvelopeVersion, char_of (length i)] @ i"
  have "header = pre @ nonce" by (simp add: header_def makePurposeEnvelopeHeader_def pre_def)
  then have "drop (length header - 12) header = nonce" using assms(4) by simp
  then have "take 12 (drop (length header - 12) (header @ ?c)) = nonce" using assms(4) l by simp
  then show "OpenEnvelope G kr purpose (header @ ?c) = Inr p"
    using assms(2,5) p gcm_lawsD(1) [OF assms(1)] by (simp add: OpenEnvelope_def)
qed

lemma open_signing_header:
  assumes "gcm_laws G" "validKeyID i" "length nonce = 12" "kr_keys kr i = Some key" "length seed = 32"
  defines "header \<equiv> makeEnvelopeHeader i nonce"
  shows "openEnvelope G kr issuer kid (header @ g_seal G key nonce seed (envelopeAAD issuer kid header)) = Inr seed"
    and "parseEnvelopeHeader (header @ g_seal G key nonce seed (envelopeAAD issuer kid header)) envelopeMagic envelopeVersion =
      Some (i, length header)"
proof -
  let ?c = "g_seal G key nonce seed (envelopeAAD issuer kid header)"
  have h: "header @ x = envelopeMagic @ [char_of envelopeVersion, char_of (length i)] @ i @ nonce @ x" for x
    by (simp add: header_def makeEnvelopeHeader_def)
  have l: "length header = 18 + length i" using assms(3) by (simp add: header_def makeEnvelopeHeader_def envelopeMagic_def)
  have p: "parseEnvelopeHeader (header @ ?c) envelopeMagic envelopeVersion = Some (i, length header)"
    unfolding l h using assms(2,3) gcm_lawsD(2) [OF assms(1)]
    by (intro parse_header) (simp_all add: envelopeMagic_def envelopeVersion_def)
  then show "parseEnvelopeHeader (header @ ?c) envelopeMagic envelopeVersion = Some (i, length header)" .
  define pre where "pre = envelopeMagic @ [char_of envelopeVersion, char_of (length i)] @ i"
  have "header = pre @ nonce" by (simp add: header_def makeEnvelopeHeader_def pre_def)
  then have "drop (length header - 12) header = nonce" using assms(3) by simp
  then have "take 12 (drop (length header - 12) (header @ ?c)) = nonce" using assms(3) l by simp
  then show "openEnvelope G kr issuer kid (header @ ?c) = Inr seed"
    using assms(4,5) p gcm_lawsD(1) [OF assms(1)] by (simp add: openEnvelope_def)
qed

text \<open>C39. What a key ring seals, every key ring that holds the same master key opens, under the same purpose,
  whichever key is active there; rewrapping it keeps the plaintext and seals it with the active key; and only
  sealed data opens: an envelope that opens to a plaintext is the one that sealing it with the embedded key,
  identifier and nonce for this purpose produces.\<close>

theorem envelope_roundtrip:
  assumes G: "gcm_laws G" and i: "validKeyID (kr_active kr)" and n: "length nonce = 12" "length nonce' = 12"
    and s: "SealEnvelope G nonce kr purpose plaintext = Inr envelope"
    and k: "kr_keys kr' (kr_active kr) = kr_keys kr (kr_active kr)" "validKeyID (kr_active kr')" "kr_keys kr' (kr_active kr') \<noteq> None"
  shows "OpenEnvelope G kr' purpose envelope = Inr plaintext \<and>
    (\<exists>rewrapped. RewrapEnvelope G nonce' kr' purpose envelope = Inr rewrapped \<and>
       OpenEnvelope G kr' purpose rewrapped = Inr plaintext \<and>
       PurposeEnvelopeKeyID G kr' purpose rewrapped = Inr (kr_active kr')) \<and>
    (\<forall>forged p. OpenEnvelope G kr' purpose forged = Inr p \<longrightarrow>
       (\<exists>j m key. kr_keys kr' j = Some key \<and>
          forged = makePurposeEnvelopeHeader j m @ g_seal G key m p (purposeEnvelopeAAD purpose (makePurposeEnvelopeHeader j m))))"
proof (intro conjI allI impI)
  have p: "validEnvelopePurpose purpose" using s by (auto simp: SealEnvelope_def split: if_splits)
  obtain key where key: "kr_keys kr (kr_active kr) = Some key"
      "envelope = makePurposeEnvelopeHeader (kr_active kr) nonce @
        g_seal G key nonce plaintext (purposeEnvelopeAAD purpose (makePurposeEnvelopeHeader (kr_active kr) nonce))"
    using s by (auto simp: SealEnvelope_def Let_def split: if_splits option.splits)
  show o: "OpenEnvelope G kr' purpose envelope = Inr plaintext"
    unfolding key(2) using k(1) key(1) by (intro open_purpose_header(1) [OF G p i n(1)]) simp
  obtain key' where key': "kr_keys kr' (kr_active kr') = Some key'" using k(3) by blast
  let ?h = "makePurposeEnvelopeHeader (kr_active kr') nonce'"
  let ?r = "?h @ g_seal G key' nonce' plaintext (purposeEnvelopeAAD purpose ?h)"
  note op = open_purpose_header [OF G p k(2) n(2) key', of plaintext]
  have "RewrapEnvelope G nonce' kr' purpose envelope = Inr ?r"
    using o p key' by (simp add: RewrapEnvelope_def SealEnvelope_def Let_def)
  then show "\<exists>rewrapped. RewrapEnvelope G nonce' kr' purpose envelope = Inr rewrapped \<and>
       OpenEnvelope G kr' purpose rewrapped = Inr plaintext \<and> PurposeEnvelopeKeyID G kr' purpose rewrapped = Inr (kr_active kr')"
    using op p by (simp add: PurposeEnvelopeKeyID_def)
  fix forged q assume "OpenEnvelope G kr' purpose forged = Inr q"
  then obtain j h key2 where f: "parseEnvelopeHeader forged purposeEnvelopeMagic purposeEnvelopeVersion = Some (j, h)"
      "kr_keys kr' j = Some key2"
      "g_open G key2 (take 12 (drop (h - 12) forged)) (drop h forged) (purposeEnvelopeAAD purpose (take h forged)) = Some q"
    by (auto simp: OpenEnvelope_def Let_def split: if_splits option.splits)
  let ?m = "take 12 (drop (h - 12) forged)"
  have "length purposeEnvelopeMagic = 4" by (simp add: purposeEnvelopeMagic_def)
  from parse_header_shape(4) [OF f(1) this] have "take h forged = makePurposeEnvelopeHeader j ?m"
    by (simp add: makePurposeEnvelopeHeader_def)
  moreover from this have "forged = makePurposeEnvelopeHeader j ?m @ drop h forged" by (metis append_take_drop_id)
  ultimately show "\<exists>j m key. kr_keys kr' j = Some key \<and>
      forged = makePurposeEnvelopeHeader j m @ g_seal G key m q (purposeEnvelopeAAD purpose (makePurposeEnvelopeHeader j m))"
    using f(2) gcm_lawsD(3) [OF G f(3)] by metis
qed

text \<open>The round trip at a concrete key ring, with a cipher that appends a tag of sixteen zero bytes.\<close>

definition plain_gcm :: gcm where
  "plain_gcm = \<lparr>g_seal = (\<lambda>k n p a. p @ replicate 16 nul),
     g_open = (\<lambda>k n c a. if 16 \<le> length c \<and> drop (length c - 16) c = replicate 16 nul then Some (take (length c - 16) c) else None)\<rparr>"

lemma plain_gcm_laws: "gcm_laws plain_gcm"
proof -
  have tag: "c = p @ replicate 16 nul" if "drop (length c - 16) c = replicate 16 nul" "take (length c - 16) c = p" for c p
    using append_take_drop_id [of "length c - 16" c] unfolding that by simp
  show ?thesis
    unfolding gcm_laws_def
  proof (intro conjI allI impI)
    fix k n c a p assume "g_open plain_gcm k n c a = Some p"
    then have "drop (length c - 16) c = replicate 16 nul" "take (length c - 16) c = p"
      by (simp_all add: plain_gcm_def split: if_splits)
    then show "c = g_seal plain_gcm k n p a" unfolding plain_gcm_def gcm.simps by (rule tag)
  qed (simp_all add: plain_gcm_def)
qed

definition demo_keyring :: "string \<Rightarrow> keyring" where
  "demo_keyring i = \<lparr>kr_active = i, kr_keys = [''k1'' \<mapsto> ''first'', ''k2'' \<mapsto> ''second''], kr_directory = '''',
     kr_signing = None, kr_generation = 0\<rparr>"

lemma demo_ids: "validKeyID ''k1''" "validKeyID ''k2''" "validEnvelopePurpose ''smtp''"
  by (simp_all add: validKeyID_def validEnvelopePurpose_def maxKeyIDLength_def runes_ascii is_ascii_def byte_of_def alnum_rune_def)

theorem envelope_roundtrip_witness:
  "\<exists>envelope. SealEnvelope plain_gcm (replicate 12 nul) (demo_keyring ''k1'') ''smtp'' ''secret'' = Inr envelope \<and>
     OpenEnvelope plain_gcm (demo_keyring ''k2'') ''smtp'' envelope = Inr ''secret''"
proof -
  obtain envelope where s: "SealEnvelope plain_gcm (replicate 12 nul) (demo_keyring ''k1'') ''smtp'' ''secret'' = Inr envelope"
    by (simp add: SealEnvelope_def demo_ids demo_keyring_def Let_def)
  have "OpenEnvelope plain_gcm (demo_keyring ''k2'') ''smtp'' envelope = Inr ''secret''"
    using envelope_roundtrip [OF plain_gcm_laws _ _ _ s, of "replicate 12 nul" "demo_keyring ''k2''"] demo_ids
    by (simp add: demo_keyring_def)
  then show ?thesis using s by blast
qed

section \<open>Removing a master key\<close>

text \<open>The critical sections of the key ring; loads of the signing key in other goroutines interleave them in
  any order, each with the generation that it read at its start.\<close>

datatype kr_section =
    Remove_Key bool string
  | Cached_Material "64 word" string string string string millis
  | Cache_Material "64 word" signing_material
  | Clear_Material "64 word"

fun run_section :: "kr_section \<Rightarrow> keyring \<Rightarrow> keyring" where
  "run_section (Remove_Key removed i) kr = fst (RemoveKey removed i kr)"
| "run_section (Cached_Material g issuer kid jwk env created) kr = fst (cachedSigningMaterial g issuer kid jwk env created kr)"
| "run_section (Cache_Material g m) kr = fst (cacheSigningMaterial g m kr)"
| "run_section (Clear_Material g) kr = clearSigningMaterial g kr"

lemmas keyring_defs = RemoveKey_def clear_if_sealed_by_def clearSigningMaterialLocked_def cachedSigningMaterial_def
  cacheSigningMaterial_def clearSigningMaterial_def

text \<open>No section brings a master key back, and the cached signing key is always sealed by a held master key.\<close>

definition cache_held :: "keyring \<Rightarrow> bool" where
  "cache_held kr \<longleftrightarrow> (case kr_signing kr of None \<Rightarrow> True | Some m \<Rightarrow> kr_keys kr (m_masterKeyID m) \<noteq> None)"

lemma run_section_active: "kr_active (run_section s kr) = kr_active kr"
  by (cases s) (auto simp: keyring_defs Let_def split: option.splits)

lemma run_section_missing: "kr_keys kr i = None \<Longrightarrow> kr_keys (run_section s kr) i = None"
  by (cases s) (auto simp: keyring_defs Let_def split: option.splits)

lemma run_section_held: "cache_held kr \<Longrightarrow> cache_held (run_section s kr)"
  by (cases s) (auto simp: keyring_defs cache_held_def Let_def split: option.splits)

lemma run_section_active_key: "kr_keys (run_section s kr) (kr_active kr) = kr_keys kr (kr_active kr)"
  by (cases s) (auto simp: keyring_defs Let_def split: option.splits)

lemma run_sections:
  "kr_keys kr i = None \<Longrightarrow> kr_keys (fold run_section ss kr) i = None"
  "cache_held kr \<Longrightarrow> cache_held (fold run_section ss kr)"
  "kr_active (fold run_section ss kr) = kr_active kr"
  "kr_keys (fold run_section ss kr) (kr_active kr) = kr_keys kr (kr_active kr)"
  by (induction ss arbitrary: kr)
    (simp_all add: run_section_missing run_section_held run_section_active run_section_active_key [unfolded run_section_active]
      del: run_section.simps,
     metis run_section_active run_section_active_key)

lemma RemoveKey_removed:
  assumes "RemoveKey removed i kr = (kr', Inr ())"
  shows "kr_keys kr' = (kr_keys kr)(i := None)" "kr_active kr' = kr_active kr" "i \<noteq> kr_active kr"
  using assms by (auto simp: keyring_defs Let_def fun_upd_idem split: if_splits option.splits)

lemma missing_key_opens_nothing:
  assumes "kr_keys kr i = None"
  shows "parseEnvelopeHeader envelope envelopeMagic envelopeVersion = Some (i, h) \<Longrightarrow>
      openEnvelope G kr issuer kid envelope = Inl EnvUnknownKey"
    and "parseEnvelopeHeader envelope purposeEnvelopeMagic purposeEnvelopeVersion = Some (i, h) \<Longrightarrow> validEnvelopePurpose purpose \<Longrightarrow>
      OpenEnvelope G kr purpose envelope = Inl EnvUnknownKey"
  using assms by (simp_all add: openEnvelope_def OpenEnvelope_def)

lemma cached_hit:
  assumes "cachedSigningMaterial g issuer kid jwk env created kr = (kr', g', Some key)"
  shows "\<exists>m. kr_signing kr = Some m \<and> m_key m = key \<and> kr_keys kr (m_masterKeyID m) \<noteq> None"
  using assms by (auto simp: cachedSigningMaterial_def Let_def split: if_splits option.splits)

text \<open>C40. Once \<open>RemoveKey\<close> has succeeded, whatever sections of the key ring run afterwards, in any order and with
  loads that started before the removal: no envelope sealed with the removed key opens, no cached signing key
  that it sealed is handed out and none is cached again, while the active master key stays available and the other
  keys are untouched by the removal.\<close>

theorem keyring_removed_key:
  assumes "RemoveKey removed i kr = (kr', Inr ())"
  shows "(\<forall>j. j \<noteq> i \<longrightarrow> kr_keys kr' j = kr_keys kr j) \<and>
    (\<forall>ss. let now = fold run_section ss kr' in
       ActiveMasterKeyID now = ActiveMasterKeyID kr \<and> \<not> HasKey i now \<and>
       (\<forall>G issuer kid envelope h. parseEnvelopeHeader envelope envelopeMagic envelopeVersion = Some (i, h) \<longrightarrow>
          openEnvelope G now issuer kid envelope = Inl EnvUnknownKey) \<and>
       (\<forall>G purpose envelope h. parseEnvelopeHeader envelope purposeEnvelopeMagic purposeEnvelopeVersion = Some (i, h) \<and>
          validEnvelopePurpose purpose \<longrightarrow> OpenEnvelope G now purpose envelope = Inl EnvUnknownKey) \<and>
       (\<forall>g issuer kid jwk env created kr2 g' key.
          cachedSigningMaterial g issuer kid jwk env created now = (kr2, g', Some key) \<longrightarrow>
          (\<exists>m. kr_signing now = Some m \<and> m_key m = key \<and> m_masterKeyID m \<noteq> i)) \<and>
       (\<forall>g m. m_masterKeyID m = i \<longrightarrow> cacheSigningMaterial g m now = (now, False)))"
proof -
  note r = RemoveKey_removed [OF assms]
  have k: "kr_keys (fold run_section ss kr') i = None" for ss by (rule run_sections(1)) (simp add: r(1))
  have a: "ActiveMasterKeyID (fold run_section ss kr') = ActiveMasterKeyID kr" for ss
    using run_sections(3) [of ss kr'] run_sections(4) [of ss kr'] r by (simp add: ActiveMasterKeyID_def)
  have hit: "\<exists>m. kr_signing now = Some m \<and> m_key m = key \<and> m_masterKeyID m \<noteq> i"
    if "cachedSigningMaterial g issuer kid jwk env created now = (kr2, g', Some key)" "kr_keys now i = None"
    for g issuer kid jwk env created now kr2 g' key
    using cached_hit [OF that(1)] that(2) by auto
  show ?thesis
    unfolding Let_def using k a r(1) missing_key_opens_nothing hit
    by (intro conjI allI impI) (simp_all add: HasKey_def cacheSigningMaterial_def, blast+)
qed

theorem keyring_removed_key_witness:
  "(let now = fold run_section [Cache_Material 0 \<lparr>m_issuer = ''i'', m_kid = ''k'', m_publicJWK = '''', m_envelope = '''',
        m_masterKeyID = ''k1'', m_createdAt = 0,
        m_key = \<lparr>sg_private = '''', sg_jwk = \<lparr>jw_public = True, jw_ed25519 = None, jw_kid = '''', jw_alg = '''', jw_use = ''''\<rparr>, sg_created = 0\<rparr>\<rparr>] (fst (RemoveKey True ''k1'' (demo_keyring ''k2''))) in
     \<not> HasKey ''k1'' now \<and> ActiveMasterKeyID now = Inr ''k2'')"
proof -
  have "RemoveKey True ''k1'' (demo_keyring ''k2'') = (fst (RemoveKey True ''k1'' (demo_keyring ''k2'')), Inr ())"
    using demo_ids by (simp add: RemoveKey_def demo_keyring_def clear_if_sealed_by_def)
  note keyring_removed_key [OF this, unfolded Let_def]
  moreover have "ActiveMasterKeyID (demo_keyring ''k2'') = Inr ''k2''"
    using demo_ids by (simp add: ActiveMasterKeyID_def demo_keyring_def)
  ultimately show ?thesis unfolding Let_def by metis
qed

end
