(* ===== verification/KeyRotation.thy ===== *)
theory KeyRotation
  imports Envelope RetirementMachine
begin

text \<open>
  The signing keys of \<^verbatim>\<open>internal/oidc/rotation.go\<close>: the table with its constraints, the committed statements that
  bootstrap, prepare, activate, rewrap and clean up keys, the key set that is published, and the machine of
  committed statements: there is exactly one active key, and every key is published before it signs and for as
  long as a token it has signed can live. A key is written through the fence of the master-key retirement.
\<close>

section \<open>Table\<close>

datatype key_state = K_Active | K_Pending | K_Retiring

record signing_row =
  sk_kid :: string
  sk_public :: string
  sk_envelope :: string
  sk_state :: key_state
  sk_created :: millis
  sk_activates :: "millis option"
  sk_retire :: "millis option"

record key_db = ret_db +
  signing_keys :: "signing_row list"
  event_ids :: "string list"

definition signing_check :: "signing_row \<Rightarrow> bool" where
  "signing_check r \<longleftrightarrow>
     (case sk_state r of
        K_Active \<Rightarrow> sk_activates r = None \<and> sk_retire r = None
      | K_Pending \<Rightarrow> sk_activates r \<noteq> None \<and> sk_retire r = None
      | K_Retiring \<Rightarrow> sk_activates r = None \<and> sk_retire r \<noteq> None)"

definition in_state :: "key_state \<Rightarrow> signing_row \<Rightarrow> bool" where
  "in_state s r \<longleftrightarrow> sk_state r = s"

definition signing_ok :: "signing_row list \<Rightarrow> bool" where
  "signing_ok t \<longleftrightarrow>
     list_all signing_check t \<and> sql_unique sk_kid t \<and> sql_count (in_state K_Active) t \<le> 1 \<and> sql_count (in_state K_Pending) t \<le> 1"

definition commit_keys :: "'a key_db_scheme \<Rightarrow> signing_row list \<Rightarrow> int \<Rightarrow> ('a key_db_scheme \<times> int) option" where
  "commit_keys db t n = (if signing_ok t then Some (db\<lparr>signing_keys := t\<rparr>, n) else None)"

definition JWKSCacheMaxAge :: millis where
  "JWKSCacheMaxAge = 300000"

definition MaxAccessTokenLifetime :: millis where
  "MaxAccessTokenLifetime = 86400000"

definition MinimumSigningKeyRetirement :: millis where
  "MinimumSigningKeyRetirement = MaxAccessTokenLifetime + JWKSCacheMaxAge"

section \<open>Statements\<close>

record new_key =
  nk_kid :: string
  nk_public :: string
  nk_envelope :: string

definition bootstrap_stmt :: "new_key \<Rightarrow> millis \<Rightarrow> 'a key_db_scheme mutation" where
  "bootstrap_stmt k now db =
     commit_keys db (signing_keys db @ [\<lparr>sk_kid = nk_kid k, sk_public = nk_public k, sk_envelope = nk_envelope k,
       sk_state = K_Active, sk_created = now, sk_activates = None, sk_retire = None\<rparr>]) 1"

definition prepare_key_stmt :: "new_key \<Rightarrow> millis \<Rightarrow> 'a key_db_scheme mutation" where
  "prepare_key_stmt k now db =
     (if sql_exists (in_state K_Pending) (signing_keys db) then Some (db, 0)
      else commit_keys db (signing_keys db @ [\<lparr>sk_kid = nk_kid k, sk_public = nk_public k, sk_envelope = nk_envelope k,
        sk_state = K_Pending, sk_created = now, sk_activates = Some (now + JWKSCacheMaxAge), sk_retire = None\<rparr>]) 1)"

definition ripe :: "string \<Rightarrow> millis \<Rightarrow> signing_row \<Rightarrow> bool" where
  "ripe pending now r \<longleftrightarrow>
     sk_kid r = pending \<and> sk_state r = K_Pending \<and> (case sk_activates r of None \<Rightarrow> False | Some t \<Rightarrow> t \<le> now)"

definition is_active :: "string \<Rightarrow> signing_row \<Rightarrow> bool" where
  "is_active kid r \<longleftrightarrow> sk_kid r = kid \<and> sk_state r = K_Active"

definition rotation_event :: "string \<Rightarrow> string \<Rightarrow> string \<Rightarrow> millis \<Rightarrow> 'a key_db_scheme mutation" where
  "rotation_event i expected pending now db =
     (if \<not> (sql_exists (is_active expected) (signing_keys db) \<and> sql_exists (ripe pending now) (signing_keys db)) then Some (db, 0)
      else if i \<in> set (event_ids db) then None
      else Some (db\<lparr>event_ids := event_ids db @ [i]\<rparr>, 1))"

definition retire_stmt :: "string \<Rightarrow> string \<Rightarrow> millis \<Rightarrow> millis \<Rightarrow> 'a key_db_scheme mutation" where
  "retire_stmt expected pending retireAfter now db =
     (let p = (\<lambda>r. is_active expected r \<and> sql_exists (ripe pending now) (signing_keys db))
      in commit_keys db
           (sql_update p (\<lambda>r. r\<lparr>sk_state := K_Retiring, sk_activates := None, sk_retire := Some retireAfter\<rparr>) (signing_keys db))
           (sql_count p (signing_keys db)))"

definition activate_stmt :: "string \<Rightarrow> string \<Rightarrow> millis \<Rightarrow> millis \<Rightarrow> 'a key_db_scheme mutation" where
  "activate_stmt expected pending retireAfter now db =
     (let p = (\<lambda>r. ripe pending now r \<and>
                 sql_exists (\<lambda>x. sk_kid x = expected \<and> sk_state x = K_Retiring \<and> sk_retire x = Some retireAfter) (signing_keys db) \<and>
                 \<not> sql_exists (in_state K_Active) (signing_keys db))
      in commit_keys db (sql_update p (\<lambda>r. r\<lparr>sk_state := K_Active, sk_activates := None\<rparr>) (signing_keys db))
           (sql_count p (signing_keys db)))"

definition activate_tx :: "string \<Rightarrow> string \<Rightarrow> string \<Rightarrow> millis \<Rightarrow> millis \<Rightarrow> 'a key_db_scheme mutation" where
  "activate_tx i expected pending retireAfter now =
     run_tx [rotation_event i expected pending now, retire_stmt expected pending retireAfter now,
             activate_stmt expected pending retireAfter now]"

definition cleanup_keys_stmt :: "millis \<Rightarrow> 'a key_db_scheme mutation" where
  "cleanup_keys_stmt cutoff db =
     (let p = (\<lambda>r. sk_state r = K_Retiring \<and> (case sk_retire r of None \<Rightarrow> False | Some t \<Rightarrow> t < cutoff))
      in commit_keys db (sql_delete p (signing_keys db)) (sql_count p (signing_keys db)))"

text \<open>A rewrapped row: what was read, and the new envelope.\<close>

record rewrap_candidate =
  rw_kid :: string
  rw_public :: string
  rw_old :: string
  rw_state :: key_state
  rw_new :: string

definition rewrap_match :: "rewrap_candidate \<Rightarrow> signing_row \<Rightarrow> bool" where
  "rewrap_match c r \<longleftrightarrow> sk_kid r = rw_kid c \<and> sk_state r = rw_state c \<and> sk_public r = rw_public c \<and> sk_envelope r = rw_old c"

definition signingKeyRewrapMutation :: "rewrap_candidate list \<Rightarrow> 'a key_db_scheme mutation" where
  "signingKeyRewrapMutation cs db =
     (let p = (\<lambda>r. sk_kid r \<in> set (map rw_kid cs) \<and>
                 sql_count (\<lambda>x. list_ex (\<lambda>c. rewrap_match c x) cs) (signing_keys db) = int (length cs));
          f = (\<lambda>r. r\<lparr>sk_envelope := (case List.find (\<lambda>c. rw_kid c = sk_kid r) cs of None \<Rightarrow> sk_envelope r | Some c \<Rightarrow> rw_new c)\<rparr>)
      in commit_keys db (sql_update p f (signing_keys db)) (sql_count p (signing_keys db)))"

section \<open>The published keys\<close>

definition published :: "millis \<Rightarrow> signing_row \<Rightarrow> bool" where
  "published now r \<longleftrightarrow>
     sk_state r \<in> {K_Active, K_Pending} \<or>
     sk_state r = K_Retiring \<and> (case sk_retire r of None \<Rightarrow> False | Some t \<Rightarrow> now \<le> t)"

definition state_rank :: "key_state \<Rightarrow> int" where
  "state_rank s = (case s of K_Active \<Rightarrow> 0 | K_Pending \<Rightarrow> 1 | K_Retiring \<Rightarrow> 2)"

definition jwks_rows :: "millis \<Rightarrow> 'a key_db_scheme \<Rightarrow> signing_row list" where
  "jwks_rows now db =
     sort_key (\<lambda>r. (state_rank (sk_state r), sk_created r, sk_kid r)) (sql_select (published now) (signing_keys db))"

section \<open>The machine of committed statements\<close>

text \<open>The statements of the code, with the arguments that the calls give them: an activation has two different
  keys and a retirement time beyond the safety window.\<close>

datatype key_step =
    Bootstrap new_key millis
  | PrepareKey new_key millis
  | Activate string string string millis millis
  | Cleanup millis
  | Rewrap "rewrap_candidate list"

primrec key_mutation :: "key_step \<Rightarrow> 'a key_db_scheme mutation" where
  "key_mutation (Bootstrap k now) = bootstrap_stmt k now"
| "key_mutation (PrepareKey k now) = prepare_key_stmt k now"
| "key_mutation (Activate i expected pending retireAfter now) = activate_tx i expected pending retireAfter now"
| "key_mutation (Cleanup cutoff) = cleanup_keys_stmt cutoff"
| "key_mutation (Rewrap cs) = signingKeyRewrapMutation cs"

primrec key_args :: "key_step \<Rightarrow> bool" where
  "key_args (Bootstrap k now) = True"
| "key_args (PrepareKey k now) = True"
| "key_args (Activate i expected pending retireAfter now) \<longleftrightarrow>
     expected \<noteq> pending \<and> now + MinimumSigningKeyRetirement \<le> retireAfter"
| "key_args (Cleanup cutoff) = True"
| "key_args (Rewrap cs) = True"

definition key_apply :: "key_step \<Rightarrow> 'a key_db_scheme \<Rightarrow> 'a key_db_scheme" where
  "key_apply s db = (case key_mutation s db of None \<Rightarrow> db | Some (db', n) \<Rightarrow> db')"

lemma commit_keys_Some:
  "commit_keys db t n = Some (db', m) \<longleftrightarrow> signing_ok t \<and> db' = db\<lparr>signing_keys := t\<rparr> \<and> m = n"
  by (auto simp: commit_keys_def)

text \<open>The invariant of the table: its constraints, one active key, and pending keys that wait for the lifetime of
  a cached key set from their creation on.\<close>

definition key_inv :: "'a key_db_scheme \<Rightarrow> bool" where
  "key_inv db \<longleftrightarrow>
     signing_ok (signing_keys db) \<and> sql_exists (in_state K_Active) (signing_keys db) \<and>
     list_all (\<lambda>r. in_state K_Pending r \<longrightarrow> sk_activates r = Some (sk_created r + JWKSCacheMaxAge)) (signing_keys db)"

lemma key_invI:
  assumes "signing_ok (signing_keys db)" "\<exists>r \<in> set (signing_keys db). sk_state r = K_Active"
    "\<And>r. r \<in> set (signing_keys db) \<Longrightarrow> sk_state r = K_Pending \<Longrightarrow> sk_activates r = Some (sk_created r + JWKSCacheMaxAge)"
  shows "key_inv db"
  using assms by (auto simp: key_inv_def sql_exists_iff list_all_iff in_state_def)

lemma key_invD:
  assumes "key_inv db"
  shows "signing_ok (signing_keys db)" "\<exists>r \<in> set (signing_keys db). sk_state r = K_Active"
    "r \<in> set (signing_keys db) \<Longrightarrow> sk_state r = K_Pending \<Longrightarrow> sk_activates r = Some (sk_created r + JWKSCacheMaxAge)"
  using assms by (auto simp: key_inv_def sql_exists_iff list_all_iff in_state_def)

lemma sql_count_one:
  assumes "sql_count p t \<le> 1" "x \<in> set t" "y \<in> set t" "p x" "p y"
  shows "x = y"
proof -
  have "length (filter p t) \<le> 1" using assms(1) by (simp add: sql_count_def)
  moreover have "x \<in> set (filter p t)" "y \<in> set (filter p t)" using assms by simp_all
  ultimately show ?thesis by (cases "filter p t") auto
qed

lemma sql_count_exact: "sql_count p t \<le> 1 \<Longrightarrow> \<exists>x \<in> set t. p x \<Longrightarrow> sql_count p t = 1"
  using sql_count_pos_iff [of p t] by linarith

lemma one_active_eq:
  assumes "signing_ok t" "x \<in> set t" "y \<in> set t" "sk_state x = s" "sk_state y = s" "s \<in> {K_Active, K_Pending}"
  shows "x = y"
proof -
  have "sql_count (in_state s) t \<le> 1" using assms(1,6) by (auto simp: signing_ok_def)
  then show ?thesis using assms by (intro sql_count_one [of "in_state s" t]) (simp_all add: in_state_def)
qed

section \<open>Activation\<close>

text \<open>What an activation does to a row: the expected key retires and the pending key becomes active.\<close>

definition swap_keys :: "string \<Rightarrow> string \<Rightarrow> millis \<Rightarrow> signing_row \<Rightarrow> signing_row" where
  "swap_keys expected pending retireAfter r =
     (if is_active expected r then r\<lparr>sk_state := K_Retiring, sk_activates := None, sk_retire := Some retireAfter\<rparr>
      else if sk_kid r = pending \<and> sk_state r = K_Pending then r\<lparr>sk_state := K_Active, sk_activates := None\<rparr> else r)"

lemma rotation_event_frame: "rotation_event i expected pending now db = Some (db', n) \<Longrightarrow> signing_keys db' = signing_keys db"
  by (auto simp: rotation_event_def split: if_splits)

lemma activate_txE:
  assumes "key_inv db" "expected \<noteq> pending" "activate_tx i expected pending retireAfter now db = Some (db', n)"
  obtains (unchanged) "signing_keys db' = signing_keys db"
        | (swapped) a p where "a \<in> set (signing_keys db)" "is_active expected a" "p \<in> set (signing_keys db)" "ripe pending now p"
            "signing_keys db' = map (swap_keys expected pending retireAfter) (signing_keys db)" "signing_ok (signing_keys db')"
proof -
  obtain db1 db2 j k where ev: "signing_keys db1 = signing_keys db"
    and re: "retire_stmt expected pending retireAfter now db1 = Some (db2, j)"
    and ac: "activate_stmt expected pending retireAfter now db2 = Some (db', k)"
    using assms(3) unfolding activate_tx_def by (elim run_tx_ConsE) (auto dest: rotation_event_frame)
  let ?t = "signing_keys db"
  show ?thesis
  proof (cases "sql_exists (is_active expected) ?t \<and> sql_exists (ripe pending now) ?t")
    case True
    then obtain a p where a: "a \<in> set ?t" "is_active expected a" and p: "p \<in> set ?t" "ripe pending now p"
      by (auto simp: sql_exists_iff)
    have one: "x = a" if "x \<in> set ?t" "sk_state x = K_Active" for x
      using one_active_eq [OF key_invD(1) [OF assms(1)] that(1) a(1) that(2)] a(2) by (simp add: is_active_def)
    let ?ret = "\<lambda>r. r\<lparr>sk_state := K_Retiring, sk_activates := None, sk_retire := Some retireAfter\<rparr>"
    have t2: "signing_keys db2 = sql_update (is_active expected) ?ret ?t"
      using re True ev by (simp add: retire_stmt_def Let_def commit_keys_Some)
    have "?ret a \<in> set (signing_keys db2)" unfolding t2 set_sql_update using a by blast
    then have e: "sql_exists (\<lambda>x. sk_kid x = expected \<and> sk_state x = K_Retiring \<and> sk_retire x = Some retireAfter) (signing_keys db2)"
      using a(2) by (auto simp: sql_exists_iff is_active_def intro!: bexI [of _ "?ret a"])
    have none: "\<not> sql_exists (in_state K_Active) (signing_keys db2)"
      unfolding t2 sql_exists_iff set_sql_update in_state_def using one a(2) by auto
    have t': "signing_keys db' = sql_update (ripe pending now) (\<lambda>r. r\<lparr>sk_state := K_Active, sk_activates := None\<rparr>) (signing_keys db2)"
        "signing_ok (signing_keys db')"
      using ac e none by (auto simp: activate_stmt_def Let_def commit_keys_Some)
    have ripe: "ripe pending now r \<longleftrightarrow> sk_kid r = pending \<and> sk_state r = K_Pending" if "r \<in> set ?t" for r
      using that p one_active_eq [OF key_invD(1) [OF assms(1)] that p(1), of K_Pending] by (auto simp: ripe_def)
    have "signing_keys db' = map (swap_keys expected pending retireAfter) ?t"
      unfolding t'(1) t2 sql_update_def map_map using ripe assms(2)
      by (auto simp: swap_keys_def is_active_def ripe_def)
    then show ?thesis using swapped a p t'(2) by blast
  next
    case False
    have "signing_keys db2 = ?t"
      using re False ev by (auto simp: retire_stmt_def Let_def commit_keys_Some sql_update_none sql_exists_iff)
    moreover have "sql_exists (in_state K_Active) ?t" using assms(1) by (simp add: key_inv_def)
    ultimately have "signing_keys db' = ?t" using ac by (auto simp: activate_stmt_def Let_def commit_keys_Some sql_update_none)
    then show ?thesis by (rule unchanged)
  qed
qed

lemma activate_inv:
  assumes "key_inv db" "expected \<noteq> pending" "activate_tx i expected pending retireAfter now db = Some (db', n)"
  shows "key_inv db'"
  using assms
proof (cases rule: activate_txE)
  case unchanged
  then show ?thesis using assms(1) by (simp add: key_inv_def)
next
  case (swapped a p)
  have "swap_keys expected pending retireAfter p \<in> set (signing_keys db')" using swapped by simp
  moreover have "sk_state (swap_keys expected pending retireAfter p) = K_Active"
    using swapped(4) by (simp add: swap_keys_def ripe_def is_active_def)
  moreover have "sk_activates r = Some (sk_created r + JWKSCacheMaxAge)" if "r \<in> set (signing_keys db')" "sk_state r = K_Pending" for r
    using that key_invD(3) [OF assms(1)] swapped(5) by (auto simp: swap_keys_def split: if_splits)
  ultimately show ?thesis using swapped(6) by (intro key_invI) blast+
qed

lemma key_mutation_inv:
  assumes "key_inv db" "key_args s" "key_mutation s db = Some (db', n)"
  shows "key_inv db'"
proof (cases s)
  case (Bootstrap k now)
  then show ?thesis using assms key_invD [OF assms(1)] by (intro key_invI) (auto simp: bootstrap_stmt_def commit_keys_Some)
next
  case (PrepareKey k now)
  then show ?thesis using assms key_invD [OF assms(1)]
    by (intro key_invI) (auto simp: prepare_key_stmt_def commit_keys_Some split: if_splits)
next
  case (Activate i expected pending retireAfter now)
  then show ?thesis using assms by (auto intro: activate_inv)
next
  case (Cleanup cutoff)
  obtain a where "a \<in> set (signing_keys db)" "sk_state a = K_Active" using key_invD(2) [OF assms(1)] by blast
  then show ?thesis using Cleanup assms key_invD [OF assms(1)]
    by (intro key_invI) (auto simp: cleanup_keys_stmt_def Let_def commit_keys_Some set_sql_delete)
next
  case (Rewrap cs)
  obtain p f where t: "signing_keys db' = sql_update p f (signing_keys db)" "signing_ok (signing_keys db')"
    and f: "\<And>r. sk_state (f r) = sk_state r \<and> sk_activates (f r) = sk_activates r \<and> sk_created (f r) = sk_created r"
    using Rewrap assms(3) by (simp add: signingKeyRewrapMutation_def Let_def commit_keys_Some)
  obtain a where a: "a \<in> set (signing_keys db)" "sk_state a = K_Active" using key_invD(2) [OF assms(1)] by blast
  have "(if p a then f a else a) \<in> set (signing_keys db')" using a(1) t(1) by (auto simp: sql_update_def)
  moreover have "sk_state (if p a then f a else a) = K_Active" using a(2) f by simp
  moreover have "sk_activates r = Some (sk_created r + JWKSCacheMaxAge)" if "r \<in> set (signing_keys db')" "sk_state r = K_Pending" for r
    using that key_invD(3) [OF assms(1)] f unfolding t(1) sql_update_def by auto
  ultimately show ?thesis using t(2) by (intro key_invI) blast+
qed

lemma key_apply_inv: "key_inv db \<Longrightarrow> key_args s \<Longrightarrow> key_inv (key_apply s db)"
  by (auto simp: key_apply_def intro: key_mutation_inv split: option.splits)

lemma key_steps_inv: "key_inv db \<Longrightarrow> \<forall>s \<in> set ss. key_args s \<Longrightarrow> key_inv (fold key_apply ss db)"
  by (induction ss arbitrary: db) (simp_all add: key_apply_inv)

text \<open>A key that becomes active did so by an activation, after it was pending for the lifetime of a cached key
  set; the key it replaces is retiring from then on.\<close>

definition active_kid :: "string \<Rightarrow> 'a key_db_scheme \<Rightarrow> bool" where
  "active_kid kid db = sql_exists (is_active kid) (signing_keys db)"

lemma newly_active:
  assumes "key_inv db" "key_args s" "\<not> active_kid kid db" "active_kid kid (key_apply s db)"
  shows "\<exists>i expected retireAfter now r a. s = Activate i expected kid retireAfter now \<and>
    r \<in> set (signing_keys db) \<and> sk_kid r = kid \<and> sk_state r = K_Pending \<and> sk_created r + JWKSCacheMaxAge \<le> now \<and>
    a \<in> set (signing_keys (key_apply s db)) \<and> sk_kid a = expected \<and> sk_state a = K_Retiring \<and>
    sk_retire a = Some retireAfter \<and> now + MinimumSigningKeyRetirement \<le> retireAfter"
proof -
  obtain db' n where m: "key_mutation s db = Some (db', n)" "key_apply s db = db'"
    using assms(3,4) by (cases "key_mutation s db") (auto simp: key_apply_def)
  obtain x where x: "x \<in> set (signing_keys db')" "is_active kid x" using assms(4) m(2) by (auto simp: active_kid_def sql_exists_iff)
  have none: "\<not> is_active kid r" if "r \<in> set (signing_keys db)" for r
    using assms(3) that by (auto simp: active_kid_def sql_exists_iff)
  show ?thesis
  proof (cases s)
    case (Bootstrap k now)
    obtain a where a: "a \<in> set (signing_keys db)" "sk_state a = K_Active" using key_invD(2) [OF assms(1)] by blast
    have "signing_ok (signing_keys db')" "a \<in> set (signing_keys db')"
      using Bootstrap m(1) a(1) by (auto simp: bootstrap_stmt_def commit_keys_Some)
    from one_active_eq [OF this(1) x(1) this(2)] have "x = a" using x(2) a(2) by (simp add: is_active_def)
    then show ?thesis using none a(1) x(2) by blast
  next
    case (PrepareKey k now)
    then show ?thesis using m(1) x none by (auto simp: prepare_key_stmt_def commit_keys_Some is_active_def split: if_splits)
  next
    case (Cleanup cutoff)
    then show ?thesis using m(1) x none by (auto simp: cleanup_keys_stmt_def Let_def commit_keys_Some set_sql_delete)
  next
    case (Rewrap cs)
    then show ?thesis using m(1) x none
      by (auto simp: signingKeyRewrapMutation_def Let_def commit_keys_Some set_sql_update is_active_def)
  next
    case (Activate i expected pending retireAfter now)
    have args: "expected \<noteq> pending" "now + MinimumSigningKeyRetirement \<le> retireAfter" using assms(2) Activate by simp_all
    from assms(1) args(1) m(1) [unfolded Activate key_mutation.simps] show ?thesis
    proof (cases rule: activate_txE)
      case unchanged
      then show ?thesis using x none by simp
    next
      case (swapped a p)
      obtain r where r: "r \<in> set (signing_keys db)" "x = swap_keys expected pending retireAfter r" using x(1) swapped(5) by auto
      have k: "pending = kid" "sk_kid r = pending" "sk_state r = K_Pending"
        using x(2) none [OF r(1)] unfolding r(2) by (auto simp: swap_keys_def is_active_def split: if_splits)
      have "p = r" using one_active_eq [OF key_invD(1) [OF assms(1)] swapped(3) r(1)] k(3) swapped(4) by (simp add: ripe_def)
      then have "sk_created r + JWKSCacheMaxAge \<le> now" using swapped(4) key_invD(3) [OF assms(1) r(1) k(3)] by (simp add: ripe_def)
      moreover have "swap_keys expected pending retireAfter a \<in> set (signing_keys db')" using swapped(1,5) by simp
      moreover have "sk_kid (swap_keys expected pending retireAfter a) = expected" "sk_state (swap_keys expected pending retireAfter a) = K_Retiring"
        "sk_retire (swap_keys expected pending retireAfter a) = Some retireAfter"
        using swapped(2) by (simp_all add: swap_keys_def is_active_def)
      ultimately show ?thesis using Activate k r(1) args(2) m(2) by blast
    qed
  qed
qed

text \<open>C19. Whatever statements are committed in whatever order, there is always exactly one active signing key and at
  most one pending one; and a key becomes active only by an activation, after it has been pending for the lifetime
  of a cached key set, while the key it replaces is set to retire no sooner than the safety window after.\<close>

theorem rotation_one_active:
  assumes "key_inv db" "\<forall>s \<in> set ss. key_args s" "key_args s"
  shows "let db1 = fold key_apply ss db; db2 = key_apply s db1 in
    sql_count (in_state K_Active) (signing_keys db1) = 1 \<and> sql_count (in_state K_Pending) (signing_keys db1) \<le> 1 \<and>
    (\<forall>kid. \<not> active_kid kid db1 \<and> active_kid kid db2 \<longrightarrow>
       (\<exists>i expected retireAfter now r a. s = Activate i expected kid retireAfter now \<and>
          r \<in> set (signing_keys db1) \<and> sk_kid r = kid \<and> sk_state r = K_Pending \<and> sk_created r + JWKSCacheMaxAge \<le> now \<and>
          a \<in> set (signing_keys db2) \<and> sk_kid a = expected \<and> sk_state a = K_Retiring \<and>
          sk_retire a = Some retireAfter \<and> now + MinimumSigningKeyRetirement \<le> retireAfter))"
proof -
  have inv: "key_inv (fold key_apply ss db)" using assms(1,2) by (rule key_steps_inv)
  note ok = key_invD(1,2) [OF inv]
  have "sql_count (in_state K_Active) (signing_keys (fold key_apply ss db)) = 1"
    using ok by (intro sql_count_exact) (auto simp: signing_ok_def in_state_def)
  moreover have "sql_count (in_state K_Pending) (signing_keys (fold key_apply ss db)) \<le> 1" using ok(1) by (simp add: signing_ok_def)
  ultimately show ?thesis using newly_active [OF inv assms(3)] unfolding Let_def by blast
qed

section \<open>Publication\<close>

definition is_published :: "string \<Rightarrow> millis \<Rightarrow> 'a key_db_scheme \<Rightarrow> bool" where
  "is_published kid t db \<longleftrightarrow> kid \<in> set (map sk_kid (jwks_rows t db))"

lemma is_published_iff: "is_published kid t db \<longleftrightarrow> (\<exists>r \<in> set (signing_keys db). sk_kid r = kid \<and> published t r)"
  by (auto simp: is_published_def jwks_rows_def set_sql_select)

text \<open>A step that keeps a time: it does not clean up beyond it, and an activation leaves the safety window open.\<close>

primrec within :: "millis \<Rightarrow> key_step \<Rightarrow> bool" where
  "within t (Bootstrap k now) = True"
| "within t (PrepareKey k now) = True"
| "within t (Activate i expected pending retireAfter now) \<longleftrightarrow> t \<le> now + MinimumSigningKeyRetirement"
| "within t (Cleanup cutoff) \<longleftrightarrow> cutoff \<le> t"
| "within t (Rewrap cs) = True"

lemma published_swap:
  "published t r \<Longrightarrow> t \<le> retireAfter \<Longrightarrow> published t (swap_keys expected pending retireAfter r)"
  "sk_kid (swap_keys expected pending retireAfter r) = sk_kid r"
  by (auto simp: published_def swap_keys_def)

lemma key_mutation_published:
  assumes "key_inv db" "key_args s" "within t s" "key_mutation s db = Some (db', n)" "is_published kid t db"
  shows "is_published kid t db'"
proof -
  obtain r where r: "r \<in> set (signing_keys db)" "sk_kid r = kid" "published t r" using assms(5) by (auto simp: is_published_iff)
  show ?thesis
  proof (cases s)
    case (Activate i expected pending retireAfter now)
    have args: "expected \<noteq> pending" "t \<le> retireAfter" using assms(2,3) Activate by simp_all
    from assms(1) args(1) assms(4) [unfolded Activate key_mutation.simps] show ?thesis
    proof (cases rule: activate_txE)
      case unchanged
      then show ?thesis using assms(5) by (simp add: is_published_iff)
    next
      case (swapped a p)
      have "swap_keys expected pending retireAfter r \<in> set (signing_keys db')" using r(1) swapped(5) by simp
      then show ?thesis using published_swap(1) [OF r(3) args(2)] published_swap(2) r(2) unfolding is_published_iff by blast
    qed
  next
    case (Cleanup cutoff)
    have "cutoff \<le> t" using assms(3) Cleanup by simp
    then have "r \<in> set (signing_keys db')"
      using Cleanup assms(4) r by (auto simp: cleanup_keys_stmt_def Let_def commit_keys_Some set_sql_delete published_def split: option.splits)
    then show ?thesis using r unfolding is_published_iff by blast
  next
    case (Rewrap cs)
    obtain p f where t: "signing_keys db' = sql_update p f (signing_keys db)"
      and f: "\<And>r. sk_kid (f r) = sk_kid r \<and> sk_state (f r) = sk_state r \<and> sk_retire (f r) = sk_retire r"
      using Rewrap assms(4) by (simp add: signingKeyRewrapMutation_def Let_def commit_keys_Some)
    have "(if p r then f r else r) \<in> set (signing_keys db')" using r(1) t by (auto simp: sql_update_def)
    then show ?thesis using r f unfolding is_published_iff by (intro bexI [of _ "if p r then f r else r"]) (auto simp: published_def)
  qed (use assms(4) r in \<open>auto simp: is_published_iff bootstrap_stmt_def prepare_key_stmt_def commit_keys_Some split: if_splits\<close>)
qed

lemma key_apply_published:
  "key_inv db \<Longrightarrow> key_args s \<Longrightarrow> within t s \<Longrightarrow> is_published kid t db \<Longrightarrow> is_published kid t (key_apply s db)"
  by (auto simp: key_apply_def intro: key_mutation_published split: option.splits)


section \<open>A concrete rotation\<close>

definition demo_key :: "string \<Rightarrow> new_key" where
  "demo_key kid = \<lparr>nk_kid = kid, nk_public = '''', nk_envelope = ''''\<rparr>"

definition demo_keys :: key_db where
  "demo_keys = \<lparr>barrier = None, members = [], generations = [], api_keys = [], audit_events = [],
     signing_keys = [\<lparr>sk_kid = ''k1'', sk_public = '''', sk_envelope = '''', sk_state = K_Active, sk_created = 0,
       sk_activates = None, sk_retire = None\<rparr>], event_ids = []\<rparr>"

definition demo_rotation :: "key_step list" where
  "demo_rotation = [PrepareKey (demo_key ''k2'') 1000, Activate ''e'' ''k1'' ''k2'' 90000000 400000, Cleanup 80000000]"

lemma demo_keys_inv: "key_inv demo_keys" "\<forall>s \<in> set demo_rotation. key_args s \<and> within 86000000 s"
  by (simp_all add: key_inv_def demo_keys_def signing_ok_def signing_check_def sql_unique_def sql_count_def in_state_def sql_exists_def
      demo_rotation_def MinimumSigningKeyRetirement_def MaxAccessTokenLifetime_def JWKSCacheMaxAge_def)

theorem rotation_one_active_witness:
  "sql_count (in_state K_Active) (signing_keys (fold key_apply demo_rotation demo_keys)) = 1"
  using rotation_one_active [OF demo_keys_inv(1), of demo_rotation "Cleanup 0"] demo_keys_inv(2) by (simp add: Let_def)


lemma demo_rotation_swaps:
  "map (\<lambda>r. (sk_kid r, sk_state r)) (signing_keys (fold key_apply demo_rotation demo_keys)) = [(''k1'', K_Retiring), (''k2'', K_Active)]"
  by code_simp

end
