(* ===== verification/KeyCalls.thy ===== *)
theory KeyCalls
  imports KeyRotation
begin

text \<open>
  The calls on signing keys of \<^verbatim>\<open>internal/oidc/keys.go\<close>, \<^verbatim>\<open>rotation.go\<close> and \<^verbatim>\<open>rotation_worker.go\<close>: loading a key through the
  key ring and its cache, bootstrapping, preparing, activating, rewrapping, cleaning up, publishing, and one pass
  of the rotation worker. Other goroutines use the key ring and other nodes commit between any two of the calls.
  The JOSE library is a record of functions with the laws \<open>jose_laws\<close>.
\<close>

section \<open>Keys\<close>

record jose =
  jo_private :: "string \<Rightarrow> string"
  jo_public :: "string \<Rightarrow> string"
  jo_thumbprint :: "string \<Rightarrow> string"
  jo_marshal :: "jwk \<Rightarrow> string"
  jo_unmarshal :: "string \<Rightarrow> jwk option"

text \<open>A marshalled public key parses back, and a SHA-256 thumbprint has 32 bytes.\<close>

definition jose_laws :: "jose \<Rightarrow> bool" where
  "jose_laws J \<longleftrightarrow> (\<forall>k. jw_public k \<longrightarrow> jo_unmarshal J (jo_marshal J k) = Some k) \<and> (\<forall>p. length (jo_thumbprint J p) = 32)"

definition seed_jwk :: "jose \<Rightarrow> string \<Rightarrow> jwk" where
  "seed_jwk J seed =
     \<lparr>jw_public = True, jw_ed25519 = Some (jo_public J seed), jw_kid = b64_encode (jo_thumbprint J (jo_public J seed)),
      jw_alg = ''EdDSA'', jw_use = ''sig''\<rparr>"

definition signingKeyFromSeed :: "jose \<Rightarrow> string \<Rightarrow> millis \<Rightarrow> (signing_key \<times> string \<times> string) option" where
  "signingKeyFromSeed J seed created =
     (if length seed \<noteq> 32 then None
      else let k = seed_jwk J seed
           in Some (\<lparr>sg_private = jo_private J seed, sg_jwk = k, sg_created = created\<rparr>, jo_marshal J k, jw_kid k))"

definition usable_jwk :: "jwk \<Rightarrow> bool" where
  "usable_jwk k \<longleftrightarrow> jw_ed25519 k \<noteq> None \<and> jw_alg k = ''EdDSA'' \<and> jw_use k = ''sig''"

text \<open>The stored public key is the one of the seed.\<close>

definition stored_matches :: "jose \<Rightarrow> string \<Rightarrow> string \<Rightarrow> signing_key \<Rightarrow> bool" where
  "stored_matches J kid publicJSON key =
     (case jo_unmarshal J publicJSON of
        None \<Rightarrow> False
      | Some s \<Rightarrow> jw_public s \<and> usable_jwk s \<and> jw_kid s = kid \<and> jw_ed25519 s = jw_ed25519 (sg_jwk key))"

datatype key_err =
    K_NoSigningKey | K_NotInState | K_Row | K_Envelope keyring_err | K_Encoding | K_Seed | K_Mismatch | K_Removed | K_Query
  | K_Rand | K_Exec envelope_err | K_Time | K_Args | K_NotReady | K_Jwk | K_Worker | K_Cas

text \<open>Sealing a fresh seed under a master key; the entropy is the seed and the nonce.\<close>

definition generateSigningKey ::
  "jose \<Rightarrow> gcm \<Rightarrow> (string \<times> string) option \<Rightarrow> keyring \<Rightarrow> string \<Rightarrow> string \<Rightarrow> millis \<Rightarrow> key_err + (signing_key \<times> new_key)" where
  "generateSigningKey J G entropy kr writer issuer now =
     (case entropy of
        None \<Rightarrow> Inl K_Rand
      | Some (seed, nonce) \<Rightarrow>
          (case signingKeyFromSeed J seed now of
             None \<Rightarrow> Inl K_Seed
           | Some (key, publicJSON, kid) \<Rightarrow>
               (case sealEnvelopeWithKeyID G nonce kr writer issuer kid seed of
                  Inl e \<Rightarrow> Inl (K_Envelope e)
                | Inr envelope \<Rightarrow> Inr (key, \<lparr>nk_kid = kid, nk_public = publicJSON, nk_envelope = b64_encode envelope\<rparr>))))"

section \<open>Loading a key\<close>

text \<open>How a load goes: whether its query fails, and what others do to the key ring before its two sections.\<close>

record key_load =
  kl_fails :: bool
  kl_ring1 :: "keyring \<Rightarrow> keyring"
  kl_ring2 :: "keyring \<Rightarrow> keyring"

definition open_row :: "jose \<Rightarrow> gcm \<Rightarrow> keyring \<Rightarrow> string \<Rightarrow> signing_row \<Rightarrow> key_err + (signing_key \<times> string)" where
  "open_row J G kr issuer r =
     (case b64_decode (sk_envelope r) of
        None \<Rightarrow> Inl K_Encoding
      | Some envelope \<Rightarrow>
          (case parseEnvelopeHeader envelope envelopeMagic envelopeVersion of
             None \<Rightarrow> Inl (K_Envelope EnvInvalid)
           | Some (masterID, _) \<Rightarrow>
               (case openEnvelope G kr issuer (sk_kid r) envelope of
                  Inl e \<Rightarrow> Inl (K_Envelope e)
                | Inr seed \<Rightarrow>
                    (case signingKeyFromSeed J seed (sk_created r) of
                       None \<Rightarrow> Inl K_Seed
                     | Some (key, _, kid) \<Rightarrow>
                         if kid \<noteq> sk_kid r then Inl K_Mismatch
                         else if \<not> stored_matches J kid (sk_public r) key then Inl K_Jwk
                         else Inr (key, masterID)))))"

definition row_material :: "string \<Rightarrow> signing_row \<Rightarrow> string \<Rightarrow> signing_key \<Rightarrow> signing_material" where
  "row_material issuer r masterID key =
     \<lparr>m_issuer = issuer, m_kid = sk_kid r, m_publicJWK = sk_public r, m_envelope = sk_envelope r, m_masterKeyID = masterID,
      m_createdAt = sk_created r, m_key = key\<rparr>"

definition load_pending ::
  "jose \<Rightarrow> gcm \<Rightarrow> key_load \<Rightarrow> string \<Rightarrow> string \<Rightarrow> keyring \<Rightarrow> 'a key_db_scheme \<Rightarrow> key_err + signing_key" where
  "load_pending J G l issuer kid kr db =
     (if kl_fails l then Inl K_Query
      else case take 1 (sql_select (\<lambda>r. sk_state r = K_Pending \<and> sk_kid r = kid) (signing_keys db)) of
             [] \<Rightarrow> Inl K_NotInState
           | r # _ \<Rightarrow>
               if \<not> validKeyID (sk_kid r) then Inl K_Row
               else case open_row J G (kl_ring1 l kr) issuer r of Inl e \<Rightarrow> Inl e | Inr (key, _) \<Rightarrow> Inr key)"

text \<open>The active key: the generation is captured before the query, a failed load clears the cache if its
  generation is still the current one, and a load that lost its master key fails.\<close>

definition LoadActiveSigningKey ::
  "jose \<Rightarrow> gcm \<Rightarrow> key_load \<Rightarrow> string \<Rightarrow> keyring \<Rightarrow> 'a key_db_scheme \<Rightarrow> keyring \<times> (key_err + signing_key)" where
  "LoadActiveSigningKey J G l issuer kr db =
     (let generation = kr_generation kr;
          kr1 = kl_ring1 l kr;
          fail = (\<lambda>g ring e. (clearSigningMaterial g ring, Inl e))
      in if kl_fails l then fail generation kr1 K_Query
         else case take 1 (sql_select (in_state K_Active) (signing_keys db)) of
                [] \<Rightarrow> fail generation kr1 K_NoSigningKey
              | r # _ \<Rightarrow>
                  if \<not> validKeyID (sk_kid r) then fail generation kr1 K_Row
                  else case cachedSigningMaterial generation issuer (sk_kid r) (sk_public r) (sk_envelope r) (sk_created r) kr1 of
                         (kr2, g, Some key) \<Rightarrow> (kr2, Inr key)
                       | (kr2, g, None) \<Rightarrow>
                           (case open_row J G kr2 issuer r of
                              Inl e \<Rightarrow> fail g (kl_ring2 l kr2) e
                            | Inr (key, masterID) \<Rightarrow>
                                (case cacheSigningMaterial g (row_material issuer r masterID key) (kl_ring2 l kr2) of
                                   (kr3, True) \<Rightarrow> (kr3, Inr key)
                                 | (kr3, False) \<Rightarrow> fail g kr3 K_Removed)))"

section \<open>Bootstrap and preparation\<close>

text \<open>How a call goes: its loads and queries by number, what others commit before each of its database calls,
  its transaction, and the entropy for a new key.\<close>

record 'db key_env =
  ke_load :: "nat \<Rightarrow> key_load"
  ke_query_fails :: "nat \<Rightarrow> bool"
  ke_other :: "nat \<Rightarrow> 'db \<Rightarrow> 'db"
  ke_exec :: exec_fault
  ke_entropy :: "(string \<times> string) option"

definition EnsureSigningKey ::
  "jose \<Rightarrow> gcm \<Rightarrow> 'a key_db_scheme key_env \<Rightarrow> string \<Rightarrow> millis \<Rightarrow> keyring \<times> 'a key_db_scheme \<Rightarrow>
   (keyring \<times> 'a key_db_scheme) \<times> (key_err + signing_key)" where
  "EnsureSigningKey J G e issuer now s =
     (let (kr, db) = s;
          db = ke_other e 0 db;
          (kr, first) = LoadActiveSigningKey J G (ke_load e 0) issuer kr db
      in case first of
           Inr key \<Rightarrow> ((kr, db), Inr key)
         | Inl err \<Rightarrow>
             if err \<noteq> K_NoSigningKey then ((kr, db), Inl err)
             else case ActiveMasterKeyID kr of
                    Inl err \<Rightarrow> ((kr, db), Inl (K_Envelope err))
                  | Inr writer \<Rightarrow>
                      (case generateSigningKey J G (ke_entropy e) kr writer issuer now of
                         Inl err \<Rightarrow> ((kr, db), Inl err)
                       | Inr (candidate, k) \<Rightarrow>
                           let (db, _) = ExecuteEnvelope (ke_exec e) writer [bootstrap_stmt k now] (ke_other e 1 db);
                               db = ke_other e 2 db;
                               (kr, winner) = LoadActiveSigningKey J G (ke_load e 1) issuer kr db
                           in ((kr, db), winner)))"

definition pendingSigningKey :: "bool \<Rightarrow> 'a key_db_scheme \<Rightarrow> key_err + (string \<times> millis) option" where
  "pendingSigningKey query_fails db =
     (if query_fails then Inl K_Query
      else case take 1 (sql_select (in_state K_Pending) (signing_keys db)) of
             [] \<Rightarrow> Inr None
           | r # _ \<Rightarrow>
               (case sk_activates r of
                  None \<Rightarrow> Inl K_Row
                | Some t \<Rightarrow> if validKeyID (sk_kid r) then Inr (Some (sk_kid r, t)) else Inl K_Row))"

text \<open>Go's zero time in milliseconds.\<close>

definition zero_time :: millis where
  "zero_time = - 62135596800000"

record preparation =
  pp_kid :: string
  pp_activates :: millis
  pp_prepared :: bool

definition PrepareSigningKey ::
  "jose \<Rightarrow> gcm \<Rightarrow> 'a key_db_scheme key_env \<Rightarrow> string \<Rightarrow> millis \<Rightarrow> keyring \<Rightarrow> 'a key_db_scheme \<Rightarrow>
   'a key_db_scheme \<times> (key_err + preparation)" where
  "PrepareSigningKey J G e issuer now kr db =
     (if now = zero_time then (db, Inl K_Time)
      else let db = ke_other e 0 db
      in case pendingSigningKey (ke_query_fails e 0) db of
           Inl err \<Rightarrow> (db, Inl err)
         | Inr (Some (kid, t)) \<Rightarrow> (db, Inr \<lparr>pp_kid = kid, pp_activates = t, pp_prepared = False\<rparr>)
         | Inr None \<Rightarrow>
             (case ActiveMasterKeyID kr of
                Inl err \<Rightarrow> (db, Inl (K_Envelope err))
              | Inr writer \<Rightarrow>
                  (case generateSigningKey J G (ke_entropy e) kr writer issuer now of
                     Inl err \<Rightarrow> (db, Inl err)
                   | Inr (candidate, k) \<Rightarrow>
                       let (db, _) = ExecuteEnvelope (ke_exec e) writer [prepare_key_stmt k now] (ke_other e 1 db);
                           db = ke_other e 2 db
                       in case pendingSigningKey (ke_query_fails e 1) db of
                            Inr (Some (kid, t)) \<Rightarrow> (db, Inr \<lparr>pp_kid = kid, pp_activates = t, pp_prepared = (kid = nk_kid k)\<rparr>)
                          | _ \<Rightarrow> (db, Inl K_NoSigningKey))))"

section \<open>Activation\<close>

record rotation_result =
  ro_active :: signing_key
  ro_activated :: bool

definition activationRequestID :: "prims \<Rightarrow> string \<Rightarrow> string \<Rightarrow> millis \<Rightarrow> millis \<Rightarrow> string" where
  "activationRequestID P expected pending retireAfter now =
     ''oidc-key-activate/'' @
     b64_encode (take 16 (sha256 P (expected @ [nul] @ pending @ [nul] @ itoa retireAfter @ [nul] @ itoa now)))"

text \<open>The committed winner instead of an error: a newer verified active key.\<close>

definition winner_or ::
  "key_err \<Rightarrow> string \<Rightarrow> string \<Rightarrow> key_err + signing_key \<Rightarrow> key_err + rotation_result" where
  "winner_or err expected pending winner =
     (case winner of
        Inr w \<Rightarrow> if jw_kid (sg_jwk w) \<noteq> expected then Inr \<lparr>ro_active = w, ro_activated = (jw_kid (sg_jwk w) = pending)\<rparr> else Inl err
      | Inl _ \<Rightarrow> Inl err)"

definition ActivatePreparedSigningKey ::
  "prims \<Rightarrow> jose \<Rightarrow> gcm \<Rightarrow> 'a key_db_scheme key_env \<Rightarrow> string \<Rightarrow> string \<Rightarrow> string \<Rightarrow> millis \<Rightarrow> millis \<Rightarrow> keyring \<times> 'a key_db_scheme \<Rightarrow>
   (keyring \<times> 'a key_db_scheme) \<times> (key_err + rotation_result)" where
  "ActivatePreparedSigningKey P J G e issuer expected pending retireAfter now s =
     (let (kr, db) = s
      in if \<not> validKeyID expected \<or> \<not> validKeyID pending \<or> expected = pending then ((kr, db), Inl K_Args)
         else if now = zero_time then ((kr, db), Inl K_Time)
         else if retireAfter < now + MinimumSigningKeyRetirement then ((kr, db), Inl K_Time)
         else
           let db = ke_other e 0 db; (kr, active) = LoadActiveSigningKey J G (ke_load e 0) issuer kr db
           in case active of
                Inl err \<Rightarrow> ((kr, db), Inl err)
              | Inr a \<Rightarrow>
                  if jw_kid (sg_jwk a) \<noteq> expected then ((kr, db), Inr \<lparr>ro_active = a, ro_activated = False\<rparr>)
                  else
                    let db = ke_other e 1 db
                    in case pendingSigningKey (ke_query_fails e 0) db of
                         Inl err \<Rightarrow> ((kr, db), Inl err)
                       | Inr found \<Rightarrow>
                           if \<not> (case found of None \<Rightarrow> False | Some (kid, t) \<Rightarrow> kid = pending \<and> t \<le> now)
                           then let db = ke_other e 2 db; (kr, winner) = LoadActiveSigningKey J G (ke_load e 1) issuer kr db
                                in ((kr, db), winner_or K_NotReady expected pending winner)
                           else
                             let db = ke_other e 3 db
                             in case load_pending J G (ke_load e 2) issuer pending kr db of
                                  Inl err \<Rightarrow>
                                    (let db = ke_other e 4 db; (kr, winner) = LoadActiveSigningKey J G (ke_load e 3) issuer kr db
                                     in ((kr, db), winner_or err expected pending winner))
                                | Inr _ \<Rightarrow>
                                    if now < 0 then ((kr, db), Inl K_Time)
                                    else
                                      let i = eventID P (expected @ ''/'' @ pending) ''JwksRotated'';
                                          (db, res) = run_execute (ke_exec e) (activate_tx i expected pending retireAfter now) (ke_other e 5 db);
                                          db = ke_other e 6 db;
                                          (kr, winner) = LoadActiveSigningKey J G (ke_load e 4) issuer kr db
                                      in ((kr, db),
                                          case winner of
                                            Inl err \<Rightarrow> Inl err
                                          | Inr w \<Rightarrow>
                                              (case res of
                                                 Inl x \<Rightarrow> winner_or (K_Exec (Env_Exec x)) expected pending winner
                                               | Inr _ \<Rightarrow> winner_or K_NotReady expected pending winner)))"

section \<open>Publication, cleanup and the worker\<close>

definition decode_jwk :: "jose \<Rightarrow> signing_row \<Rightarrow> jwk option" where
  "decode_jwk J r =
     (case jo_unmarshal J (sk_public r) of
        None \<Rightarrow> None
      | Some k \<Rightarrow> if jw_public k \<and> usable_jwk k \<and> validKeyID (jw_kid k) then Some k else None)"

definition LoadJWKSKeys :: "jose \<Rightarrow> bool \<Rightarrow> millis \<Rightarrow> 'a key_db_scheme \<Rightarrow> key_err + jwk list" where
  "LoadJWKSKeys J query_fails now db =
     (if query_fails then Inl K_Query
      else if jwks_rows now db = [] then Inl K_NoSigningKey
      else case those (map (decode_jwk J) (jwks_rows now db)) of None \<Rightarrow> Inl K_Jwk | Some keys \<Rightarrow> Inr keys)"

text \<open>\<open>seen\<close> is the possibly stale table that the local query reads.\<close>

definition CleanupRetiredSigningKeys ::
  "bool \<Rightarrow> signing_row list \<Rightarrow> exec_fault \<Rightarrow> millis \<Rightarrow> 'a key_db_scheme \<Rightarrow> 'a key_db_scheme \<times> (key_err + unit)" where
  "CleanupRetiredSigningKeys query_fails seen f cutoff db =
     (if cutoff = zero_time then (db, Inl K_Time)
      else if query_fails then (db, Inl K_Query)
      else if \<not> sql_exists (\<lambda>r. sk_state r = K_Retiring \<and> (case sk_retire r of None \<Rightarrow> False | Some t \<Rightarrow> t < cutoff)) seen then (db, Inr ())
      else let (db, res) = run_execute f (cleanup_keys_stmt cutoff) db
           in case res of Inl x \<Rightarrow> (db, Inl (K_Exec (Env_Exec x))) | Inr _ \<Rightarrow> (db, Inr ()))"

record worker =
  wk_issuer :: string
  wk_tick :: millis
  wk_period :: millis

definition worker_valid :: "worker \<Rightarrow> bool" where
  "worker_valid w \<longleftrightarrow> wk_issuer w \<noteq> '''' \<and> 0 < wk_tick w \<and> JWKSCacheMaxAge \<le> wk_period w"

text \<open>How the parts of one pass go.\<close>

record 'db step_env =
  se_query_fails :: bool
  se_seen :: "signing_row list"
  se_exec :: exec_fault
  se_load :: key_load
  se_other :: "'db \<Rightarrow> 'db"
  se_prepare :: "'db key_env"
  se_activate :: "'db key_env"

definition worker_Step ::
  "prims \<Rightarrow> jose \<Rightarrow> gcm \<Rightarrow> 'a key_db_scheme step_env \<Rightarrow> worker \<Rightarrow> millis \<Rightarrow> keyring \<times> 'a key_db_scheme \<Rightarrow>
   (keyring \<times> 'a key_db_scheme) \<times> (key_err + unit)" where
  "worker_Step P J G e w now s =
     (let (kr, db) = s
      in if \<not> worker_valid w then ((kr, db), Inl K_Worker)
         else if now = zero_time then ((kr, db), Inl K_Time)
         else case CleanupRetiredSigningKeys (se_query_fails e) (se_seen e) (se_exec e) now db of
                (db, Inl err) \<Rightarrow> ((kr, db), Inl err)
              | (db, Inr _) \<Rightarrow>
                  let db = se_other e db; (kr, active) = LoadActiveSigningKey J G (se_load e) (wk_issuer w) kr db
                  in case active of
                       Inl err \<Rightarrow> ((kr, db), Inl err)
                     | Inr a \<Rightarrow>
                         let rotationAt = sg_created a + wk_period w
                         in if now < rotationAt - JWKSCacheMaxAge then ((kr, db), Inr ())
                            else case PrepareSigningKey J G (se_prepare e) (wk_issuer w) now kr db of
                                   (db, Inl err) \<Rightarrow> ((kr, db), Inl err)
                                 | (db, Inr prepared) \<Rightarrow>
                                     if now < rotationAt \<or> now < pp_activates prepared then ((kr, db), Inr ())
                                     else case ActivatePreparedSigningKey P J G (se_activate e) (wk_issuer w) (jw_kid (sg_jwk a))
                                                 (pp_kid prepared) (now + MinimumSigningKeyRetirement) now (kr, db) of
                                            (s, Inl err) \<Rightarrow> (s, Inl err)
                                          | (s, Inr _) \<Rightarrow> (s, Inr ()))"

section \<open>Rewrapping\<close>

definition signingKeyRewrapBatchSize :: nat where
  "signingKeyRewrapBatchSize = 32"

text \<open>One row of a batch: an error, nothing to do, or a candidate; \<open>nonce\<close> is the entropy of a new envelope.\<close>

definition rewrap_row ::
  "jose \<Rightarrow> gcm \<Rightarrow> string \<Rightarrow> keyring \<Rightarrow> string \<Rightarrow> string \<Rightarrow> signing_row \<Rightarrow> key_err + rewrap_candidate option" where
  "rewrap_row J G nonce kr activeID issuer r =
     (if \<not> validKeyID (sk_kid r) \<or> sk_public r = '''' then Inl K_Row
      else case b64_decode (sk_envelope r) of
             None \<Rightarrow> Inl K_Encoding
           | Some envelope \<Rightarrow>
               (case parseEnvelopeHeader envelope envelopeMagic envelopeVersion of
                  None \<Rightarrow> Inl (K_Envelope EnvInvalid)
                | Some (masterID, _) \<Rightarrow>
                    (case openEnvelope G kr issuer (sk_kid r) envelope of
                       Inl e \<Rightarrow> Inl (K_Envelope e)
                     | Inr seed \<Rightarrow>
                         (case signingKeyFromSeed J seed zero_time of
                            None \<Rightarrow> Inl K_Mismatch
                          | Some (key, _, derived) \<Rightarrow>
                              if derived \<noteq> sk_kid r then Inl K_Mismatch
                              else if \<not> stored_matches J (sk_kid r) (sk_public r) key then Inl K_Jwk
                              else if masterID = activeID then Inr None
                              else (case sealEnvelopeWithKeyID G nonce kr activeID issuer (sk_kid r) seed of
                                      Inl e \<Rightarrow> Inl (K_Envelope e)
                                    | Inr new \<Rightarrow> Inr (Some \<lparr>rw_kid = sk_kid r, rw_public = sk_public r, rw_old = sk_envelope r,
                                        rw_state = sk_state r, rw_new = b64_encode new\<rparr>))))))"

fun rewrap_rows ::
  "jose \<Rightarrow> gcm \<Rightarrow> (string \<Rightarrow> string) \<Rightarrow> keyring \<Rightarrow> string \<Rightarrow> string \<Rightarrow> signing_row list \<Rightarrow> key_err + rewrap_candidate list" where
  "rewrap_rows J G nonces kr activeID issuer [] = Inr []"
| "rewrap_rows J G nonces kr activeID issuer (r # rs) =
     (case rewrap_row J G (nonces (sk_kid r)) kr activeID issuer r of
        Inl e \<Rightarrow> Inl e
      | Inr c \<Rightarrow>
          (case rewrap_rows J G nonces kr activeID issuer rs of
             Inl e \<Rightarrow> Inl e
           | Inr cs \<Rightarrow> Inr (case c of None \<Rightarrow> cs | Some x \<Rightarrow> x # cs)))"

record rewrap_result =
  rr_cursor :: string
  rr_rewrapped :: int
  rr_done :: bool

text \<open>\<open>normalized\<close> is whether the issuer is in its normal form.\<close>

definition RewrapSigningKeyEnvelopeBatch ::
  "jose \<Rightarrow> gcm \<Rightarrow> (string \<Rightarrow> string) \<Rightarrow> bool \<Rightarrow> 'a key_db_scheme key_env \<Rightarrow> string \<Rightarrow> string \<Rightarrow> keyring \<times> 'a key_db_scheme \<Rightarrow>
   (keyring \<times> 'a key_db_scheme) \<times> (key_err + rewrap_result)" where
  "RewrapSigningKeyEnvelopeBatch J G nonces normalized e issuer cursor s =
     (let (kr, db) = s
      in case ActiveMasterKeyID kr of
           Inl err \<Rightarrow> ((kr, db), Inl (K_Envelope err))
         | Inr activeID \<Rightarrow>
             if \<not> normalized \<or> cursor \<noteq> '''' \<and> \<not> validKeyID cursor then ((kr, db), Inl K_Args)
             else if ke_query_fails e 0 then ((kr, db), Inl K_Query)
             else
               let db = ke_other e 0 db;
                   rows = sql_oldest signingKeyRewrapBatchSize sk_kid (\<lambda>r. cursor < sk_kid r) (signing_keys db);
                   finish = (\<lambda>kr db result. let db = ke_other e 2 db; (kr, active) = LoadActiveSigningKey J G (ke_load e 0) issuer kr db
                             in ((kr, db), case active of Inl err \<Rightarrow> Inl err | Inr _ \<Rightarrow> Inr result))
               in if rows = [] then finish kr db \<lparr>rr_cursor = cursor, rr_rewrapped = 0, rr_done = True\<rparr>
                  else case rewrap_rows J G nonces kr activeID issuer rows of
                         Inl err \<Rightarrow> ((kr, db), Inl err)
                       | Inr cs \<Rightarrow>
                           let result = (\<lambda>n. \<lparr>rr_cursor = sk_kid (last rows), rr_rewrapped = n, rr_done = (length rows < signingKeyRewrapBatchSize)\<rparr>)
                           in if cs = [] then finish kr db (result 0)
                              else case ExecuteEnvelope (ke_exec e) activeID [signingKeyRewrapMutation cs] (ke_other e 1 db) of
                                     (db, Inl err) \<Rightarrow> ((kr, db), Inl (K_Exec err))
                                   | (db, Inr n) \<Rightarrow>
                                       if n \<noteq> 0 \<and> n \<noteq> int (length cs) then ((kr, db), Inl K_Cas)
                                       else finish kr db (result n))"

section \<open>Sealed writes of signing keys\<close>

lemma leaves_keys:
  assumes "\<And>db. \<exists>t n. m db = None \<or> m db = Some (db, n) \<or> m db = Some (db\<lparr>signing_keys := t\<rparr>, n)"
  shows "leaves_retirement [m]"
  unfolding leaves_retirement_def
proof (intro ballI allI impI)
  fix x db db' n assume "x \<in> set [m]" "x db = Some (db', n)"
  then show "barrier db' = barrier db \<and> generations db' = generations db" using assms [of db] by auto
qed

interpretation bootstrap: envelope_client "[bootstrap_stmt k now]" for k now
  by unfold_locales (rule leaves_keys, auto simp: bootstrap_stmt_def commit_keys_def)

interpretation prepare: envelope_client "[prepare_key_stmt k now]" for k now
  by unfold_locales (rule leaves_keys, auto simp: prepare_key_stmt_def commit_keys_def)

interpretation rewrap: envelope_client "[signingKeyRewrapMutation cs]" for cs
  by unfold_locales (rule leaves_keys, auto simp: signingKeyRewrapMutation_def Let_def commit_keys_def)

section \<open>Identifiers of keys\<close>

lemma b64_char_id: "n < 64 \<Longrightarrow> alnum_rune (byte_of (b64_char n)) \<or> byte_of (b64_char n) \<in> set (map byte_of ''._-'')"
  by (auto simp: b64_char_def alnum_rune_def byte_of_def)

lemma b64_encode_chars: "list_all (\<lambda>c. alnum_rune (byte_of c) \<or> byte_of c \<in> set (map byte_of ''._-'')) (b64_encode s)"
  by (induction s rule: b64_encode.induct) (auto simp: b64_char_id simp del: set_map list.map)

lemma length_b64_encode: "3 * length (b64_encode s) = 4 * length s + (if length s mod 3 = 0 then 0 else if length s mod 3 = 1 then 2 else 1)"
  by (induction s rule: b64_encode.induct) (auto simp: mod_Suc)

lemma thumbprint_kid:
  assumes "length t = 32"
  shows "validKeyID (b64_encode t)"
proof -
  have l: "length (b64_encode t) = 43" using length_b64_encode [of t] assms by simp
  have "list_all is_ascii (b64_encode t)"
    using b64_encode_chars [of t] by (auto simp: list_all_iff is_ascii_def alnum_rune_def byte_of_def)
  then show ?thesis
    using l b64_encode_chars [of t] runes_ascii [of "b64_encode t"] by (auto simp: validKeyID_def maxKeyIDLength_def list_all_iff)
qed

lemma validKeyID_retirement:
  assumes "validKeyID v"
  shows "validRetirementKeyID v"
proof -
  let ?p = "\<lambda>c. alnum_rune c \<or> c \<in> set (map byte_of ''._-'')"
  have "list_all (?p \<circ> byte_of) v"
    using assms by (intro runes_valid_ascii) (auto simp: validKeyID_def alnum_rune_def byte_of_def)
  moreover have "byte_of c \<in> set (map byte_of xs) \<Longrightarrow> c \<in> set xs" for c xs
    unfolding set_map by (metis char_of_byte_of imageE)
  ultimately have "list_all (\<lambda>c. alnum_rune (byte_of c) \<or> c \<in> set ''._-'') v"
    unfolding list_all_iff comp_def by blast
  then have "glob_text 64 ''._-'' v" using assms by (simp add: glob_text_def validKeyID_def maxKeyIDLength_def)
  then show ?thesis using assms by (intro glob_key_valid) (auto simp: validKeyID_def)
qed

section \<open>Bootstrapping a key\<close>

text \<open>The row of a generated key opens under every key ring that holds the writer's master key.\<close>

definition active_row :: "new_key \<Rightarrow> millis \<Rightarrow> signing_row" where
  "active_row k now = \<lparr>sk_kid = nk_kid k, sk_public = nk_public k, sk_envelope = nk_envelope k, sk_state = K_Active,
     sk_created = now, sk_activates = None, sk_retire = None\<rparr>"

lemma generated_opens:
  assumes G: "gcm_laws G" and J: "jose_laws J" and len: "length seed = 32" "length nonce = 12"
    and w: "ActiveMasterKeyID kr = Inr w" and k: "kr_keys kr' w = kr_keys kr w"
  obtains key nk where "generateSigningKey J G (Some (seed, nonce)) kr w issuer now = Inr (key, nk)"
    "validKeyID (nk_kid nk)" "sg_private key = jo_private J seed" "jw_kid (sg_jwk key) = nk_kid nk"
    "open_row J G kr' issuer (active_row nk now) = Inr (key, w)"
proof -
  have valid: "validKeyID w" and "kr_keys kr w \<noteq> None" using w by (auto simp: ActiveMasterKeyID_def split: if_splits)
  then obtain mk where mk: "kr_keys kr w = Some mk" by blast
  let ?j = "seed_jwk J seed"
  let ?key = "\<lparr>sg_private = jo_private J seed, sg_jwk = ?j, sg_created = now\<rparr>"
  let ?h = "makeEnvelopeHeader w nonce"
  let ?env = "?h @ g_seal G mk nonce seed (envelopeAAD issuer (jw_kid ?j) ?h)"
  let ?nk = "\<lparr>nk_kid = jw_kid ?j, nk_public = jo_marshal J ?j, nk_envelope = b64_encode ?env\<rparr>"
  have gen: "generateSigningKey J G (Some (seed, nonce)) kr w issuer now = Inr (?key, ?nk)"
    using len valid mk by (simp add: generateSigningKey_def signingKeyFromSeed_def Let_def sealEnvelopeWithKeyID_def)
  have kid: "validKeyID (jw_kid ?j)" using J by (auto simp: seed_jwk_def jose_laws_def intro: thumbprint_kid)
  have mk': "kr_keys kr' w = Some mk" using mk k by simp
  note o = open_signing_header [OF G valid len(2) mk' len(1), of issuer "jw_kid ?j"]
  have "jo_unmarshal J (jo_marshal J ?j) = Some ?j" using J by (simp add: jose_laws_def seed_jwk_def)
  then have "stored_matches J (jw_kid ?j) (jo_marshal J ?j) ?key" by (simp add: stored_matches_def usable_jwk_def seed_jwk_def)
  then have "open_row J G kr' issuer (active_row ?nk now) = Inr (?key, w)"
    using o len(1) by (simp add: open_row_def active_row_def b64_roundtrip signingKeyFromSeed_def Let_def)
  then show ?thesis using that [OF gen] kid by simp
qed

definition calm_load :: "key_load \<Rightarrow> bool" where
  "calm_load l \<longleftrightarrow> \<not> kl_fails l \<and> kl_ring1 l = id \<and> kl_ring2 l = id"

lemma load_single:
  assumes l: "calm_load l" and t: "signing_keys db = [active_row nk now]" and v: "validKeyID (nk_kid nk)"
    and none: "kr_signing kr = None" and o: "open_row J G kr issuer (active_row nk now) = Inr (key, w)" and h: "kr_keys kr w \<noteq> None"
  shows "LoadActiveSigningKey J G l issuer kr db =
    ((clearSigningMaterialLocked kr)\<lparr>kr_signing := Some (row_material issuer (active_row nk now) w key)\<rparr>, Inr key)"
  using l v none o h
  by (simp add: LoadActiveSigningKey_def calm_load_def t sql_select_def in_state_def active_row_def Let_def cachedSigningMaterial_def
      cacheSigningMaterial_def row_material_def)

lemma load_cached:
  assumes l: "calm_load l" and t: "signing_keys db = [r]" "sk_state r = K_Active" and v: "validKeyID (sk_kid r)"
    and c: "kr_signing kr = Some (row_material issuer r w key)" and h: "kr_keys kr w \<noteq> None"
  shows "LoadActiveSigningKey J G l issuer kr db = (kr, Inr key)"
proof -
  obtain y where "kr_keys kr w = Some y" using h by blast
  then show ?thesis using l t v c
    by (simp add: LoadActiveSigningKey_def calm_load_def sql_select_def in_state_def Let_def cachedSigningMaterial_def row_material_def same_row_def)
qed

text \<open>C21. On an empty table an admitted node bootstraps a signing key, also when the reply of its transaction is
  lost: the call returns the key of the generated seed, the table then holds exactly this key as the active one, and
  the next load returns the same key and leaves the key ring as it is.\<close>

theorem signing_key_bootstrap:
  assumes "gcm_laws G" "jose_laws J" "length seed = 32" "length nonce = 12" "ActiveMasterKeyID kr = Inr w"
    and "\<not> envelopeWriterRejectedPredicate w db" "signing_keys db = []"
    and "calm_load (ke_load e 0)" "calm_load (ke_load e 1)" "ke_other e = (\<lambda>i. id)" "ke_exec e \<noteq> Exec_Failed"
    and "ke_entropy e = Some (seed, nonce)" "calm_load l"
  shows "\<exists>kr' db' key r. EnsureSigningKey J G e issuer now (kr, db) = ((kr', db'), Inr key) \<and> sg_private key = jo_private J seed \<and>
    signing_keys db' = [r] \<and> sk_state r = K_Active \<and> sk_kid r = jw_kid (sg_jwk key) \<and>
    LoadActiveSigningKey J G l issuer kr' db' = (kr', Inr key)"
proof -
  let ?kr1 = "clearSigningMaterialLocked kr"
  have w1: "ActiveMasterKeyID ?kr1 = Inr w" using assms(5) by (simp add: ActiveMasterKeyID_def clearSigningMaterialLocked_def split: if_splits)
  have valid: "validKeyID w" and held: "kr_keys ?kr1 w \<noteq> None" using w1 by (auto simp: ActiveMasterKeyID_def split: if_splits)
  obtain key nk where gen: "generateSigningKey J G (Some (seed, nonce)) ?kr1 w issuer now = Inr (key, nk)"
      and nk: "validKeyID (nk_kid nk)" "sg_private key = jo_private J seed" "jw_kid (sg_jwk key) = nk_kid nk"
      and op: "open_row J G ?kr1 issuer (active_row nk now) = Inr (key, w)"
    using generated_opens [OF assms(1-4) w1 refl, of issuer now] .
  define db' where "db' = db\<lparr>signing_keys := [active_row nk now]\<rparr>"
  have "run_tx [bootstrap_stmt nk now] db = Some (db', 1)"
    using assms(7) by (simp add: bootstrap_stmt_def commit_keys_def db'_def active_row_def signing_ok_def signing_check_def
        sql_unique_def sql_count_def in_state_def)
  then have ex: "fst (ExecuteEnvelope (ke_exec e) w [bootstrap_stmt nk now] db) = db'"
    using bootstrap.admitted_writer [OF assms(6) validKeyID_retirement [OF valid], of "ke_exec e" nk now] assms(11)
    by (cases "ke_exec e") (simp_all add: run_execute_def del: run_tx.simps)
  have first: "LoadActiveSigningKey J G (ke_load e 0) issuer kr db = (?kr1, Inl K_NoSigningKey)"
    using assms(7,8) by (simp add: LoadActiveSigningKey_def calm_load_def sql_select_def clearSigningMaterial_def)
  let ?kr2 = "(clearSigningMaterialLocked ?kr1)\<lparr>kr_signing := Some (row_material issuer (active_row nk now) w key)\<rparr>"
  have second: "LoadActiveSigningKey J G (ke_load e 1) issuer ?kr1 db' = (?kr2, Inr key)"
    by (rule load_single [OF assms(9) _ nk(1) _ op held]) (simp_all add: db'_def clearSigningMaterialLocked_def)
  have "EnsureSigningKey J G e issuer now (kr, db) = ((?kr2, db'), Inr key)"
    using first second w1 gen ex assms(10,12) by (simp add: EnsureSigningKey_def split_def)
  moreover have "LoadActiveSigningKey J G l issuer ?kr2 db' = (?kr2, Inr key)"
    using nk(1) held by (intro load_cached [OF assms(13), of _ "active_row nk now"]) (simp_all add: db'_def active_row_def clearSigningMaterialLocked_def)
  ultimately show ?thesis using nk by (intro exI [of _ ?kr2] exI [of _ db'] exI [of _ key] exI [of _ "active_row nk now"]) (simp add: db'_def active_row_def)
qed

text \<open>The bootstrap on concrete laws: keys are their seeds, and a key is marshalled as its fields with every
  character escaped.\<close>

definition put_field :: "string \<Rightarrow> string" where
  "put_field f = concat (map (\<lambda>c. [CHR ''0'', c]) f) @ ''1''"

fun get_field :: "string \<Rightarrow> string \<times> string" where
  "get_field [] = ([], [])"
| "get_field (a # s) =
     (if a \<noteq> CHR ''0'' then ([], s)
      else case s of [] \<Rightarrow> ([], []) | c # s' \<Rightarrow> (c # fst (get_field s'), snd (get_field s')))"

lemma get_put_field [simp]: "get_field (put_field f @ s) = (f, s)"
  by (induction f) (simp_all add: put_field_def)

lemma get_put_last [simp]: "get_field (put_field f) = (f, [])"
  using get_put_field [of f "[]"] by (simp del: get_put_field)

definition demo_jose :: jose where
  "demo_jose =
     \<lparr>jo_private = id, jo_public = id, jo_thumbprint = (\<lambda>p. take 32 (p @ replicate 32 nul)),
      jo_marshal = (\<lambda>k. put_field (case jw_ed25519 k of None \<Rightarrow> '''' | Some p \<Rightarrow> CHR ''+'' # p) @ put_field (jw_kid k) @
        put_field (jw_alg k) @ put_field (jw_use k)),
      jo_unmarshal = (\<lambda>s. case get_field s of (ed, s1) \<Rightarrow> case get_field s1 of (kid, s2) \<Rightarrow> case get_field s2 of (alg, s3) \<Rightarrow>
        Some \<lparr>jw_public = True, jw_ed25519 = (if ed = '''' then None else Some (tl ed)), jw_kid = kid, jw_alg = alg,
          jw_use = fst (get_field s3)\<rparr>)\<rparr>"

lemma demo_jose_laws: "jose_laws demo_jose"
  by (auto simp: jose_laws_def demo_jose_def split: option.splits)

definition demo_key_env :: "key_db key_env" where
  "demo_key_env = \<lparr>ke_load = (\<lambda>i. \<lparr>kl_fails = False, kl_ring1 = id, kl_ring2 = id\<rparr>), ke_query_fails = (\<lambda>i. False),
     ke_other = (\<lambda>i. id), ke_exec = Exec_Ok, ke_entropy = Some (replicate 32 nul, replicate 12 nul)\<rparr>"

theorem signing_key_bootstrap_witness:
  "\<exists>kr' db' key r. EnsureSigningKey demo_jose plain_gcm demo_key_env ''https://id'' 5 (demo_keyring ''k1'', demo_keys\<lparr>signing_keys := []\<rparr>) =
      ((kr', db'), Inr key) \<and> sg_private key = replicate 32 nul \<and> signing_keys db' = [r] \<and> sk_state r = K_Active \<and>
    sk_kid r = jw_kid (sg_jwk key) \<and>
    LoadActiveSigningKey demo_jose plain_gcm (ke_load demo_key_env 0) ''https://id'' kr' db' = (kr', Inr key)"
proof -
  have w: "ActiveMasterKeyID (demo_keyring ''k1'') = Inr ''k1''"
    using demo_ids by (simp add: ActiveMasterKeyID_def demo_keyring_def)
  have r: "\<not> envelopeWriterRejectedPredicate ''k1'' (demo_keys\<lparr>signing_keys := []\<rparr>)"
    by (simp add: envelopeWriterRejectedPredicate_def demo_keys_def)
  have calm: "calm_load (ke_load demo_key_env i)" for i by (simp add: calm_load_def demo_key_env_def)
  have p: "jo_private demo_jose = id" by (simp add: demo_jose_def)
  show ?thesis
    using signing_key_bootstrap [OF plain_gcm_laws demo_jose_laws _ _ w r _ calm calm _ _ _ calm,
        of "replicate 32 nul" "replicate 12 nul" "''https://id''" 5]
    by (simp add: demo_key_env_def p)
qed

end
