(* ===== verification/Spec2Isabelle.thy ===== *)
theory Spec2Isabelle
  imports Storage TokenExchange DeviceFlow LoginPolicy Stuffing Lockdown CronNext ShardedCache DPoPStore RetirementCalls KeyCalls
begin

text \<open>
  A verification of the core of goauthy, an OAuth 2 and OpenID Connect server whose state lives in a SQL database that
  is replicated by consensus over several nodes. Every component keeps its state in tables, changes it by guarded SQL
  statements that the nodes commit in one order, and has to be correct for every interleaving of the commits of all
  nodes, for replies that are lost, and for clocks that differ. The development follows that structure.

  \<^bold>\<open>The model of the database.\<close> A table is the list of its rows and a row is a record. A committed statement
  is a function from the database to an optional result: the new database with the number of affected rows, or
  the rejection by a constraint, which changes nothing. A transaction runs its statements in order and is rejected as a
  whole. A call of a store is a definition over the state with, as arguments, how its submissions end
  (\<open>exec_fault\<close>: answered, committed with the reply lost, never ordered), what the other nodes commit between two
  of its accesses, the clock readings and the random bytes it draws. The properties quantify over all of these. State
  machines are runs of committed events, with invariants by rule induction.

  \<^bold>\<open>Theories and sources\<close> (paths under \<^verbatim>\<open>src/internal\<close>).

  \<^item> \<open>Prelude\<close>: Go integers, byte strings, SQL operations on lists, the ends of a replicated statement, and the shared
    lemmas and collections. \<open>Encoding\<close>: base64, decimal numbers, UTF-8, trimming, folding and splitting of strings, and
    the record \<open>prims\<close> of library functions that are parameters. \<open>SingleUse\<close>: the locales \<open>single_use\<close> (at most one
    event of a run wins) and \<open>spending\<close> (what one attempt has spent is closed to every other).
  \<^item> \<open>Storage\<close>, for \<^verbatim>\<open>Execute\<close> of \<^verbatim>\<open>storage/migrate.go\<close>: the retry loop and the validation of receipts over a
    replicated database that is given by its laws. \<open>Execute_refines_statement\<close> shows that the outcomes are the three of
    \<open>exec_fault\<close>, on which the other components rest.
  \<^item> \<open>GrantTables\<close>, \<open>GrantStatements\<close>, \<open>GrantTx\<close>, \<open>GrantRead\<close>, for \<^verbatim>\<open>oauth/grant_storage.go\<close>, \<^verbatim>\<open>oauth/account_expiry.go\<close>,
    \<^verbatim>\<open>oauth/profile_revalidation.go\<close>, \<^verbatim>\<open>oauth/password_transaction.go\<close>, \<^verbatim>\<open>oauth/machine.go\<close> and the logout operations
    of \<^verbatim>\<open>rbac\<close>: the tables of codes, proofs, access and refresh tokens, sessions and clients; the statements as data (an
    action, the conjuncts of the guard, whether exactly one row is expected) with their effect; the transactions that
    the store collects and commits; the reads that decode a stored request.
  \<^item> \<open>GrantMachine\<close> and \<open>GrantRows\<close>: a transaction that is built by the store's calls ties every statement to its grant,
    and runs of such commits keep the invariant of the tables; codes and refresh tokens are interpretations of
    \<open>spending\<close>. \<open>GrantLogout\<close>: the locale \<open>revocation\<close>, that a class of artefacts once dead stays dead, interpreted for
    the artefacts of a browser session and of one authorization. \<open>GrantTheorems\<close>: codes and refresh tokens are exchanged
    once, logouts are complete, authorized and final, a stored request is read back.
  \<^item> \<open>TokenExchange\<close>, for \<^verbatim>\<open>oauth/token_exchange.go\<close>: the handler of RFC 8693 with its actor chains; an exchange only
    narrows, and its token exists only if its inputs lived at the commit.
  \<^item> \<open>RateLimit\<close>, \<open>DeviceStore\<close>, \<open>DeviceMachine\<close>, \<open>DeviceFlow\<close>, for \<^verbatim>\<open>device/store.go\<close>, \<^verbatim>\<open>device/review.go\<close> and
    \<^verbatim>\<open>device/user_sessions.go\<close>: quotas of fixed windows (locale \<open>fixed_window\<close>), the device grants of RFC 8628 with every
    statement and call, their state machine as an interpretation of \<open>single_use\<close>, and what each answer promises.
  \<^item> \<open>LoginPolicy\<close>, \<open>Stuffing\<close>, \<open>Lockdown\<close>, for \<^verbatim>\<open>loginpolicy\<close> and \<^verbatim>\<open>ipblacklist/auto.go\<close>: failure counters, blocks and
    the automatic blacklist; locking of accounts attacked from many sources; the lockdown with its handler.
  \<^item> \<open>DPoPStore\<close>, for \<^verbatim>\<open>dpop/store.go\<close>: nonces and replay records, two interpretations of \<open>single_use\<close>.
  \<^item> \<open>Envelope\<close>, for \<^verbatim>\<open>oidc/keys.go\<close>: the key ring, sealed envelopes and the cache of the signing key.
    \<open>KeyRetirement\<close>, \<open>RetirementMachine\<close>, \<open>RetirementCalls\<close>, for \<^verbatim>\<open>storage/master_key_retirement.go\<close> and
    \<^verbatim>\<open>storage/envelope.go\<close>: the barrier, its members and generations, the fence on sealed writes (locale
    \<open>envelope_client\<close>), and the calls. \<open>KeyRotation\<close> and \<open>KeyCalls\<close>, for \<^verbatim>\<open>oidc/rotation.go\<close> and
    \<^verbatim>\<open>oidc/rotation_worker.go\<close>: the signing keys, whose sealed writes interpret \<open>envelope_client\<close>.
  \<^item> \<open>CronParse\<close> and \<open>CronNext\<close>, for \<^verbatim>\<open>backupschedule/parse.go\<close> and \<^verbatim>\<open>backupschedule/next.go\<close>: the cron grammar and the
    search for the next instant in a zone (locale \<open>civil_zone\<close>), which is proved to be the least match.
  \<^item> \<open>LinkedList\<close>, \<open>Cache\<close>, \<open>ShardedCache\<close>, for \<^verbatim>\<open>cache/cache.go\<close>: the intrusive list on an explicit heap, the shards,
    and the refinement of the cache by lists in the order of use.

  \<^bold>\<open>Parameters and what is assumed of them.\<close> SHA-256, URL parsing, the Unicode tables, canonical addresses and the zone
  database are functions the definitions take as arguments. AES-GCM is given by \<open>gcm_laws\<close> and the JOSE library by
  \<open>jose_laws\<close>. Of the protocol library fosite it is assumed that the call which binds a transaction to a grant comes
  first and that a token carries the identifier and session of the grant it is issued for (\<open>event_law\<close>); its strategies
  for token strings are arguments. The lookup of a client and the authority of an administrator are
  arguments too. Identifiers drawn at random are distinct where a property says so. A JSON column holds the record
  that was encoded, less what \<^verbatim>\<open>omitempty\<close> drops.

  \<^bold>\<open>Bounds.\<close> \<open>Execute\<close> submits at most twice, the creation of a device grant and of a nonce try four times, and an actor
  chain has at most eight links, as in the code. Decoding UTF-8 takes the length of the text as fuel, one unit for every
  rune of at least one byte, so that it never runs out. The search for the next instant terminates because the cursor
  only grows up to a limit. Integers are mathematical where the code stays within the range of milliseconds, and words or
  explicit ranges where it hashes or parses.

  \<^bold>\<open>Not modelled.\<close> The HTTP server and the handlers of the other grant types, the signing and verification of tokens, the
  identity, role and client tables behind the guards (the rows that a guard reads are modelled), browser login, passkeys,
  mail and back-channel delivery, upstream providers, backup to object storage, the user interface and the commands:
  input and output, third-party protocols, or tables without logic of their own. The schema migrations appear only as the
  tables and constraints they lead to.
\<close>

end
